(* ===== verification/Prelude.thy ===== *)
theory Prelude
  imports Complex_Main "HOL-Library.AList" "HOL-Library.Product_Lexorder"
begin

text \<open>
  What the components share: Python's exceptions as values, dictionaries in insertion order,
  slices, decimal text of integers, and the random number source of the simulation.

  A Python dictionary is an association list whose keys are distinct: assigning to a present key
  keeps its place, assigning to an absent key appends it, \<open>pop(k, None)\<close> removes it. These are
  \<^const>\<open>AList.update\<close> and \<^const>\<open>AList.delete\<close>, and \<^const>\<open>map_of\<close> is the lookup.
  Decimals are finite and exact, and floats of seconds and probabilities are taken as the exact
  numbers they denote (the rounding of float arithmetic is not modelled), so both are \<^typ>\<open>rat\<close>.
\<close>

section \<open>Exceptions and results\<close>

datatype py_exc =
    ValueError
  | TypeError
  | KeyError
  | IndexError
  | AttributeError
  | OverflowError
  | ZeroDivisionError
  | AssertionError
  | InvalidOperation
  | QueueFull
  | QueueEmpty
  | RuntimeError
  | TimeoutError
  | ParseError
  | SnapshotRetryLimitExceeded
  | HttpRetryLimitExceeded
  | ReconnectBudgetExhausted
  | ServiceNoticeReconnect
  | HTTPStatusError
  | TransportError
  | JSONDecodeError
  | UnicodeDecodeError
  | RecursionError
  | ConnectionClosed
  | CancelledError
  | OSError
  | FileNotFoundError
  | ConfigError
  | YAMLError

type_synonym 'a result = "py_exc + 'a"

type_synonym decimal = rat

type_synonym seconds = rat

text \<open>Going on with a value, and an \<open>except\<close> clause that raises another exception.\<close>

definition bind_result :: "'a result \<Rightarrow> ('a \<Rightarrow> 'b result) \<Rightarrow> 'b result" where
  "bind_result x f = (case x of Inl err \<Rightarrow> Inl err | Inr y \<Rightarrow> f y)"

definition reraise :: "py_exc list \<Rightarrow> py_exc \<Rightarrow> 'a result \<Rightarrow> 'a result" where
  "reraise caught err x =
     (case x of Inl e \<Rightarrow> if e \<in> set caught then Inl err else Inl e | Inr y \<Rightarrow> Inr y)"

named_theorems wf_intros \<open>operations keep the well-formedness of their component\<close>

named_theorems frame_simps \<open>fields an operation leaves alone\<close>

section \<open>Dictionaries and slices\<close>

fun dict_of :: "('k \<times> 'v) list \<Rightarrow> ('k \<times> 'v) list \<Rightarrow> ('k \<times> 'v) list" where
  "dict_of d [] = d"
| "dict_of d ((k, v) # kvs) = dict_of (AList.update k v d) kvs"

abbreviation distinct_keys :: "('k \<times> 'v) list \<Rightarrow> bool" where
  "distinct_keys d \<equiv> distinct (map fst d)"

text \<open>Equality of dictionaries, which ignores the order of insertion.\<close>

definition dict_eq :: "('k \<times> 'v) list \<Rightarrow> ('k \<times> 'v) list \<Rightarrow> bool" where
  "dict_eq d d' \<longleftrightarrow> list_all (\<lambda>k. map_of d k = map_of d' k) (map fst d @ map fst d')"

text \<open>The slice \<open>xs[:n]\<close>, with a negative bound counted from the end.\<close>

definition slice_to :: "int \<Rightarrow> 'a list \<Rightarrow> 'a list" where
  "slice_to n xs = (if 0 \<le> n then take (nat n) xs else take (length xs - nat (- n)) xs)"

section \<open>Integers as text\<close>

definition digit_char :: "nat \<Rightarrow> char" where
  "digit_char d = ''0123456789'' ! d"

fun nat_str :: "nat \<Rightarrow> string" where
  "nat_str n = (if n < 10 then [digit_char n] else nat_str (n div 10) @ [digit_char (n mod 10)])"

declare nat_str.simps [simp del]

definition int_str :: "int \<Rightarrow> string" where
  "int_str i = (if i < 0 then ''-'' @ nat_str (nat (- i)) else nat_str (nat i))"

definition int_opt_str :: "int option \<Rightarrow> string" where
  "int_opt_str x = (case x of None \<Rightarrow> ''None'' | Some i \<Rightarrow> int_str i)"

section \<open>The random number source\<close>

text \<open>
  \<open>random.Random\<close> is a deterministic source that the code reads only through its methods. It is
  modelled by the sequence of the raw numbers it will yield, an arbitrary function: a statement
  for every \<open>rng\<close> holds for every outcome of every draw, whatever the seed.
  \<open>random()\<close> is a multiple of \<open>2 ^ -53\<close> in the half-open unit interval, \<open>randint\<close> covers its
  closed range and rejects an empty one, \<open>choice\<close> rejects an empty sequence and \<open>choices\<close> with
  weights is a binary search for a scaled \<open>random()\<close> in the cumulative weights.
\<close>

type_synonym rng = "nat \<Rightarrow> nat"

definition rng_tail :: "rng \<Rightarrow> rng" where
  "rng_tail r = (\<lambda>n. r (Suc n))"

definition rng_random :: "rng \<Rightarrow> rat \<times> rng" where
  "rng_random r = (of_nat (r 0 mod 2 ^ 53) / 2 ^ 53, rng_tail r)"

definition rng_uniform :: "rat \<Rightarrow> rat \<Rightarrow> rng \<Rightarrow> rat \<times> rng" where
  "rng_uniform a b r = (let (u, r') = rng_random r in (a + (b - a) * u, r'))"

definition rng_randint :: "int \<Rightarrow> int \<Rightarrow> rng \<Rightarrow> (int \<times> rng) result" where
  "rng_randint a b r =
     (if b < a then Inl ValueError else Inr (a + int (r 0) mod (b - a + 1), rng_tail r))"

definition rng_choice :: "'a list \<Rightarrow> rng \<Rightarrow> ('a \<times> rng) result" where
  "rng_choice xs r =
     (if xs = [] then Inl IndexError else Inr (xs ! (r 0 mod length xs), rng_tail r))"

fun cumulate :: "rat \<Rightarrow> rat list \<Rightarrow> rat list" where
  "cumulate s [] = []"
| "cumulate s (w # ws) = (s + w) # cumulate (s + w) ws"

definition rng_choices1 :: "'a list \<Rightarrow> rat list \<Rightarrow> rng \<Rightarrow> 'a \<times> rng" where
  "rng_choices1 xs ws r =
     (let cum = cumulate 0 ws; (u, r') = rng_random r; x = u * last cum
      in (xs ! length (takeWhile (\<lambda>c. c \<le> x) (butlast cum)), r'))"

section \<open>Lemmas on results\<close>

lemma bind_result_simps [simp]:
  "bind_result (Inl err) f = Inl err" "bind_result (Inr y) f = f y"
  by (simp_all add: bind_result_def)

lemma bind_result_ok: "bind_result x f = Inr z \<longleftrightarrow> (\<exists>y. x = Inr y \<and> f y = Inr z)"
  by (cases x) auto

lemma bind_result_error:
  "bind_result x f = Inl err \<longleftrightarrow> x = Inl err \<or> (\<exists>y. x = Inr y \<and> f y = Inl err)"
  by (cases x) auto

lemma reraise_simps [simp]:
  "reraise caught err (Inr y) = Inr y"
  "reraise caught err (Inl e) = Inl (if e \<in> set caught then err else e)"
  by (simp_all add: reraise_def)

lemma reraise_ok [simp]: "reraise caught err x = Inr y \<longleftrightarrow> x = Inr y"
  by (cases x) auto

lemma reraise_error:
  "reraise caught err x = Inl e \<Longrightarrow> e = err \<or> (e \<notin> set caught \<and> x = Inl e)"
  by (cases x) (auto split: if_splits)

section \<open>Lemmas on dictionaries\<close>

lemmas dict_simps = update_conv' delete_conv' distinct_update distinct_delete

declare update_conv' [simp] delete_conv' [simp]

lemma map_of_dict_of: "map_of (dict_of d kvs) = map_of d ++ map_of (rev kvs)"
  by (induction d kvs rule: dict_of.induct) (auto simp: map_add_def fun_eq_iff split: option.splits)

lemma distinct_dict_of [simp]: "distinct_keys d \<Longrightarrow> distinct_keys (dict_of d kvs)"
  by (induction d kvs rule: dict_of.induct) (simp_all add: distinct_update)

lemma dict_eq_iff: "dict_eq d d' \<longleftrightarrow> map_of d = map_of d'"
proof
  assume eq: "dict_eq d d'"
  show "map_of d = map_of d'"
  proof
    fix k
    show "map_of d k = map_of d' k"
    proof (cases "k \<in> fst ` set d \<union> fst ` set d'")
      case True
      with eq show ?thesis by (auto simp: dict_eq_def list_all_iff)
    next
      case False
      then have "map_of d k = None" "map_of d' k = None"
        by (auto simp: map_of_eq_None_iff)
      then show ?thesis by simp
    qed
  qed
qed (simp add: dict_eq_def list_all_iff)

lemma map_of_rev_distinct: "distinct_keys d \<Longrightarrow> map_of (rev d) = map_of d"
proof
  fix k
  assume d: "distinct_keys d"
  then have r: "distinct_keys (rev d)" by (simp add: rev_map [symmetric])
  show "map_of (rev d) k = map_of d k"
  proof (cases "map_of d k")
    case None
    then have "map_of (rev d) k = None" by (simp add: map_of_eq_None_iff)
    with None show ?thesis by simp
  next
    case (Some v)
    then have "(k, v) \<in> set (rev d)" using d by (simp add: map_of_eq_Some_iff)
    then show ?thesis using Some r by (simp only: map_of_eq_Some_iff)
  qed
qed

lemma length_update: "length (AList.update k v d) = (if k \<in> fst ` set d then length d else length d + 1)"
  by (induction d) auto

lemma length_delete: "distinct_keys d \<Longrightarrow> length d - 1 \<le> length (AList.delete k d)"
proof -
  assume "distinct_keys d"
  then have "length d - 1 \<le> length (remove1 k (map fst d))" by (simp add: length_remove1)
  also have "\<dots> = length (removeAll k (map fst d))"
    using \<open>distinct_keys d\<close> by (simp add: distinct_remove1_removeAll)
  also have "\<dots> = length (map fst (AList.delete k d))" by (simp only: delete_keys)
  finally show ?thesis by simp
qed

lemma set_update_subset: "set (AList.update k v d) \<subseteq> insert (k, v) (set d)"
  by (induction d) auto

lemma set_delete_subset: "set (AList.delete k d) \<subseteq> set d"
  by (induction d) auto

section \<open>Lemmas on draws\<close>

lemma mod_fraction_bounds:
  assumes "0 < (m::nat)"
  shows "0 \<le> (of_nat (n mod m) / of_nat m :: rat) \<and> (of_nat (n mod m) / of_nat m :: rat) < 1"
  using assms by (simp add: divide_less_eq)

lemma rng_random_bounds:
  assumes "rng_random r = (u, r')"
  shows "0 \<le> u \<and> u < 1"
proof -
  have "u = of_nat (r 0 mod 2 ^ 53) / of_nat (2 ^ 53)"
    using assms by (simp only: rng_random_def prod.inject of_nat_power of_nat_numeral)
  then show ?thesis
    using mod_fraction_bounds [of "2 ^ 53" "r 0"] by (simp only:) simp
qed

lemma rng_uniform_bounds:
  assumes "0 \<le> b" and "rng_uniform 0 b r = (x, r')"
  shows "0 \<le> x \<and> x \<le> b"
proof -
  obtain u r0 where u: "rng_random r = (u, r0)" by fastforce
  have "0 \<le> u" "u \<le> 1" using rng_random_bounds [OF u] by auto
  moreover have "x = b * u" using assms(2) u by (simp add: rng_uniform_def)
  ultimately show ?thesis using assms(1) by (simp add: mult_left_le)
qed

lemma rng_randint_bounds: "rng_randint a b r = Inr (k, r') \<Longrightarrow> a \<le> k \<and> k \<le> b"
  using pos_mod_bound [of "b - a + 1" "int (r 0)"]
  by (auto simp: rng_randint_def split: if_splits)

lemma rng_choice_mem: "rng_choice xs r = Inr (x, r') \<Longrightarrow> x \<in> set xs"
  by (auto simp: rng_choice_def split: if_splits)

end
