(* ===== verification/BookEngine.thy ===== *)
theory BookEngine
  imports Prelude
begin

text \<open>
  The exchange-agnostic order book of \<^verbatim>\<open>src/l2_pipeline/book\<close>: the data types of
  \<^verbatim>\<open>types.py\<close> and the class \<open>BookEngine\<close> of \<^verbatim>\<open>engine.py\<close>. A method that mutates
  the engine returns the new engine beside its result; \<open>load_snapshot\<close>, the one method that
  raises, returns a sum, and raises before it changes anything.
\<close>

section \<open>Data types\<close>

type_synonym price_level = "decimal \<times> decimal" \<comment> \<open>a named tuple: price, qty\<close>

type_synonym side = "(decimal \<times> decimal) list" \<comment> \<open>a dictionary from price to qty\<close>

record diff_event =
  prev_id :: int
  final_id :: int
  ev_bids :: "price_level list"
  ev_asks :: "price_level list"

record snapshot_event =
  last_update_id :: int
  sn_bids :: "price_level list"
  sn_asks :: "price_level list"

datatype book_state = BUFFERING | RESYNCING | LIVE

datatype apply_status = APPLIED | BUFFERED | GAP_DETECTED | SNAPSHOT_STALE

record apply_result =
  status :: apply_status
  detail :: "string option"

section \<open>The engine\<close>

record book_engine =
  be_depth_levels :: int
  be_bids :: side
  be_asks :: side
  be_state :: book_state
  be_last_applied_id :: "int option"
  be_buffer :: "diff_event list"

definition new_engine :: "int \<Rightarrow> book_engine" where
  "new_engine depth =
     \<lparr>be_depth_levels = depth, be_bids = [], be_asks = [], be_state = BUFFERING,
      be_last_applied_id = None, be_buffer = []\<rparr>"

fun apply_levels :: "side \<Rightarrow> price_level list \<Rightarrow> side" where
  "apply_levels side [] = side"
| "apply_levels side ((price, qty) # levels) =
     apply_levels (if qty = 0 then AList.delete price side else AList.update price qty side) levels"

definition gap_detail :: "int option \<Rightarrow> diff_event \<Rightarrow> string" where
  "gap_detail checkpoint event =
     ''expected prev_id='' @ int_opt_str checkpoint @ '', got prev_id='' @ int_str (prev_id event) @
     '' (final_id='' @ int_str (final_id event) @ '')''"

definition apply_live :: "book_engine \<Rightarrow> diff_event \<Rightarrow> apply_result \<times> book_engine" where
  "apply_live e event =
     (if Some (prev_id event) \<noteq> be_last_applied_id e
      then (\<lparr>status = GAP_DETECTED, detail = Some (gap_detail (be_last_applied_id e) event)\<rparr>,
            e\<lparr>be_state := RESYNCING, be_bids := [], be_asks := [], be_last_applied_id := None,
              be_buffer := [event]\<rparr>)
      else (\<lparr>status = APPLIED, detail = None\<rparr>,
            e\<lparr>be_bids := apply_levels (be_bids e) (ev_bids event),
              be_asks := apply_levels (be_asks e) (ev_asks event),
              be_last_applied_id := Some (final_id event)\<rparr>))"

definition apply_event :: "book_engine \<Rightarrow> diff_event \<Rightarrow> apply_result \<times> book_engine" where
  "apply_event e event =
     (if be_state e \<noteq> LIVE
      then (\<lparr>status = BUFFERED, detail = None\<rparr>, e\<lparr>be_buffer := be_buffer e @ [event]\<rparr>)
      else apply_live e event)"

definition stale_detail :: "diff_event \<Rightarrow> snapshot_event \<Rightarrow> string" where
  "stale_detail first snapshot =
     ''first buffered event prev_id='' @ int_str (prev_id first) @ '' final_id='' @
     int_str (final_id first) @ '' does not straddle snapshot last_update_id='' @
     int_str (last_update_id snapshot)"

text \<open>The loop over the survivors after the first, left at the first gap.\<close>

fun replay :: "book_engine \<Rightarrow> diff_event list \<Rightarrow> apply_result \<times> book_engine" where
  "replay e [] = (\<lparr>status = APPLIED, detail = None\<rparr>, e)"
| "replay e (event # rest) =
     (let (result, e') = apply_live e event
      in if status result = GAP_DETECTED then (result, e') else replay e' rest)"

definition survivors :: "book_engine \<Rightarrow> snapshot_event \<Rightarrow> diff_event list" where
  "survivors e snapshot = filter (\<lambda>ev. last_update_id snapshot < final_id ev) (be_buffer e)"

definition straddles :: "diff_event \<Rightarrow> snapshot_event \<Rightarrow> bool" where
  "straddles first snapshot \<longleftrightarrow>
     prev_id first \<le> last_update_id snapshot \<and> last_update_id snapshot < final_id first"

definition load_snapshot ::
  "book_engine \<Rightarrow> snapshot_event \<Rightarrow> (apply_result \<times> book_engine) result" where
  "load_snapshot e snapshot =
     (if be_state e = LIVE then Inl ValueError
      else
        let live = e\<lparr>be_bids := dict_of [] (sn_bids snapshot), be_asks := dict_of [] (sn_asks snapshot),
                     be_buffer := [], be_state := LIVE\<rparr>
        in case survivors e snapshot of
             [] \<Rightarrow> Inr (\<lparr>status = APPLIED, detail = None\<rparr>,
                       live\<lparr>be_last_applied_id := Some (last_update_id snapshot)\<rparr>)
           | first # rest \<Rightarrow>
               if \<not> straddles first snapshot
               then Inr (\<lparr>status = SNAPSHOT_STALE, detail = Some (stale_detail first snapshot)\<rparr>, e)
               else Inr (replay
                      (live\<lparr>be_bids := apply_levels (be_bids live) (ev_bids first),
                            be_asks := apply_levels (be_asks live) (ev_asks first),
                            be_last_applied_id := Some (final_id first)\<rparr>) rest))"

definition top_levels ::
  "book_engine \<Rightarrow> int option \<Rightarrow> price_level list \<times> price_level list" where
  "top_levels e n =
     (let limit = (case n of Some k \<Rightarrow> k | None \<Rightarrow> be_depth_levels e)
      in (slice_to limit (rev (sort (be_bids e))), slice_to limit (sort (be_asks e))))"

definition full_book :: "book_engine \<Rightarrow> side \<times> side" where
  "full_book e = (be_bids e, be_asks e)"

definition invalidate :: "book_engine \<Rightarrow> book_engine" where
  "invalidate e =
     e\<lparr>be_state := (if be_state e \<noteq> BUFFERING then RESYNCING else be_state e),
       be_bids := [], be_asks := [], be_last_applied_id := None, be_buffer := []\<rparr>"

section \<open>Calls from outside, and their runs\<close>

text \<open>
  The mutating calls a client makes. A call that raises leaves the engine as it was, which is what
  a caller that survives the exception sees.
\<close>

datatype engine_op = Apply_Event diff_event | Load_Snapshot snapshot_event | Invalidate

fun engine_exec :: "book_engine \<Rightarrow> engine_op \<Rightarrow> book_engine" where
  "engine_exec e (Apply_Event event) = snd (apply_event e event)"
| "engine_exec e (Load_Snapshot snapshot) =
     (case load_snapshot e snapshot of Inl _ \<Rightarrow> e | Inr (_, e') \<Rightarrow> e')"
| "engine_exec e Invalidate = invalidate e"

definition engine_run :: "book_engine \<Rightarrow> engine_op list \<Rightarrow> book_engine" where
  "engine_run e ops = foldl engine_exec e ops"

section \<open>Well-formedness\<close>

text \<open>
  Prices are distinct on each side. A live engine has a checkpoint and nothing buffered; an engine
  that is not live has an empty book and no checkpoint.
\<close>

definition engine_wf :: "book_engine \<Rightarrow> bool" where
  "engine_wf e \<longleftrightarrow>
     distinct_keys (be_bids e) \<and> distinct_keys (be_asks e) \<and>
     (if be_state e = LIVE then be_buffer e = [] \<and> be_last_applied_id e \<noteq> None
      else be_bids e = [] \<and> be_asks e = [] \<and> be_last_applied_id e = None)"

lemma distinct_apply_levels [simp]:
  "distinct_keys side \<Longrightarrow> distinct_keys (apply_levels side levels)"
  by (induction side levels rule: apply_levels.induct)
    (simp_all add: distinct_update distinct_delete)

lemma new_engine_wf [wf_intros, intro!]: "engine_wf (new_engine depth)"
  by (simp add: engine_wf_def new_engine_def)

lemma apply_live_wf [wf_intros]:
  "engine_wf e \<Longrightarrow> be_state e = LIVE \<Longrightarrow> engine_wf (snd (apply_live e event))"
  by (simp add: engine_wf_def apply_live_def)

lemma apply_live_state:
  "be_state e = LIVE \<Longrightarrow>
     be_state (snd (apply_live e event)) =
       (if status (fst (apply_live e event)) = GAP_DETECTED then RESYNCING else LIVE)"
  by (simp add: apply_live_def)

lemma apply_event_wf [wf_intros]: "engine_wf e \<Longrightarrow> engine_wf (snd (apply_event e event))"
  by (auto simp: apply_event_def apply_live_wf) (auto simp: engine_wf_def)

lemma replay_wf [wf_intros]:
  "engine_wf e \<Longrightarrow> be_state e = LIVE \<Longrightarrow> engine_wf (snd (replay e events))"
proof (induction events arbitrary: e)
  case (Cons event rest)
  then show ?case
    using apply_live_wf [of e event] apply_live_state [of e event]
    by (auto split: prod.splits)
qed simp

text \<open>The state the replay starts from: the snapshot's book with the first survivor on top.\<close>

definition replay_start :: "book_engine \<Rightarrow> snapshot_event \<Rightarrow> diff_event \<Rightarrow> book_engine" where
  "replay_start e snapshot first =
     e\<lparr>be_buffer := [], be_state := LIVE,
       be_bids := apply_levels (dict_of [] (sn_bids snapshot)) (ev_bids first),
       be_asks := apply_levels (dict_of [] (sn_asks snapshot)) (ev_asks first),
       be_last_applied_id := Some (final_id first)\<rparr>"

lemma load_snapshot_cases:
  assumes "load_snapshot e snapshot = Inr (result, e')"
  obtains
    (none) "be_state e \<noteq> LIVE" "survivors e snapshot = []" "status result = APPLIED"
      "e' = e\<lparr>be_bids := dict_of [] (sn_bids snapshot), be_asks := dict_of [] (sn_asks snapshot),
              be_buffer := [], be_state := LIVE, be_last_applied_id := Some (last_update_id snapshot)\<rparr>"
  | (stale) first rest where "be_state e \<noteq> LIVE" "survivors e snapshot = first # rest"
      "\<not> straddles first snapshot" "status result = SNAPSHOT_STALE" "e' = e"
  | (replayed) first rest where "be_state e \<noteq> LIVE" "survivors e snapshot = first # rest"
      "straddles first snapshot" "(result, e') = replay (replay_start e snapshot first) rest"
  using assms
  by (auto simp: load_snapshot_def Let_def replay_start_def eq_commute [of "replay _ _"]
      split: if_splits list.splits)

lemma load_snapshot_not_live:
  assumes "be_state e \<noteq> LIVE"
  obtains result e' where "load_snapshot e snapshot = Inr (result, e')"
proof (cases "load_snapshot e snapshot")
  case Inl
  with assms show thesis by (auto simp: load_snapshot_def Let_def split: list.splits if_splits)
next
  case (Inr r)
  then show thesis using that by (cases r) auto
qed

lemma load_snapshot_live: "be_state e = LIVE \<Longrightarrow> load_snapshot e snapshot = Inl ValueError"
  by (simp add: load_snapshot_def)

lemma replay_state: "be_state e = LIVE \<Longrightarrow> be_state (snd (replay e events)) \<noteq> BUFFERING"
  by (induction events arbitrary: e) (auto simp: Let_def split_beta apply_live_def)

lemma load_snapshot_state:
  assumes "load_snapshot e snapshot = Inr (result, e')" and "be_state e' = BUFFERING"
  shows "be_state e = BUFFERING"
  using assms(1)
proof (cases rule: load_snapshot_cases)
  case (replayed first rest)
  have "be_state (snd (replay (replay_start e snapshot first) rest)) \<noteq> BUFFERING"
    by (rule replay_state) (simp add: replay_start_def)
  with replayed(4) assms(2) show ?thesis by (metis snd_conv)
qed (use assms(2) in auto)

lemma load_snapshot_wf [wf_intros]:
  assumes "engine_wf e" and "load_snapshot e snapshot = Inr (result, e')"
  shows "engine_wf e'"
  using assms(2)
proof (cases rule: load_snapshot_cases)
  case none
  then show ?thesis by (simp add: engine_wf_def)
next
  case stale
  with assms(1) show ?thesis by simp
next
  case (replayed first rest)
  have "engine_wf (replay_start e snapshot first)" "be_state (replay_start e snapshot first) = LIVE"
    by (simp_all add: engine_wf_def replay_start_def)
  then have "engine_wf (snd (replay (replay_start e snapshot first) rest))"
    by (rule replay_wf)
  with replayed(4) show ?thesis by (metis snd_conv)
qed

lemma invalidate_wf [wf_intros]: "engine_wf (invalidate e)"
  by (simp add: engine_wf_def invalidate_def)

end
