(* ===== verification/Replica.thy ===== *)
theory Replica
  imports BookEngine
begin

text \<open>
  What the engine promises, over a history of the exchange: \<open>hist t\<close> is the exchange's book when
  its update id is \<open>t\<close>. An event or a snapshot is faithful to a history when it says what the
  exchange documents: a snapshot is the book at its \<open>last_update_id\<close>, and the absolute levels of
  an event turn the book at its \<open>prev_id\<close> into the book at its \<open>final_id\<close>, and equally the book
  at any id in between, which is what the straddle condition of \<open>load_snapshot\<close> relies on.
  The locale states this interface; its lemmas show that every call keeps the engine a replica.
\<close>

section \<open>Books as maps\<close>

type_synonym book = "(decimal \<rightharpoonup> decimal) \<times> (decimal \<rightharpoonup> decimal)"

text \<open>Absolute levels over one side: the last mention of a price decides, zero removes it.\<close>

definition overlay :: "(decimal \<rightharpoonup> decimal) \<Rightarrow> price_level list \<Rightarrow> (decimal \<rightharpoonup> decimal)" where
  "overlay m levels =
     (\<lambda>p. case map_of (rev levels) p of
            None \<Rightarrow> m p
          | Some q \<Rightarrow> if q = 0 then None else Some q)"

definition book_step :: "book \<Rightarrow> diff_event \<Rightarrow> book" where
  "book_step b event = (overlay (fst b) (ev_bids event), overlay (snd b) (ev_asks event))"

definition snapshot_book :: "snapshot_event \<Rightarrow> book" where
  "snapshot_book s = (map_of (rev (sn_bids s)), map_of (rev (sn_asks s)))"

definition engine_book :: "book_engine \<Rightarrow> book" where
  "engine_book e = (map_of (be_bids e), map_of (be_asks e))"

fun chained :: "int \<Rightarrow> diff_event list \<Rightarrow> bool" where
  "chained t [] = True"
| "chained t (event # events) = (prev_id event = t \<and> chained (final_id event) events)"

definition end_id :: "int \<Rightarrow> diff_event list \<Rightarrow> int" where
  "end_id t events = (if events = [] then t else final_id (last events))"

definition faithful_event :: "(int \<Rightarrow> book) \<Rightarrow> diff_event \<Rightarrow> bool" where
  "faithful_event hist event \<longleftrightarrow>
     book_step (hist (prev_id event)) event = hist (final_id event) \<and>
     (\<forall>t. prev_id event \<le> t \<longrightarrow> t < final_id event \<longrightarrow> book_step (hist t) event = hist (final_id event))"

definition faithful_snapshot :: "(int \<Rightarrow> book) \<Rightarrow> snapshot_event \<Rightarrow> bool" where
  "faithful_snapshot hist s \<longleftrightarrow> snapshot_book s = hist (last_update_id s)"

fun op_ok :: "(diff_event \<Rightarrow> bool) \<Rightarrow> (snapshot_event \<Rightarrow> bool) \<Rightarrow> engine_op \<Rightarrow> bool" where
  "op_ok ev_ok sn_ok (Apply_Event event) = ev_ok event"
| "op_ok ev_ok sn_ok (Load_Snapshot s) = sn_ok s"
| "op_ok ev_ok sn_ok Invalidate = True"

definition faithful_op :: "(int \<Rightarrow> book) \<Rightarrow> engine_op \<Rightarrow> bool" where
  "faithful_op hist = op_ok (faithful_event hist) (faithful_snapshot hist)"

text \<open>The engine is a replica: when live, its book is the exchange's book at its checkpoint.\<close>

definition replica :: "(int \<Rightarrow> book) \<Rightarrow> book_engine \<Rightarrow> bool" where
  "replica hist e \<longleftrightarrow>
     (be_state e = LIVE \<longrightarrow> (\<exists>t. be_last_applied_id e = Some t \<and> engine_book e = hist t))"

section \<open>Levels\<close>

lemma overlay_Nil [simp]: "overlay m [] = m"
  by (simp add: overlay_def)

lemma overlay_Cons:
  "overlay m ((p, q) # levels) = overlay (m(p := if q = 0 then None else Some q)) levels"
  by (auto simp: overlay_def fun_eq_iff map_add_def split: option.splits)

lemma map_of_apply_levels [simp]: "map_of (apply_levels side levels) = overlay (map_of side) levels"
  by (induction side levels rule: apply_levels.induct) (auto simp: overlay_Cons fun_upd_def)

lemma overlay_idem [simp]: "overlay (overlay m levels) levels = overlay m levels"
  by (auto simp: overlay_def fun_eq_iff split: option.splits)

lemma map_of_dict_of_Nil [simp]: "map_of (dict_of [] kvs) = map_of (rev kvs)"
  by (simp add: map_of_dict_of)

lemma engine_book_simps [simp]:
  "engine_book (e\<lparr>be_bids := b, be_asks := a\<rparr>) = (map_of b, map_of a)"
  "engine_book (e\<lparr>be_state := st\<rparr>) = engine_book e"
  "engine_book (e\<lparr>be_last_applied_id := l\<rparr>) = engine_book e"
  "engine_book (e\<lparr>be_buffer := q\<rparr>) = engine_book e"
  by (simp_all add: engine_book_def)

section \<open>Steps of the engine, abstractly\<close>

lemma apply_live_chained:
  assumes "be_last_applied_id e = Some (prev_id event)"
  shows "status (fst (apply_live e event)) = APPLIED"
    and "be_state (snd (apply_live e event)) = be_state e"
    and "be_buffer (snd (apply_live e event)) = be_buffer e"
    and "be_last_applied_id (snd (apply_live e event)) = Some (final_id event)"
    and "engine_book (snd (apply_live e event)) = book_step (engine_book e) event"
  using assms by (simp_all add: apply_live_def engine_book_def book_step_def)

lemma apply_live_gap:
  assumes "be_last_applied_id e \<noteq> Some (prev_id event)"
  shows "status (fst (apply_live e event)) = GAP_DETECTED"
    and "be_state (snd (apply_live e event)) = RESYNCING"
    and "be_buffer (snd (apply_live e event)) = [event]"
    and "be_last_applied_id (snd (apply_live e event)) = None"
    and "engine_book (snd (apply_live e event)) = (Map.empty, Map.empty)"
  using assms by (auto simp: apply_live_def engine_book_def)

lemma replay_chained:
  assumes "be_last_applied_id e = Some t" and "chained t events"
  shows "status (fst (replay e events)) = APPLIED"
    and "be_state (snd (replay e events)) = be_state e"
    and "be_buffer (snd (replay e events)) = be_buffer e"
    and "be_last_applied_id (snd (replay e events)) = Some (end_id t events)"
    and "engine_book (snd (replay e events)) = foldl book_step (engine_book e) events"
  using assms
  by (induction events arbitrary: e t)
    (auto simp: end_id_def apply_live_chained Let_def split_beta)

text \<open>A replay that meets a gap stops there: the rest of the survivors is gone.\<close>

lemma replay_gap:
  assumes "be_last_applied_id e = Some t" and "\<not> chained t events"
  obtains pre event post where "events = pre @ event # post" and "chained t pre"
    and "prev_id event \<noteq> end_id t pre" and "status (fst (replay e events)) = GAP_DETECTED"
    and "snd (replay e events) =
      e\<lparr>be_state := RESYNCING, be_bids := [], be_asks := [], be_last_applied_id := None,
        be_buffer := [event]\<rparr>"
  using assms
proof (induction events arbitrary: e t thesis)
  case (Cons ev events)
  show ?case
  proof (cases "prev_id ev = t")
    case False
    with Cons.prems show ?thesis
      by (intro Cons.prems(1) [of "[]" ev events]) (auto simp: end_id_def Let_def split_beta apply_live_def)
  next
    case True
    let ?e = "snd (apply_live e ev)"
    have last: "be_last_applied_id ?e = Some (final_id ev)" and gap: "\<not> chained (final_id ev) events"
      and step: "replay e (ev # events) = replay ?e events"
      using True Cons.prems by (simp_all add: apply_live_chained Let_def split_beta)
    obtain pre event post where "events = pre @ event # post" "chained (final_id ev) pre"
      "prev_id event \<noteq> end_id (final_id ev) pre" "status (fst (replay ?e events)) = GAP_DETECTED"
      "snd (replay ?e events) =
        ?e\<lparr>be_state := RESYNCING, be_bids := [], be_asks := [], be_last_applied_id := None,
          be_buffer := [event]\<rparr>"
      using Cons.IH [OF _ last gap] by blast
    then show ?thesis
      using True Cons.prems(2) unfolding step
      by (intro Cons.prems(1) [of "ev # pre" event post])
        (auto simp: end_id_def apply_live_def step split: if_splits)
  qed
qed simp

lemma replay_start_simps [simp]:
  "be_state (replay_start e s first) = LIVE"
  "be_buffer (replay_start e s first) = []"
  "be_last_applied_id (replay_start e s first) = Some (final_id first)"
  "engine_book (replay_start e s first) = book_step (snapshot_book s) first"
  by (simp_all add: replay_start_def engine_book_def book_step_def snapshot_book_def)

section \<open>The interface: a source of events\<close>

text \<open>
  In general a source gives a relation between ids and acceptable books: its events lead from an
  acceptable book to an acceptable book, and its snapshots are acceptable.
\<close>

definition tracks :: "(int \<Rightarrow> book \<Rightarrow> bool) \<Rightarrow> book_engine \<Rightarrow> bool" where
  "tracks ok e \<longleftrightarrow>
     (be_state e = LIVE \<longrightarrow> (\<exists>t. be_last_applied_id e = Some t \<and> ok t (engine_book e)))"

lemma replica_tracks: "replica hist = tracks (\<lambda>t b. b = hist t)"
  by (simp add: fun_eq_iff replica_def tracks_def)

locale book_source =
  fixes ok :: "int \<Rightarrow> book \<Rightarrow> bool"
    and ev_ok :: "diff_event \<Rightarrow> bool"
    and sn_ok :: "snapshot_event \<Rightarrow> bool"
  assumes chain_law: "ev_ok event \<Longrightarrow> ok (prev_id event) b \<Longrightarrow> ok (final_id event) (book_step b event)"
    and straddle_law: "ev_ok event \<Longrightarrow> prev_id event \<le> t \<Longrightarrow> t < final_id event \<Longrightarrow> ok t b \<Longrightarrow>
      ok (final_id event) (book_step b event)"
    and snapshot_law: "sn_ok s \<Longrightarrow> ok (last_update_id s) (snapshot_book s)"
begin

lemma apply_live_tracks:
  assumes "be_state e = LIVE" and "tracks ok e" and "ev_ok event" and "list_all ev_ok (be_buffer e)"
  shows "tracks ok (snd (apply_live e event)) \<and> list_all ev_ok (be_buffer (snd (apply_live e event)))"
proof (cases "be_last_applied_id e = Some (prev_id event)")
  case True
  with assms chain_law [OF assms(3)] show ?thesis
    by (auto simp: tracks_def apply_live_chained)
next
  case False
  with assms show ?thesis by (simp add: tracks_def apply_live_gap)
qed

lemma replay_tracks:
  assumes "be_state e = LIVE" and "tracks ok e" and "list_all ev_ok events"
    and "list_all ev_ok (be_buffer e)"
  shows "tracks ok (snd (replay e events)) \<and> list_all ev_ok (be_buffer (snd (replay e events)))"
  using assms
proof (induction events arbitrary: e)
  case (Cons event events)
  then have "tracks ok (snd (apply_live e event)) \<and>
      list_all ev_ok (be_buffer (snd (apply_live e event)))"
    by (intro apply_live_tracks) auto
  with Cons show ?case
    by (auto simp: Let_def split_beta apply_live_state)
qed simp

lemma load_snapshot_tracks:
  assumes "load_snapshot e s = Inr (result, e')" and "tracks ok e" and "sn_ok s"
    and buf: "list_all ev_ok (be_buffer e)"
  shows "tracks ok e' \<and> list_all ev_ok (be_buffer e')"
  using assms(1)
proof (cases rule: load_snapshot_cases)
  case none
  with snapshot_law [OF assms(3)] show ?thesis
    by (simp add: tracks_def engine_book_def snapshot_book_def)
next
  case stale
  with assms show ?thesis by simp
next
  case (replayed first rest)
  have good: "ev_ok first" "list_all ev_ok rest"
    using buf replayed(2) unfolding survivors_def list_all_iff
    by (metis filter_is_subset insertCI list.set(2) subsetD)+
  have "ok (final_id first) (engine_book (replay_start e s first))"
    using replayed(3) straddle_law [OF good(1) _ _ snapshot_law [OF assms(3)]] by (simp add: straddles_def)
  then have "tracks ok (replay_start e s first)"
    by (simp add: tracks_def)
  then show ?thesis
    using replay_tracks [of "replay_start e s first" rest] good replayed(4) [symmetric] by simp
qed

lemma exec_tracks:
  assumes "tracks ok e" and "list_all ev_ok (be_buffer e)" and "op_ok ev_ok sn_ok op"
  shows "tracks ok (engine_exec e op) \<and> list_all ev_ok (be_buffer (engine_exec e op))"
proof (cases op)
  case (Apply_Event event)
  with assms show ?thesis
    using apply_live_tracks [of e event]
    by (cases "be_state e = LIVE") (auto simp: apply_event_def tracks_def)
next
  case (Load_Snapshot s)
  with assms show ?thesis
    using load_snapshot_tracks [of e s] by (auto split: sum.splits)
next
  case Invalidate
  with assms show ?thesis by (auto simp: tracks_def invalidate_def)
qed

lemma run_tracks:
  assumes "tracks ok e" and "list_all ev_ok (be_buffer e)" and "list_all (op_ok ev_ok sn_ok) ops"
  shows "tracks ok (engine_run e ops)"
  using assms unfolding engine_run_def
  by (induction ops arbitrary: e) (auto simp: exec_tracks)

end

text \<open>The exact source: the one acceptable book is the exchange's.\<close>

locale event_source =
  fixes hist :: "int \<Rightarrow> book"
    and ev_ok :: "diff_event \<Rightarrow> bool"
    and sn_ok :: "snapshot_event \<Rightarrow> bool"
  assumes exact_chain: "ev_ok event \<Longrightarrow> book_step (hist (prev_id event)) event = hist (final_id event)"
    and exact_straddle: "ev_ok event \<Longrightarrow> prev_id event \<le> t \<Longrightarrow> t < final_id event \<Longrightarrow>
      book_step (hist t) event = hist (final_id event)"
    and exact_snapshot: "sn_ok s \<Longrightarrow> snapshot_book s = hist (last_update_id s)"

sublocale event_source \<subseteq> exact: book_source "\<lambda>t b. b = hist t" ev_ok sn_ok
  by unfold_locales (auto simp: exact_chain exact_straddle exact_snapshot)

context event_source
begin

lemmas load_snapshot_replica = exact.load_snapshot_tracks [folded replica_tracks]

lemmas exec_replica = exact.exec_tracks [folded replica_tracks]

lemmas run_replica = exact.run_tracks [folded replica_tracks]

end

text \<open>A source whose ids are known to lie in some range gives checkpoints in that range.\<close>

locale bounded_source = event_source hist ev_ok sn_ok
  for hist :: "int \<Rightarrow> book" and ev_ok :: "diff_event \<Rightarrow> bool" and sn_ok :: "snapshot_event \<Rightarrow> bool" +
  fixes in_range :: "int \<Rightarrow> bool"
  assumes event_range: "ev_ok event \<Longrightarrow> in_range (final_id event)"
    and snapshot_range: "sn_ok s \<Longrightarrow> in_range (last_update_id s)"
begin

lemma replay_range:
  assumes "pred_option in_range (be_last_applied_id e)" and "list_all ev_ok events"
  shows "pred_option in_range (be_last_applied_id (snd (replay e events)))"
  using assms
  by (induction events arbitrary: e) (auto simp: Let_def split_beta apply_live_def event_range)

lemma exec_range:
  assumes "pred_option in_range (be_last_applied_id e)" and "list_all ev_ok (be_buffer e)"
    and "op_ok ev_ok sn_ok op"
  shows "pred_option in_range (be_last_applied_id (engine_exec e op))"
proof (cases op)
  case (Apply_Event event)
  with assms show ?thesis by (auto simp: apply_event_def apply_live_def event_range)
next
  case (Load_Snapshot s)
  show ?thesis
  proof (cases "load_snapshot e s")
    case (Inr r)
    then obtain res e' where r: "load_snapshot e s = Inr (res, e')" by (cases r) auto
    then have "pred_option in_range (be_last_applied_id e')"
    proof (cases rule: load_snapshot_cases)
      case (replayed first rest)
      have "list_all ev_ok (survivors e s)"
        using assms(2) by (auto simp: survivors_def list_all_iff)
      then have "pred_option in_range (be_last_applied_id (snd (replay (replay_start e s first) rest)))"
        using replayed(2) by (intro replay_range) (simp_all add: event_range)
      then show ?thesis by (simp flip: replayed(4))
    qed (use assms Load_Snapshot in \<open>simp_all add: snapshot_range\<close>)
    with r Load_Snapshot show ?thesis by simp
  qed (use assms Load_Snapshot in simp)
next
  case Invalidate
  then show ?thesis by (simp add: invalidate_def)
qed

end

text \<open>Faithful events and snapshots are such a source, whatever the history.\<close>

interpretation documented: event_source hist "faithful_event hist" "faithful_snapshot hist" for hist
  by unfold_locales (auto simp: faithful_event_def faithful_snapshot_def)

end
