(* ===== verification/EngineProps.thy ===== *)
theory EngineProps
  imports Replica
begin

text \<open>
  The properties of the book engine: every run of calls keeps it a replica of the exchange and
  well-formed, what \<open>load_snapshot\<close> does on each branch, and what \<open>apply_levels\<close> and
  \<open>top_levels\<close> compute.
\<close>

section \<open>Helper lemmas\<close>

lemma sorted_pairs_strict:
  fixes d :: "('k::linorder \<times> 'v::linorder) list"
  shows "sorted d \<Longrightarrow> distinct_keys d \<Longrightarrow> sorted_wrt (<) (map fst d)"
  by (induction d) (force simp: less_eq_prod_def order_le_less)+

lemma sort_keys_strict:
  fixes d :: "('k::linorder \<times> 'v::linorder) list"
  assumes "distinct_keys d"
  shows "sorted_wrt (<) (map fst (sort d))"
  using assms by (intro sorted_pairs_strict) (simp_all add: distinct_map)

text \<open>A prefix of a list sorted by \<open>R\<close> is its best part.\<close>

lemma take_best:
  assumes "sorted_wrt R (map f xs)" and "x \<in> set xs" and "x \<notin> set (take n xs)" and "y \<in> set (take n xs)"
  shows "R (f y) (f x)"
proof -
  have "x \<in> set (drop n xs)"
    using assms(2,3) by (metis Un_iff append_take_drop_id set_append)
  moreover have "sorted_wrt R (map f (take n xs) @ map f (drop n xs))"
    using assms(1) by (metis append_take_drop_id map_append)
  ultimately show ?thesis
    using assms(4) by (auto simp: sorted_wrt_append)
qed

lemma engine_run_wf_from: "engine_wf e \<Longrightarrow> engine_wf (engine_run e ops)"
  unfolding engine_run_def
proof (induction ops arbitrary: e)
  case (Cons op ops)
  then show ?case
    by (cases op) (auto intro: wf_intros split: sum.splits)
qed simp

section \<open>Properties\<close>

text \<open>
  C1: for every history of the exchange and every sequence of calls with faithful events and
  snapshots, in any order, with events lost, repeated or swapped and with resets in between, an
  engine that says it is live holds exactly the exchange's book at its checkpoint.
\<close>

theorem engine_run_is_replica:
  assumes "\<forall>op \<in> set ops. faithful_op hist op"
    and "be_state (engine_run (new_engine depth) ops) = LIVE"
  shows "\<exists>t. be_last_applied_id (engine_run (new_engine depth) ops) = Some t \<and>
             engine_book (engine_run (new_engine depth) ops) = hist t"
proof -
  have "replica hist (engine_run (new_engine depth) ops)"
    using assms(1)
    by (intro documented.run_replica) (auto simp: replica_def new_engine_def faithful_op_def list_all_iff)
  with assms(2) show ?thesis by (simp add: replica_def)
qed

definition sample_snapshot :: snapshot_event where
  "sample_snapshot = \<lparr>last_update_id = 5, sn_bids = [(100, 1)], sn_asks = [(101, 4)]\<rparr>"

definition sample_event :: diff_event where
  "sample_event = \<lparr>prev_id = 3, final_id = 6, ev_bids = [(100, 0), (99, 2)], ev_asks = []\<rparr>"

definition sample_history :: "int \<Rightarrow> book" where
  "sample_history t =
     (if t < 6 then ([100 \<mapsto> 1], [101 \<mapsto> 4]) else ([99 \<mapsto> 2], [101 \<mapsto> 4]))"

lemmas sample_defs = sample_snapshot_def sample_event_def sample_history_def

lemma sample_faithful:
  "faithful_op sample_history (Apply_Event sample_event)"
  "faithful_op sample_history (Load_Snapshot sample_snapshot)"
  by (auto simp: faithful_op_def faithful_event_def faithful_snapshot_def sample_defs book_step_def
      snapshot_book_def overlay_def fun_eq_iff)

lemmas engine_eval = engine_run_def new_engine_def apply_event_def apply_live_def load_snapshot_def
  survivors_def straddles_def

text \<open>Witness: an event that straddles the snapshot, replayed on top of it.\<close>

lemma engine_run_is_replica_witness:
  "\<exists>t. be_last_applied_id
         (engine_run (new_engine 20) [Apply_Event sample_event, Load_Snapshot sample_snapshot]) = Some t \<and>
       engine_book
         (engine_run (new_engine 20) [Apply_Event sample_event, Load_Snapshot sample_snapshot]) =
       sample_history t"
proof (rule engine_run_is_replica)
  show "\<forall>op \<in> set [Apply_Event sample_event, Load_Snapshot sample_snapshot]. faithful_op sample_history op"
    using sample_faithful by simp
  show "be_state (engine_run (new_engine 20)
      [Apply_Event sample_event, Load_Snapshot sample_snapshot]) = LIVE"
    by (simp add: engine_eval sample_defs)
qed

text \<open>
  Every run of calls from a new engine leaves it well-formed: distinct prices on each side, a
  checkpoint and an empty buffer while live, an empty book and no checkpoint otherwise. No call
  brings back \<open>BUFFERING\<close>, and only \<open>load_snapshot\<close> makes an engine live.
\<close>

theorem engine_run_wf:
  "engine_wf (engine_run (new_engine depth) ops) \<and>
   (\<forall>e op. be_state (engine_exec e op) = BUFFERING \<longrightarrow> be_state e = BUFFERING) \<and>
   (\<forall>e op. be_state (engine_exec e op) = LIVE \<longrightarrow>
      be_state e = LIVE \<or> (\<exists>s. op = Load_Snapshot s))"
proof (intro conjI allI impI)
  show "engine_wf (engine_run (new_engine depth) ops)"
    by (rule engine_run_wf_from) (rule new_engine_wf)
next
  fix e op
  assume "be_state (engine_exec e op) = BUFFERING"
  then show "be_state e = BUFFERING"
    by (cases op)
      (auto simp: apply_event_def apply_live_def invalidate_def
        split: if_splits sum.splits intro: load_snapshot_state)
next
  fix e op
  assume "be_state (engine_exec e op) = LIVE"
  then show "be_state e = LIVE \<or> (\<exists>s. op = Load_Snapshot s)"
    by (cases op) (auto simp: apply_event_def apply_live_def invalidate_def split: if_splits)
qed

lemma engine_run_wf_witness:
  "engine_wf (engine_run (new_engine 10) [Load_Snapshot sample_snapshot]) \<and>
   be_state (engine_exec (new_engine 10) (Apply_Event sample_event)) = BUFFERING \<and> be_state (new_engine 10) = BUFFERING \<and>
   be_state (engine_exec (new_engine 10) (Load_Snapshot sample_snapshot)) = LIVE \<and>
   (be_state (new_engine 10) = LIVE \<or> (\<exists>s. Load_Snapshot sample_snapshot = Load_Snapshot s))"
proof -
  note facts = engine_run_wf [of 10 "[Load_Snapshot sample_snapshot]"]
  have live: "be_state (engine_exec (new_engine 10) (Load_Snapshot sample_snapshot)) = LIVE"
    by (simp add: new_engine_def load_snapshot_def survivors_def sample_snapshot_def Let_def)
  have buf: "be_state (engine_exec (new_engine 10) (Apply_Event sample_event)) = BUFFERING"
    by (simp add: new_engine_def apply_event_def)
  from facts live buf show ?thesis by blast
qed

text \<open>The outcome by the survivors of the buffer.\<close>

lemma load_snapshot_by_survivors:
  assumes "be_state e \<noteq> LIVE"
  shows "\<exists>result e'. load_snapshot e s = Inr (result, e') \<and>
    (case survivors e s of
       [] \<Rightarrow> status result = APPLIED \<and> be_state e' = LIVE \<and> engine_book e' = snapshot_book s \<and>
             be_last_applied_id e' = Some (last_update_id s) \<and> be_buffer e' = []
     | first # rest \<Rightarrow>
         if \<not> straddles first s then status result = SNAPSHOT_STALE \<and> e' = e
         else if chained (final_id first) rest
         then status result = APPLIED \<and> be_state e' = LIVE \<and>
              engine_book e' = foldl book_step (snapshot_book s) (first # rest) \<and>
              be_last_applied_id e' = Some (end_id (final_id first) rest) \<and> be_buffer e' = []
         else status result = GAP_DETECTED \<and> be_state e' = RESYNCING \<and>
              be_last_applied_id e' = None \<and> full_book e' = ([], []) \<and>
              (\<exists>pre event post. rest = pre @ event # post \<and> chained (final_id first) pre \<and>
                 prev_id event \<noteq> end_id (final_id first) pre \<and> be_buffer e' = [event]))"
proof -
  obtain result e' where r: "load_snapshot e s = Inr (result, e')"
    using assms by (rule load_snapshot_not_live)
  from r show ?thesis
  proof (cases rule: load_snapshot_cases)
    case none
    with r show ?thesis by (simp add: engine_book_def snapshot_book_def)
  next
    case stale
    with r show ?thesis by simp
  next
    case (replayed first rest)
    note result = replayed(4) [symmetric]
    show ?thesis
    proof (cases "chained (final_id first) rest")
      case True
      with replay_chained [of "replay_start e s first" "final_id first" rest] r replayed(1-3)
      show ?thesis by (simp add: result)
    next
      case False
      obtain pre event post where gap: "rest = pre @ event # post" "chained (final_id first) pre"
        "prev_id event \<noteq> end_id (final_id first) pre"
        "status (fst (replay (replay_start e s first) rest)) = GAP_DETECTED"
        "snd (replay (replay_start e s first) rest) = (replay_start e s first)
          \<lparr>be_state := RESYNCING, be_bids := [], be_asks := [], be_last_applied_id := None,
            be_buffer := [event]\<rparr>"
        by (rule replay_gap [OF _ False]) auto
      have buffer: "be_buffer e' = [event]"
        using gap(5) by (simp add: result)
      have "\<exists>pre event post. rest = pre @ event # post \<and> chained (final_id first) pre \<and>
          prev_id event \<noteq> end_id (final_id first) pre \<and> be_buffer e' = [event]"
        using gap(1-3) buffer by blast
      moreover have "status result = GAP_DETECTED" "be_state e' = RESYNCING"
        "be_last_applied_id e' = None" "full_book e' = ([], [])"
        using gap(4,5) by (simp_all add: result full_book_def)
      ultimately show ?thesis
        using r replayed(1-3) False by simp
    qed
  qed
qed

text \<open>
  C4: the outcome of \<open>load_snapshot\<close> on an engine that is not live. It never raises. The
  buffered events up to the snapshot's id are dropped; if the first one left begins after that id,
  the snapshot is reported stale and the engine is left as it
  was, buffer included. Otherwise the survivors are replayed in order on the snapshot's book: if
  they form a chain, the engine is live at the last of them; if not, the replay stops at the first
  event that does not chain, which alone is kept as the new buffer, so that the survivors after it
  are dropped.
\<close>

theorem load_snapshot_outcome:
  assumes "be_state e \<noteq> LIVE"
  shows "\<exists>result e'. load_snapshot e s = Inr (result, e') \<and>
    (case filter (\<lambda>ev. last_update_id s < final_id ev) (be_buffer e) of
       [] \<Rightarrow> status result = APPLIED \<and> be_state e' = LIVE \<and> engine_book e' = snapshot_book s \<and>
             be_last_applied_id e' = Some (last_update_id s) \<and> be_buffer e' = []
     | first # rest \<Rightarrow>
         if last_update_id s < prev_id first then status result = SNAPSHOT_STALE \<and> e' = e
         else if chained (final_id first) rest
         then status result = APPLIED \<and> be_state e' = LIVE \<and>
              engine_book e' = foldl book_step (snapshot_book s) (first # rest) \<and>
              be_last_applied_id e' = Some (end_id (final_id first) rest) \<and> be_buffer e' = []
         else status result = GAP_DETECTED \<and> be_state e' = RESYNCING \<and>
              be_last_applied_id e' = None \<and> full_book e' = ([], []) \<and>
              (\<exists>pre event post. rest = pre @ event # post \<and> chained (final_id first) pre \<and>
                 prev_id event \<noteq> end_id (final_id first) pre \<and> be_buffer e' = [event]))"
proof (cases "survivors e s")
  case Nil
  with load_snapshot_by_survivors [OF assms, of s] show ?thesis by (simp add: survivors_def)
next
  case (Cons first rest)
  then have "first \<in> set (survivors e s)" by simp
  then have "last_update_id s < final_id first" by (simp add: survivors_def)
  then have "\<not> straddles first s \<longleftrightarrow> last_update_id s < prev_id first" by (auto simp: straddles_def)
  with load_snapshot_by_survivors [OF assms, of s] Cons show ?thesis by (simp add: survivors_def)
qed

text \<open>Witness: three buffered events, of which the second does not chain; the third is lost.\<close>

definition gappy_engine :: book_engine where
  "gappy_engine = (new_engine 20)
     \<lparr>be_buffer :=
       [\<lparr>prev_id = 0, final_id = 1, ev_bids = [], ev_asks = []\<rparr>,
        \<lparr>prev_id = 2, final_id = 3, ev_bids = [], ev_asks = []\<rparr>,
        \<lparr>prev_id = 3, final_id = 4, ev_bids = [], ev_asks = []\<rparr>]\<rparr>"

lemma load_snapshot_outcome_witness:
  "\<exists>result e'. load_snapshot gappy_engine \<lparr>last_update_id = 0, sn_bids = [], sn_asks = []\<rparr> =
      Inr (result, e') \<and> status result = GAP_DETECTED \<and>
      be_buffer e' = [\<lparr>prev_id = 2, final_id = 3, ev_bids = [], ev_asks = []\<rparr>]"
proof -
  have st: "be_state gappy_engine \<noteq> LIVE"
    by (simp add: gappy_engine_def new_engine_def)
  show ?thesis
    using load_snapshot_outcome [OF st, of "\<lparr>last_update_id = 0, sn_bids = [], sn_asks = []\<rparr>"]
    by (auto simp: gappy_engine_def new_engine_def survivors_def straddles_def end_id_def
        Cons_eq_append_conv split: if_splits)
qed

text \<open>
  \<open>apply_levels\<close> is absolute: the last mention of a price decides, a zero quantity removes
  it and prices not mentioned keep their quantity. So applying the same levels again changes
  nothing, and no zero quantity is ever stored.
\<close>

theorem apply_levels_absolute:
  "map_of (apply_levels side levels) = overlay (map_of side) levels \<and>
   map_of (apply_levels (apply_levels side levels) levels) = map_of (apply_levels side levels) \<and>
   (\<forall>p. map_of (apply_levels side levels) p = Some 0 \<longrightarrow>
      map_of side p = Some 0 \<and> p \<notin> fst ` set levels)"
proof (intro conjI allI impI)
  fix p
  assume "map_of (apply_levels side levels) p = Some 0"
  then show "map_of side p = Some 0" "p \<notin> fst ` set levels"
    by (auto simp: overlay_def map_of_eq_None_iff split: option.splits if_splits
        dest: map_of_eq_None_iff [THEN iffD1])
qed simp_all

lemma apply_levels_absolute_witness:
  "apply_levels [(100, 1), (99, 2)] [(100, 5), (99, 0)] = [(100, 5)] \<and>
   map_of (apply_levels [(7, 0)] [(8, 1)]) 7 = Some (0 :: rat) \<and> (7 :: rat) \<notin> fst ` set [(8, 1 :: rat)]"
proof -
  have "map_of (apply_levels [(7, 0)] [(8, 1)]) 7 = Some (0 :: rat)" by simp
  with apply_levels_absolute [of "[(7, 0)]" "[(8, 1)]"]
  show ?thesis by simp
qed

text \<open>
  \<open>top_levels\<close> of a well-formed engine gives the best \<open>n\<close> levels of each side, best first:
  bids by falling price and asks by rising price, all from the book, and every level of the book
  that is left out is worse than every level returned.
\<close>

theorem top_levels_best:
  assumes "engine_wf e" and "0 \<le> n" and "top_levels e (Some n) = (bids, asks)"
  shows "sorted_wrt (>) (map fst bids) \<and> sorted_wrt (<) (map fst asks) \<and>
    length bids = min (nat n) (length (be_bids e)) \<and> length asks = min (nat n) (length (be_asks e)) \<and>
    set bids \<subseteq> set (be_bids e) \<and> set asks \<subseteq> set (be_asks e) \<and>
    (\<forall>out \<in> set (be_bids e) - set bids. \<forall>best \<in> set bids. fst out < fst best) \<and>
    (\<forall>out \<in> set (be_asks e) - set asks. \<forall>best \<in> set asks. fst best < fst out)"
proof -
  have b: "sorted_wrt (>) (map fst (rev (sort (be_bids e))))"
    and a: "sorted_wrt (<) (map fst (sort (be_asks e)))"
    using assms(1) sort_keys_strict [of "be_bids e"] sort_keys_strict [of "be_asks e"]
    by (simp_all add: engine_wf_def rev_map [symmetric] sorted_wrt_rev)
  have bids: "bids = take (nat n) (rev (sort (be_bids e)))"
    and asks: "asks = take (nat n) (sort (be_asks e))"
    using assms(2,3) by (simp_all add: top_levels_def slice_to_def)
  show ?thesis
  proof (intro conjI ballI)
    show "sorted_wrt (>) (map fst bids)" "sorted_wrt (<) (map fst asks)"
      unfolding bids asks take_map [symmetric] using a b by (simp_all add: sorted_wrt_take)
    show "length bids = min (nat n) (length (be_bids e))" "length asks = min (nat n) (length (be_asks e))"
      by (simp_all add: bids asks min.commute)
    show "set bids \<subseteq> set (be_bids e)" "set asks \<subseteq> set (be_asks e)"
      unfolding bids asks using set_take_subset by fastforce+
  next
    fix out best
    assume "out \<in> set (be_bids e) - set bids" "best \<in> set bids"
    then show "fst out < fst best"
      using take_best [OF b, of out "nat n" best] unfolding bids by auto
  next
    fix out best
    assume "out \<in> set (be_asks e) - set asks" "best \<in> set asks"
    then show "fst best < fst out"
      using take_best [OF a, of out "nat n" best] unfolding asks by auto
  qed
qed

lemma top_levels_best_witness:
  "\<exists>e :: book_engine. \<exists>bids asks. engine_wf e \<and> top_levels e (Some 1) = (bids, asks) \<and>
     be_bids e = [(99, 1), (100, 2)] \<and> length bids = 1 \<and>
     (\<forall>out \<in> set (be_bids e) - set bids. \<forall>best \<in> set bids. fst out < fst best)"
proof -
  let ?e = "(new_engine 20)\<lparr>be_state := LIVE, be_last_applied_id := Some 1,
    be_bids := [(99, 1), (100, 2)]\<rparr>"
  obtain bids asks where t: "top_levels ?e (Some 1) = (bids, asks)" by fastforce
  have wf: "engine_wf ?e" by (simp add: engine_wf_def new_engine_def)
  show ?thesis
    using top_levels_best [OF wf _ t] wf t by (intro exI [of _ ?e] exI [of _ bids] exI [of _ asks]) simp
qed

end
