(* ===== verification/RateLimit.thy ===== *)
theory RateLimit
  imports Prelude
begin

text \<open>
  The token bucket of \<^verbatim>\<open>feeds/ratelimit.py\<close>. The injected clock is read once per call, so
  each operation takes the time it read. The locale \<open>metered\<close> is what a client relies on: a
  level that a granted call lowers by its cost and that rises at most at a rate.
\<close>

section \<open>The bucket\<close>

record token_bucket =
  tb_capacity :: rat
  tb_refill_rate :: rat
  tb_tokens :: rat
  tb_last_refill :: seconds

definition new_bucket :: "rat \<Rightarrow> rat \<Rightarrow> seconds \<Rightarrow> token_bucket" where
  "new_bucket capacity rate now =
     \<lparr>tb_capacity = capacity, tb_refill_rate = rate, tb_tokens = capacity, tb_last_refill = now\<rparr>"

definition default_snapshot_bucket :: "seconds \<Rightarrow> token_bucket" where
  "default_snapshot_bucket = new_bucket 10 (1 / 2)"

definition refill :: "token_bucket \<Rightarrow> seconds \<Rightarrow> token_bucket" where
  "refill b now =
     (let elapsed = now - tb_last_refill b
      in b\<lparr>tb_tokens := min (tb_capacity b) (tb_tokens b + elapsed * tb_refill_rate b),
           tb_last_refill := now\<rparr>)"

definition try_acquire :: "token_bucket \<Rightarrow> rat \<Rightarrow> seconds \<Rightarrow> bool \<times> token_bucket" where
  "try_acquire b cost now =
     (let b' = refill b now
      in if cost \<le> tb_tokens b' then (True, b'\<lparr>tb_tokens := tb_tokens b' - cost\<rparr>) else (False, b'))"

definition time_until_available ::
  "token_bucket \<Rightarrow> rat \<Rightarrow> seconds \<Rightarrow> seconds result \<times> token_bucket" where
  "time_until_available b cost now =
     (let b' = refill b now
      in if cost \<le> tb_tokens b' then (Inr 0, b')
         else if tb_refill_rate b' = 0 then (Inl ZeroDivisionError, b')
         else (Inr ((cost - tb_tokens b') / tb_refill_rate b'), b'))"

section \<open>The interface: metered calls\<close>

locale metered =
  fixes acquire :: "'s \<Rightarrow> rat \<Rightarrow> seconds \<Rightarrow> bool \<times> 's"
    and level :: "'s \<Rightarrow> rat"
    and last_seen :: "'s \<Rightarrow> seconds"
    and rate :: "'s \<Rightarrow> rat"
    and invar :: "'s \<Rightarrow> bool"
  assumes invar_acquire: "invar s \<Longrightarrow> 0 \<le> cost \<Longrightarrow> last_seen s \<le> now \<Longrightarrow> invar (snd (acquire s cost now))"
    and level_nonneg: "invar s \<Longrightarrow> 0 \<le> level s"
    and pays: "invar s \<Longrightarrow> 0 \<le> cost \<Longrightarrow> last_seen s \<le> now \<Longrightarrow>
      level (snd (acquire s cost now)) + (if fst (acquire s cost now) then cost else 0)
        \<le> level s + rate s * (now - last_seen s)"
    and last_seen_acquire: "last_seen (snd (acquire s cost now)) = now"
    and rate_acquire: "rate (snd (acquire s cost now)) = rate s"

text \<open>The costs a sequence of calls at given times was granted.\<close>

fun granted :: "('s \<Rightarrow> rat \<Rightarrow> seconds \<Rightarrow> bool \<times> 's) \<Rightarrow> 's \<Rightarrow> (rat \<times> seconds) list \<Rightarrow> rat" where
  "granted acquire s [] = 0"
| "granted acquire s ((cost, now) # calls) =
     (let (ok, s') = acquire s cost now in (if ok then cost else 0) + granted acquire s' calls)"

fun call_times_ok :: "seconds \<Rightarrow> (rat \<times> seconds) list \<Rightarrow> bool" where
  "call_times_ok t [] = True"
| "call_times_ok t ((cost, now) # calls) = (0 \<le> cost \<and> t \<le> now \<and> call_times_ok now calls)"

fun end_time :: "seconds \<Rightarrow> (rat \<times> seconds) list \<Rightarrow> seconds" where
  "end_time t [] = t"
| "end_time t ((cost, now) # calls) = end_time now calls"

context metered
begin

lemma granted_bound:
  assumes "invar s" and "call_times_ok (last_seen s) calls"
  shows "granted acquire s calls \<le> level s + rate s * (end_time (last_seen s) calls - last_seen s)"
  using assms
proof (induction calls arbitrary: s)
  case Nil
  then show ?case by (simp add: level_nonneg)
next
  case (Cons call calls)
  obtain cost now where call: "call = (cost, now)" by fastforce
  let ?s' = "snd (acquire s cost now)"
  have pre: "0 \<le> cost" "last_seen s \<le> now" "call_times_ok now calls"
    using Cons.prems(2) call by simp_all
  have "granted acquire ?s' calls \<le> level ?s' + rate s * (end_time now calls - now)"
    using Cons.IH [of ?s'] Cons.prems(1) pre invar_acquire by (simp add: last_seen_acquire rate_acquire)
  with pays [OF Cons.prems(1) pre(1,2)]
  show ?case by (simp add: call split_beta Let_def algebra_simps)
qed

end

section \<open>The bucket is metered\<close>

definition bucket_wf :: "token_bucket \<Rightarrow> bool" where
  "bucket_wf b \<longleftrightarrow> 0 \<le> tb_tokens b \<and> tb_tokens b \<le> tb_capacity b \<and> 0 \<le> tb_refill_rate b"

lemma new_bucket_wf [wf_intros]: "0 \<le> capacity \<Longrightarrow> 0 \<le> rate \<Longrightarrow> bucket_wf (new_bucket capacity rate now)"
  by (simp add: bucket_wf_def new_bucket_def)

lemma refill_wf [wf_intros]: "bucket_wf b \<Longrightarrow> tb_last_refill b \<le> now \<Longrightarrow> bucket_wf (refill b now)"
  by (auto simp: bucket_wf_def refill_def Let_def)

lemma refill_simps [simp]:
  "tb_capacity (refill b now) = tb_capacity b"
  "tb_refill_rate (refill b now) = tb_refill_rate b"
  "tb_last_refill (refill b now) = now"
  by (simp_all add: refill_def Let_def)

lemma try_acquire_wf [wf_intros]:
  "bucket_wf b \<Longrightarrow> 0 \<le> cost \<Longrightarrow> tb_last_refill b \<le> now \<Longrightarrow> bucket_wf (snd (try_acquire b cost now))"
  using refill_wf [of b now] by (auto simp: try_acquire_def Let_def bucket_wf_def)

lemma time_until_available_wf [wf_intros]:
  "bucket_wf b \<Longrightarrow> tb_last_refill b \<le> now \<Longrightarrow> bucket_wf (snd (time_until_available b cost now))"
  by (simp add: time_until_available_def Let_def refill_wf)

interpretation bucket: metered try_acquire tb_tokens tb_last_refill tb_refill_rate bucket_wf
proof unfold_locales
  fix s :: token_bucket and cost now :: rat
  assume "bucket_wf s" "0 \<le> cost" "tb_last_refill s \<le> now"
  then show "bucket_wf (snd (try_acquire s cost now))" by (rule try_acquire_wf)
  show "tb_tokens (snd (try_acquire s cost now)) + (if fst (try_acquire s cost now) then cost else 0)
      \<le> tb_tokens s + tb_refill_rate s * (now - tb_last_refill s)"
    by (simp add: try_acquire_def refill_def Let_def mult.commute)
qed (simp_all add: bucket_wf_def try_acquire_def Let_def)

text \<open>
  A bucket with the given capacity and rate, full at \<open>t0\<close>, from which at most \<open>x\<close> has been taken: what
  a client keeps that acquires only when its level allows it.
\<close>

definition spent :: "rat \<Rightarrow> rat \<Rightarrow> seconds \<Rightarrow> rat \<Rightarrow> token_bucket \<Rightarrow> bool" where
  "spent capacity rate t0 x b \<longleftrightarrow>
     bucket_wf b \<and> tb_refill_rate b = rate \<and> tb_capacity b = capacity \<and>
     x + tb_tokens b \<le> capacity + rate * (tb_last_refill b - t0)"

lemma new_bucket_spent: "0 \<le> capacity \<Longrightarrow> 0 \<le> rate \<Longrightarrow> spent capacity rate t0 0 (new_bucket capacity rate t0)"
  by (simp add: spent_def new_bucket_wf) (simp add: new_bucket_def)

lemma spent_mono: "spent capacity rate t0 x b \<Longrightarrow> y \<le> x \<Longrightarrow> spent capacity rate t0 y b"
  unfolding spent_def by (blast intro: order_trans add_right_mono)

lemma spent_bound: "spent capacity rate t0 x b \<Longrightarrow> tb_last_refill b \<le> t \<Longrightarrow> x \<le> capacity + rate * (t - t0)"
proof -
  assume a: "spent capacity rate t0 x b" "tb_last_refill b \<le> t"
  then have "x \<le> capacity + rate * (tb_last_refill b - t0)" by (simp add: spent_def bucket_wf_def)
  also have "rate * (tb_last_refill b - t0) \<le> rate * (t - t0)"
    using a by (intro mult_left_mono) (auto simp: spent_def bucket_wf_def)
  finally show ?thesis by simp
qed

lemma refill_spent:
  assumes "spent capacity rate t0 x b" and "tb_last_refill b \<le> now"
  shows "spent capacity rate t0 x (refill b now)"
proof -
  have b: "bucket_wf b" "tb_refill_rate b = rate" "tb_capacity b = capacity"
    "x + tb_tokens b \<le> capacity + rate * (tb_last_refill b - t0)"
    using assms(1) by (simp_all add: spent_def)
  have "tb_tokens (refill b now) \<le> tb_tokens b + (now - tb_last_refill b) * rate"
    by (simp add: refill_def Let_def b(2))
  with b(4) have "x + tb_tokens (refill b now) \<le> capacity + rate * (now - t0)"
    by (simp add: algebra_simps)
  with b(1-3) refill_wf [OF b(1) assms(2)] show ?thesis by (simp add: spent_def)
qed

lemma acquire_last [simp]: "tb_last_refill (snd (try_acquire b cost now)) = now"
  by (simp add: try_acquire_def Let_def)

lemma acquire_rate [simp]: "tb_refill_rate (snd (try_acquire b cost now)) = tb_refill_rate b"
  by (simp add: try_acquire_def Let_def)

lemma wait_rate [simp]: "tb_refill_rate (snd (time_until_available b cost now)) = tb_refill_rate b"
  by (simp add: time_until_available_def Let_def)

lemma acquire_spent:
  assumes "spent capacity rate t0 x b" and "tb_last_refill b \<le> now" and "0 \<le> cost" and "cost \<le> capacity"
    and "cost \<le> tb_tokens b + (now - tb_last_refill b) * rate"
  shows "spent capacity rate t0 (x + cost) (snd (try_acquire b cost now))"
proof -
  have b: "bucket_wf b" "tb_refill_rate b = rate" "tb_capacity b = capacity"
    "x + tb_tokens b \<le> capacity + rate * (tb_last_refill b - t0)"
    using assms(1) by (simp_all add: spent_def)
  have granted: "fst (try_acquire b cost now)"
    using assms(4,5) by (simp add: try_acquire_def refill_def Let_def b(2,3))
  have frame: "tb_capacity (snd (try_acquire b cost now)) = capacity"
    using b by (simp add: try_acquire_def Let_def)
  have "tb_tokens (snd (try_acquire b cost now)) + cost \<le> tb_tokens b + rate * (now - tb_last_refill b)"
    using bucket.pays [OF b(1) assms(3,2)] granted b(2) by simp
  with b(4) have "x + cost + tb_tokens (snd (try_acquire b cost now)) \<le> capacity + rate * (now - t0)"
    by (simp add: algebra_simps)
  then show ?thesis
    using b(2) frame bucket.invar_acquire [OF b(1) assms(3,2)] by (simp add: spent_def)
qed

text \<open>
  The way the clients throttle: wait as long as \<open>time_until_available\<close> says, then acquire without
  looking at the result. The gate is what a client keeps while it sleeps until a time.
\<close>

definition throttle_gate :: "rat \<Rightarrow> token_bucket \<Rightarrow> seconds \<Rightarrow> bool" where
  "throttle_gate cost b until \<longleftrightarrow>
     cost \<le> tb_tokens b + (until - tb_last_refill b) * tb_refill_rate b"

lemma wait_gate:
  assumes "spent capacity rate t0 x b" and "tb_last_refill b \<le> now" and "rate \<noteq> 0"
    and "time_until_available b cost now = (Inr wait, b')"
  shows "spent capacity rate t0 x b'" "tb_last_refill b' = now" "throttle_gate cost b' (now + wait)"
proof -
  have b': "b' = refill b now" using assms(4) by (auto simp: time_until_available_def Let_def split: if_splits)
  then show "spent capacity rate t0 x b'" "tb_last_refill b' = now"
    using refill_spent [OF assms(1,2)] by simp_all
  have rate: "tb_refill_rate b = rate" using assms(1) by (simp add: spent_def)
  show "throttle_gate cost b' (now + wait)"
    using assms(3,4) unfolding b'
    by (auto simp: throttle_gate_def time_until_available_def Let_def rate split: if_splits)
qed

lemma gate_acquire:
  assumes "spent capacity rate t0 x b" and "tb_last_refill b \<le> now" and "throttle_gate cost b until"
    and "until \<le> now" and "0 \<le> cost" and "cost \<le> capacity"
  shows "spent capacity rate t0 (x + cost) (snd (try_acquire b cost now))"
proof (rule acquire_spent [OF assms(1,2,5,6)])
  have rate: "tb_refill_rate b = rate" "0 \<le> rate" using assms(1) by (auto simp: spent_def bucket_wf_def)
  have "(until - tb_last_refill b) * rate \<le> (now - tb_last_refill b) * rate"
    using assms(4) rate(2) by (intro mult_right_mono) simp_all
  with assms(3) rate(1) show "cost \<le> tb_tokens b + (now - tb_last_refill b) * rate"
    by (simp add: throttle_gate_def)
qed

section \<open>Properties\<close>

text \<open>
  C8: over any sequence of calls at non-decreasing times, what a bucket grants from its start to
  the last call is at most its capacity plus the refill rate times the time passed.
\<close>

theorem bucket_rate_bound:
  assumes "0 \<le> capacity" and "0 \<le> rate" and "call_times_ok t calls"
  shows "granted try_acquire (new_bucket capacity rate t) calls \<le> capacity + rate * (end_time t calls - t)"
  using bucket.granted_bound [of "new_bucket capacity rate t" calls] assms
  by (simp add: new_bucket_wf) (simp add: new_bucket_def)

lemma bucket_rate_bound_witness:
  "granted try_acquire (new_bucket 10 (1 / 2) 0) [(8, 1), (8, 2), (8, 12)] \<le> 10 + 1 / 2 * (12 - 0)"
  using bucket_rate_bound [of 10 "1 / 2" 0 "[(8, 1), (8, 2), (8, 12)]"] by simp

text \<open>
  \<open>time_until_available\<close> is exact: with a positive refill rate and a cost within the capacity
  it returns the least wait, in that an attempt on the refilled bucket succeeds at any time from
  then on and fails at any earlier time.
\<close>

theorem wait_is_exact:
  assumes "bucket_wf b" and "0 < tb_refill_rate b" and "cost \<le> tb_capacity b"
    and "tb_last_refill b \<le> now" and "now \<le> later"
  shows "\<exists>wait b'. time_until_available b cost now = (Inr wait, b') \<and> 0 \<le> wait \<and>
           (fst (try_acquire b' cost later) \<longleftrightarrow> now + wait \<le> later)"
proof -
  let ?tokens = "tb_tokens (refill b now)"
  have later: "tb_tokens (refill (refill b now) later) =
      min (tb_capacity b) (?tokens + (later - now) * tb_refill_rate b)"
    by (simp add: refill_def Let_def)
  show ?thesis
  proof (cases "cost \<le> ?tokens")
    case True
    moreover have "0 \<le> (later - now) * tb_refill_rate b"
      using assms(2,5) by simp
    ultimately show ?thesis
      using assms(3,5) later by (auto simp: time_until_available_def try_acquire_def Let_def)
  next
    case False
    have "cost \<le> ?tokens + (later - now) * tb_refill_rate b \<longleftrightarrow>
        now + (cost - ?tokens) / tb_refill_rate b \<le> later"
      using assms(2) by (simp add: field_simps)
    with False assms(2,3) later show ?thesis
      by (auto simp: time_until_available_def try_acquire_def Let_def)
  qed
qed

lemma wait_is_exact_witness:
  "\<exists>wait b'. time_until_available (new_bucket 10 (1 / 2) 0\<lparr>tb_tokens := 0\<rparr>) 2 0 = (Inr wait, b') \<and>
     0 \<le> wait \<and> (fst (try_acquire b' 2 4) \<longleftrightarrow> 0 + wait \<le> 4)"
  by (rule wait_is_exact) (simp_all add: bucket_wf_def new_bucket_def)

end
