(* ===== verification/RowQueue.thy ===== *)
theory RowQueue
  imports BookEngine "HOL-Library.Sublist"
begin

text \<open>
  The rows the feeds produce and the bounded queue between the feeds and the sink:
  \<open>SnapshotRow\<close> and \<open>BoundedRowQueue\<close> of \<^verbatim>\<open>sinks/parquet_sink.py\<close>, and
  \<open>build_snapshot_row\<close> of \<^verbatim>\<open>feeds/envelope.py\<close>. \<open>asyncio.Queue\<close> is its list of items and
  its \<open>maxsize\<close>, where a \<open>maxsize\<close> that is not positive means unbounded. The locale
  \<open>lossy_fifo\<close> is the contract the sink relies on.
\<close>

section \<open>Rows\<close>

record snapshot_row =
  row_exchange :: string
  row_symbol :: string
  row_ts_exchange_ms :: "int option"
  row_ts_local_ns :: int
  row_ts_wall_ns :: int
  row_last_applied_id :: int
  row_bids :: "price_level list"
  row_asks :: "price_level list"

record instrument_id =
  exchange :: string
  symbol :: string

record timestamped_event =
  te_ts_local_ns :: int
  te_ts_wall_ns :: int
  te_instrument :: instrument_id
  te_event :: diff_event
  te_ts_exchange_ms :: "int option"

definition build_snapshot_row ::
  "book_engine \<Rightarrow> instrument_id \<Rightarrow> int \<Rightarrow> int \<Rightarrow> int option \<Rightarrow> snapshot_row result" where
  "build_snapshot_row engine instrument ts_local_ns ts_wall_ns ts_exchange_ms =
     (case be_last_applied_id engine of
        None \<Rightarrow> Inl AssertionError
      | Some last_applied_id \<Rightarrow>
          (let (bids, asks) = top_levels engine None
           in Inr \<lparr>row_exchange = exchange instrument, row_symbol = symbol instrument,
                   row_ts_exchange_ms = ts_exchange_ms, row_ts_local_ns = ts_local_ns,
                   row_ts_wall_ns = ts_wall_ns, row_last_applied_id = last_applied_id,
                   row_bids = bids, row_asks = asks\<rparr>))"

section \<open>The queue\<close>

record row_queue =
  rq_maxsize :: int
  rq_items :: "snapshot_row list"
  rq_rows_dropped :: nat

definition new_row_queue :: "int \<Rightarrow> row_queue" where
  "new_row_queue maxsize = \<lparr>rq_maxsize = maxsize, rq_items = [], rq_rows_dropped = 0\<rparr>"

definition put_nowait :: "row_queue \<Rightarrow> snapshot_row \<Rightarrow> row_queue result" where
  "put_nowait q row =
     (if 0 < rq_maxsize q \<and> rq_maxsize q \<le> int (length (rq_items q)) then Inl QueueFull
      else Inr (q\<lparr>rq_items := rq_items q @ [row]\<rparr>))"

definition get_nowait :: "row_queue \<Rightarrow> (snapshot_row \<times> row_queue) result" where
  "get_nowait q =
     (case rq_items q of [] \<Rightarrow> Inl QueueEmpty | row # rows \<Rightarrow> Inr (row, q\<lparr>rq_items := rows\<rparr>))"

text \<open>\<open>put\<close>: whether a row had to be evicted; the second \<open>put_nowait\<close> may raise as well.\<close>

definition put :: "row_queue \<Rightarrow> snapshot_row \<Rightarrow> bool result \<times> row_queue" where
  "put q row =
     (case put_nowait q row of
        Inr q' \<Rightarrow> (Inr False, q')
      | Inl _ \<Rightarrow>
          (let q1 = (case get_nowait q of Inl _ \<Rightarrow> q | Inr (_, q') \<Rightarrow> q');
               q2 = q1\<lparr>rq_rows_dropped := rq_rows_dropped q1 + 1\<rparr>
           in case put_nowait q2 row of Inr q3 \<Rightarrow> (Inr True, q3) | Inl err \<Rightarrow> (Inl err, q2)))"

text \<open>\<open>get\<close> waits on an empty queue: \<open>None\<close> is a call that is still waiting.\<close>

definition get :: "row_queue \<Rightarrow> (snapshot_row \<times> row_queue) option" where
  "get q = (case get_nowait q of Inl _ \<Rightarrow> None | Inr r \<Rightarrow> Some r)"

definition qsize :: "row_queue \<Rightarrow> nat" where
  "qsize q = length (rq_items q)"

section \<open>The interface: a queue that drops its oldest item\<close>

locale lossy_fifo =
  fixes fput :: "'q \<Rightarrow> 'a \<Rightarrow> 'q"
    and fget :: "'q \<Rightarrow> ('a \<times> 'q) option"
    and items :: "'q \<Rightarrow> 'a list"
    and lost :: "'q \<Rightarrow> nat"
    and room :: "'q \<Rightarrow> bool"
    and invar :: "'q \<Rightarrow> bool"
  assumes put_room: "invar q \<Longrightarrow> room q \<Longrightarrow> items (fput q x) = items q @ [x] \<and> lost (fput q x) = lost q"
    and put_full: "invar q \<Longrightarrow> \<not> room q \<Longrightarrow>
      items q \<noteq> [] \<and> items (fput q x) = tl (items q) @ [x] \<and> lost (fput q x) = lost q + 1"
    and get_none: "invar q \<Longrightarrow> fget q = None \<longleftrightarrow> items q = []"
    and get_some: "invar q \<Longrightarrow> fget q = Some (x, q') \<Longrightarrow> items q = x # items q' \<and> lost q' = lost q"
    and invar_put: "invar q \<Longrightarrow> invar (fput q x)"
    and invar_get: "invar q \<Longrightarrow> fget q = Some (x, q') \<Longrightarrow> invar q'"

text \<open>Producers and the consumer interleaved: \<open>Put x\<close>, or an attempt to take one item.\<close>

datatype 'a fifo_op = Put 'a | Get

fun fifo_run ::
  "('q \<Rightarrow> 'a \<Rightarrow> 'q) \<Rightarrow> ('q \<Rightarrow> ('a \<times> 'q) option) \<Rightarrow> 'q \<Rightarrow> 'a fifo_op list \<Rightarrow> 'a list \<times> 'q" where
  "fifo_run fput fget q [] = ([], q)"
| "fifo_run fput fget q (Put x # ops) = fifo_run fput fget (fput q x) ops"
| "fifo_run fput fget q (Get # ops) =
     (case fget q of
        None \<Rightarrow> fifo_run fput fget q ops
      | Some (x, q') \<Rightarrow> (let (got, q'') = fifo_run fput fget q' ops in (x # got, q'')))"

fun puts :: "'a fifo_op list \<Rightarrow> 'a list" where
  "puts [] = []"
| "puts (Put x # ops) = x # puts ops"
| "puts (Get # ops) = puts ops"

context lossy_fifo
begin

lemma fifo_run_accounts:
  assumes "invar q" and "fifo_run fput fget q ops = (got, q')"
  shows "invar q' \<and> subseq (got @ items q') (items q @ puts ops) \<and>
    length (items q) + length (puts ops) + lost q = length got + length (items q') + lost q'"
  using assms
proof (induction ops arbitrary: q got)
  case (Cons op ops)
  show ?case
  proof (cases op)
    case (Put x)
    with Cons.prems have run: "fifo_run fput fget (fput q x) ops = (got, q')" by simp
    note IH = Cons.IH [OF invar_put [OF Cons.prems(1)] run]
    show ?thesis
    proof (cases "room q")
      case True
      with IH put_room [OF Cons.prems(1) True, of x] Put show ?thesis by simp
    next
      case False
      obtain y ys where ys: "items q = y # ys"
        using put_full [OF Cons.prems(1) False] by (cases "items q") auto
      with IH put_full [OF Cons.prems(1) False, of x] Put
      have "subseq (got @ items q') (ys @ x # puts ops)" by simp
      then have "subseq (got @ items q') (y # ys @ x # puts ops)" by (rule list_emb_Cons)
      with IH put_full [OF Cons.prems(1) False, of x] Put ys show ?thesis by simp
    qed
  next
    case Get
    show ?thesis
    proof (cases "fget q")
      case None
      with Cons Get show ?thesis by simp
    next
      case (Some r)
      obtain x q1 where r: "r = (x, q1)" by fastforce
      obtain rest where rest: "fifo_run fput fget q1 ops = (rest, q')" and got: "got = x # rest"
        using Cons.prems(2) Get Some r by (auto split: prod.splits)
      from Cons.IH [OF invar_get [OF Cons.prems(1) Some [unfolded r]] rest]
        get_some [OF Cons.prems(1) Some [unfolded r]] got Get
      show ?thesis by simp
    qed
  qed
qed simp

end

section \<open>The row queue meets the contract\<close>

definition queue_wf :: "row_queue \<Rightarrow> bool" where
  "queue_wf q \<longleftrightarrow> (0 < rq_maxsize q \<longrightarrow> int (length (rq_items q)) \<le> rq_maxsize q)"

definition has_room :: "row_queue \<Rightarrow> bool" where
  "has_room q \<longleftrightarrow> \<not> (0 < rq_maxsize q \<and> rq_maxsize q \<le> int (length (rq_items q)))"

lemma new_row_queue_wf [wf_intros]: "queue_wf (new_row_queue maxsize)"
  by (simp add: queue_wf_def new_row_queue_def)

lemma put_room: "has_room q \<Longrightarrow> put q row = (Inr False, q\<lparr>rq_items := rq_items q @ [row]\<rparr>)"
  by (auto simp: put_def put_nowait_def has_room_def)

lemma put_full:
  assumes "queue_wf q" and "\<not> has_room q"
  shows "rq_items q \<noteq> [] \<and> put q row =
    (Inr True, q\<lparr>rq_items := tl (rq_items q) @ [row], rq_rows_dropped := rq_rows_dropped q + 1\<rparr>)"
  using assms
  by (cases "rq_items q") (auto simp: put_def put_nowait_def get_nowait_def has_room_def queue_wf_def Let_def)

lemma put_wf [wf_intros]: "queue_wf q \<Longrightarrow> queue_wf (snd (put q row))"
  using put_full [of q row] by (cases "has_room q") (auto simp: put_room queue_wf_def has_room_def)

lemma get_wf [wf_intros]: "queue_wf q \<Longrightarrow> get q = Some (row, q') \<Longrightarrow> queue_wf q'"
  by (auto simp: get_def get_nowait_def queue_wf_def split: list.splits)

interpretation rows: lossy_fifo "\<lambda>q row. snd (put q row)" get rq_items rq_rows_dropped has_room queue_wf
proof unfold_locales
  fix q q' :: row_queue and x
  show "queue_wf q \<Longrightarrow> \<not> has_room q \<Longrightarrow> rq_items q \<noteq> [] \<and>
      rq_items (snd (put q x)) = tl (rq_items q) @ [x] \<and>
      rq_rows_dropped (snd (put q x)) = rq_rows_dropped q + 1"
    using put_full [of q x] by simp
  show "get q = None \<longleftrightarrow> rq_items q = []"
    by (auto simp: get_def get_nowait_def split: list.splits)
  show "get q = Some (x, q') \<Longrightarrow> rq_items q = x # rq_items q' \<and> rq_rows_dropped q' = rq_rows_dropped q"
    by (auto simp: get_def get_nowait_def split: list.splits)
qed (auto simp: put_room put_wf intro: get_wf)

section \<open>Properties\<close>

text \<open>
  Whatever the interleaving of producers and consumer, \<open>put\<close> never raises, the queue never
  exceeds a positive \<open>maxsize\<close>, the rows taken and the rows still queued are the rows put, in the
  order they were put and each at most once, and \<open>rows_dropped\<close> counts exactly the missing ones.
\<close>

theorem row_queue_accounts:
  assumes "fifo_run (\<lambda>q row. snd (put q row)) get (new_row_queue maxsize) ops = (got, q)"
  shows "(0 < maxsize \<longrightarrow> int (qsize q) \<le> maxsize) \<and> (\<forall>row. \<exists>evicted. fst (put q row) = Inr evicted) \<and>
    subseq (got @ rq_items q) (puts ops) \<and>
    length (puts ops) = length got + qsize q + rq_rows_dropped q"
proof -
  have max: "rq_maxsize q = maxsize" if "fifo_run (\<lambda>q row. snd (put q row)) get q0 ops = (got, q)"
    "rq_maxsize q0 = maxsize" for q0
    using that
    by (induction "\<lambda>q row. snd (put q row)" get q0 ops arbitrary: got rule: fifo_run.induct)
      (auto simp: put_def put_nowait_def get_def get_nowait_def Let_def
        split: prod.splits option.splits if_splits list.splits sum.splits)
  have "queue_wf q" "subseq (got @ rq_items q) (puts ops)"
      "length (puts ops) = length got + qsize q + rq_rows_dropped q"
    using rows.fifo_run_accounts [OF new_row_queue_wf assms] by (auto simp: new_row_queue_def qsize_def)
  moreover have "\<exists>evicted. fst (put q row) = Inr evicted" for row
    using put_room [of q row] put_full [OF \<open>queue_wf q\<close>, of row] by (cases "has_room q") auto
  ultimately show ?thesis
    using max [OF assms] by (auto simp: queue_wf_def new_row_queue_def qsize_def)
qed

definition sample_row :: "int \<Rightarrow> snapshot_row" where
  "sample_row i = \<lparr>row_exchange = ''okx'', row_symbol = ''BTC-USDT'', row_ts_exchange_ms = None,
     row_ts_local_ns = i, row_ts_wall_ns = i, row_last_applied_id = i, row_bids = [], row_asks = []\<rparr>"

lemma row_queue_accounts_witness:
  "\<exists>got q. fifo_run (\<lambda>q row. snd (put q row)) get (new_row_queue 2)
      [Put (sample_row 1), Put (sample_row 2), Put (sample_row 3), Get, Put (sample_row 4)] = (got, q) \<and>
    4 = length got + qsize q + rq_rows_dropped q \<and> rq_rows_dropped q = 1"
proof -
  let ?ops = "[Put (sample_row 1), Put (sample_row 2), Put (sample_row 3), Get, Put (sample_row 4)]"
  obtain got q where run: "fifo_run (\<lambda>q row. snd (put q row)) get (new_row_queue 2) ?ops = (got, q)"
    by fastforce
  have "rq_rows_dropped q = 1"
    using run by (simp add: put_def put_nowait_def get_def get_nowait_def new_row_queue_def) auto
  with row_queue_accounts [OF run] run show ?thesis by auto
qed

text \<open>
  \<open>build_snapshot_row\<close> never fails its assertion after an applied event or snapshot: on a
  well-formed live engine it returns a row that carries the engine's checkpoint and its best levels.
\<close>

theorem build_row_after_apply:
  assumes "engine_wf e" and "be_state e = LIVE"
  shows "\<exists>row. build_snapshot_row e instrument ts_local ts_wall ts_exchange = Inr row \<and>
    Some (row_last_applied_id row) = be_last_applied_id e \<and>
    (row_bids row, row_asks row) = top_levels e None \<and> row_ts_wall_ns row = ts_wall"
  using assms
  by (auto simp: build_snapshot_row_def engine_wf_def split: option.splits prod.splits)

lemma build_row_after_apply_witness:
  "\<exists>row. build_snapshot_row ((new_engine 20)\<lparr>be_state := LIVE, be_last_applied_id := Some 7\<rparr>)
      \<lparr>exchange = ''okx'', symbol = ''BTC-USDT''\<rparr> 1 2 None = Inr row \<and> row_last_applied_id row = 7"
  using build_row_after_apply [of "(new_engine 20)\<lparr>be_state := LIVE, be_last_applied_id := Some 7\<rparr>"
      "\<lparr>exchange = ''okx'', symbol = ''BTC-USDT''\<rparr>" 1 2 None]
  by (auto simp: engine_wf_def new_engine_def)

end
