(* ===== verification/Market.thy ===== *)
theory Market
  imports Replica
begin

text \<open>
  The ground-truth market of \<^verbatim>\<open>simulation/market.py\<close>. A method that draws or asserts returns
  a sum; the market is threaded through, with its random source as a field. \<open>step\<close> produces the
  next diff event, and the market at \<open>n\<close> steps is the history its events and snapshots are
  faithful to.
\<close>

section \<open>The simulator\<close>

definition tick :: decimal where
  "tick = 1 / 100"

definition min_levels_per_side :: nat where
  "min_levels_per_side = 5"

definition initial_levels_per_side :: nat where
  "initial_levels_per_side = 10"

definition initial_mid :: decimal where
  "initial_mid = 100"

record market =
  mk_rng :: rng
  mk_spread_min :: decimal
  mk_update_id :: int
  mk_bids :: side
  mk_asks :: side

definition best_bid :: "market \<Rightarrow> decimal" where
  "best_bid m = (if mk_bids m \<noteq> [] then Max (fst ` set (mk_bids m)) else initial_mid - tick)"

definition best_ask :: "market \<Rightarrow> decimal" where
  "best_ask m = (if mk_asks m \<noteq> [] then Min (fst ` set (mk_asks m)) else initial_mid + tick)"

fun seed_levels :: "market \<Rightarrow> nat list \<Rightarrow> market result" where
  "seed_levels m [] = Inr m"
| "seed_levels m (k # ks) =
     (case rng_randint 1 50 (mk_rng m) of
        Inl err \<Rightarrow> Inl err
      | Inr (bid_qty, r) \<Rightarrow>
          (case rng_randint 1 50 r of
             Inl err \<Rightarrow> Inl err
           | Inr (ask_qty, r') \<Rightarrow>
               seed_levels
                 (m\<lparr>mk_bids := AList.update (initial_mid - of_nat k * tick) (of_int bid_qty) (mk_bids m),
                    mk_asks := AList.update (initial_mid + of_nat k * tick) (of_int ask_qty) (mk_asks m),
                    mk_rng := r'\<rparr>) ks))"

definition seed_book :: "market \<Rightarrow> market result" where
  "seed_book m =
     (case seed_levels m [1..<initial_levels_per_side + 1] of
        Inl err \<Rightarrow> Inl err
      | Inr m' \<Rightarrow> if best_bid m' < best_ask m' then Inr m' else Inl AssertionError)"

definition new_market :: "rng \<Rightarrow> decimal \<Rightarrow> market result" where
  "new_market r spread_min =
     seed_book \<lparr>mk_rng = r, mk_spread_min = spread_min, mk_update_id = 0, mk_bids = [], mk_asks = []\<rparr>"

definition oracle_book :: "market \<Rightarrow> side \<times> side" where
  "oracle_book m = (mk_bids m, mk_asks m)"

definition snapshot :: "market \<Rightarrow> snapshot_event" where
  "snapshot m = \<lparr>last_update_id = mk_update_id m, sn_bids = mk_bids m, sn_asks = mk_asks m\<rparr>"

definition insert_level :: "market \<Rightarrow> bool \<Rightarrow> (price_level \<times> market) result" where
  "insert_level m is_bid =
     (case rng_randint 1 50 (mk_rng m) of
        Inl err \<Rightarrow> Inl err
      | Inr (qty, r) \<Rightarrow>
          if is_bid then
            (case rng_randint (-5) 1 r of
               Inl err \<Rightarrow> Inl err
             | Inr (k, r') \<Rightarrow>
                 (let price = min (best_bid m + of_int k * tick) (best_ask m - mk_spread_min m)
                  in Inr ((max price tick, of_int qty), m\<lparr>mk_rng := r'\<rparr>)))
          else
            (case rng_randint (-1) 5 r of
               Inl err \<Rightarrow> Inl err
             | Inr (k, r') \<Rightarrow>
                 Inr ((max (best_ask m + of_int k * tick) (best_bid m + mk_spread_min m), of_int qty),
                      m\<lparr>mk_rng := r'\<rparr>)))"

datatype action = Insert_Action | Update_Action | Delete_Action

definition changes_for_side :: "market \<Rightarrow> bool \<Rightarrow> (price_level list \<times> market) result" where
  "changes_for_side m is_bid =
     (let side = (if is_bid then mk_bids m else mk_asks m);
          (drawn, r) = rng_choices1 [Insert_Action, Update_Action, Delete_Action]
                         [3 / 10, 4 / 10, 3 / 10] (mk_rng m);
          action = (if drawn = Delete_Action \<and> length side \<le> min_levels_per_side
                    then Update_Action else drawn);
          m' = m\<lparr>mk_rng := r\<rparr>
      in case action of
           Delete_Action \<Rightarrow>
             (case rng_choice (map fst side) r of
                Inl err \<Rightarrow> Inl err
              | Inr (price, r') \<Rightarrow> Inr ([(price, 0)], m'\<lparr>mk_rng := r'\<rparr>))
         | Update_Action \<Rightarrow>
             (case rng_choice (map fst side) r of
                Inl err \<Rightarrow> Inl err
              | Inr (price, r') \<Rightarrow>
                  (case rng_randint 1 50 r' of
                     Inl err \<Rightarrow> Inl err
                   | Inr (qty, r'') \<Rightarrow> Inr ([(price, of_int qty)], m'\<lparr>mk_rng := r''\<rparr>)))
         | Insert_Action \<Rightarrow>
             (case insert_level m' is_bid of
                Inl err \<Rightarrow> Inl err
              | Inr (level, m'') \<Rightarrow> Inr ([level], m'')))"

text \<open>Changes are generated for one side and applied to it at once.\<close>

definition change_side :: "market \<Rightarrow> bool \<Rightarrow> (price_level list \<times> market) result" where
  "change_side m is_bid =
     (case changes_for_side m is_bid of
        Inl err \<Rightarrow> Inl err
      | Inr (changes, m') \<Rightarrow>
          Inr (changes,
               if is_bid then m'\<lparr>mk_bids := apply_levels (mk_bids m') changes\<rparr>
               else m'\<lparr>mk_asks := apply_levels (mk_asks m') changes\<rparr>))"

text \<open>The draw that decides whether a side changes this tick, and the change.\<close>

definition maybe_change_side :: "market \<Rightarrow> bool \<Rightarrow> (price_level list \<times> market) result" where
  "maybe_change_side m is_bid =
     (let (u, r) = rng_random (mk_rng m); m' = m\<lparr>mk_rng := r\<rparr>
      in if u < 55 / 100 then change_side m' is_bid else Inr ([], m'))"

definition step :: "market \<Rightarrow> (diff_event \<times> market) result" where
  "step m =
     (let prev = mk_update_id m in
      case maybe_change_side m True of
        Inl err \<Rightarrow> Inl err
      | Inr (bid_changes, m1) \<Rightarrow>
      (case maybe_change_side m1 False of
        Inl err \<Rightarrow> Inl err
      | Inr (ask_changes, m2) \<Rightarrow>
      (case (if bid_changes = [] \<and> ask_changes = []
             then (let (u, r) = rng_random (mk_rng m2); m' = m2\<lparr>mk_rng := r\<rparr>
                   in if u < 1 / 2
                      then (case change_side m' True of
                              Inl err \<Rightarrow> Inl err | Inr (cs, m'') \<Rightarrow> Inr (cs, ask_changes, m''))
                      else (case change_side m' False of
                              Inl err \<Rightarrow> Inl err | Inr (cs, m'') \<Rightarrow> Inr (bid_changes, cs, m'')))
             else Inr (bid_changes, ask_changes, m2)) of
        Inl err \<Rightarrow> Inl err
      | Inr (bid_cs, ask_cs, m3) \<Rightarrow>
          if \<not> best_bid m3 < best_ask m3 then Inl AssertionError
          else Inr (\<lparr>prev_id = prev, final_id = mk_update_id m3 + 1, ev_bids = bid_cs, ev_asks = ask_cs\<rparr>,
                    m3\<lparr>mk_update_id := mk_update_id m3 + 1\<rparr>))))"

section \<open>The invariant of the simulator\<close>

abbreviation prices :: "side \<Rightarrow> decimal set" where
  "prices d \<equiv> fst ` set d"

definition market_wf :: "market \<Rightarrow> bool" where
  "market_wf m \<longleftrightarrow>
     0 < mk_spread_min m \<and>
     distinct_keys (mk_bids m) \<and> distinct_keys (mk_asks m) \<and>
     min_levels_per_side \<le> length (mk_bids m) \<and> min_levels_per_side \<le> length (mk_asks m) \<and>
     (\<forall>q \<in> snd ` set (mk_bids m) \<union> snd ` set (mk_asks m). 0 < q) \<and>
     (\<forall>b \<in> prices (mk_bids m). tick \<le> b \<and> (\<forall>a \<in> prices (mk_asks m). b < a))"

definition side_of :: "market \<Rightarrow> bool \<Rightarrow> side" where
  "side_of m is_bid = (if is_bid then mk_bids m else mk_asks m)"

text \<open>The changes that keep the invariant.\<close>

definition legal :: "market \<Rightarrow> bool \<Rightarrow> decimal \<Rightarrow> decimal \<Rightarrow> bool" where
  "legal m is_bid p q \<longleftrightarrow>
     0 \<le> q \<and> (q = 0 \<longrightarrow> min_levels_per_side < length (side_of m is_bid)) \<and>
     (if is_bid then tick \<le> p \<and> (\<forall>a \<in> prices (mk_asks m). p < a) else (\<forall>b \<in> prices (mk_bids m). b < p))"

lemma market_wf_nonempty: "market_wf m \<Longrightarrow> mk_bids m \<noteq> [] \<and> mk_asks m \<noteq> []"
  by (auto simp: market_wf_def min_levels_per_side_def)

lemma best_bid_less_iff:
  "mk_bids m \<noteq> [] \<Longrightarrow> best_bid m < x \<longleftrightarrow> (\<forall>b \<in> prices (mk_bids m). b < x)"
  by (simp add: best_bid_def)

lemma best_ask_greater_iff:
  "mk_asks m \<noteq> [] \<Longrightarrow> x < best_ask m \<longleftrightarrow> (\<forall>a \<in> prices (mk_asks m). x < a)"
  by (simp add: best_ask_def)

lemma best_bid_in: "mk_bids m \<noteq> [] \<Longrightarrow> best_bid m \<in> prices (mk_bids m)"
  unfolding best_bid_def using Max_in [of "prices (mk_bids m)"] by auto

lemma market_wf_uncrossed: "market_wf m \<Longrightarrow> best_bid m < best_ask m \<and> tick < best_ask m"
  using market_wf_nonempty [of m] best_bid_in [of m]
  by (auto simp: market_wf_def best_bid_less_iff best_ask_greater_iff intro: order_le_less_trans)

lemma mk_rng_frame [simp, frame_simps]:
  "market_wf (m\<lparr>mk_rng := r\<rparr>) = market_wf m"
  "best_bid (m\<lparr>mk_rng := r\<rparr>) = best_bid m" "best_ask (m\<lparr>mk_rng := r\<rparr>) = best_ask m"
  "legal (m\<lparr>mk_rng := r\<rparr>) = legal m" "side_of (m\<lparr>mk_rng := r\<rparr>) = side_of m"
  by (auto simp: market_wf_def best_bid_def best_ask_def legal_def side_of_def fun_eq_iff)

lemma rng_randint_const: "a \<le> b \<Longrightarrow> \<exists>k r'. rng_randint a b r = Inr (k, r') \<and> a \<le> k \<and> k \<le> b"
  using rng_randint_bounds [of a b r] by (auto simp: rng_randint_def)

lemma insert_level_legal:
  assumes "market_wf m"
  shows "\<exists>p q r. insert_level m is_bid = Inr ((p, q), m\<lparr>mk_rng := r\<rparr>) \<and> legal m is_bid p q \<and> 0 < q"
proof -
  obtain qty r where qty: "rng_randint 1 50 (mk_rng m) = Inr (qty, r)" "1 \<le> qty"
    using rng_randint_const [of 1 50 "mk_rng m"] by auto
  obtain k r' where k: "rng_randint (-5) 1 r = Inr (k, r')" using rng_randint_const [of "-5" 1 r] by auto
  obtain l r'' where l: "rng_randint (-1) 5 r = Inr (l, r'')" using rng_randint_const [of "-1" 5 r] by auto
  have "0 < mk_spread_min m" "best_bid m < best_ask m" "tick < best_ask m"
    using assms market_wf_uncrossed by (auto simp: market_wf_def)
  then have
    "max (min (best_bid m + of_int k * tick) (best_ask m - mk_spread_min m)) tick < best_ask m"
    "best_bid m < max (best_ask m + of_int l * tick) (best_bid m + mk_spread_min m)"
    by (auto simp: max_def min_def)
  then show ?thesis
    using qty k l market_wf_nonempty [OF assms]
    by (auto simp: insert_level_def legal_def best_bid_less_iff best_ask_greater_iff Let_def)
qed

lemma changes_for_side_legal:
  assumes "market_wf m"
  shows "\<exists>p q r. changes_for_side m is_bid = Inr ([(p, q)], m\<lparr>mk_rng := r\<rparr>) \<and> legal m is_bid p q"
proof -
  have present: "legal m is_bid p q"
    if "p \<in> prices (side_of m is_bid)" "0 < q \<or> q = 0 \<and> min_levels_per_side < length (side_of m is_bid)" for p q
    using that assms by (auto simp: legal_def side_of_def market_wf_def split: if_splits)
  have side: "(if is_bid then mk_bids m else mk_asks m) = side_of m is_bid" by (simp add: side_of_def)
  obtain drawn r where drawn: "rng_choices1 [Insert_Action, Update_Action, Delete_Action]
      [3 / 10, 4 / 10, 3 / 10] (mk_rng m) = (drawn, r)" by fastforce
  have "side_of m is_bid \<noteq> []"
    using market_wf_nonempty [OF assms] by (simp add: side_of_def)
  then obtain p r' where p: "rng_choice (map fst (side_of m is_bid)) r = Inr (p, r')"
    and mem: "p \<in> prices (side_of m is_bid)"
    using rng_choice_mem [of "map fst (side_of m is_bid)" r] by (auto simp: rng_choice_def)
  obtain qty r'' where qty: "rng_randint 1 50 r' = Inr (qty, r'')" "1 \<le> qty"
    using rng_randint_const [of 1 50 r'] by auto
  have "market_wf (m\<lparr>mk_rng := r\<rparr>)" using assms by simp
  from insert_level_legal [OF this, of is_bid] show ?thesis
    using drawn p mem qty present
    by (cases drawn) (auto simp: changes_for_side_def side Let_def)
qed

lemma market_wf_bids:
  assumes "market_wf m" and "distinct_keys d" and "min_levels_per_side \<le> length d"
    and "\<forall>(x, y) \<in> set d. 0 < y \<and> tick \<le> x \<and> (\<forall>a \<in> prices (mk_asks m). x < a)"
  shows "market_wf (m\<lparr>mk_bids := d\<rparr>)"
proof -
  have "\<forall>y \<in> snd ` set d. 0 < y" "\<forall>x \<in> prices d. tick \<le> x \<and> (\<forall>a \<in> prices (mk_asks m). x < a)"
    using assms(4) by (auto simp: split_beta)
  with assms(1-3) show ?thesis by (simp add: market_wf_def ball_Un)
qed

lemma market_wf_asks:
  assumes "market_wf m" and "distinct_keys d" and "min_levels_per_side \<le> length d"
    and "\<forall>(x, y) \<in> set d. 0 < y \<and> (\<forall>b \<in> prices (mk_bids m). b < x)"
  shows "market_wf (m\<lparr>mk_asks := d\<rparr>)"
proof -
  have "\<forall>y \<in> snd ` set d. 0 < y" "\<forall>b \<in> prices (mk_bids m). \<forall>x \<in> prices d. b < x"
    using assms(4) by (auto simp: split_beta)
  with assms(1-3) show ?thesis by (simp add: market_wf_def ball_Un)
qed

lemma set_apply_one: "set (apply_levels d [(p, q)]) \<subseteq> (if q = 0 then set d else insert (p, q) (set d))"
  using set_update_subset [of p q d] set_delete_subset [of p d] by auto

lemma legal_change_wf:
  assumes "market_wf m" and "legal m is_bid p q"
  shows "if is_bid then market_wf (m\<lparr>mk_bids := apply_levels (mk_bids m) [(p, q)]\<rparr>)
    else market_wf (m\<lparr>mk_asks := apply_levels (mk_asks m) [(p, q)]\<rparr>)"
proof -
  have len: "min_levels_per_side \<le> length (apply_levels (side_of m is_bid) [(p, q)])"
    using assms length_delete [of "side_of m is_bid" p]
    by (auto simp: legal_def market_wf_def side_of_def length_update)
  have dist: "distinct_keys (side_of m is_bid)"
    using assms(1) by (simp add: market_wf_def side_of_def)
  show ?thesis
  proof (cases is_bid)
    case True
    have "\<forall>(x, y) \<in> set (mk_bids m). 0 < y \<and> tick \<le> x \<and> (\<forall>a \<in> prices (mk_asks m). x < a)"
      using assms(1) unfolding market_wf_def by force
    moreover have "q \<noteq> 0 \<Longrightarrow> 0 < q \<and> tick \<le> p \<and> (\<forall>a \<in> prices (mk_asks m). p < a)"
      using assms(2) True by (simp add: legal_def)
    ultimately have "\<forall>(x, y) \<in> set (apply_levels (mk_bids m) [(p, q)]).
        0 < y \<and> tick \<le> x \<and> (\<forall>a \<in> prices (mk_asks m). x < a)"
      using set_apply_one [of "mk_bids m" p q] by (cases "q = 0") auto
    then show ?thesis
      using market_wf_bids [OF assms(1) distinct_apply_levels len [unfolded side_of_def]] dist True
      by (simp add: side_of_def)
  next
    case False
    have "\<forall>(x, y) \<in> set (mk_asks m). 0 < y \<and> (\<forall>b \<in> prices (mk_bids m). b < x)"
      using assms(1) unfolding market_wf_def by force
    moreover have "q \<noteq> 0 \<Longrightarrow> 0 < q \<and> (\<forall>b \<in> prices (mk_bids m). b < p)"
      using assms(2) False by (simp add: legal_def)
    ultimately have "\<forall>(x, y) \<in> set (apply_levels (mk_asks m) [(p, q)]).
        0 < y \<and> (\<forall>b \<in> prices (mk_bids m). b < x)"
      using set_apply_one [of "mk_asks m" p q] by (cases "q = 0") auto
    then show ?thesis
      using market_wf_asks [OF assms(1) distinct_apply_levels len [unfolded side_of_def]] dist False
      by (simp add: side_of_def)
  qed
qed

text \<open>One change to one side, as a relation between markets.\<close>

definition side_changed :: "market \<Rightarrow> bool \<Rightarrow> price_level list \<Rightarrow> market \<Rightarrow> bool" where
  "side_changed m is_bid changes m' \<longleftrightarrow>
     mk_bids m' = (if is_bid then apply_levels (mk_bids m) changes else mk_bids m) \<and>
     mk_asks m' = (if is_bid then mk_asks m else apply_levels (mk_asks m) changes) \<and>
     mk_update_id m' = mk_update_id m \<and> mk_spread_min m' = mk_spread_min m"

lemma change_side_ok:
  assumes "market_wf m"
  obtains changes m' where "change_side m is_bid = Inr (changes, m')" "market_wf m'"
    "side_changed m is_bid changes m'" "changes \<noteq> []"
proof -
  obtain p q r where c: "changes_for_side m is_bid = Inr ([(p, q)], m\<lparr>mk_rng := r\<rparr>)"
    and legal: "legal m is_bid p q"
    using changes_for_side_legal [OF assms] by blast
  have "market_wf (m\<lparr>mk_rng := r\<rparr>)" "legal (m\<lparr>mk_rng := r\<rparr>) is_bid p q"
    using assms legal by simp_all
  from legal_change_wf [OF this] show thesis
    by (intro that [of "[(p, q)]"]) (auto simp: change_side_def c side_changed_def)
qed

lemma maybe_change_side_ok:
  assumes "market_wf m"
  obtains changes m' where "maybe_change_side m is_bid = Inr (changes, m')" "market_wf m'"
    "side_changed m is_bid changes m'"
proof -
  obtain u r where u: "rng_random (mk_rng m) = (u, r)" by fastforce
  have wf: "market_wf (m\<lparr>mk_rng := r\<rparr>)" using assms by simp
  obtain changes m' where c: "change_side (m\<lparr>mk_rng := r\<rparr>) is_bid = Inr (changes, m')" "market_wf m'"
    "side_changed (m\<lparr>mk_rng := r\<rparr>) is_bid changes m'"
    by (rule change_side_ok [OF wf])
  show thesis
  proof (cases "u < 55 / 100")
    case True
    with c u show thesis
      by (intro that [of changes m']) (auto simp: maybe_change_side_def side_changed_def)
  next
    case False
    with u wf show thesis
      by (intro that [of "[]" "m\<lparr>mk_rng := r\<rparr>"]) (auto simp: maybe_change_side_def side_changed_def)
  qed
qed

section \<open>Every step succeeds\<close>

definition step_changes :: "market \<Rightarrow> diff_event \<Rightarrow> market \<Rightarrow> bool" where
  "step_changes m event m' \<longleftrightarrow>
     prev_id event = mk_update_id m \<and> final_id event = mk_update_id m + 1 \<and>
     mk_update_id m' = mk_update_id m + 1 \<and> mk_spread_min m' = mk_spread_min m \<and>
     mk_bids m' = apply_levels (mk_bids m) (ev_bids event) \<and>
     mk_asks m' = apply_levels (mk_asks m) (ev_asks event) \<and>
     (ev_bids event \<noteq> [] \<or> ev_asks event \<noteq> [])"

lemma mk_update_id_frame [simp, frame_simps]:
  "market_wf (m\<lparr>mk_update_id := i\<rparr>) = market_wf m"
  by (simp add: market_wf_def)

lemma step_ok:
  assumes "market_wf m"
  obtains event m' where "step m = Inr (event, m')" "market_wf m'" "step_changes m event m'"
proof -
  obtain bcs m1 where b: "maybe_change_side m True = Inr (bcs, m1)" "market_wf m1"
    "side_changed m True bcs m1" by (rule maybe_change_side_ok [OF assms])
  obtain acs m2 where a: "maybe_change_side m1 False = Inr (acs, m2)" "market_wf m2"
    "side_changed m1 False acs m2" by (rule maybe_change_side_ok [OF b(2)])
  note uncrossed = market_wf_uncrossed [THEN conjunct1]
  show thesis
  proof (cases "bcs = [] \<and> acs = []")
    case False
    with a b uncrossed [OF a(2)] show thesis
      by (intro that [of "\<lparr>prev_id = mk_update_id m, final_id = mk_update_id m2 + 1, ev_bids = bcs, ev_asks = acs\<rparr>"
            "m2\<lparr>mk_update_id := mk_update_id m2 + 1\<rparr>"])
        (auto simp: step_def step_changes_def side_changed_def Let_def)
  next
    case True
    obtain u r where u: "rng_random (mk_rng m2) = (u, r)" by fastforce
    let ?b = "u < 1 / 2"
    have wf: "market_wf (m2\<lparr>mk_rng := r\<rparr>)" using a(2) by simp
    obtain cs m3 where c: "change_side (m2\<lparr>mk_rng := r\<rparr>) ?b = Inr (cs, m3)" "market_wf m3"
      "side_changed (m2\<lparr>mk_rng := r\<rparr>) ?b cs m3" "cs \<noteq> []"
      by (rule change_side_ok [OF wf])
    have "step m = Inr (\<lparr>prev_id = mk_update_id m, final_id = mk_update_id m3 + 1,
        ev_bids = (if ?b then cs else []), ev_asks = (if ?b then [] else cs)\<rparr>,
        m3\<lparr>mk_update_id := mk_update_id m3 + 1\<rparr>)"
      using a(1) b(1) True u c(1) uncrossed [OF c(2)] by (cases ?b) (simp_all add: step_def Let_def)
    moreover have "step_changes m \<lparr>prev_id = mk_update_id m, final_id = mk_update_id m3 + 1,
        ev_bids = (if ?b then cs else []), ev_asks = (if ?b then [] else cs)\<rparr>
        (m3\<lparr>mk_update_id := mk_update_id m3 + 1\<rparr>)"
      using a(3) b(3) c(3,4) True by (cases ?b) (simp_all add: step_changes_def side_changed_def)
    ultimately show thesis
      using c(2) by (intro that) auto
  qed
qed

section \<open>Every market starts well\<close>

lemma seed_levels_ok:
  obtains m' where "seed_levels m ks = Inr m'"
    "prices (mk_bids m') = prices (mk_bids m) \<union> (\<lambda>k. initial_mid - of_nat k * tick) ` set ks"
    "prices (mk_asks m') = prices (mk_asks m) \<union> (\<lambda>k. initial_mid + of_nat k * tick) ` set ks"
    "distinct_keys (mk_bids m) \<Longrightarrow> distinct_keys (mk_bids m')"
    "distinct_keys (mk_asks m) \<Longrightarrow> distinct_keys (mk_asks m')"
    "snd ` set (mk_bids m') \<subseteq> snd ` set (mk_bids m) \<union> {0<..}"
    "snd ` set (mk_asks m') \<subseteq> snd ` set (mk_asks m) \<union> {0<..}"
    "mk_spread_min m' = mk_spread_min m" "mk_update_id m' = mk_update_id m"
proof (induction ks arbitrary: m thesis)
  case Nil
  show ?case by (rule Nil.prems [of m]) auto
next
  case (Cons k ks)
  obtain bq r where bq: "rng_randint 1 50 (mk_rng m) = Inr (bq, r)" "1 \<le> bq"
    using rng_randint_const [of 1 50 "mk_rng m"] by auto
  obtain aq r' where aq: "rng_randint 1 50 r = Inr (aq, r')" "1 \<le> aq"
    using rng_randint_const [of 1 50 r] by auto
  let ?m = "m\<lparr>mk_bids := AList.update (initial_mid - of_nat k * tick) (of_int bq) (mk_bids m),
      mk_asks := AList.update (initial_mid + of_nat k * tick) (of_int aq) (mk_asks m), mk_rng := r'\<rparr>"
  have sub: "snd ` set (AList.update p (of_int q :: decimal) d) \<subseteq> snd ` set d \<union> {0<..}" if "1 \<le> q" for p q d
    using set_update_subset [of p "of_int q" d] that by force
  show ?case
  proof (rule Cons.IH [of ?m])
    fix m'
    assume m': "seed_levels ?m ks = Inr m'"
      "prices (mk_bids m') = prices (mk_bids ?m) \<union> (\<lambda>k. initial_mid - of_nat k * tick) ` set ks"
      "prices (mk_asks m') = prices (mk_asks ?m) \<union> (\<lambda>k. initial_mid + of_nat k * tick) ` set ks"
      "distinct_keys (mk_bids ?m) \<Longrightarrow> distinct_keys (mk_bids m')"
      "distinct_keys (mk_asks ?m) \<Longrightarrow> distinct_keys (mk_asks m')"
      "snd ` set (mk_bids m') \<subseteq> snd ` set (mk_bids ?m) \<union> {0<..}"
      "snd ` set (mk_asks m') \<subseteq> snd ` set (mk_asks ?m) \<union> {0<..}"
      "mk_spread_min m' = mk_spread_min ?m" "mk_update_id m' = mk_update_id ?m"
    show ?thesis
    proof (rule Cons.prems [of m'])
      show "seed_levels m (k # ks) = Inr m'" using m'(1) bq(1) aq(1) by simp
      show "snd ` set (mk_bids m') \<subseteq> snd ` set (mk_bids m) \<union> {0<..}"
        using m'(6) sub [OF bq(2), of "initial_mid - of_nat k * tick" "mk_bids m"] by auto
      show "snd ` set (mk_asks m') \<subseteq> snd ` set (mk_asks m) \<union> {0<..}"
        using m'(7) sub [OF aq(2), of "initial_mid + of_nat k * tick" "mk_asks m"] by auto
    qed (use m' in \<open>auto simp: dom_update distinct_update\<close>)
  qed
qed

lemma new_market_ok:
  assumes "0 < spread_min"
  obtains m where "new_market r spread_min = Inr m" "market_wf m" "mk_update_id m = 0"
proof -
  let ?m0 = "\<lparr>mk_rng = r, mk_spread_min = spread_min, mk_update_id = 0, mk_bids = [], mk_asks = []\<rparr>"
  obtain m where m: "seed_levels ?m0 [1..<11] = Inr m"
    "prices (mk_bids m) = (\<lambda>k. initial_mid - of_nat k * tick) ` {1..<11}"
    "prices (mk_asks m) = (\<lambda>k. initial_mid + of_nat k * tick) ` {1..<11}"
    "distinct_keys (mk_bids m)" "distinct_keys (mk_asks m)"
    "snd ` set (mk_bids m) \<subseteq> {0<..}" "snd ` set (mk_asks m) \<subseteq> {0<..}"
    "mk_spread_min m = spread_min" "mk_update_id m = 0"
    by (rule seed_levels_ok [of ?m0 "[1..<11]"]) auto
  have "card ((\<lambda>k. initial_mid - of_nat k * tick) ` {1..<11::nat}) = 10"
    "card ((\<lambda>k. initial_mid + of_nat k * tick) ` {1..<11::nat}) = 10"
    by (subst card_image; simp add: inj_on_def tick_def)+
  then have "length (mk_bids m) = 10" "length (mk_asks m) = 10"
    using m(2-5) distinct_card [of "map fst (mk_bids m)"] distinct_card [of "map fst (mk_asks m)"]
    by simp_all
  moreover have "\<forall>b \<in> prices (mk_bids m). tick \<le> b \<and> (\<forall>a \<in> prices (mk_asks m). b < a)"
    unfolding m(2,3) by (auto simp: tick_def initial_mid_def)
  moreover have "\<forall>q \<in> snd ` set (mk_bids m) \<union> snd ` set (mk_asks m). 0 < q"
    using m(6,7) by auto
  ultimately have wf: "market_wf m"
    using assms m(4,5,8) by (simp add: market_wf_def min_levels_per_side_def)
  from market_wf_uncrossed [OF this] m(1) have "new_market r spread_min = Inr m"
    by (simp add: new_market_def seed_book_def initial_levels_per_side_def)
  then show thesis using wf m(9) by (rule that)
qed

section \<open>The market as a source of events\<close>

text \<open>The market after \<open>n\<close> steps (a step that raises, which never happens, changes nothing).\<close>

fun market_at :: "market \<Rightarrow> nat \<Rightarrow> market" where
  "market_at m 0 = m"
| "market_at m (Suc n) =
     (case step (market_at m n) of Inl _ \<Rightarrow> market_at m n | Inr (_, m') \<Rightarrow> m')"

definition market_book :: "market \<Rightarrow> book" where
  "market_book m = (map_of (mk_bids m), map_of (mk_asks m))"

definition market_history :: "market \<Rightarrow> int \<Rightarrow> book" where
  "market_history m t = market_book (market_at m (nat (t - mk_update_id m)))"

definition market_event :: "market \<Rightarrow> diff_event \<Rightarrow> bool" where
  "market_event m event \<longleftrightarrow> market_wf m \<and> (\<exists>n m'. step (market_at m n) = Inr (event, m'))"

definition market_snapshot :: "market \<Rightarrow> snapshot_event \<Rightarrow> bool" where
  "market_snapshot m s \<longleftrightarrow> market_wf m \<and> (\<exists>n. s = snapshot (market_at m n))"

lemma market_at_wf:
  assumes "market_wf m"
  shows "market_wf (market_at m n) \<and> mk_update_id (market_at m n) = mk_update_id m + int n"
proof (induction n)
  case (Suc n)
  obtain event m' where "step (market_at m n) = Inr (event, m')" "market_wf m'"
    "step_changes (market_at m n) event m'"
    using step_ok [of "market_at m n"] Suc by blast
  with Suc show ?case by (simp add: step_changes_def)
qed (use assms in simp)

lemma market_at_step:
  assumes "market_wf m"
  obtains event where "step (market_at m n) = Inr (event, market_at m (Suc n))"
    "step_changes (market_at m n) event (market_at m (Suc n))"
proof -
  obtain event m' where "step (market_at m n) = Inr (event, m')" "step_changes (market_at m n) event m'"
    using step_ok [of "market_at m n"] market_at_wf [OF assms, of n] by blast
  then show thesis by (intro that [of event]) simp_all
qed

lemma market_history_at: "market_wf m \<Longrightarrow> market_history m (mk_update_id m + int n) = market_book (market_at m n)"
  by (simp add: market_history_def)

lemma step_changes_book: "step_changes m event m' \<Longrightarrow> market_book m' = book_step (market_book m) event"
  by (simp add: step_changes_def market_book_def book_step_def)

lemma market_eventE:
  assumes "market_event m event"
  obtains n where "market_wf m" "prev_id event = mk_update_id m + int n"
    "final_id event = mk_update_id m + int (Suc n)" "step (market_at m n) = Inr (event, market_at m (Suc n))"
    "market_book (market_at m (Suc n)) = book_step (market_book (market_at m n)) event"
proof -
  obtain n m' where wf: "market_wf m" and st: "step (market_at m n) = Inr (event, m')"
    using assms by (auto simp: market_event_def)
  obtain event' where "step (market_at m n) = Inr (event', market_at m (Suc n))"
    and ch: "step_changes (market_at m n) event' (market_at m (Suc n))"
    by (rule market_at_step [OF wf])
  then have st': "step (market_at m n) = Inr (event, market_at m (Suc n))" and eq: "event' = event"
    using st by (simp_all del: market_at.simps)
  have id: "mk_update_id (market_at m n) = mk_update_id m + int n"
    using market_at_wf [OF wf] by blast
  show thesis
  proof (rule that [OF wf _ _ st'])
    show "prev_id event = mk_update_id m + int n" "final_id event = mk_update_id m + int (Suc n)"
      using ch id by (simp_all add: eq step_changes_def del: market_at.simps)
    show "market_book (market_at m (Suc n)) = book_step (market_book (market_at m n)) event"
      using step_changes_book [OF ch] by (simp only: eq)
  qed
qed

lemma snapshot_of_market: "market_wf m \<Longrightarrow> snapshot_book (snapshot m) = market_book m"
  by (simp add: snapshot_book_def snapshot_def market_book_def map_of_rev_distinct market_wf_def)

interpretation sim: event_source "market_history m" "market_event m" "market_snapshot m" for m
proof unfold_locales
  fix event assume "market_event m event"
  then show "book_step (market_history m (prev_id event)) event = market_history m (final_id event)"
    by (rule market_eventE) (simp add: market_history_at del: of_nat_Suc)
next
  fix event t assume "market_event m event" "prev_id event \<le> t" "t < final_id event"
  then show "book_step (market_history m t) event = market_history m (final_id event)"
  proof (elim market_eventE)
    fix n
    assume n: "market_wf m" "prev_id event = mk_update_id m + int n"
      "final_id event = mk_update_id m + int (Suc n)"
      "market_book (market_at m (Suc n)) = book_step (market_book (market_at m n)) event"
    assume "prev_id event \<le> t" "t < final_id event"
    with n(2,3) have "t = mk_update_id m + int n" by simp
    with n show ?thesis by (simp add: market_history_at del: of_nat_Suc)
  qed
next
  fix s assume "market_snapshot m s"
  then obtain n where "market_wf m" "s = snapshot (market_at m n)"
    by (auto simp: market_snapshot_def)
  with market_at_wf [of m n] show "snapshot_book s = market_history m (last_update_id s)"
    by (simp add: snapshot_of_market) (simp add: snapshot_def market_history_at)
qed

section \<open>Properties\<close>

text \<open>
  C9: the market simulator never fails an assertion, never draws from an empty book and never
  crosses: for every random source and every positive minimal spread it starts, and however many
  steps it has made it can make one more, which numbers its event after the market's update id,
  changes at least one level and leaves the best bid below the best ask.
\<close>

theorem market_never_crosses:
  assumes "0 < spread_min"
  shows "\<exists>m. new_market r spread_min = Inr m \<and>
    (\<forall>n. \<exists>event. step (market_at m n) = Inr (event, market_at m (Suc n)) \<and>
       prev_id event = int n \<and> final_id event = int n + 1 \<and> mk_update_id (market_at m n) = int n \<and>
       (ev_bids event \<noteq> [] \<or> ev_asks event \<noteq> []) \<and>
       best_bid (market_at m n) < best_ask (market_at m n))"
proof -
  obtain m where m: "new_market r spread_min = Inr m" "market_wf m" "mk_update_id m = 0"
    using new_market_ok [OF assms] .
  have "\<exists>event. step (market_at m n) = Inr (event, market_at m (Suc n)) \<and>
       prev_id event = int n \<and> final_id event = int n + 1 \<and> mk_update_id (market_at m n) = int n \<and>
       (ev_bids event \<noteq> [] \<or> ev_asks event \<noteq> []) \<and>
       best_bid (market_at m n) < best_ask (market_at m n)" for n
    by (rule market_at_step [OF m(2), of n])
      (use market_at_wf [OF m(2), of n] m(3) market_wf_uncrossed in \<open>auto simp: step_changes_def\<close>)
  with m(1) show ?thesis by blast
qed

lemma market_never_crosses_witness:
  "\<exists>m. new_market (\<lambda>_. 0) (1 / 100) = Inr m \<and>
    (\<forall>n. \<exists>event. step (market_at m n) = Inr (event, market_at m (Suc n)) \<and>
       prev_id event = int n \<and> final_id event = int n + 1 \<and> mk_update_id (market_at m n) = int n \<and>
       (ev_bids event \<noteq> [] \<or> ev_asks event \<noteq> []) \<and>
       best_bid (market_at m n) < best_ask (market_at m n))"
  by (rule market_never_crosses) simp

text \<open>
  The market's books, events and snapshots are a faithful source: every event emitted by a
  well-formed market turns the book at its \<open>prev_id\<close> into the book at its \<open>final_id\<close>, and every
  snapshot is the book at its \<open>last_update_id\<close>.
\<close>

theorem market_is_faithful:
  assumes "market_wf m"
  shows "(\<forall>n. \<exists>event. step (market_at m n) = Inr (event, market_at m (Suc n)) \<and>
            faithful_event (market_history m) event) \<and>
         (\<forall>n. faithful_snapshot (market_history m) (snapshot (market_at m n)))"
proof (intro conjI allI)
  fix n
  obtain event where "step (market_at m n) = Inr (event, market_at m (Suc n))"
    using market_at_step [OF assms] by blast
  moreover from this have "market_event m event"
    using assms by (auto simp: market_event_def)
  ultimately show "\<exists>event. step (market_at m n) = Inr (event, market_at m (Suc n)) \<and>
      faithful_event (market_history m) event"
    using sim.exact_chain sim.exact_straddle by (auto simp: faithful_event_def)
  have "market_snapshot m (snapshot (market_at m n))"
    using assms by (auto simp: market_snapshot_def)
  then show "faithful_snapshot (market_history m) (snapshot (market_at m n))"
    using sim.exact_snapshot by (simp add: faithful_snapshot_def)
qed

lemma market_is_faithful_witness:
  "\<exists>m. new_market (\<lambda>_. 0) (1 / 100) = Inr m \<and>
    (\<forall>n. faithful_snapshot (market_history m) (snapshot (market_at m n)))"
proof -
  obtain m where "new_market (\<lambda>_. 0) (1 / 100) = Inr m" "market_wf m"
    using new_market_ok [of "1 / 100" "\<lambda>_. 0"] by auto
  with market_is_faithful [of m] show ?thesis by blast
qed

end
