(* ===== verification/Faults.thy ===== *)
theory Faults
  imports Market
begin

text \<open>
  The fault injector of \<^verbatim>\<open>simulation/faults.py\<close>: it steps the market it owns and decides
  what is delivered. A draw that may raise makes the method return a sum. The bounded
  \<open>deque\<close> of snapshots is a list with its newest entry last.
\<close>

section \<open>Configuration and log\<close>

datatype fault_type = DROP_ONE | DROP_BURST | DUPLICATE | REORDER | DISCONNECT | DELAYED_SNAPSHOT

record fault_config =
  drop_one_prob :: rat
  drop_burst_prob :: rat
  drop_burst_max_len :: int
  duplicate_prob :: rat
  reorder_prob :: rat
  disconnect_prob :: rat
  disconnect_max_len :: int
  delayed_snapshot_prob :: rat
  delayed_snapshot_max_steps :: int

definition default_fault_config :: fault_config where
  "default_fault_config =
     \<lparr>drop_one_prob = 0, drop_burst_prob = 0, drop_burst_max_len = 3, duplicate_prob = 0,
      reorder_prob = 0, disconnect_prob = 0, disconnect_max_len = 20, delayed_snapshot_prob = 0,
      delayed_snapshot_max_steps = 5\<rparr>"

definition storm_fault_config :: fault_config where
  "storm_fault_config =
     \<lparr>drop_one_prob = 5 / 100, drop_burst_prob = 3 / 100, drop_burst_max_len = 4,
      duplicate_prob = 4 / 100, reorder_prob = 4 / 100, disconnect_prob = 1 / 100,
      disconnect_max_len = 15, delayed_snapshot_prob = 1 / 2, delayed_snapshot_max_steps = 6\<rparr>"

record fault_record =
  fr_step :: int
  fr_type :: fault_type
  fr_detail :: string
  fr_shadowed :: bool

definition fault_types :: "fault_type list" where
  "fault_types = [DROP_ONE, DROP_BURST, DUPLICATE, REORDER, DISCONNECT, DELAYED_SNAPSHOT]"

fun count_faults :: "(fault_type \<Rightarrow> nat \<times> nat) \<Rightarrow> fault_record list \<Rightarrow> fault_type \<Rightarrow> nat \<times> nat" where
  "count_faults counts [] = counts"
| "count_faults counts (record # records) =
     (let (fired, shadowed) = counts (fr_type record)
      in count_faults
           (counts(fr_type record := if fr_shadowed record then (fired, shadowed + 1)
                                     else (fired + 1, shadowed))) records)"

definition summarize_log :: "fault_record list \<Rightarrow> (fault_type \<times> nat \<times> nat) list" where
  "summarize_log records = map (\<lambda>ft. (ft, count_faults (\<lambda>_. (0, 0)) records ft)) fault_types"

section \<open>The injector\<close>

record fault_injector =
  fi_market :: market
  fi_config :: fault_config
  fi_rng :: rng
  fi_step :: int
  fi_window_remaining :: int
  fi_held :: "diff_event option"
  fi_log :: "fault_record list"
  fi_snapshot_history :: "(int \<times> snapshot_event) list"

definition history_len :: "fault_config \<Rightarrow> int" where
  "history_len config = delayed_snapshot_max_steps config + 1"

definition deque_append :: "int \<Rightarrow> 'a list \<Rightarrow> 'a \<Rightarrow> 'a list" where
  "deque_append maxlen xs x = drop (length xs + 1 - nat maxlen) (xs @ [x])"

definition new_injector :: "market \<Rightarrow> fault_config \<Rightarrow> rng \<Rightarrow> fault_injector result" where
  "new_injector market config r =
     (if history_len config < 0 then Inl ValueError
      else Inr \<lparr>fi_market = market, fi_config = config, fi_rng = r, fi_step = 0,
                fi_window_remaining = 0, fi_held = None, fi_log = [],
                fi_snapshot_history = deque_append (history_len config) [] (0, snapshot market)\<rparr>)"

definition is_quiescent :: "fault_injector \<Rightarrow> bool" where
  "is_quiescent fi \<longleftrightarrow> fi_held fi = None \<and> fi_window_remaining fi = 0"

text \<open>One draw per fault type, in the order of precedence, whether or not an earlier one fired.\<close>

fun draw_rolls :: "(fault_type \<times> rat) list \<Rightarrow> rng \<Rightarrow> (fault_type \<times> bool) list \<times> rng" where
  "draw_rolls [] r = ([], r)"
| "draw_rolls ((ft, prob) # rest) r =
     (let (u, r') = rng_random r; (rolls, r'') = draw_rolls rest r' in ((ft, u < prob) # rolls, r''))"

definition fault_probs :: "fault_config \<Rightarrow> (fault_type \<times> rat) list" where
  "fault_probs c =
     [(DISCONNECT, disconnect_prob c), (DROP_BURST, drop_burst_prob c), (DROP_ONE, drop_one_prob c),
      (DUPLICATE, duplicate_prob c), (REORDER, reorder_prob c)]"

definition winner :: "(fault_type \<times> bool) list \<Rightarrow> fault_type option" where
  "winner rolls = map_option fst (find snd rolls)"

definition shadowed_records :: "int \<Rightarrow> (fault_type \<times> bool) list \<Rightarrow> fault_record list" where
  "shadowed_records s rolls =
     map (\<lambda>(ft, _). \<lparr>fr_step = s, fr_type = ft, fr_detail = ''shadowed by precedence'', fr_shadowed = True\<rparr>)
       (filter (\<lambda>(ft, rolled). rolled \<and> winner rolls \<noteq> Some ft) rolls)"

definition log_fault :: "int \<Rightarrow> fault_type \<Rightarrow> string \<Rightarrow> fault_injector \<Rightarrow> fault_injector" where
  "log_fault s ft text fi =
     fi\<lparr>fi_log := fi_log fi @ [\<lparr>fr_step = s, fr_type = ft, fr_detail = text, fr_shadowed = False\<rparr>]\<rparr>"

text \<open>A window of dropped ticks, of a drawn length, that starts with this one.\<close>

definition open_window ::
  "int \<Rightarrow> fault_type \<Rightarrow> int \<Rightarrow> fault_injector \<Rightarrow> (diff_event list \<times> fault_injector) result" where
  "open_window s ft max_len fi =
     (case rng_randint 1 max_len (fi_rng fi) of
        Inl err \<Rightarrow> Inl err
      | Inr (len, r) \<Rightarrow>
          Inr ([], log_fault s ft (''window_len='' @ int_str len)
                     (fi\<lparr>fi_rng := r, fi_window_remaining := len - 1\<rparr>)))"

definition poll :: "fault_injector \<Rightarrow> (diff_event list \<times> fault_injector) result" where
  "poll fi =
     (let s = fi_step fi in
      case step (fi_market fi) of
        Inl err \<Rightarrow> Inl err
      | Inr (event, m) \<Rightarrow>
          (let fi1 = fi\<lparr>fi_step := s + 1, fi_market := m,
                          fi_snapshot_history := deque_append (history_len (fi_config fi))
                            (fi_snapshot_history fi) (s + 1, snapshot m)\<rparr>
           in case fi_held fi1 of
                Some held \<Rightarrow> Inr ([event, held], fi1\<lparr>fi_held := None\<rparr>)
              | None \<Rightarrow>
                  if 0 < fi_window_remaining fi1
                  then Inr ([], fi1\<lparr>fi_window_remaining := fi_window_remaining fi1 - 1\<rparr>)
                  else
                    (let (rolls, r) = draw_rolls (fault_probs (fi_config fi1)) (fi_rng fi1);
                         fi2 = fi1\<lparr>fi_rng := r, fi_log := fi_log fi1 @ shadowed_records s rolls\<rparr>
                     in case winner rolls of
                          None \<Rightarrow> Inr ([event], fi2)
                        | Some DISCONNECT \<Rightarrow>
                            open_window s DISCONNECT (disconnect_max_len (fi_config fi2)) fi2
                        | Some DROP_BURST \<Rightarrow>
                            open_window s DROP_BURST (drop_burst_max_len (fi_config fi2)) fi2
                        | Some DROP_ONE \<Rightarrow>
                            Inr ([], log_fault s DROP_ONE (''final_id='' @ int_str (final_id event)) fi2)
                        | Some DUPLICATE \<Rightarrow>
                            Inr ([event, event],
                                 log_fault s DUPLICATE (''final_id='' @ int_str (final_id event)) fi2)
                        | Some _ \<Rightarrow>
                            Inr ([], log_fault s REORDER (''held final_id='' @ int_str (final_id event))
                                       (fi2\<lparr>fi_held := Some event\<rparr>)))))"

text \<open>The last element of the history; reading it from an empty one raises.\<close>

definition newest_snapshot :: "fault_injector \<Rightarrow> snapshot_event result" where
  "newest_snapshot fi =
     (if fi_snapshot_history fi = [] then Inl IndexError else Inr (snd (last (fi_snapshot_history fi))))"

definition request_snapshot :: "fault_injector \<Rightarrow> (snapshot_event \<times> fault_injector) result" where
  "request_snapshot fi =
     (let config = fi_config fi; history = fi_snapshot_history fi in
      if 0 < delayed_snapshot_prob config \<and> 1 < length history
      then
        (let (u, r) = rng_random (fi_rng fi); fi1 = fi\<lparr>fi_rng := r\<rparr>
         in if u < delayed_snapshot_prob config
            then (case rng_randint 1 (min (delayed_snapshot_max_steps config) (int (length history) - 1)) r of
                    Inl err \<Rightarrow> Inl err
                  | Inr (lookback, r') \<Rightarrow>
                      (let (aged_step, aged) = history ! (length history - 1 - nat lookback)
                       in Inr (aged, log_fault (fi_step fi) DELAYED_SNAPSHOT
                            (''served snapshot captured at step='' @ int_str aged_step @
                             '' (lookback='' @ int_str lookback @ '')'')
                            (fi1\<lparr>fi_rng := r'\<rparr>))))
            else map_sum id (\<lambda>s. (s, fi1)) (newest_snapshot fi1))
      else map_sum id (\<lambda>s. (s, fi)) (newest_snapshot fi))"

end
