(* ===== verification/Driver.thy ===== *)
theory Driver
  imports Faults
begin

text \<open>
  The simulated feed driver of \<^verbatim>\<open>simulation/driver.py\<close>, the construction of a simulation and
  the convergence check of \<^verbatim>\<open>simulation/convergence.py\<close>, and the proofs that an engine driven
  through any faults is a replica of the market and converges when the faults stop.
  Market, injector and engine are shared objects in the program; here the driver owns the injector,
  which owns the market. The optional \<open>on_apply\<close> hook is the list of results it was called with.
\<close>

section \<open>The driver\<close>

record recovery_record =
  gap_step :: int
  recovered_step :: int

record driver =
  sd_injector :: fault_injector
  sd_engine :: book_engine
  sd_snapshot_retry_limit :: int
  sd_observed :: "apply_result list"
  sd_recoveries :: "recovery_record list"
  sd_stale_snapshot_retries :: nat
  sd_step :: int

definition default_snapshot_retry_limit :: int where
  "default_snapshot_retry_limit = 20"

text \<open>The retry loop, by the attempts left: the first argument is what is left of the range.\<close>

fun sync_loop :: "nat \<Rightarrow> int option \<Rightarrow> driver \<Rightarrow> driver result" where
  "sync_loop 0 gap d = Inl SnapshotRetryLimitExceeded"
| "sync_loop (Suc n) gap d =
     (case request_snapshot (sd_injector d) of
        Inl err \<Rightarrow> Inl err
      | Inr (snap, fi) \<Rightarrow>
          (case load_snapshot (sd_engine d) snap of
             Inl err \<Rightarrow> Inl err
           | Inr (res, e) \<Rightarrow>
               (let d' = d\<lparr>sd_injector := fi, sd_engine := e\<rparr>
                in if status res = APPLIED
                   then Inr (case gap of
                               None \<Rightarrow> d'
                             | Some g \<Rightarrow> d'\<lparr>sd_recoveries := sd_recoveries d' @
                                                [\<lparr>gap_step = g, recovered_step = sd_step d'\<rparr>]\<rparr>)
                   else sync_loop n gap
                          (d'\<lparr>sd_stale_snapshot_retries := sd_stale_snapshot_retries d' + 1\<rparr>))))"

definition sync :: "int option \<Rightarrow> driver \<Rightarrow> driver result" where
  "sync gap d = sync_loop (nat (sd_snapshot_retry_limit d)) gap d"

definition new_driver :: "fault_injector \<Rightarrow> book_engine \<Rightarrow> int \<Rightarrow> driver result" where
  "new_driver fi e limit =
     (let d = \<lparr>sd_injector = fi, sd_engine = e, sd_snapshot_retry_limit = limit, sd_observed = [],
               sd_recoveries = [], sd_stale_snapshot_retries = 0, sd_step = 0\<rparr>
      in if be_state e \<noteq> LIVE then sync None d else Inr d)"

text \<open>The events of one tick, applied in order: whether one of them was a gap, and the driver.\<close>

fun deliver :: "bool \<Rightarrow> driver \<Rightarrow> diff_event list \<Rightarrow> bool \<times> driver" where
  "deliver gap d [] = (gap, d)"
| "deliver gap d (event # events) =
     (let (res, e) = apply_event (sd_engine d) event
      in deliver (gap \<or> status res = GAP_DETECTED)
           (d\<lparr>sd_engine := e, sd_observed := sd_observed d @ [res]\<rparr>) events)"

definition run_step :: "driver \<Rightarrow> driver result" where
  "run_step d =
     (let s = sd_step d; d1 = d\<lparr>sd_step := sd_step d + 1\<rparr>
      in case poll (sd_injector d1) of
           Inl err \<Rightarrow> Inl err
         | Inr (events, fi) \<Rightarrow>
             (let (gap, d2) = deliver False (d1\<lparr>sd_injector := fi\<rparr>) events
              in if gap then sync (Some s) d2 else Inr d2))"

fun run :: "driver \<Rightarrow> nat \<Rightarrow> driver result" where
  "run d 0 = Inr d"
| "run d (Suc n) = (case run_step d of Inl err \<Rightarrow> Inl err | Inr d' \<Rightarrow> run d' n)"

text \<open>
  \<open>build_simulation\<close>, with the two derived random streams as arguments in place of the seed.
\<close>

definition build_simulation ::
  "rng \<Rightarrow> rng \<Rightarrow> fault_config \<Rightarrow> int \<Rightarrow> int \<Rightarrow> driver result" where
  "build_simulation market_rng fault_rng config depth_levels limit =
     (case new_market market_rng (1 / 100) of
        Inl err \<Rightarrow> Inl err
      | Inr m \<Rightarrow>
          (case new_injector m config fault_rng of
             Inl err \<Rightarrow> Inl err
           | Inr fi \<Rightarrow> new_driver fi (new_engine depth_levels) limit))"

section \<open>Convergence\<close>

definition converged :: "book_engine \<Rightarrow> market \<Rightarrow> bool" where
  "converged e m \<longleftrightarrow>
     be_state e = LIVE \<and> be_last_applied_id e = Some (mk_update_id m) \<and>
     dict_eq (fst (full_book e)) (fst (oracle_book m)) \<and> dict_eq (snd (full_book e)) (snd (oracle_book m))"

definition assert_converged :: "book_engine \<Rightarrow> market \<Rightarrow> unit result" where
  "assert_converged e m = (if converged e m then Inr () else Inl AssertionError)"

lemma converged_iff:
  "converged e m \<longleftrightarrow>
     be_state e = LIVE \<and> be_last_applied_id e = Some (mk_update_id m) \<and> engine_book e = market_book m"
  by (auto simp: converged_def dict_eq_iff engine_book_def market_book_def full_book_def oracle_book_def)

section \<open>What the injector keeps\<close>

text \<open>
  Relative to the market \<open>m0\<close> the run started from: the injector's market is the market after some
  number of steps, all it holds back or remembers comes from \<open>m0\<close>, nothing is from the future, and
  the newest snapshot it remembers is of the present.
\<close>

definition emitted :: "market \<Rightarrow> int \<Rightarrow> diff_event \<Rightarrow> bool" where
  "emitted m0 now event \<longleftrightarrow> market_event m0 event \<and> final_id event \<le> now"

definition taken :: "market \<Rightarrow> int \<Rightarrow> snapshot_event \<Rightarrow> bool" where
  "taken m0 now s \<longleftrightarrow> market_snapshot m0 s \<and> last_update_id s \<le> now"

definition injector_ok :: "market \<Rightarrow> fault_injector \<Rightarrow> bool" where
  "injector_ok m0 fi \<longleftrightarrow>
     market_wf m0 \<and> (\<exists>k. fi_market fi = market_at m0 k) \<and>
     pred_option (emitted m0 (mk_update_id (fi_market fi))) (fi_held fi) \<and>
     list_all (\<lambda>(_, s). taken m0 (mk_update_id (fi_market fi)) s) (fi_snapshot_history fi) \<and>
     fi_snapshot_history fi \<noteq> [] \<and>
     snd (last (fi_snapshot_history fi)) = snapshot (fi_market fi) \<and>
     int (length (fi_snapshot_history fi)) \<le> history_len (fi_config fi) \<and>
     0 \<le> delayed_snapshot_max_steps (fi_config fi)"

definition config_ok :: "fault_config \<Rightarrow> bool" where
  "config_ok c \<longleftrightarrow>
     0 \<le> delayed_snapshot_max_steps c \<and> (0 < disconnect_prob c \<longrightarrow> 1 \<le> disconnect_max_len c) \<and>
     (0 < drop_burst_prob c \<longrightarrow> 1 \<le> drop_burst_max_len c)"

lemma emitted_mono: "emitted m0 now event \<Longrightarrow> now \<le> later \<Longrightarrow> emitted m0 later event"
  by (simp add: emitted_def)

lemma taken_mono: "taken m0 now s \<Longrightarrow> now \<le> later \<Longrightarrow> taken m0 later s"
  by (simp add: taken_def)

lemma log_fault_frame [simp, frame_simps]:
  "fi_market (log_fault s ft text fi) = fi_market fi" "fi_config (log_fault s ft text fi) = fi_config fi"
  "fi_held (log_fault s ft text fi) = fi_held fi"
  "fi_snapshot_history (log_fault s ft text fi) = fi_snapshot_history fi"
  by (simp_all add: log_fault_def)

lemma injector_ok_frame:
  assumes "injector_ok m0 fi" and "fi_market fi' = fi_market fi" and "fi_config fi' = fi_config fi"
    and "fi_snapshot_history fi' = fi_snapshot_history fi"
    and "pred_option (emitted m0 (mk_update_id (fi_market fi))) (fi_held fi')"
  shows "injector_ok m0 fi'"
  using assms by (simp add: injector_ok_def)

lemma list_all_deque_append:
  "list_all P xs \<Longrightarrow> P x \<Longrightarrow> list_all P (deque_append n xs x)"
  unfolding deque_append_def list_all_iff by (metis in_set_dropD set_ConsD rotate1.simps(2) set_rotate1)

lemma last_deque_append: "1 \<le> n \<Longrightarrow> deque_append n xs x \<noteq> [] \<and> last (deque_append n xs x) = x"
  by (simp add: deque_append_def last_drop)

lemma length_deque_append: "1 \<le> n \<Longrightarrow> int (length xs) \<le> n \<Longrightarrow> int (length (deque_append n xs x)) \<le> n"
  by (simp add: deque_append_def)

text \<open>The market moves and the new snapshot is remembered; nothing else changes.\<close>

lemma advance_ok:
  assumes "injector_ok m0 fi"
  obtains event m where "step (fi_market fi) = Inr (event, m)" "emitted m0 (mk_update_id m) event"
    "mk_update_id m = mk_update_id (fi_market fi) + 1" "prev_id event = mk_update_id (fi_market fi)"
    "final_id event = mk_update_id m"
    "injector_ok m0 (fi\<lparr>fi_step := s, fi_market := m,
       fi_snapshot_history := deque_append (history_len (fi_config fi)) (fi_snapshot_history fi) (t, snapshot m)\<rparr>)"
proof -
  obtain k where wf: "market_wf m0" and k: "fi_market fi = market_at m0 k"
    using assms by (auto simp: injector_ok_def)
  obtain event where st: "step (market_at m0 k) = Inr (event, market_at m0 (Suc k))"
    and ch: "step_changes (market_at m0 k) event (market_at m0 (Suc k))"
    by (rule market_at_step [OF wf])
  let ?m = "market_at m0 (Suc k)" and ?h = "fi_snapshot_history fi"
  let ?fi = "fi\<lparr>fi_step := s, fi_market := ?m,
       fi_snapshot_history := deque_append (history_len (fi_config fi)) ?h (t, snapshot ?m)\<rparr>"
  have id: "mk_update_id ?m = mk_update_id (fi_market fi) + 1" "prev_id event = mk_update_id (fi_market fi)"
    "final_id event = mk_update_id ?m"
    using ch k by (simp_all add: step_changes_def del: market_at.simps)
  have ev: "emitted m0 (mk_update_id ?m) event"
    using wf st id(3) unfolding emitted_def market_event_def by auto
  have len: "1 \<le> history_len (fi_config fi)"
    using assms by (simp add: injector_ok_def history_len_def)
  have "market_snapshot m0 (snapshot ?m)"
    using wf unfolding market_snapshot_def by blast
  then have new: "taken m0 (mk_update_id ?m) (snapshot ?m)"
    by (simp add: taken_def snapshot_def)
  have "list_all (\<lambda>(_, s). taken m0 (mk_update_id ?m) s) ?h"
    using assms id(1) taken_mono unfolding injector_ok_def list_all_iff by fastforce
  then have "list_all (\<lambda>(_, s). taken m0 (mk_update_id ?m) s)
      (deque_append (history_len (fi_config fi)) ?h (t, snapshot ?m))"
    using new by (intro list_all_deque_append) simp_all
  moreover have "pred_option (emitted m0 (mk_update_id ?m)) (fi_held fi)"
    using assms id(1) emitted_mono unfolding injector_ok_def by (cases "fi_held fi") fastforce+
  ultimately have "injector_ok m0 ?fi"
    using assms wf last_deque_append [OF len, of ?h "(t, snapshot ?m)"]
      length_deque_append [OF len, of ?h "(t, snapshot ?m)"]
    unfolding injector_ok_def by (auto simp del: market_at.simps)
  with st ev id k show thesis by (intro that [of event ?m]) (simp_all del: market_at.simps)
qed

lemma draw_rolls_fired:
  assumes "draw_rolls probs r = (rolls, r')" and "(ft, True) \<in> set rolls"
  shows "\<exists>prob. (ft, prob) \<in> set probs \<and> 0 < prob"
  using assms
proof (induction probs r arbitrary: rolls r' rule: draw_rolls.induct)
  case (2 ft' prob rest r)
  obtain u r1 where u: "rng_random r = (u, r1)" by fastforce
  obtain rolls1 r2 where r: "draw_rolls rest r1 = (rolls1, r2)" by fastforce
  have "0 \<le> u" using rng_random_bounds [OF u] by simp
  with "2.IH" [OF u [symmetric] refl r] "2.prems" u r show ?case by fastforce
qed simp

lemma winner_fired: "winner rolls = Some ft \<Longrightarrow> (ft, True) \<in> set rolls"
  by (induction rolls) (auto simp: winner_def split: if_splits)

lemma winner_prob:
  assumes "draw_rolls (fault_probs c) r = (rolls, r')" and "winner rolls = Some ft"
  shows "\<exists>prob. (ft, prob) \<in> set (fault_probs c) \<and> 0 < prob"
  using draw_rolls_fired [OF assms(1)] winner_fired [OF assms(2)] .

definition fault_free :: "fault_config \<Rightarrow> bool" where
  "fault_free c \<longleftrightarrow>
     disconnect_prob c \<le> 0 \<and> drop_burst_prob c \<le> 0 \<and> drop_one_prob c \<le> 0 \<and>
     duplicate_prob c \<le> 0 \<and> reorder_prob c \<le> 0"

lemma fault_free_winner:
  "fault_free c \<Longrightarrow> draw_rolls (fault_probs c) r = (rolls, r') \<Longrightarrow> winner rolls = None"
  using winner_prob [of c r rolls r']
  by (cases "winner rolls") (auto simp: fault_free_def fault_probs_def)

section \<open>Polling and snapshots\<close>

lemma open_window_ok:
  assumes "open_window s ft n fi = Inr (events, fi')"
  shows "events = [] \<and> fi_market fi' = fi_market fi \<and> fi_config fi' = fi_config fi \<and>
    fi_held fi' = fi_held fi \<and> fi_snapshot_history fi' = fi_snapshot_history fi"
  using assms by (auto simp: open_window_def split: sum.splits)

lemma open_window_total: "1 \<le> n \<Longrightarrow> open_window s ft n fi \<noteq> Inl err"
  by (auto simp: open_window_def rng_randint_def split: sum.splits)

lemma poll_ok:
  assumes "injector_ok m0 fi" and "poll fi = Inr (events, fi')"
  shows "injector_ok m0 fi' \<and> fi_config fi' = fi_config fi \<and>
    mk_update_id (fi_market fi') = mk_update_id (fi_market fi) + 1 \<and>
    list_all (emitted m0 (mk_update_id (fi_market fi'))) events"
proof -
  let ?s = "fi_step fi"
  obtain event m where st: "step (fi_market fi) = Inr (event, m)" "emitted m0 (mk_update_id m) event"
    "mk_update_id m = mk_update_id (fi_market fi) + 1"
    "injector_ok m0 (fi\<lparr>fi_step := ?s + 1, fi_market := m,
       fi_snapshot_history := deque_append (history_len (fi_config fi)) (fi_snapshot_history fi)
         (?s + 1, snapshot m)\<rparr>)" (is "injector_ok m0 ?fi")
    by (rule advance_ok [OF assms(1)])
  obtain rolls r where d: "draw_rolls (fault_probs (fi_config fi)) (fi_rng fi) = (rolls, r)" by fastforce
  let ?fi2 = "?fi\<lparr>fi_rng := r, fi_log := fi_log fi @ shadowed_records ?s rolls\<rparr>"
  have frame: "injector_ok m0 g" if "fi_market g = m" "fi_config g = fi_config fi"
    "fi_snapshot_history g = fi_snapshot_history ?fi" "pred_option (emitted m0 (mk_update_id m)) (fi_held g)" for g
    using injector_ok_frame [OF st(4), of g] that by simp
  show ?thesis
  proof (cases "fi_held fi")
    case (Some held)
    have "emitted m0 (mk_update_id m) held"
      using st(4) Some by (simp add: injector_ok_def)
    with Some st assms(2) show ?thesis
      by (auto simp: poll_def Let_def intro!: frame)
  next
    case held: None
    show ?thesis
    proof (cases "0 < fi_window_remaining fi")
      case True
      with held st assms(2) show ?thesis
        by (auto simp: poll_def Let_def intro!: frame)
    next
      case False
      have p: "poll fi = (case winner rolls of
            None \<Rightarrow> Inr ([event], ?fi2)
          | Some DISCONNECT \<Rightarrow> open_window ?s DISCONNECT (disconnect_max_len (fi_config ?fi2)) ?fi2
          | Some DROP_BURST \<Rightarrow> open_window ?s DROP_BURST (drop_burst_max_len (fi_config ?fi2)) ?fi2
          | Some DROP_ONE \<Rightarrow>
              Inr ([], log_fault ?s DROP_ONE (''final_id='' @ int_str (final_id event)) ?fi2)
          | Some DUPLICATE \<Rightarrow>
              Inr ([event, event], log_fault ?s DUPLICATE (''final_id='' @ int_str (final_id event)) ?fi2)
          | Some _ \<Rightarrow> Inr ([], log_fault ?s REORDER (''held final_id='' @ int_str (final_id event))
                             (?fi2\<lparr>fi_held := Some event\<rparr>)))"
        using held False st(1) d by (simp add: poll_def Let_def)
      have "fi_market fi' = m \<and> fi_config fi' = fi_config fi \<and>
          fi_snapshot_history fi' = fi_snapshot_history ?fi \<and>
          (fi_held fi' = None \<or> fi_held fi' = Some event) \<and> set events \<subseteq> {event}"
        using assms(2) held unfolding p
        by (auto split: option.splits fault_type.splits dest!: open_window_ok)
      with st frame show ?thesis
        by (auto simp: list_all_iff)
    qed
  qed
qed

lemma poll_total:
  assumes "injector_ok m0 fi" and "config_ok (fi_config fi)"
  shows "\<exists>events fi'. poll fi = Inr (events, fi')"
proof -
  obtain event m where st: "step (fi_market fi) = Inr (event, m)"
    by (rule advance_ok [OF assms(1)])
  obtain rolls r where d: "draw_rolls (fault_probs (fi_config fi)) (fi_rng fi) = (rolls, r)" by fastforce
  have lens: "winner rolls = Some DISCONNECT \<Longrightarrow> 1 \<le> disconnect_max_len (fi_config fi)"
    "winner rolls = Some DROP_BURST \<Longrightarrow> 1 \<le> drop_burst_max_len (fi_config fi)"
    using winner_prob [OF d] assms(2) by (auto simp: config_ok_def fault_probs_def)
  have "poll fi \<noteq> Inl err" for err
    using st d lens open_window_total
    by (auto simp: poll_def Let_def split: option.splits fault_type.splits)
  then show ?thesis by (cases "poll fi") auto
qed

lemma poll_fault_free:
  assumes "injector_ok m0 fi" and "fault_free (fi_config fi)" and "is_quiescent fi"
  obtains event fi' where "poll fi = Inr ([event], fi')" "is_quiescent fi'" "fi_config fi' = fi_config fi"
    "prev_id event = mk_update_id (fi_market fi)" "final_id event = mk_update_id (fi_market fi')"
    "fi_log fi' = fi_log fi"
proof -
  obtain event m where st: "step (fi_market fi) = Inr (event, m)"
    "prev_id event = mk_update_id (fi_market fi)" "final_id event = mk_update_id m"
    by (rule advance_ok [OF assms(1)])
  obtain rolls r where d: "draw_rolls (fault_probs (fi_config fi)) (fi_rng fi) = (rolls, r)" by fastforce
  have w: "winner rolls = None" using fault_free_winner [OF assms(2) d] .
  have "(ft, True) \<notin> set rolls" for ft
    using draw_rolls_fired [OF d, of ft] assms(2) by (auto simp: fault_free_def fault_probs_def)
  then have "shadowed_records (fi_step fi) rolls = []"
    by (auto simp: shadowed_records_def filter_empty_conv)
  with st(1) d w assms(3) have p: "poll fi = Inr ([event], fi\<lparr>fi_step := fi_step fi + 1, fi_market := m,
      fi_snapshot_history := deque_append (history_len (fi_config fi)) (fi_snapshot_history fi)
        (fi_step fi + 1, snapshot m), fi_rng := r, fi_log := fi_log fi\<rparr>)"
    by (simp add: poll_def is_quiescent_def Let_def)
  show thesis
    by (rule that [OF p]) (use st assms(3) in \<open>simp_all add: is_quiescent_def\<close>)
qed

lemma request_snapshot_ok:
  assumes "injector_ok m0 fi"
  obtains s fi' where "request_snapshot fi = Inr (s, fi')" "taken m0 (mk_update_id (fi_market fi)) s"
    "injector_ok m0 fi'" "fi_market fi' = fi_market fi" "fi_config fi' = fi_config fi"
    "delayed_snapshot_prob (fi_config fi) \<le> 0 \<Longrightarrow> s = snapshot (fi_market fi) \<and> fi' = fi"
proof -
  let ?h = "fi_snapshot_history fi" and ?c = "fi_config fi"
  have h: "?h \<noteq> []" "snd (last ?h) = snapshot (fi_market fi)"
    and held: "pred_option (emitted m0 (mk_update_id (fi_market fi))) (fi_held fi)"
    using assms by (auto simp: injector_ok_def)
  have taken: "taken m0 (mk_update_id (fi_market fi)) (snd x)" if "x \<in> set ?h" for x
    using assms that by (fastforce simp: injector_ok_def list_all_iff)
  have newest: "taken m0 (mk_update_id (fi_market fi)) (snapshot (fi_market fi))"
    using taken [OF last_in_set [OF h(1)]] h(2) by simp
  obtain u r where u: "rng_random (fi_rng fi) = (u, r)" by fastforce
  consider (current) "\<not> (0 < delayed_snapshot_prob ?c \<and> 1 < length ?h)"
    | (lucky) "0 < delayed_snapshot_prob ?c" "1 < length ?h" "\<not> u < delayed_snapshot_prob ?c"
    | (aged) "0 < delayed_snapshot_prob ?c" "1 < length ?h" "u < delayed_snapshot_prob ?c"
    by blast
  then show thesis
  proof cases
    case current
    with h newest assms show thesis
      by (intro that [of "snapshot (fi_market fi)" fi])
        (auto simp: request_snapshot_def newest_snapshot_def Let_def)
  next
    case lucky
    with h newest u held assms show thesis
      by (intro that [of "snapshot (fi_market fi)" "fi\<lparr>fi_rng := r\<rparr>"])
        (auto simp: request_snapshot_def newest_snapshot_def Let_def intro: injector_ok_frame)
  next
    case aged
    let ?top = "min (delayed_snapshot_max_steps ?c) (int (length ?h) - 1)"
    have "1 \<le> ?top"
      using aged(2) assms by (simp add: injector_ok_def history_len_def)
    then obtain lb r' where b: "rng_randint 1 ?top r = Inr (lb, r')" "1 \<le> lb" "lb \<le> ?top"
      using rng_randint_const [of 1 ?top r] by auto
    let ?i = "length ?h - 1 - nat lb"
    have "?i < length ?h" using aged(2) by simp
    then have "taken m0 (mk_update_id (fi_market fi)) (snd (?h ! ?i))"
      using taken by simp
    with aged u b held assms show thesis
      by (intro that [of "snd (?h ! ?i)" "log_fault (fi_step fi) DELAYED_SNAPSHOT
            (''served snapshot captured at step='' @ int_str (fst (?h ! ?i)) @
             '' (lookback='' @ int_str lb @ '')'') (fi\<lparr>fi_rng := r'\<rparr>)"])
        (auto simp: request_snapshot_def Let_def split_beta intro: injector_ok_frame)
  qed
qed

section \<open>What the driver keeps\<close>

definition id_range :: "market \<Rightarrow> int \<Rightarrow> int \<Rightarrow> bool" where
  "id_range m0 now t \<longleftrightarrow> mk_update_id m0 \<le> t \<and> t \<le> now"

interpretation upto: bounded_source "market_history m0" "emitted m0 now" "taken m0 now" "id_range m0 now"
  for m0 now
proof unfold_locales
  fix event assume "emitted m0 now event"
  then show "id_range m0 now (final_id event)"
    by (auto simp: emitted_def id_range_def elim: market_eventE)
next
  fix s assume "taken m0 now s"
  then show "id_range m0 now (last_update_id s)"
    using market_at_wf by (auto simp: taken_def id_range_def market_snapshot_def snapshot_def)
qed (use sim.exact_chain sim.exact_straddle sim.exact_snapshot in \<open>auto simp: emitted_def taken_def\<close>)

definition engine_ok :: "market \<Rightarrow> int \<Rightarrow> book_engine \<Rightarrow> bool" where
  "engine_ok m0 now e \<longleftrightarrow>
     engine_wf e \<and> replica (market_history m0) e \<and> list_all (emitted m0 now) (be_buffer e) \<and>
     pred_option (id_range m0 now) (be_last_applied_id e)"

definition driver_ok :: "market \<Rightarrow> driver \<Rightarrow> bool" where
  "driver_ok m0 d \<longleftrightarrow>
     injector_ok m0 (sd_injector d) \<and>
     engine_ok m0 (mk_update_id (fi_market (sd_injector d))) (sd_engine d)"

lemma engine_ok_mono:
  assumes "engine_ok m0 now e" and "now \<le> later"
  shows "engine_ok m0 later e"
proof -
  have "list_all (emitted m0 later) (be_buffer e)"
    using assms emitted_mono unfolding engine_ok_def list_all_iff by blast
  moreover have "pred_option (id_range m0 later) (be_last_applied_id e)"
    using assms by (cases "be_last_applied_id e") (auto simp: engine_ok_def id_range_def)
  ultimately show ?thesis using assms(1) by (simp add: engine_ok_def)
qed

lemma apply_event_ok:
  assumes "engine_ok m0 now e" and "emitted m0 now event"
  shows "engine_ok m0 now (snd (apply_event e event))"
  using assms upto.exec_replica [of m0 e now "Apply_Event event"] apply_event_wf [of e event]
    upto.exec_range [of m0 now e "Apply_Event event"]
  by (simp add: engine_ok_def)

lemma load_snapshot_ok:
  assumes "engine_ok m0 now e" and "taken m0 now s" and "load_snapshot e s = Inr (res, e')"
  shows "engine_ok m0 now e'"
  using assms upto.exec_replica [of m0 e now "Load_Snapshot s"] load_snapshot_wf [OF _ assms(3)]
    upto.exec_range [of m0 now e "Load_Snapshot s"]
  by (simp add: engine_ok_def)

lemma applied_is_live: "load_snapshot e s = Inr (res, e') \<Longrightarrow> (be_state e' = LIVE \<longleftrightarrow> status res = APPLIED)"
proof (erule load_snapshot_cases)
  fix first rest
  assume "(res, e') = replay (replay_start e s first) rest"
  moreover have "be_state d = LIVE \<Longrightarrow>
      (be_state (snd (replay d evs)) = LIVE \<longleftrightarrow> status (fst (replay d evs)) = APPLIED)" for d evs
    by (induction evs arbitrary: d) (auto simp: Let_def split_beta apply_live_def)
  ultimately show ?thesis by (metis fst_conv replay_start_simps(1) snd_conv)
qed auto

lemma fresh_load:
  assumes "be_state e \<noteq> LIVE" and "engine_ok m0 (mk_update_id m) e" and "market_wf m"
  obtains res e' where "load_snapshot e (snapshot m) = Inr (res, e')" "status res = APPLIED" "converged e' m"
proof -
  have "survivors e (snapshot m) = []"
    using assms(2) by (auto simp: engine_ok_def survivors_def snapshot_def list_all_iff filter_empty_conv
        emitted_def linorder_not_less)
  moreover obtain res e' where "load_snapshot e (snapshot m) = Inr (res, e')"
    using load_snapshot_not_live [OF assms(1)] .
  moreover from this have "status res = APPLIED \<and> converged e' m"
  proof (cases rule: load_snapshot_cases)
    case none
    with snapshot_of_market [OF assms(3)] show ?thesis
      by (simp add: converged_iff engine_book_def snapshot_book_def) (simp add: snapshot_def)
  qed (use calculation in auto)
  ultimately show thesis using that by blast
qed

lemma sync_loop_ok:
  assumes "driver_ok m0 d" and "be_state (sd_engine d) \<noteq> LIVE" and "sync_loop n gap d = Inr d'"
  shows "driver_ok m0 d' \<and> be_state (sd_engine d') = LIVE \<and>
    fi_market (sd_injector d') = fi_market (sd_injector d) \<and>
    fi_config (sd_injector d') = fi_config (sd_injector d) \<and>
    sd_snapshot_retry_limit d' = sd_snapshot_retry_limit d \<and> sd_step d' = sd_step d"
  using assms
proof (induction n arbitrary: d)
  case (Suc n)
  have iok: "injector_ok m0 (sd_injector d)"
    using Suc.prems(1) by (simp add: driver_ok_def)
  obtain s fi where req: "request_snapshot (sd_injector d) = Inr (s, fi)"
    "taken m0 (mk_update_id (fi_market (sd_injector d))) s" "injector_ok m0 fi"
    "fi_market fi = fi_market (sd_injector d)" "fi_config fi = fi_config (sd_injector d)"
    by (rule request_snapshot_ok [OF iok])
  obtain res e where load: "load_snapshot (sd_engine d) s = Inr (res, e)"
    using load_snapshot_not_live [OF Suc.prems(2)] .
  have ok: "engine_ok m0 (mk_update_id (fi_market (sd_injector d))) e"
    using load_snapshot_ok [OF _ req(2) load] Suc.prems(1) by (simp add: driver_ok_def)
  let ?d = "d\<lparr>sd_injector := fi, sd_engine := e\<rparr>"
  show ?case
  proof (cases "status res = APPLIED")
    case True
    with Suc.prems(3) req load ok applied_is_live [OF load] show ?thesis
      by (auto simp: driver_ok_def Let_def split: option.splits)
  next
    case False
    with Suc.prems(3) req(1) load
    have "sync_loop n gap (?d\<lparr>sd_stale_snapshot_retries := sd_stale_snapshot_retries ?d + 1\<rparr>) = Inr d'"
      by (simp add: Let_def)
    from Suc.IH [OF _ _ this] False req ok applied_is_live [OF load] show ?thesis
      by (auto simp: driver_ok_def)
  qed
qed simp

lemma sync_loop_error:
  assumes "driver_ok m0 d" and "be_state (sd_engine d) \<noteq> LIVE" and "sync_loop n gap d = Inl err"
  shows "err = SnapshotRetryLimitExceeded"
  using assms
proof (induction n arbitrary: d)
  case (Suc n)
  have iok: "injector_ok m0 (sd_injector d)"
    using Suc.prems(1) by (simp add: driver_ok_def)
  obtain s fi where req: "request_snapshot (sd_injector d) = Inr (s, fi)"
    "taken m0 (mk_update_id (fi_market (sd_injector d))) s" "injector_ok m0 fi"
    "fi_market fi = fi_market (sd_injector d)"
    by (rule request_snapshot_ok [OF iok])
  obtain res e where load: "load_snapshot (sd_engine d) s = Inr (res, e)"
    using load_snapshot_not_live [OF Suc.prems(2)] .
  have ok: "engine_ok m0 (mk_update_id (fi_market (sd_injector d))) e"
    using load_snapshot_ok [OF _ req(2) load] Suc.prems(1) by (simp add: driver_ok_def)
  let ?d = "d\<lparr>sd_injector := fi, sd_engine := e\<rparr>"
  have "status res \<noteq> APPLIED"
    and "sync_loop n gap (?d\<lparr>sd_stale_snapshot_retries := sd_stale_snapshot_retries ?d + 1\<rparr>) = Inl err"
    using Suc.prems(3) req(1) load by (auto simp: Let_def split: if_splits)
  with Suc.IH [OF _ _ this(2)] req ok applied_is_live [OF load] show ?case
    by (simp add: driver_ok_def)
qed simp

text \<open>With a snapshot of the present the first attempt succeeds, whatever was buffered.\<close>

lemma sync_current:
  assumes "driver_ok m0 d" and "be_state (sd_engine d) \<noteq> LIVE" and "1 \<le> sd_snapshot_retry_limit d"
    and "delayed_snapshot_prob (fi_config (sd_injector d)) \<le> 0"
  obtains d' where "sync gap d = Inr d'" "converged (sd_engine d') (fi_market (sd_injector d'))"
    "sd_injector d' = sd_injector d" "sd_step d' = sd_step d" "sd_snapshot_retry_limit d' = sd_snapshot_retry_limit d"
    "sd_stale_snapshot_retries d' = sd_stale_snapshot_retries d"
proof -
  obtain n where n: "nat (sd_snapshot_retry_limit d) = Suc n"
    using assms(3) by (cases "nat (sd_snapshot_retry_limit d)") auto
  have req: "request_snapshot (sd_injector d) = Inr (snapshot (fi_market (sd_injector d)), sd_injector d)"
    by (rule request_snapshot_ok [of m0 "sd_injector d"]) (use assms(1,4) in \<open>auto simp: driver_ok_def\<close>)
  have wf: "market_wf (fi_market (sd_injector d))"
    using assms(1) market_at_wf by (auto simp: driver_ok_def injector_ok_def)
  obtain res e' where "load_snapshot (sd_engine d) (snapshot (fi_market (sd_injector d))) = Inr (res, e')"
    "status res = APPLIED" "converged e' (fi_market (sd_injector d))"
    by (rule fresh_load [OF assms(2) _ wf]) (use assms(1) in \<open>auto simp: driver_ok_def\<close>)
  with n req show thesis
    by (cases gap) (auto intro!: that simp: sync_def Let_def)
qed

section \<open>One tick\<close>

lemma deliver_frame [simp, frame_simps]:
  "sd_injector (snd (deliver gap d events)) = sd_injector d"
  "sd_snapshot_retry_limit (snd (deliver gap d events)) = sd_snapshot_retry_limit d"
  "sd_stale_snapshot_retries (snd (deliver gap d events)) = sd_stale_snapshot_retries d"
  "sd_recoveries (snd (deliver gap d events)) = sd_recoveries d"
  "sd_step (snd (deliver gap d events)) = sd_step d"
  by (induction gap d events rule: deliver.induct) (auto simp: Let_def split: prod.splits)

lemma apply_event_gap:
  "be_state e = LIVE \<Longrightarrow>
     be_state (snd (apply_event e event)) = LIVE \<longleftrightarrow> status (fst (apply_event e event)) \<noteq> GAP_DETECTED"
  "be_state e \<noteq> LIVE \<Longrightarrow>
     be_state (snd (apply_event e event)) \<noteq> LIVE \<and> status (fst (apply_event e event)) = BUFFERED"
  by (auto simp: apply_event_def apply_live_def)

lemma deliver_ok:
  assumes "engine_ok m0 now (sd_engine d)" and "list_all (emitted m0 now) events"
    and "be_state (sd_engine d) = LIVE \<longleftrightarrow> \<not> gap"
  shows "engine_ok m0 now (sd_engine (snd (deliver gap d events))) \<and>
    (be_state (sd_engine (snd (deliver gap d events))) = LIVE \<longleftrightarrow> \<not> fst (deliver gap d events))"
  using assms
proof (induction events arbitrary: gap d)
  case (Cons event events)
  obtain res e where a: "apply_event (sd_engine d) event = (res, e)" by fastforce
  have "engine_ok m0 now e"
    using apply_event_ok [OF Cons.prems(1), of event] Cons.prems(2) a by simp
  moreover have "be_state e = LIVE \<longleftrightarrow> \<not> (gap \<or> status res = GAP_DETECTED)"
    using apply_event_gap [of "sd_engine d" event] Cons.prems(3) a by (cases gap) auto
  ultimately show ?case
    using Cons.IH [of "d\<lparr>sd_engine := e, sd_observed := sd_observed d @ [res]\<rparr>" "gap \<or> status res = GAP_DETECTED"]
      Cons.prems(2) a by simp
qed simp

lemma deliver_chain:
  assumes "be_state (sd_engine d) = LIVE" and "be_last_applied_id (sd_engine d) = Some t"
  shows "(fst (deliver False d events) \<longleftrightarrow> \<not> chained t events) \<and>
    (chained t events \<longrightarrow>
       be_last_applied_id (sd_engine (snd (deliver False d events))) = Some (end_id t events))"
  using assms
proof (induction events arbitrary: d t)
  case (Cons event events)
  have mono: "fst (deliver True d evs)" for d evs
    by (induction True d evs rule: deliver.induct) (auto simp: Let_def split: prod.splits)
  show ?case
  proof (cases "prev_id event = t")
    case True
    with Cons.prems have "be_last_applied_id (sd_engine d) = Some (prev_id event)" by simp
    note step = apply_live_chained [OF this]
    let ?d = "d\<lparr>sd_engine := snd (apply_live (sd_engine d) event),
        sd_observed := sd_observed d @ [fst (apply_live (sd_engine d) event)]\<rparr>"
    have "deliver False d (event # events) = deliver False ?d events"
      using Cons.prems(1) step(1) by (simp add: apply_event_def split_beta Let_def)
    with Cons.IH [of ?d "final_id event"] Cons.prems(1) step True show ?thesis
      by (simp add: end_id_def)
  next
    case False
    with Cons.prems mono show ?thesis
      by (simp add: apply_event_def split_beta Let_def apply_live_gap)
  qed
qed (simp add: end_id_def)

lemma run_step_ok:
  assumes "driver_ok m0 d" and "be_state (sd_engine d) = LIVE" and "run_step d = Inr d'"
  shows "driver_ok m0 d' \<and> be_state (sd_engine d') = LIVE \<and>
    fi_config (sd_injector d') = fi_config (sd_injector d) \<and>
    sd_snapshot_retry_limit d' = sd_snapshot_retry_limit d \<and>
    mk_update_id (fi_market (sd_injector d')) = mk_update_id (fi_market (sd_injector d)) + 1"
proof -
  obtain events fi where p: "poll (sd_injector d) = Inr (events, fi)"
    using assms(3) by (auto simp: run_step_def Let_def split: sum.splits)
  note pok = poll_ok [OF conjunct1 [OF assms(1) [unfolded driver_ok_def]] p]
  let ?d1 = "d\<lparr>sd_step := sd_step d + 1, sd_injector := fi\<rparr>"
  let ?d2 = "snd (deliver False ?d1 events)" and ?gap = "fst (deliver False ?d1 events)"
  have "engine_ok m0 (mk_update_id (fi_market fi)) (sd_engine ?d1)"
    using assms(1) pok by (auto simp: driver_ok_def intro: engine_ok_mono)
  with pok assms(2) have d2: "engine_ok m0 (mk_update_id (fi_market fi)) (sd_engine ?d2)"
    "be_state (sd_engine ?d2) = LIVE \<longleftrightarrow> \<not> ?gap"
    using deliver_ok [of m0 "mk_update_id (fi_market fi)" ?d1 events False] by auto
  have ok2: "driver_ok m0 ?d2" using d2(1) pok by (simp add: driver_ok_def)
  show ?thesis
  proof (cases ?gap)
    case True
    with assms(3) p have "sync (Some (sd_step d)) ?d2 = Inr d'"
      by (simp add: run_step_def Let_def split_beta)
    with sync_loop_ok [OF ok2] d2(2) True pok show ?thesis
      by (simp add: sync_def)
  next
    case False
    with assms(3) p have "d' = ?d2" by (simp add: run_step_def Let_def split_beta)
    with ok2 d2(2) False pok show ?thesis by simp
  qed
qed

lemma run_ok:
  assumes "driver_ok m0 d" and "be_state (sd_engine d) = LIVE" and "run d n = Inr d'"
  shows "driver_ok m0 d' \<and> be_state (sd_engine d') = LIVE \<and>
    fi_config (sd_injector d') = fi_config (sd_injector d) \<and>
    sd_snapshot_retry_limit d' = sd_snapshot_retry_limit d \<and>
    mk_update_id (fi_market (sd_injector d')) = mk_update_id (fi_market (sd_injector d)) + int n"
  using assms
proof (induction n arbitrary: d)
  case (Suc n)
  obtain d1 where d1: "run_step d = Inr d1" "run d1 n = Inr d'"
    using Suc.prems(3) by (auto split: sum.splits)
  with run_step_ok [OF Suc.prems(1,2) d1(1)] Suc.IH [of d1] show ?case by simp
qed simp

end
