(* ===== verification/SimProps.thy ===== *)
theory SimProps
  imports Driver
begin

text \<open>
  The properties of a whole simulation: market, fault injector, driver and engine together. They
  hold for every random source of the market and of the injector, so for every seed.
\<close>

section \<open>The start of a simulation\<close>

lemma new_injector_ok:
  assumes "market_wf m0" and "m = market_at m0 k" and "0 \<le> delayed_snapshot_max_steps config"
  obtains fi where "new_injector m config r = Inr fi" "injector_ok m0 fi" "fi_market fi = m"
    "fi_config fi = config" "is_quiescent fi" "fi_log fi = []"
proof -
  let ?fi = "\<lparr>fi_market = m, fi_config = config, fi_rng = r, fi_step = 0, fi_window_remaining = 0,
      fi_held = None, fi_log = [], fi_snapshot_history = [(0, snapshot m)]\<rparr>"
  have "taken m0 (mk_update_id m) (snapshot m)"
    using assms(1,2) unfolding taken_def market_snapshot_def by (auto simp: snapshot_def)
  then have "injector_ok m0 ?fi"
    using assms by (auto simp: injector_ok_def history_len_def)
  moreover have "new_injector m config r = Inr ?fi"
    using assms(3) by (simp add: new_injector_def history_len_def deque_append_def)
  ultimately show thesis by (intro that [of ?fi]) (simp_all add: is_quiescent_def)
qed

definition start_driver :: "fault_injector \<Rightarrow> int \<Rightarrow> int \<Rightarrow> driver" where
  "start_driver fi depth limit =
     \<lparr>sd_injector = fi, sd_engine = new_engine depth, sd_snapshot_retry_limit = limit, sd_observed = [],
      sd_recoveries = [], sd_stale_snapshot_retries = 0, sd_step = 0\<rparr>"

lemma build_start:
  assumes "0 \<le> delayed_snapshot_max_steps config"
  obtains m0 fi where "new_market market_rng (1 / 100) = Inr m0" "market_wf m0" "mk_update_id m0 = 0"
    "build_simulation market_rng fault_rng config depth limit = sync None (start_driver fi depth limit)"
    "driver_ok m0 (start_driver fi depth limit)" "fi_market fi = m0" "fi_config fi = config"
    "is_quiescent fi" "fi_log fi = []"
proof -
  obtain m0 where m0: "new_market market_rng (1 / 100) = Inr m0" "market_wf m0" "mk_update_id m0 = 0"
    using new_market_ok [of "1 / 100"] by auto
  have "m0 = market_at m0 0" by simp
  then obtain fi where fi: "new_injector m0 config fault_rng = Inr fi" "injector_ok m0 fi"
    "fi_market fi = m0" "fi_config fi = config" "is_quiescent fi" "fi_log fi = []"
    by (rule new_injector_ok [OF m0(2) _ assms])
  have "driver_ok m0 (start_driver fi depth limit)"
    using fi(2) by (simp add: driver_ok_def engine_ok_def start_driver_def new_engine_wf)
      (simp add: new_engine_def replica_def)
  with m0 fi show thesis
    by (intro that) (simp_all add: build_simulation_def new_driver_def start_driver_def new_engine_def)
qed

lemma start_not_live: "be_state (sd_engine (start_driver fi depth limit)) \<noteq> LIVE"
  by (simp add: start_driver_def new_engine_def)

lemma build_ok:
  assumes "0 \<le> delayed_snapshot_max_steps config"
    and "build_simulation market_rng fault_rng config depth limit = Inr d0"
  obtains m0 where "new_market market_rng (1 / 100) = Inr m0" "market_wf m0" "mk_update_id m0 = 0"
    "driver_ok m0 d0" "be_state (sd_engine d0) = LIVE" "fi_market (sd_injector d0) = m0"
    "fi_config (sd_injector d0) = config" "sd_snapshot_retry_limit d0 = limit"
proof -
  obtain m0 fi where b: "new_market market_rng (1 / 100) = Inr m0" "market_wf m0" "mk_update_id m0 = 0"
    "build_simulation market_rng fault_rng config depth limit = sync None (start_driver fi depth limit)"
    "driver_ok m0 (start_driver fi depth limit)" "fi_market fi = m0" "fi_config fi = config"
    by (rule build_start [OF assms(1)])
  from sync_loop_ok [OF b(5) start_not_live] b assms(2) show thesis
    by (intro that [of m0]) (auto simp: sync_def start_driver_def)
qed

text \<open>While snapshots are never aged, no tick raises and no attempt is wasted.\<close>

lemma run_step_current:
  assumes "driver_ok m0 d" and "be_state (sd_engine d) = LIVE" and "1 \<le> sd_snapshot_retry_limit d"
    and "config_ok (fi_config (sd_injector d))" and "delayed_snapshot_prob (fi_config (sd_injector d)) \<le> 0"
  obtains d' where "run_step d = Inr d'" "sd_stale_snapshot_retries d' = sd_stale_snapshot_retries d"
proof -
  have iok: "injector_ok m0 (sd_injector d)" using assms(1) by (simp add: driver_ok_def)
  obtain events fi where p: "poll (sd_injector d) = Inr (events, fi)"
    using poll_total [OF iok assms(4)] by blast
  note pok = poll_ok [OF iok p]
  let ?d1 = "d\<lparr>sd_step := sd_step d + 1, sd_injector := fi\<rparr>"
  let ?d2 = "snd (deliver False ?d1 events)" and ?gap = "fst (deliver False ?d1 events)"
  have step: "run_step d = (if ?gap then sync (Some (sd_step d)) ?d2 else Inr ?d2)"
    using p by (simp add: run_step_def Let_def split_beta)
  have "engine_ok m0 (mk_update_id (fi_market fi)) (sd_engine ?d1)"
    using assms(1) pok by (auto simp: driver_ok_def intro: engine_ok_mono)
  with pok assms(2) have d2: "engine_ok m0 (mk_update_id (fi_market fi)) (sd_engine ?d2)"
    "be_state (sd_engine ?d2) = LIVE \<longleftrightarrow> \<not> ?gap"
    using deliver_ok [of m0 "mk_update_id (fi_market fi)" ?d1 events False] by auto
  have ok2: "driver_ok m0 ?d2" using d2(1) pok by (simp add: driver_ok_def)
  show thesis
  proof (cases ?gap)
    case True
    obtain d' where "sync (Some (sd_step d)) ?d2 = Inr d'"
      "sd_stale_snapshot_retries d' = sd_stale_snapshot_retries ?d2"
      by (rule sync_current [OF ok2]) (use d2(2) True assms pok in auto)
    with True step show thesis by (intro that [of d']) simp_all
  next
    case False
    with step show thesis by (intro that [of ?d2]) simp_all
  qed
qed

lemma run_current:
  assumes "driver_ok m0 d" and "be_state (sd_engine d) = LIVE" and "1 \<le> sd_snapshot_retry_limit d"
    and "config_ok (fi_config (sd_injector d))" and "delayed_snapshot_prob (fi_config (sd_injector d)) \<le> 0"
  obtains d' where "run d n = Inr d'" "sd_stale_snapshot_retries d' = sd_stale_snapshot_retries d"
  using assms
proof (induction n arbitrary: d thesis)
  case (Suc n)
  obtain d1 where d1: "run_step d = Inr d1" "sd_stale_snapshot_retries d1 = sd_stale_snapshot_retries d"
    by (rule run_step_current [OF Suc.prems(2-6)])
  note ok = run_step_ok [OF Suc.prems(2,3) d1(1)]
  obtain d' where "run d1 n = Inr d'" "sd_stale_snapshot_retries d' = sd_stale_snapshot_retries d1"
    by (rule Suc.IH [of d1]) (use ok Suc.prems in auto)
  with d1 show ?case by (intro Suc.prems(1) [of d']) simp_all
qed simp

lemma build_current:
  assumes "config_ok config" and "delayed_snapshot_prob config \<le> 0" and "1 \<le> limit"
  obtains d0 where "build_simulation market_rng fault_rng config depth limit = Inr d0"
    "sd_stale_snapshot_retries d0 = 0" "sd_recoveries d0 = []" "fi_log (sd_injector d0) = []"
    "is_quiescent (sd_injector d0)" "converged (sd_engine d0) (fi_market (sd_injector d0))"
proof -
  have "0 \<le> delayed_snapshot_max_steps config" using assms(1) by (simp add: config_ok_def)
  then obtain m0 fi where b: 
    "build_simulation market_rng fault_rng config depth limit = sync None (start_driver fi depth limit)"
    "driver_ok m0 (start_driver fi depth limit)" "fi_config fi = config" "is_quiescent fi" "fi_log fi = []"
    by (rule build_start)
  obtain d' where "sync None (start_driver fi depth limit) = Inr d'"
    "converged (sd_engine d') (fi_market (sd_injector d'))"
    "sd_injector d' = fi" "sd_stale_snapshot_retries d' = 0"
    by (rule sync_current [OF b(2) start_not_live, of None])
      (use assms b in \<open>auto simp: start_driver_def\<close>)
  moreover from this(1) have "sd_recoveries d' = []"
  proof -
    have "sync_loop n None d = Inr e \<Longrightarrow> sd_recoveries e = sd_recoveries d" for n d e
      by (induction n arbitrary: d) (auto simp: Let_def split: sum.splits prod.splits if_splits)
    with \<open>sync None (start_driver fi depth limit) = Inr d'\<close> show ?thesis
      by (simp add: sync_def) (simp add: start_driver_def)
  qed
  ultimately show thesis using b by (intro that [of d']) simp_all
qed

declare deliver.simps(2) [simp del] chained.simps [simp del]

text \<open>A fault-free tick from any live state ends converged, whether or not it began so.\<close>

lemma run_step_fault_free:
  assumes "driver_ok m0 d" and "be_state (sd_engine d) = LIVE" and "1 \<le> sd_snapshot_retry_limit d"
    and "fault_free (fi_config (sd_injector d))" and "delayed_snapshot_prob (fi_config (sd_injector d)) \<le> 0"
    and "is_quiescent (sd_injector d)"
  obtains d' where "run_step d = Inr d'" "converged (sd_engine d') (fi_market (sd_injector d'))"
    "is_quiescent (sd_injector d')" "fi_log (sd_injector d') = fi_log (sd_injector d)"
    "be_last_applied_id (sd_engine d) = Some (mk_update_id (fi_market (sd_injector d))) \<longrightarrow>
       sd_recoveries d' = sd_recoveries d"
proof -
  have iok: "injector_ok m0 (sd_injector d)" using assms(1) by (simp add: driver_ok_def)
  obtain event fi where p: "poll (sd_injector d) = Inr ([event], fi)" "is_quiescent fi"
    "fi_config fi = fi_config (sd_injector d)" "prev_id event = mk_update_id (fi_market (sd_injector d))"
    "final_id event = mk_update_id (fi_market fi)" "fi_log fi = fi_log (sd_injector d)"
    by (rule poll_fault_free [OF iok assms(4,6)])
  note pok = poll_ok [OF iok p(1)]
  let ?d1 = "d\<lparr>sd_step := sd_step d + 1, sd_injector := fi\<rparr>"
  let ?d2 = "snd (deliver False ?d1 [event])" and ?gap = "fst (deliver False ?d1 [event])"
  have step: "run_step d = (if ?gap then sync (Some (sd_step d)) ?d2 else Inr ?d2)"
    using p(1) by (simp add: run_step_def Let_def split_beta)
  have "engine_ok m0 (mk_update_id (fi_market fi)) (sd_engine ?d1)"
    using assms(1) pok by (auto simp: driver_ok_def intro: engine_ok_mono)
  with pok assms(2) have d2: "engine_ok m0 (mk_update_id (fi_market fi)) (sd_engine ?d2)"
    "be_state (sd_engine ?d2) = LIVE \<longleftrightarrow> \<not> ?gap"
    using deliver_ok [of m0 "mk_update_id (fi_market fi)" ?d1 "[event]" False] by auto
  have ok2: "driver_ok m0 ?d2" using d2(1) pok by (simp add: driver_ok_def)
  obtain t where t: "be_last_applied_id (sd_engine d) = Some t"
    using assms(1,2) by (auto simp: driver_ok_def engine_ok_def replica_def)
  have "be_state (sd_engine ?d1) = LIVE" "be_last_applied_id (sd_engine ?d1) = Some t"
    using assms(2) t by simp_all
  note dc = deliver_chain [OF this, of "[event]"]
  have chain: "?gap \<longleftrightarrow> \<not> chained t [event]" using dc by (rule conjunct1)
  have ends: "chained t [event] \<Longrightarrow> be_last_applied_id (sd_engine ?d2) = Some (end_id t [event])"
    using dc by (rule conjunct2 [THEN mp])
  show thesis
  proof (cases ?gap)
    case True
    obtain d' where d': "sync (Some (sd_step d)) ?d2 = Inr d'"
      "converged (sd_engine d') (fi_market (sd_injector d'))" "sd_injector d' = sd_injector ?d2"
      by (rule sync_current [OF ok2]) (use d2(2) True assms p in auto)
    have "run_step d = Inr d'" using True step d'(1) by (simp only: if_True)
    moreover have "be_last_applied_id (sd_engine d) \<noteq> Some (mk_update_id (fi_market (sd_injector d)))"
      using True chain t p(4) by (auto simp: chained.simps)
    moreover have "sd_injector d' = fi" using d'(3) by (simp add: deliver_frame)
    ultimately show thesis using d'(2) p by (intro that [of d']) simp_all
  next
    case False
    obtain k where k: "market_wf m0" "fi_market fi = market_at m0 k"
      using pok by (auto simp: injector_ok_def)
    have last: "be_last_applied_id (sd_engine ?d2) = Some (mk_update_id (fi_market fi))"
      using False chain ends p(5) by (simp add: end_id_def chained.simps)
    moreover have "engine_book (sd_engine ?d2) = market_history m0 (mk_update_id (fi_market fi))"
      using d2 False last by (simp add: engine_ok_def replica_def)
    ultimately have "converged (sd_engine ?d2) (fi_market fi)"
      using d2(2) False k market_at_wf [OF k(1), of k] market_history_at [OF k(1), of k]
      by (simp add: converged_iff)
    with False step p show thesis by (intro that [of ?d2]) simp_all
  qed
qed

lemma run_fault_free:
  assumes "driver_ok m0 d" and "be_state (sd_engine d) = LIVE" and "1 \<le> sd_snapshot_retry_limit d"
    and "fault_free (fi_config (sd_injector d))" and "delayed_snapshot_prob (fi_config (sd_injector d)) \<le> 0"
    and "is_quiescent (sd_injector d)"
  obtains d' where "run d n = Inr d'"
    "0 < n \<or> converged (sd_engine d) (fi_market (sd_injector d)) \<longrightarrow>
       converged (sd_engine d') (fi_market (sd_injector d'))"
    "fi_log (sd_injector d') = fi_log (sd_injector d)"
    "converged (sd_engine d) (fi_market (sd_injector d)) \<longrightarrow> sd_recoveries d' = sd_recoveries d"
  using assms
proof (induction n arbitrary: d thesis)
  case (Suc n)
  obtain d1 where d1: "run_step d = Inr d1" "converged (sd_engine d1) (fi_market (sd_injector d1))"
    "is_quiescent (sd_injector d1)" "fi_log (sd_injector d1) = fi_log (sd_injector d)"
    "be_last_applied_id (sd_engine d) = Some (mk_update_id (fi_market (sd_injector d))) \<longrightarrow>
       sd_recoveries d1 = sd_recoveries d"
    by (rule run_step_fault_free [OF Suc.prems(2-7)])
  note ok = run_step_ok [OF Suc.prems(2,3) d1(1)]
  obtain d' where "run d1 n = Inr d'" "converged (sd_engine d') (fi_market (sd_injector d'))"
    "fi_log (sd_injector d') = fi_log (sd_injector d1)" "sd_recoveries d' = sd_recoveries d1"
    by (rule Suc.IH [of d1]) (use ok d1 Suc.prems in auto)
  with d1 show ?case by (intro Suc.prems(1) [of d']) (simp_all add: converged_def)
qed simp

text \<open>Every gap of a tick is seen once, and the tick that saw it also records its recovery.\<close>

abbreviation gaps :: "driver \<Rightarrow> apply_result list" where
  "gaps d \<equiv> filter (\<lambda>r. status r = GAP_DETECTED) (sd_observed d)"

lemma deliver_gaps:
  "(be_state (sd_engine d) = LIVE) = (\<not> gap) \<Longrightarrow>
     length (gaps (snd (deliver gap d events))) + (if gap then 1 else 0) =
     length (gaps d) + (if fst (deliver gap d events) then 1 else 0)"
proof (induction events arbitrary: gap d)
  case (Cons event events)
  obtain res e where a: "apply_event (sd_engine d) event = (res, e)" by fastforce
  have "(be_state e = LIVE) = (\<not> (gap \<or> status res = GAP_DETECTED))" "gap \<Longrightarrow> status res \<noteq> GAP_DETECTED"
    using apply_event_gap [of "sd_engine d" event] Cons.prems a by (cases gap; auto)+
  with Cons.IH [of "d\<lparr>sd_engine := e, sd_observed := sd_observed d @ [res]\<rparr>" "gap \<or> status res = GAP_DETECTED"] a
  show ?case by (auto simp: deliver.simps(2))
qed simp

lemma sync_loop_frame:
  "sync_loop n gap d = Inr d' \<Longrightarrow> sd_observed d' = sd_observed d \<and> sd_step d' = sd_step d \<and>
     sd_recoveries d' = sd_recoveries d @
       (case gap of None \<Rightarrow> [] | Some g \<Rightarrow> [\<lparr>gap_step = g, recovered_step = sd_step d\<rparr>])"
proof (induction n arbitrary: d)
  case (Suc n)
  then obtain snap fi res e where r: "request_snapshot (sd_injector d) = Inr (snap, fi)"
    "load_snapshot (sd_engine d) snap = Inr (res, e)" by (auto split: sum.splits)
  show ?case
  proof (cases "status res = APPLIED")
    case True
    with Suc.prems r show ?thesis by (cases gap) (auto simp: Let_def)
  next
    case False
    let ?d = "d\<lparr>sd_injector := fi, sd_engine := e, sd_stale_snapshot_retries := sd_stale_snapshot_retries d + 1\<rparr>"
    have "sync_loop n gap ?d = Inr d'" using Suc.prems r False by (simp add: Let_def)
    from Suc.IH [OF this] show ?thesis by (simp cong: option.case_cong)
  qed
qed simp

definition recoveries_ok :: "driver \<Rightarrow> bool" where
  "recoveries_ok d \<longleftrightarrow> length (gaps d) = length (sd_recoveries d) \<and>
     list_all (\<lambda>r. recovered_step r = gap_step r + 1 \<and> 0 \<le> gap_step r \<and> gap_step r < sd_step d) (sd_recoveries d) \<and>
     sorted_wrt (<) (map gap_step (sd_recoveries d)) \<and> 0 \<le> sd_step d"

lemma run_step_recoveries:
  assumes "be_state (sd_engine d) = LIVE" and "recoveries_ok d" and "run_step d = Inr d'"
  shows "recoveries_ok d' \<and> sd_step d' = sd_step d + 1"
proof -
  obtain events fi where p: "poll (sd_injector d) = Inr (events, fi)"
    using assms(3) by (auto simp: run_step_def Let_def split: sum.splits)
  let ?d1 = "d\<lparr>sd_step := sd_step d + 1, sd_injector := fi\<rparr>"
  let ?d2 = "snd (deliver False ?d1 events)" and ?gap = "fst (deliver False ?d1 events)"
  have n: "length (gaps ?d2) = length (gaps d) + (if ?gap then 1 else 0)"
    using deliver_gaps [of ?d1 False events] assms(1) by simp
  have old: "list_all (\<lambda>r. recovered_step r = gap_step r + 1 \<and> 0 \<le> gap_step r \<and> gap_step r < sd_step d + 1)
      (sd_recoveries d)" "\<forall>x\<in>set (sd_recoveries d). gap_step x < sd_step d"
    using assms(2) unfolding recoveries_ok_def list_all_iff by auto
  show ?thesis
  proof (cases ?gap)
    case True
    with assms(3) p have "sync_loop (nat (sd_snapshot_retry_limit ?d2)) (Some (sd_step d)) ?d2 = Inr d'"
      by (simp add: run_step_def Let_def split_beta sync_def)
    note f = sync_loop_frame [OF this]
    have "length (gaps d') = length (sd_recoveries d')"
      using f n True assms(2) by (simp add: recoveries_ok_def)
    with f old assms(2) show ?thesis
      by (simp add: recoveries_ok_def sorted_wrt_append)
  next
    case False
    with assms(3) p have "d' = ?d2" by (simp add: run_step_def Let_def split_beta)
    with n False old assms(2) show ?thesis by (simp add: recoveries_ok_def)
  qed
qed

lemma run_recoveries:
  assumes "driver_ok m0 d" and "be_state (sd_engine d) = LIVE" and "recoveries_ok d" and "run d n = Inr d'"
  shows "recoveries_ok d' \<and> sd_step d' = sd_step d + int n"
  using assms
proof (induction n arbitrary: d)
  case (Suc n)
  obtain d1 where d1: "run_step d = Inr d1" "run d1 n = Inr d'"
    using Suc.prems(4) by (auto split: sum.splits)
  with run_step_ok [OF Suc.prems(1,2) d1(1)] run_step_recoveries [OF Suc.prems(2,3) d1(1)] Suc.IH [of d1]
  show ?case by simp
qed simp

text \<open>The only exception a well-configured simulation raises is that of the retry limit.\<close>

lemma run_step_error:
  assumes "driver_ok m0 d" and "be_state (sd_engine d) = LIVE" and "config_ok (fi_config (sd_injector d))"
    and "run_step d = Inl err"
  shows "err = SnapshotRetryLimitExceeded"
proof -
  have iok: "injector_ok m0 (sd_injector d)" using assms(1) by (simp add: driver_ok_def)
  obtain events fi where p: "poll (sd_injector d) = Inr (events, fi)"
    using poll_total [OF iok assms(3)] by blast
  note pok = poll_ok [OF iok p]
  let ?d1 = "d\<lparr>sd_step := sd_step d + 1, sd_injector := fi\<rparr>"
  let ?d2 = "snd (deliver False ?d1 events)" and ?gap = "fst (deliver False ?d1 events)"
  have "engine_ok m0 (mk_update_id (fi_market fi)) (sd_engine ?d1)"
    using assms(1) pok by (auto simp: driver_ok_def intro: engine_ok_mono)
  with pok assms(2) have d2: "engine_ok m0 (mk_update_id (fi_market fi)) (sd_engine ?d2)"
    "be_state (sd_engine ?d2) = LIVE \<longleftrightarrow> \<not> ?gap"
    using deliver_ok [of m0 "mk_update_id (fi_market fi)" ?d1 events False] by auto
  have ok2: "driver_ok m0 ?d2" using d2(1) pok by (simp add: driver_ok_def)
  have "?gap" "sync (Some (sd_step d)) ?d2 = Inl err"
    using assms(4) p by (auto simp: run_step_def Let_def split_beta split: if_splits)
  with sync_loop_error [OF ok2] d2(2) show ?thesis by (simp add: sync_def)
qed

lemma run_error:
  assumes "driver_ok m0 d" and "be_state (sd_engine d) = LIVE" and "config_ok (fi_config (sd_injector d))"
    and "run d n = Inl err"
  shows "err = SnapshotRetryLimitExceeded"
  using assms
proof (induction n arbitrary: d)
  case (Suc n)
  show ?case
  proof (cases "run_step d")
    case (Inl e)
    with run_step_error [OF Suc.prems(1-3)] Suc.prems(4) show ?thesis by simp
  next
    case (Inr d1)
    with run_step_ok [OF Suc.prems(1,2)] Suc.IH [of d1] Suc.prems show ?thesis by simp
  qed
qed simp

section \<open>Properties\<close>

text \<open>
  C2: safety under every fault. Whatever the faults, their probabilities and the draws, whenever a
  simulation has run for \<open>n\<close> ticks without raising, its engine is live and its book is exactly the
  market's book at the engine's checkpoint, which is a past or present update id of the market.
\<close>

theorem simulation_is_replica:
  assumes "0 \<le> delayed_snapshot_max_steps config"
    and "build_simulation market_rng fault_rng config depth limit = Inr d0" and "run d0 n = Inr d"
  shows "\<exists>m0 t. new_market market_rng (1 / 100) = Inr m0 \<and> be_state (sd_engine d) = LIVE \<and>
    be_last_applied_id (sd_engine d) = Some (int t) \<and> t \<le> n \<and>
    engine_book (sd_engine d) = market_book (market_at m0 t) \<and>
    fi_market (sd_injector d) = market_at m0 n"
proof -
  obtain m0 where m0: "new_market market_rng (1 / 100) = Inr m0" "market_wf m0" "mk_update_id m0 = 0"
    "driver_ok m0 d0" "be_state (sd_engine d0) = LIVE" "fi_market (sd_injector d0) = m0"
    by (rule build_ok [OF assms(1,2)])
  note r = run_ok [OF m0(4,5) assms(3)]
  have id: "mk_update_id (fi_market (sd_injector d)) = int n" using r m0(3,6) by simp
  obtain t where t: "be_last_applied_id (sd_engine d) = Some t" "engine_book (sd_engine d) = market_history m0 t"
    "0 \<le> t" "t \<le> int n"
    using r id m0(3) by (auto simp: driver_ok_def engine_ok_def replica_def id_range_def)
  have "engine_book (sd_engine d) = market_book (market_at m0 (nat t))"
    using t(2) m0(3) by (simp add: market_history_def)
  moreover obtain k where "fi_market (sd_injector d) = market_at m0 k"
    using r by (auto simp: driver_ok_def injector_ok_def)
  moreover from this have "k = n" using id market_at_wf [OF m0(2), of k] m0(3) by simp
  ultimately show ?thesis
    using m0(1) r t by (intro exI [of _ m0] exI [of _ "nat t"]) auto
qed

definition lossy_config :: fault_config where
  "lossy_config = storm_fault_config\<lparr>drop_one_prob := 1, delayed_snapshot_prob := 0\<rparr>"

lemma lossy_run:
  obtains d0 d where "build_simulation (\<lambda>_. 0) (\<lambda>_. 0) lossy_config 20 20 = Inr d0" "run d0 3 = Inr d"
proof -
  have c: "config_ok lossy_config" "delayed_snapshot_prob lossy_config \<le> 0"
    "0 \<le> delayed_snapshot_max_steps lossy_config"
    by (simp_all add: config_ok_def lossy_config_def storm_fault_config_def)
  obtain d0 where d0: "build_simulation (\<lambda>_. 0) (\<lambda>_. 0) lossy_config 20 20 = Inr d0"
    by (rule build_current [OF c(1,2), where limit = 20]) simp_all
  obtain m0 where "driver_ok m0 d0" "be_state (sd_engine d0) = LIVE"
    "fi_config (sd_injector d0) = lossy_config" "sd_snapshot_retry_limit d0 = 20"
    by (rule build_ok [OF c(3) d0])
  with c obtain d where "run d0 3 = Inr d" using run_current [of m0 d0 3] by auto
  with d0 show thesis by (rule that)
qed

lemma simulation_is_replica_witness:
  "\<exists>d0 d. build_simulation (\<lambda>_. 0) (\<lambda>_. 0) lossy_config 20 20 = Inr d0 \<and> run d0 3 = Inr d \<and>
     (\<exists>m0 t. new_market (\<lambda>_. 0) (1 / 100) = Inr m0 \<and> t \<le> 3 \<and>
        engine_book (sd_engine d) = market_book (market_at m0 t))"
proof -
  obtain d0 d where r: "build_simulation (\<lambda>_. 0) (\<lambda>_. 0) lossy_config 20 20 = Inr d0" "run d0 3 = Inr d"
    by (rule lossy_run)
  have "0 \<le> delayed_snapshot_max_steps lossy_config"
    by (simp add: lossy_config_def storm_fault_config_def)
  from simulation_is_replica [OF this r] r show ?thesis by blast
qed

text \<open>
  C3: convergence when the faults stop. After any faulty run, a fresh injector without faults on the
  same market and a new driver on the same engine never raise, and after every positive number of
  ticks the convergence check passes: live, checkpoint at the market's id, books equal.
\<close>

theorem tail_converges:
  assumes "0 \<le> delayed_snapshot_max_steps config"
    and "build_simulation market_rng fault_rng config depth limit = Inr d0" and "run d0 n = Inr d"
    and "fault_free tail" and "delayed_snapshot_prob tail \<le> 0" and "0 \<le> delayed_snapshot_max_steps tail"
    and "1 \<le> tail_limit" and "0 < k"
  shows "\<exists>fi d1 d2. new_injector (fi_market (sd_injector d)) tail tail_rng = Inr fi \<and>
    new_driver fi (sd_engine d) tail_limit = Inr d1 \<and> run d1 k = Inr d2 \<and>
    assert_converged (sd_engine d2) (fi_market (sd_injector d2)) = Inr ()"
proof -
  obtain m0 where m0: "market_wf m0" "driver_ok m0 d0" "be_state (sd_engine d0) = LIVE"
    by (rule build_ok [OF assms(1,2)])
  note r = run_ok [OF m0(2,3) assms(3)]
  then obtain j where j: "fi_market (sd_injector d) = market_at m0 j"
    by (auto simp: driver_ok_def injector_ok_def)
  obtain fi where fi: "new_injector (fi_market (sd_injector d)) tail tail_rng = Inr fi" "injector_ok m0 fi"
    "fi_market fi = fi_market (sd_injector d)" "fi_config fi = tail" "is_quiescent fi"
    by (rule new_injector_ok [OF m0(1) j assms(6)])
  let ?d1 = "\<lparr>sd_injector = fi, sd_engine = sd_engine d, sd_snapshot_retry_limit = tail_limit,
      sd_observed = [], sd_recoveries = [], sd_stale_snapshot_retries = 0, sd_step = 0\<rparr>"
  have "new_driver fi (sd_engine d) tail_limit = Inr ?d1" using r by (simp add: new_driver_def)
  moreover have "driver_ok m0 ?d1"
    using conjunct1 [OF r] fi(2,3) by (simp add: driver_ok_def)
  then obtain d2 where "run ?d1 k = Inr d2"
    "0 < k \<or> converged (sd_engine ?d1) (fi_market (sd_injector ?d1)) \<longrightarrow>
       converged (sd_engine d2) (fi_market (sd_injector d2))"
    by (rule run_fault_free [where n = k]) (use r fi assms in auto)
  ultimately show ?thesis
    using fi(1) assms(8) by (auto simp: assert_converged_def)
qed

lemma tail_converges_witness:
  "\<exists>d0 d. build_simulation (\<lambda>_. 0) (\<lambda>_. 0) lossy_config 20 20 = Inr d0 \<and> run d0 3 = Inr d \<and>
     (\<exists>fi d1 d2. new_injector (fi_market (sd_injector d)) default_fault_config (\<lambda>_. 7) = Inr fi \<and>
        new_driver fi (sd_engine d) 20 = Inr d1 \<and> run d1 40 = Inr d2 \<and>
        assert_converged (sd_engine d2) (fi_market (sd_injector d2)) = Inr ())"
proof -
  obtain d0 d where r: "build_simulation (\<lambda>_. 0) (\<lambda>_. 0) lossy_config 20 20 = Inr d0" "run d0 3 = Inr d"
    by (rule lossy_run)
  have c: "0 \<le> delayed_snapshot_max_steps lossy_config"
    "fault_free default_fault_config" "delayed_snapshot_prob default_fault_config \<le> 0"
    "0 \<le> delayed_snapshot_max_steps default_fault_config"
    by (simp_all add: lossy_config_def storm_fault_config_def default_fault_config_def fault_free_def)
  from tail_converges [OF c(1) r c(2-4), of 20 40 "\<lambda>_. 7"] r show ?thesis by auto
qed

text \<open>
  Liveness with current snapshots. If no snapshot is served aged, a simulation under any other
  faults is built and runs for any number of ticks without raising, and no resync attempt is ever
  wasted on a stale snapshot.
\<close>

theorem current_snapshots_never_fail:
  assumes "config_ok config" and "delayed_snapshot_prob config \<le> 0" and "1 \<le> limit"
  shows "\<exists>d0 d. build_simulation market_rng fault_rng config depth limit = Inr d0 \<and> run d0 n = Inr d \<and>
    be_state (sd_engine d) = LIVE \<and> sd_stale_snapshot_retries d = 0"
proof -
  obtain d0 where d0: "build_simulation market_rng fault_rng config depth limit = Inr d0"
    "sd_stale_snapshot_retries d0 = 0" by (rule build_current [OF assms])
  have "0 \<le> delayed_snapshot_max_steps config" using assms(1) by (simp add: config_ok_def)
  then obtain m0 where m0: "driver_ok m0 d0" "be_state (sd_engine d0) = LIVE"
    "fi_config (sd_injector d0) = config" "sd_snapshot_retry_limit d0 = limit"
    by (rule build_ok [OF _ d0(1)])
  obtain d where d: "run d0 n = Inr d" "sd_stale_snapshot_retries d = sd_stale_snapshot_retries d0"
    by (rule run_current [OF m0(1,2), where n = n]) (use m0 assms in auto)
  with run_ok [OF m0(1,2) d(1)] d0 show ?thesis by auto
qed

lemma current_snapshots_never_fail_witness:
  "\<exists>d0 d. build_simulation (\<lambda>_. 3) (\<lambda>_. 0) (storm_fault_config\<lparr>delayed_snapshot_prob := 0\<rparr>) 20 1 = Inr d0 \<and>
     run d0 100 = Inr d \<and> be_state (sd_engine d) = LIVE \<and> sd_stale_snapshot_retries d = 0"
  by (rule current_snapshots_never_fail) (simp_all add: config_ok_def storm_fault_config_def)

text \<open>
  A clean run stays converged. Without faults the convergence check passes after every number
  of ticks, nothing is logged by the injector and no recovery is ever needed.
\<close>

theorem clean_run_converged:
  assumes "1 \<le> limit"
  shows "\<exists>d0 d. build_simulation market_rng fault_rng default_fault_config depth limit = Inr d0 \<and>
    run d0 n = Inr d \<and> assert_converged (sd_engine d) (fi_market (sd_injector d)) = Inr () \<and>
    fi_log (sd_injector d) = [] \<and> sd_recoveries d = []"
proof -
  have c: "config_ok default_fault_config" "delayed_snapshot_prob default_fault_config \<le> 0"
    "0 \<le> delayed_snapshot_max_steps default_fault_config" "fault_free default_fault_config"
    by (simp_all add: config_ok_def default_fault_config_def fault_free_def)
  obtain d0 where d0: "build_simulation market_rng fault_rng default_fault_config depth limit = Inr d0"
    "sd_recoveries d0 = []" "fi_log (sd_injector d0) = []"
    "is_quiescent (sd_injector d0)" "converged (sd_engine d0) (fi_market (sd_injector d0))"
    by (rule build_current [OF c(1,2) assms])
  obtain m0 where m0: "driver_ok m0 d0" "be_state (sd_engine d0) = LIVE"
    "fi_config (sd_injector d0) = default_fault_config" "sd_snapshot_retry_limit d0 = limit"
    by (rule build_ok [OF c(3) d0(1)])
  obtain d where "run d0 n = Inr d" "converged (sd_engine d) (fi_market (sd_injector d))"
    "fi_log (sd_injector d) = fi_log (sd_injector d0)" "sd_recoveries d = sd_recoveries d0"
    by (rule run_fault_free [OF m0(1,2), where n = n]) (use m0 c d0 assms in auto)
  with d0 show ?thesis by (auto simp: assert_converged_def)
qed

lemma clean_run_converged_witness:
  "\<exists>d0 d. build_simulation (\<lambda>_. 3) (\<lambda>_. 0) default_fault_config 20 20 = Inr d0 \<and> run d0 500 = Inr d \<and>
     assert_converged (sd_engine d) (fi_market (sd_injector d)) = Inr () \<and>
     fi_log (sd_injector d) = [] \<and> sd_recoveries d = []"
  by (rule clean_run_converged) simp

text \<open>
  Every gap is recovered in the tick that detects it. After \<open>n\<close> ticks the recoveries
  correspond one to one to the results \<open>GAP_DETECTED\<close> that the engine returned, each recovery
  ends one step after its gap began, and no two gaps share a step.
\<close>

theorem every_gap_recovered:
  assumes "0 \<le> delayed_snapshot_max_steps config"
    and "build_simulation market_rng fault_rng config depth limit = Inr d0" and "run d0 n = Inr d"
  shows "length (filter (\<lambda>r. status r = GAP_DETECTED) (sd_observed d)) = length (sd_recoveries d) \<and>
    list_all (\<lambda>r. recovered_step r = gap_step r + 1 \<and> 0 \<le> gap_step r \<and> gap_step r < int n) (sd_recoveries d) \<and>
    sorted_wrt (<) (map gap_step (sd_recoveries d))"
proof -
  obtain m0 fi where b: "build_simulation market_rng fault_rng config depth limit =
      sync None (start_driver fi depth limit)"
    by (rule build_start [OF assms(1)])
  obtain m0 where m0: "driver_ok m0 d0" "be_state (sd_engine d0) = LIVE"
    by (rule build_ok [OF assms(1,2)])
  have "sync_loop (nat limit) None (start_driver fi depth limit) = Inr d0"
    using b assms(2) by (simp add: sync_def start_driver_def)
  from sync_loop_frame [OF this] have "recoveries_ok d0" "sd_step d0 = 0"
    by (simp_all add: recoveries_ok_def start_driver_def)
  with run_recoveries [OF m0 _ assms(3)] have "recoveries_ok d" "sd_step d = int n" by simp_all
  then show ?thesis by (simp add: recoveries_ok_def)
qed

lemma every_gap_recovered_witness:
  "\<exists>d0 d. build_simulation (\<lambda>_. 0) (\<lambda>_. 0) lossy_config 20 20 = Inr d0 \<and> run d0 3 = Inr d \<and>
     length (filter (\<lambda>r. status r = GAP_DETECTED) (sd_observed d)) = length (sd_recoveries d)"
proof -
  obtain d0 d where r: "build_simulation (\<lambda>_. 0) (\<lambda>_. 0) lossy_config 20 20 = Inr d0" "run d0 3 = Inr d"
    by (rule lossy_run)
  have "0 \<le> delayed_snapshot_max_steps lossy_config"
    by (simp add: lossy_config_def storm_fault_config_def)
  from every_gap_recovered [OF this r] r show ?thesis by blast
qed

text \<open>
  A simulation has one failure mode. With a fault configuration whose burst lengths are
  positive where their faults are possible, neither building a simulation nor any number of its
  ticks raises anything but the exhaustion of the snapshot retries.
\<close>

theorem simulation_failure_mode:
  assumes "config_ok config"
    and "build_simulation market_rng fault_rng config depth limit = Inl err \<or>
      (\<exists>d0 n. build_simulation market_rng fault_rng config depth limit = Inr d0 \<and> run d0 n = Inl err)"
  shows "err = SnapshotRetryLimitExceeded"
proof -
  have c: "0 \<le> delayed_snapshot_max_steps config" using assms(1) by (simp add: config_ok_def)
  obtain m0 fi where b: "build_simulation market_rng fault_rng config depth limit =
      sync None (start_driver fi depth limit)" "driver_ok m0 (start_driver fi depth limit)"
    by (rule build_start [OF c])
  from assms(2) show ?thesis
  proof (elim disjE exE conjE)
    assume "build_simulation market_rng fault_rng config depth limit = Inl err"
    with b sync_loop_error [OF b(2) start_not_live] show ?thesis by (simp add: sync_def)
  next
    fix d0 n assume d0: "build_simulation market_rng fault_rng config depth limit = Inr d0" "run d0 n = Inl err"
    obtain m0 where "driver_ok m0 d0" "be_state (sd_engine d0) = LIVE" "fi_config (sd_injector d0) = config"
      by (rule build_ok [OF c d0(1)])
    with run_error [OF _ _ _ d0(2)] assms(1) show ?thesis by simp
  qed
qed

lemma simulation_failure_mode_witness:
  "\<exists>err. build_simulation (\<lambda>_. 0) (\<lambda>_. 0) storm_fault_config 20 0 = Inl err \<and> err = SnapshotRetryLimitExceeded"
proof -
  have c: "config_ok storm_fault_config" by (simp add: config_ok_def storm_fault_config_def)
  obtain fi where "build_simulation (\<lambda>_. 0) (\<lambda>_. 0) storm_fault_config 20 0 =
      sync None (start_driver fi 20 0)"
    by (rule build_start [OF conjunct1 [OF c [unfolded config_ok_def]]])
  then have b: "build_simulation (\<lambda>_. 0) (\<lambda>_. 0) storm_fault_config 20 0 = Inl SnapshotRetryLimitExceeded"
    by (simp add: sync_def start_driver_def)
  from simulation_failure_mode [OF c disjI1 [OF b]] b show ?thesis by blast
qed

end
