(* ===== verification/Connection.thy ===== *)
theory Connection
  imports Prelude
begin

text \<open>
  Connection lifecycle and backoff of \<^verbatim>\<open>feeds/connection.py\<close>. The injected clock is an
  argument of the two methods that read it. \<open>disconnected\<close> may raise after it has already
  changed the manager, so it returns the manager beside a sum.
\<close>

section \<open>Backoff\<close>

record backoff_policy =
  base_seconds :: seconds
  cap_seconds :: seconds

definition default_backoff_policy :: backoff_policy where
  "default_backoff_policy = \<lparr>base_seconds = 1 / 2, cap_seconds = 30\<rparr>"

definition default_max_consecutive_reconnect_failures :: nat where
  "default_max_consecutive_reconnect_failures = 10"

text \<open>
  \<open>base_seconds * (2**attempt)\<close> converts the integer to a float first, which raises
  \<open>OverflowError\<close> from \<open>2**1024\<close> on, before the random source is used.
\<close>

definition full_jitter_delay :: "backoff_policy \<Rightarrow> nat \<Rightarrow> rng \<Rightarrow> seconds result \<times> rng" where
  "full_jitter_delay policy attempt r =
     (if 1024 \<le> attempt then (Inl OverflowError, r)
      else let (delay, r') = rng_uniform 0 (min (cap_seconds policy) (base_seconds policy * 2 ^ attempt)) r
           in (Inr delay, r'))"

section \<open>The connection manager\<close>

datatype connection_state = DISCONNECTED | CONNECTING | CONNECTED | BACKOFF

record connected_info =
  ci_attempt :: nat
  outage_duration_seconds :: "seconds option"

record connection_manager =
  cm_policy :: backoff_policy
  cm_rng :: rng
  cm_state :: connection_state
  cm_attempt :: nat
  cm_message_seen :: bool
  cm_disconnected_at :: "seconds option"

definition new_connection_manager :: "backoff_policy \<Rightarrow> rng \<Rightarrow> connection_manager" where
  "new_connection_manager policy r =
     \<lparr>cm_policy = policy, cm_rng = r, cm_state = DISCONNECTED, cm_attempt = 0,
      cm_message_seen = False, cm_disconnected_at = None\<rparr>"

definition connecting :: "connection_manager \<Rightarrow> connection_manager" where
  "connecting cm = cm\<lparr>cm_state := CONNECTING, cm_message_seen := False\<rparr>"

definition connected :: "connection_manager \<Rightarrow> seconds \<Rightarrow> connected_info \<times> connection_manager" where
  "connected cm now =
     (\<lparr>ci_attempt = cm_attempt cm,
       outage_duration_seconds = map_option (\<lambda>since. now - since) (cm_disconnected_at cm)\<rparr>,
      cm\<lparr>cm_state := CONNECTED, cm_disconnected_at := None\<rparr>)"

definition message_received :: "connection_manager \<Rightarrow> connection_manager" where
  "message_received cm =
     (if cm_state cm = CONNECTED \<and> \<not> cm_message_seen cm
      then cm\<lparr>cm_message_seen := True, cm_attempt := 0\<rparr> else cm)"

definition disconnected ::
  "connection_manager \<Rightarrow> seconds \<Rightarrow> seconds result \<times> connection_manager" where
  "disconnected cm now =
     (let cm' = cm\<lparr>cm_state := BACKOFF,
                   cm_disconnected_at := (case cm_disconnected_at cm of None \<Rightarrow> Some now | Some t \<Rightarrow> Some t)\<rparr>
      in case full_jitter_delay (cm_policy cm') (cm_attempt cm') (cm_rng cm') of
           (Inl err, r) \<Rightarrow> (Inl err, cm'\<lparr>cm_rng := r\<rparr>)
         | (Inr delay, r) \<Rightarrow> (Inr delay, cm'\<lparr>cm_rng := r, cm_attempt := cm_attempt cm' + 1\<rparr>))"

section \<open>Runs of a manager\<close>

datatype cm_op = Connecting | Connected seconds | Message_Received | Disconnected seconds

fun cm_exec :: "connection_manager \<Rightarrow> cm_op \<Rightarrow> connection_manager" where
  "cm_exec cm Connecting = connecting cm"
| "cm_exec cm (Connected now) = snd (connected cm now)"
| "cm_exec cm Message_Received = message_received cm"
| "cm_exec cm (Disconnected now) = snd (disconnected cm now)"

definition cm_run :: "connection_manager \<Rightarrow> cm_op list \<Rightarrow> connection_manager" where
  "cm_run cm ops = foldl cm_exec cm ops"

text \<open>
  One turn of a feed client's loop, as the manager sees it: an attempt that fails to connect, or
  a connection made at some time on which a number of messages arrive, ended by a disconnect.
\<close>

datatype episode = Refused seconds | Session seconds nat seconds

fun episode_ops :: "episode \<Rightarrow> cm_op list" where
  "episode_ops (Refused t) = [Connecting, Disconnected t]"
| "episode_ops (Session t n t') = [Connecting, Connected t] @ replicate n Message_Received @ [Disconnected t']"

fun heard :: "episode \<Rightarrow> bool" where
  "heard (Refused t) = False"
| "heard (Session t n t') = (0 < n)"

text \<open>Failures in a row at the end of a history of episodes: an episode with a message is one.\<close>

fun silent_streak :: "nat \<Rightarrow> episode list \<Rightarrow> nat" where
  "silent_streak k [] = k"
| "silent_streak k (e # es) = silent_streak (if heard e then 1 else k + 1) es"

section \<open>Lemmas\<close>

lemma disconnected_simps [simp]:
  "cm_state (snd (disconnected cm now)) = BACKOFF"
  "cm_policy (snd (disconnected cm now)) = cm_policy cm"
  "cm_message_seen (snd (disconnected cm now)) = cm_message_seen cm"
  "cm_disconnected_at (snd (disconnected cm now)) =
     (case cm_disconnected_at cm of None \<Rightarrow> Some now | Some t \<Rightarrow> Some t)"
  "cm_attempt (snd (disconnected cm now)) =
     (if cm_attempt cm < 1024 then cm_attempt cm + 1 else cm_attempt cm)"
  by (simp_all add: disconnected_def Let_def full_jitter_delay_def split: prod.splits)

lemma disconnected_delay: "cm_attempt cm < 1024 \<Longrightarrow> \<exists>delay cm'. disconnected cm now = (Inr delay, cm')"
  by (simp add: disconnected_def full_jitter_delay_def Let_def split_beta)

lemma message_run:
  assumes "cm_state cm = CONNECTED"
  shows "cm_state (cm_run cm (replicate n Message_Received)) = CONNECTED \<and>
    cm_disconnected_at (cm_run cm (replicate n Message_Received)) = cm_disconnected_at cm \<and>
    cm_attempt (cm_run cm (replicate n Message_Received)) =
      (if 0 < n \<and> \<not> cm_message_seen cm then 0 else cm_attempt cm)"
  using assms unfolding cm_run_def
  by (induction n arbitrary: cm) (auto simp: message_received_def)

lemma cm_run_append [simp]: "cm_run cm (ops @ ops') = cm_run (cm_run cm ops) ops'"
  by (simp add: cm_run_def)

lemma cm_run_Nil [simp]: "cm_run cm [] = cm"
  by (simp add: cm_run_def)

lemma cm_run_Cons [simp]: "cm_run cm (op # ops) = cm_run (cm_exec cm op) ops"
  by (simp add: cm_run_def)

lemma episode_attempt:
  assumes "cm_attempt cm < 1024"
  shows "cm_attempt (cm_run cm (episode_ops e)) = (if heard e then 1 else cm_attempt cm + 1)"
proof (cases e)
  case (Session t n t')
  let ?cm = "snd (connected (connecting cm) t)"
  have "cm_state ?cm = CONNECTED" "\<not> cm_message_seen ?cm" "cm_attempt ?cm = cm_attempt cm"
    by (simp_all add: connected_def connecting_def)
  with message_run [of ?cm n] assms Session show ?thesis by simp
qed (use assms in \<open>simp add: connecting_def\<close>)

section \<open>Properties\<close>

text \<open>
  Full jitter stays in its range: with a non-negative policy every delay lies between zero and
  the smaller of the cap and the doubled base, for every draw, as long as fewer than 1024 attempts
  failed; from then on the computation raises \<open>OverflowError\<close> instead of returning the cap.
\<close>

theorem full_jitter_range:
  assumes "0 \<le> base_seconds policy" and "0 \<le> cap_seconds policy"
  shows "(attempt < 1024 \<longrightarrow> (\<exists>delay r'. full_jitter_delay policy attempt r = (Inr delay, r') \<and> 0 \<le> delay \<and>
            delay \<le> min (cap_seconds policy) (base_seconds policy * 2 ^ attempt))) \<and>
         (1024 \<le> attempt \<longrightarrow> fst (full_jitter_delay policy attempt r) = Inl OverflowError)"
proof -
  let ?top = "min (cap_seconds policy) (base_seconds policy * 2 ^ attempt)"
  obtain x r' where x: "rng_uniform 0 ?top r = (x, r')" by fastforce
  have "0 \<le> ?top" using assms by simp
  from rng_uniform_bounds [OF this x] x show ?thesis
    by (auto simp: full_jitter_delay_def)
qed

lemma full_jitter_range_witness:
  "\<exists>delay r'. full_jitter_delay default_backoff_policy 3 (\<lambda>_. 5) = (Inr delay, r') \<and> 0 \<le> delay \<and>
     delay \<le> min 30 (1 / 2 * 2 ^ 3)"
  using full_jitter_range [of default_backoff_policy 3 "\<lambda>_. 5"]
  by (simp add: default_backoff_policy_def)

text \<open>
  An outage is measured over the whole episode. After a disconnect at time \<open>t0\<close> on a manager
  that was not in an outage, any number of failed attempts, each with its own disconnect at a later
  time, leaves the start of the outage at \<open>t0\<close>: the connection made at \<open>t\<close> reports \<open>t - t0\<close>.
\<close>

theorem outage_spans_retries:
  assumes "cm_disconnected_at cm = None"
  shows "outage_duration_seconds (fst (connected
      (connecting (cm_run cm (Disconnected t0 # concat (map (\<lambda>t. episode_ops (Refused t)) retries)))) t)) =
    Some (t - t0)"
proof -
  have "cm_disconnected_at c = Some t0 \<Longrightarrow>
      cm_disconnected_at (cm_run c (concat (map (\<lambda>t. episode_ops (Refused t)) retries))) = Some t0" for c
    by (induction retries arbitrary: c) (auto simp: connecting_def)
  with assms show ?thesis
    by (simp add: connected_def connecting_def)
qed

lemma outage_spans_retries_witness:
  "outage_duration_seconds (fst (connected
      (connecting (cm_run (new_connection_manager default_backoff_policy (\<lambda>_. 0))
        (Disconnected 10 # concat (map (\<lambda>t. episode_ops (Refused t)) [11, 13])))) 60)) = Some (60 - 10)"
  by (rule outage_spans_retries) (simp add: new_connection_manager_def)

text \<open>
  The attempt counter of a client's loop counts consecutive silence: after any history of
  fewer than 1024 episodes it is the number of episodes at the end of the history since a message
  last came through, that one included, wherever connections were made, kept or refused.
\<close>

theorem attempt_counts_silence:
  assumes "length episodes < 1024"
  shows "cm_attempt (cm_run (new_connection_manager policy r) (concat (map episode_ops episodes))) =
    silent_streak 0 episodes"
proof -
  have "cm_attempt c + length episodes < 1025 \<Longrightarrow>
      cm_attempt (cm_run c (concat (map episode_ops episodes))) = silent_streak (cm_attempt c) episodes" for c
  proof (induction episodes arbitrary: c)
    case (Cons e es)
    then show ?case
      using episode_attempt [of c e] by (cases "heard e") simp_all
  qed simp
  with assms show ?thesis by (simp add: new_connection_manager_def)
qed

lemma attempt_counts_silence_witness:
  "cm_attempt (cm_run (new_connection_manager default_backoff_policy (\<lambda>_. 0))
     (concat (map episode_ops [Refused 1, Session 2 3 4, Refused 5, Session 6 0 7]))) = 3"
  using attempt_counts_silence [of "[Refused 1, Session 2 3 4, Refused 5, Session 6 0 7]"] by simp

end
