(* ===== verification/Supervisor.thy ===== *)
theory Supervisor
  imports Connection
begin

text \<open>
  The feed supervisor of \<^verbatim>\<open>supervisor.py\<close>. Its coroutines run between two awaits without
  interruption, so the supervisor is a step relation whose steps are those stretches: a factory
  ends in one of three ways, a restart delay is over, the sink ends, somebody asks for shutdown,
  \<open>run\<close> wakes up and cancels what is left. What a factory does meanwhile is left open: any
  sequence of its outcomes is a run.
\<close>

section \<open>Entries and their tasks\<close>

datatype feed_state = RUNNING | RESTARTING | PERMANENTLY_FAILED | STOPPED

text \<open>Where the coroutine of a task is waiting, or how it ended.\<close>

datatype task = In_Factory | In_Sleep seconds | Ended "py_exc option" | Was_Cancelled

fun task_done :: "task \<Rightarrow> bool" where
  "task_done (Ended _) = True"
| "task_done Was_Cancelled = True"
| "task_done In_Factory = False"
| "task_done (In_Sleep _) = False"

record feed_entry =
  fe_name :: string
  fe_state :: feed_state
  fe_restart_count :: nat
  fe_restart_times :: "seconds list"
  fe_task :: "task option"

definition new_feed_entry :: "string \<Rightarrow> feed_entry" where
  "new_feed_entry name =
     \<lparr>fe_name = name, fe_state = RUNNING, fe_restart_count = 0, fe_restart_times = [], fe_task = None\<rparr>"

record supervisor =
  sv_backoff_policy :: backoff_policy
  sv_rng :: rng
  sv_max_restarts :: int
  sv_restart_window :: seconds
  sv_feeds :: "(string \<times> feed_entry) list"
  sv_sink_set :: bool
  sv_sink_task :: "task option"
  sv_shutdown :: bool
  sv_cancelled :: bool

definition new_supervisor :: "backoff_policy \<Rightarrow> rng \<Rightarrow> int \<Rightarrow> seconds \<Rightarrow> supervisor" where
  "new_supervisor policy r max_restarts window =
     \<lparr>sv_backoff_policy = policy, sv_rng = r, sv_max_restarts = max_restarts, sv_restart_window = window,
      sv_feeds = [], sv_sink_set = False, sv_sink_task = None, sv_shutdown = False, sv_cancelled = False\<rparr>"

definition default_max_restarts :: int where
  "default_max_restarts = 5"

definition default_restart_window :: seconds where
  "default_restart_window = 300"

definition add_feed :: "string \<Rightarrow> supervisor \<Rightarrow> supervisor" where
  "add_feed name s = s\<lparr>sv_feeds := AList.update name (new_feed_entry name) (sv_feeds s)\<rparr>"

definition set_sink :: "supervisor \<Rightarrow> supervisor" where
  "set_sink s = s\<lparr>sv_sink_set := True\<rparr>"

definition get_feed_state :: "supervisor \<Rightarrow> string \<Rightarrow> feed_state result" where
  "get_feed_state s name =
     (case map_of (sv_feeds s) name of None \<Rightarrow> Inl KeyError | Some entry \<Rightarrow> Inr (fe_state entry))"

definition get_restart_count :: "supervisor \<Rightarrow> string \<Rightarrow> nat result" where
  "get_restart_count s name =
     (case map_of (sv_feeds s) name of None \<Rightarrow> Inl KeyError | Some entry \<Rightarrow> Inr (fe_restart_count entry))"

definition request_shutdown :: "supervisor \<Rightarrow> supervisor" where
  "request_shutdown s = s\<lparr>sv_shutdown := True\<rparr>"

section \<open>The coroutine of a feed\<close>

definition feed_returned :: "feed_entry \<Rightarrow> feed_entry" where
  "feed_returned entry = entry\<lparr>fe_state := STOPPED, fe_task := Some (Ended None)\<rparr>"

definition recent :: "seconds \<Rightarrow> seconds \<Rightarrow> seconds list \<Rightarrow> seconds list" where
  "recent window now stamps = filter (\<lambda>t. now - t < window) stamps"

text \<open>
  The handler of a crash, up to its \<open>sleep\<close> or its \<open>return\<close>. The delay is computed inside the
  handler, so that an exception of \<open>full_jitter_delay\<close> ends the task.
\<close>

definition feed_crashed :: "supervisor \<Rightarrow> seconds \<Rightarrow> feed_entry \<Rightarrow> feed_entry \<times> rng" where
  "feed_crashed s now entry =
     (let stamps = recent (sv_restart_window s) now (fe_restart_times entry) @ [now];
          entry1 = entry\<lparr>fe_restart_times := stamps\<rparr>
      in if sv_max_restarts s < int (length stamps)
         then (entry1\<lparr>fe_state := PERMANENTLY_FAILED, fe_task := Some (Ended None)\<rparr>, sv_rng s)
         else let entry2 = entry1\<lparr>fe_restart_count := fe_restart_count entry1 + 1, fe_state := RESTARTING\<rparr>
              in case full_jitter_delay (sv_backoff_policy s) (fe_restart_count entry2 - 1) (sv_rng s) of
                   (Inl err, r) \<Rightarrow> (entry2\<lparr>fe_task := Some (Ended (Some err))\<rparr>, r)
                 | (Inr delay, r) \<Rightarrow> (entry2\<lparr>fe_task := Some (In_Sleep delay)\<rparr>, r))"

definition feed_woken :: "feed_entry \<Rightarrow> feed_entry" where
  "feed_woken entry = entry\<lparr>fe_state := RUNNING, fe_task := Some In_Factory\<rparr>"

definition feed_cancelled :: "feed_entry \<Rightarrow> feed_entry" where
  "feed_cancelled entry = entry\<lparr>fe_task := Some Was_Cancelled\<rparr>"

definition put_feed :: "string \<Rightarrow> feed_entry \<Rightarrow> supervisor \<Rightarrow> supervisor" where
  "put_feed name entry s = s\<lparr>sv_feeds := AList.update name entry (sv_feeds s)\<rparr>"

section \<open>The whole supervisor\<close>

text \<open>The head of \<open>run\<close>, up to the wait for the shutdown event.\<close>

definition run_start :: "supervisor \<Rightarrow> supervisor result" where
  "run_start s =
     (if \<not> sv_sink_set s then Inl RuntimeError
      else Inr (s\<lparr>sv_sink_task := Some In_Factory,
                  sv_feeds := map (\<lambda>(name, entry). (name, entry\<lparr>fe_task := Some In_Factory\<rparr>)) (sv_feeds s)\<rparr>))"

datatype sup_event =
    Feed_Returns string
  | Feed_Crashes string seconds
  | Feed_Cancelled string
  | Sleep_Over string
  | Sink_Ends "py_exc option"
  | Sink_Cancelled
  | Shutdown_Requested
  | Cancel_All

inductive sup_step :: "supervisor \<Rightarrow> sup_event \<Rightarrow> supervisor \<Rightarrow> bool" where
  returns:
    "map_of (sv_feeds s) name = Some entry \<Longrightarrow> fe_task entry = Some In_Factory \<Longrightarrow>
       sup_step s (Feed_Returns name) (put_feed name (feed_returned entry) s)"
| crashes:
    "map_of (sv_feeds s) name = Some entry \<Longrightarrow> fe_task entry = Some In_Factory \<Longrightarrow>
       feed_crashed s now entry = (entry', r) \<Longrightarrow>
       sup_step s (Feed_Crashes name now) ((put_feed name entry' s)\<lparr>sv_rng := r\<rparr>)"
| cancelled:
    "sv_cancelled s \<Longrightarrow> map_of (sv_feeds s) name = Some entry \<Longrightarrow> fe_task entry = Some t \<Longrightarrow>
       \<not> task_done t \<Longrightarrow>
       sup_step s (Feed_Cancelled name) (put_feed name (feed_cancelled entry) s)"
| wakes:
    "map_of (sv_feeds s) name = Some entry \<Longrightarrow> fe_task entry = Some (In_Sleep delay) \<Longrightarrow>
       sup_step s (Sleep_Over name) (put_feed name (feed_woken entry) s)"
| sink_ends:
    "sv_sink_task s = Some In_Factory \<Longrightarrow>
       sup_step s (Sink_Ends err) (s\<lparr>sv_sink_task := Some (Ended None), sv_shutdown := True\<rparr>)"
| sink_cancelled:
    "sv_cancelled s \<Longrightarrow> sv_sink_task s = Some In_Factory \<Longrightarrow>
       sup_step s Sink_Cancelled (s\<lparr>sv_sink_task := Some Was_Cancelled, sv_shutdown := True\<rparr>)"
| shutdown:
    "sup_step s Shutdown_Requested (request_shutdown s)"
| cancel_all:
    "sv_sink_task s \<noteq> None \<Longrightarrow> sv_shutdown s \<Longrightarrow> \<not> sv_cancelled s \<Longrightarrow>
       sup_step s Cancel_All (s\<lparr>sv_cancelled := True\<rparr>)"

code_pred (modes: i \<Rightarrow> i \<Rightarrow> o \<Rightarrow> bool) sup_step .

inductive_cases sup_stepE: "sup_step s ev s'"

inductive_simps sup_step_simps:
  "sup_step s (Feed_Returns name) s'"
  "sup_step s (Feed_Crashes name now) s'"
  "sup_step s (Sleep_Over name) s'"

text \<open>\<open>run\<close> returns when the gathered tasks have all ended.\<close>

definition run_returned :: "supervisor \<Rightarrow> bool" where
  "run_returned s \<longleftrightarrow>
     sv_cancelled s \<and> pred_option task_done (sv_sink_task s) \<and>
     list_all (\<lambda>(_, entry). pred_option task_done (fe_task entry)) (sv_feeds s)"

inductive sup_run :: "supervisor \<Rightarrow> sup_event list \<Rightarrow> supervisor \<Rightarrow> bool" for s where
  start: "sup_run s [] s"
| snoc: "sup_run s evs s1 \<Longrightarrow> sup_step s1 ev s2 \<Longrightarrow> sup_run s (evs @ [ev]) s2"

section \<open>One feed at a time\<close>

fun about :: "string \<Rightarrow> sup_event \<Rightarrow> bool" where
  "about name (Feed_Returns n) = (n = name)"
| "about name (Feed_Crashes n now) = (n = name)"
| "about name (Feed_Cancelled n) = (n = name)"
| "about name (Sleep_Over n) = (n = name)"
| "about name (Sink_Ends err) = False"
| "about name Sink_Cancelled = False"
| "about name Shutdown_Requested = False"
| "about name Cancel_All = False"

fun crash_times :: "string \<Rightarrow> sup_event list \<Rightarrow> seconds list" where
  "crash_times name [] = []"
| "crash_times name (Feed_Crashes n now # evs) = (if n = name then [now] else []) @ crash_times name evs"
| "crash_times name (_ # evs) = crash_times name evs"

abbreviation feed :: "supervisor \<Rightarrow> string \<Rightarrow> feed_entry option" where
  "feed s name \<equiv> map_of (sv_feeds s) name"

lemma put_feed_simps [simp]:
  "feed (put_feed name entry s) = (feed s)(name \<mapsto> entry)"
  "sv_max_restarts (put_feed name entry s) = sv_max_restarts s"
  "sv_restart_window (put_feed name entry s) = sv_restart_window s"
  "sv_backoff_policy (put_feed name entry s) = sv_backoff_policy s"
  "sv_shutdown (put_feed name entry s) = sv_shutdown s"
  "sv_cancelled (put_feed name entry s) = sv_cancelled s"
  "sv_sink_task (put_feed name entry s) = sv_sink_task s"
  "fst ` set (sv_feeds (put_feed name entry s)) = insert name (fst ` set (sv_feeds s))"
  by (simp_all add: put_feed_def dom_update fun_eq_iff)

lemma sup_step_frame:
  assumes "sup_step s ev s'"
  shows "sv_max_restarts s' = sv_max_restarts s" "sv_restart_window s' = sv_restart_window s"
    "sv_backoff_policy s' = sv_backoff_policy s"
    "sv_shutdown s \<Longrightarrow> sv_shutdown s'" "sv_cancelled s \<Longrightarrow> sv_cancelled s'"
    "\<not> about name ev \<Longrightarrow> feed s' name = feed s name"
  using assms by (auto elim!: sup_stepE simp: request_shutdown_def)

lemma crash_times_snoc:
  "crash_times name (evs @ [ev]) = crash_times name evs @ crash_times name [ev]"
  by (induction name evs rule: crash_times.induct) simp_all

text \<open>What a crash decides does not depend on the rest of the supervisor, the draw included.\<close>

lemma feed_crashed_core:
  assumes "feed_crashed s now entry = (entry', r)"
  defines "ts \<equiv> recent (sv_restart_window s) now (fe_restart_times entry) @ [now]"
  shows "fe_restart_times entry' = ts" "fe_name entry' = fe_name entry"
    "fe_state entry' = (if sv_max_restarts s < int (length ts) then PERMANENTLY_FAILED else RESTARTING)"
    "fe_restart_count entry' = fe_restart_count entry + (if sv_max_restarts s < int (length ts) then 0 else 1)"
    "sv_max_restarts s < int (length ts) \<Longrightarrow> fe_task entry' = Some (Ended None)"
    "\<not> sv_max_restarts s < int (length ts) \<Longrightarrow> 1024 \<le> fe_restart_count entry \<Longrightarrow>
       fe_task entry' = Some (Ended (Some OverflowError))"
    "\<not> sv_max_restarts s < int (length ts) \<Longrightarrow> fe_restart_count entry < 1024 \<Longrightarrow>
       (\<exists>delay. fe_task entry' = Some (In_Sleep delay) \<and>
          full_jitter_delay (sv_backoff_policy s) (fe_restart_count entry) (sv_rng s) = (Inr delay, r))"
  using assms(1) unfolding ts_def
  by (auto simp: feed_crashed_def Let_def full_jitter_delay_def split: if_splits prod.splits sum.splits)

section \<open>The restart budget\<close>

text \<open>The crashes in the window that ends at the last of them.\<close>

definition burst :: "seconds \<Rightarrow> seconds list \<Rightarrow> nat" where
  "burst window ts = (if ts = [] then 0 else length (recent window (last ts) ts))"

text \<open>What the task of an entry and its state say about each other.\<close>

fun task_fits :: "feed_entry \<Rightarrow> bool" where
  "task_fits entry =
     (case fe_task entry of
        None \<Rightarrow> False
      | Some In_Factory \<Rightarrow> fe_state entry = RUNNING
      | Some (In_Sleep delay) \<Rightarrow> fe_state entry = RESTARTING
      | Some (Ended None) \<Rightarrow> fe_state entry = PERMANENTLY_FAILED \<or> fe_state entry = STOPPED
      | Some (Ended (Some err)) \<Rightarrow>
          fe_state entry = RESTARTING \<and> err = OverflowError \<and> 1024 < fe_restart_count entry
      | Some Was_Cancelled \<Rightarrow> fe_state entry = RUNNING \<or> fe_state entry = RESTARTING)"

definition budget_kept :: "int \<Rightarrow> seconds \<Rightarrow> seconds list \<Rightarrow> feed_entry \<Rightarrow> bool" where
  "budget_kept max_restarts window ts entry \<longleftrightarrow>
     fe_restart_times entry = (if ts = [] then [] else recent window (last ts) ts) \<and>
     (\<forall>k. 0 < k \<and> k < length ts \<longrightarrow> int (burst window (take k ts)) \<le> max_restarts) \<and>
     (fe_state entry = PERMANENTLY_FAILED \<longleftrightarrow> ts \<noteq> [] \<and> max_restarts < int (burst window ts)) \<and>
     fe_restart_count entry + (if fe_state entry = PERMANENTLY_FAILED then 1 else 0) = length ts \<and>
     task_fits entry"

lemma recent_recent:
  "t \<le> now \<Longrightarrow> recent window now (recent window t ts) = recent window now ts"
  by (auto simp: recent_def filter_filter intro!: filter_cong)

lemma burst_snoc:
  assumes "0 < window" and "sorted (ts @ [now])"
  shows "recent window now (if ts = [] then [] else recent window (last ts) ts) @ [now] =
      recent window now (ts @ [now])"
    and "burst window (ts @ [now]) =
      length (recent window now (if ts = [] then [] else recent window (last ts) ts)) + 1"
proof -
  have "last ts \<le> now" if "ts \<noteq> []"
    using assms(2) that by (simp add: sorted_append)
  then show "recent window now (if ts = [] then [] else recent window (last ts) ts) @ [now] =
      recent window now (ts @ [now])"
    using assms(1) by (simp add: recent_recent) (simp add: recent_def)
  from arg_cong [OF this, of length] show "burst window (ts @ [now]) =
      length (recent window now (if ts = [] then [] else recent window (last ts) ts)) + 1"
    by (simp add: burst_def)
qed

lemma crash_keeps_budget:
  assumes "budget_kept (sv_max_restarts s) (sv_restart_window s) ts entry"
    and "fe_task entry = Some In_Factory" and "feed_crashed s now entry = (entry', r)"
    and "0 < sv_restart_window s" and "sorted (ts @ [now])"
  shows "budget_kept (sv_max_restarts s) (sv_restart_window s) (ts @ [now]) entry'"
proof -
  let ?max = "sv_max_restarts s" and ?w = "sv_restart_window s"
  note core = feed_crashed_core [OF assms(3)] and b = burst_snoc [OF assms(4,5)]
  have old: "fe_restart_times entry = (if ts = [] then [] else recent ?w (last ts) ts)"
    "fe_state entry = RUNNING" "fe_restart_count entry = length ts"
    "\<And>k. 0 < k \<Longrightarrow> k < length ts \<Longrightarrow> int (burst ?w (take k ts)) \<le> ?max"
    "ts \<noteq> [] \<Longrightarrow> int (burst ?w ts) \<le> ?max"
    using assms(1,2) by (auto simp: budget_kept_def split: if_splits)
  have eq: "recent ?w now (fe_restart_times entry) @ [now] = recent ?w now (ts @ [now])"
    using b(1) old(1) by (simp only:)
  have stamps: "fe_restart_times entry' = recent ?w now (ts @ [now])"
    "int (burst ?w (ts @ [now])) = int (length (recent ?w now (fe_restart_times entry) @ [now]))"
    using core(1) unfolding eq by (simp_all add: burst_def)
  have prefix: "int (burst ?w (take k (ts @ [now]))) \<le> ?max" if "0 < k" "k < length (ts @ [now])" for k
    using that old(4,5) by (cases "k = length ts") auto
  have state: "fe_state entry' =
      (if ?max < int (burst ?w (ts @ [now])) then PERMANENTLY_FAILED else RESTARTING)"
    "fe_restart_count entry' = length ts + (if ?max < int (burst ?w (ts @ [now])) then 0 else 1)"
    using core(3,4) stamps(2) old(3) by simp_all
  have "task_fits entry'"
  proof (cases "?max < int (burst ?w (ts @ [now]))")
    case True
    with core(5) state stamps(2) show ?thesis by simp
  next
    case False
    with core(6,7) state stamps(2) old(3) show ?thesis
      by (cases "1024 \<le> length ts") auto
  qed
  with stamps(1) prefix state show ?thesis by (auto simp: budget_kept_def)
qed

lemma quiet_keeps_budget:
  assumes "budget_kept m w ts entry"
  shows "fe_task entry = Some In_Factory \<Longrightarrow> budget_kept m w ts (feed_returned entry)"
    and "fe_task entry = Some (In_Sleep delay) \<Longrightarrow> budget_kept m w ts (feed_woken entry)"
    and "fe_task entry = Some t \<Longrightarrow> \<not> task_done t \<Longrightarrow> budget_kept m w ts (feed_cancelled entry)"
proof -
  have fits: "task_fits entry" using assms by (simp add: budget_kept_def)
  show "budget_kept m w ts (feed_returned entry)" if "fe_task entry = Some In_Factory"
    using assms that fits by (auto simp: budget_kept_def feed_returned_def)
  show "budget_kept m w ts (feed_woken entry)" if "fe_task entry = Some (In_Sleep delay)"
    using assms that fits by (auto simp: budget_kept_def feed_woken_def)
  show "budget_kept m w ts (feed_cancelled entry)" if "fe_task entry = Some t" "\<not> task_done t"
    using assms that fits by (cases t) (auto simp: budget_kept_def feed_cancelled_def)
qed

lemma sup_run_budget:
  assumes "sup_run s evs s'" and "0 < sv_restart_window s"
    and "\<And>entry. feed s name = Some entry \<Longrightarrow> budget_kept (sv_max_restarts s) (sv_restart_window s) [] entry"
    and "sorted (crash_times name evs)" and "feed s' name = Some entry'"
  shows "budget_kept (sv_max_restarts s) (sv_restart_window s) (crash_times name evs) entry'"
  using assms
proof (induction arbitrary: entry' rule: sup_run.induct)
  case (snoc evs s1 ev s2)
  have frame: "sv_max_restarts s1 = sv_max_restarts s" "sv_restart_window s1 = sv_restart_window s"
    using snoc.hyps(1) by (induction rule: sup_run.induct) (auto simp: sup_step_frame(1,2))
  have ts: "sorted (crash_times name evs)"
    using snoc.prems by (simp add: crash_times_snoc sorted_append)
  show ?case
  proof (cases "about name ev")
    case False
    then have "crash_times name [ev] = []" by (cases ev) auto
    with snoc sup_step_frame(6) [OF snoc.hyps(2) False] ts show ?thesis
      by (simp add: crash_times_snoc)
  next
    case True
    then obtain entry where e: "feed s1 name = Some entry"
      using snoc.hyps(2) by (cases ev) (auto elim!: sup_stepE)
    note kept = snoc.IH [OF snoc.prems(1,2) ts e]
    from snoc.hyps(2) True show ?thesis
    proof (cases rule: sup_step.cases)
      case (crashes n en now en' r)
      with True e have n: "n = name" "en = entry" "entry' = en'" using snoc.prems by auto
      have "budget_kept (sv_max_restarts s1) (sv_restart_window s1) (crash_times name evs @ [now]) en'"
        by (rule crash_keeps_budget [of s1]) (use crashes n kept frame snoc.prems in
          \<open>auto simp: crash_times_snoc\<close>)
      with n crashes(1) frame show ?thesis by (simp add: crash_times_snoc)
    qed (use e kept snoc.prems True quiet_keeps_budget [OF kept] in \<open>auto simp: crash_times_snoc\<close>)
  qed
qed (simp add: budget_kept_def)

section \<open>Properties\<close>

text \<open>A supervisor with the given feeds and a sink, as far as the start of its \<open>run\<close>.\<close>

definition launched :: "backoff_policy \<Rightarrow> rng \<Rightarrow> int \<Rightarrow> seconds \<Rightarrow> string list \<Rightarrow> supervisor result" where
  "launched policy r max_restarts window names =
     run_start (set_sink (foldl (\<lambda>s name. add_feed name s) (new_supervisor policy r max_restarts window) names))"

lemma launched_ok:
  assumes "launched policy r max_restarts window names = Inr s"
  shows "sv_max_restarts s = max_restarts" "sv_restart_window s = window" "sv_backoff_policy s = policy"
    "\<not> sv_shutdown s" "\<not> sv_cancelled s" "sv_sink_task s = Some In_Factory"
    "feed s name = (if name \<in> set names then Some ((new_feed_entry name)\<lparr>fe_task := Some In_Factory\<rparr>) else None)"
proof -
  let ?s = "foldl (\<lambda>s name. add_feed name s) (new_supervisor policy r max_restarts window) names"
  have "sv_max_restarts ?s = max_restarts \<and> sv_restart_window ?s = window \<and> sv_backoff_policy ?s = policy \<and>
    \<not> sv_shutdown ?s \<and> \<not> sv_cancelled ?s \<and>
    map_of (sv_feeds ?s) name = (if name \<in> set names then Some (new_feed_entry name) else None)"
    by (induction names rule: rev_induct) (auto simp: new_supervisor_def add_feed_def)
  then show "sv_max_restarts s = max_restarts" "sv_restart_window s = window" "sv_backoff_policy s = policy"
    "\<not> sv_shutdown s" "\<not> sv_cancelled s" "sv_sink_task s = Some In_Factory"
    "feed s name = (if name \<in> set names then Some ((new_feed_entry name)\<lparr>fe_task := Some In_Factory\<rparr>) else None)"
    using assms by (auto simp: launched_def run_start_def set_sink_def map_of_map)
qed

text \<open>
  C5: the restart budget. However the feeds, the sink and shutdown interleave, a feed is marked
  permanently failed exactly when its last crash is the one that exceeds \<open>max_restarts\<close> crashes in
  the window, and no earlier crash did. Every other crash is counted as one restart, and the state
  tells where the task of the feed is.
\<close>

theorem restart_budget:
  assumes "launched policy r max_restarts window names = Inr s" and "sup_run s evs s'"
    and "map_of (sv_feeds s') name = Some entry" and "0 < window" and "sorted (crash_times name evs)"
  defines "ts \<equiv> crash_times name evs"
  shows "(fe_state entry = PERMANENTLY_FAILED \<longleftrightarrow> ts \<noteq> [] \<and> max_restarts < int (burst window ts)) \<and>
    (\<forall>k. 0 < k \<and> k < length ts \<longrightarrow> int (burst window (take k ts)) \<le> max_restarts) \<and>
    fe_restart_count entry = length ts - (if fe_state entry = PERMANENTLY_FAILED then 1 else 0) \<and>
    task_fits entry"
proof -
  note l = launched_ok [OF assms(1)]
  have "budget_kept (sv_max_restarts s) (sv_restart_window s) [] e" if "feed s name = Some e" for e
    using that l by (auto simp: budget_kept_def new_feed_entry_def split: if_splits)
  from sup_run_budget [OF assms(2) _ this assms(5,3)] assms(4) l
  show ?thesis by (auto simp: budget_kept_def ts_def simp del: task_fits.simps)
qed

text \<open>The part of an entry that a client can see, and what the events of its feed do to it.\<close>

definition entry_core :: "feed_entry \<Rightarrow> feed_state \<times> nat \<times> seconds list" where
  "entry_core entry = (fe_state entry, fe_restart_count entry, fe_restart_times entry)"

fun core_step :: "int \<Rightarrow> seconds \<Rightarrow> feed_state \<times> nat \<times> seconds list \<Rightarrow> sup_event \<Rightarrow> feed_state \<times> nat \<times> seconds list" where
  "core_step m w (st, n, stamps) (Feed_Returns _) = (STOPPED, n, stamps)"
| "core_step m w (st, n, stamps) (Sleep_Over _) = (RUNNING, n, stamps)"
| "core_step m w (st, n, stamps) (Feed_Crashes _ now) =
     (let stamps' = recent w now stamps @ [now]
      in if m < int (length stamps') then (PERMANENTLY_FAILED, n, stamps') else (RESTARTING, n + 1, stamps'))"
| "core_step m w core _ = core"

lemma sup_run_core:
  assumes "sup_run s evs s'"
  shows "map_option entry_core (feed s' name) =
    map_option (\<lambda>core. foldl (core_step (sv_max_restarts s) (sv_restart_window s)) core (filter (about name) evs))
      (map_option entry_core (feed s name))"
  using assms
proof (induction rule: sup_run.induct)
  case (snoc evs s1 ev s2)
  have frame: "sv_max_restarts s1 = sv_max_restarts s" "sv_restart_window s1 = sv_restart_window s"
    using snoc.hyps(1) by (induction rule: sup_run.induct) (auto simp: sup_step_frame(1,2))
  have "map_option entry_core (feed s2 name) =
      map_option (\<lambda>core. core_step (sv_max_restarts s) (sv_restart_window s) core ev)
        (map_option entry_core (feed s1 name))" if "about name ev"
    using snoc.hyps(2) that frame
    by (cases rule: sup_step.cases) (auto simp: entry_core_def feed_returned_def feed_woken_def
        feed_cancelled_def feed_crashed_core(1,3,4) Let_def)
  with snoc.IH sup_step_frame(6) [OF snoc.hyps(2)] show ?case
    by (cases "about name ev") (auto simp: option.map_comp comp_def)
qed (simp add: option.map_comp comp_def option.map_ident)

text \<open>
  C6: failure isolation. A feed's state, restart count and restart times after a run depend only on
  the configuration and on the outcomes of that feed: any two runs in which these are the same, with
  any other feeds, random draws, sink outcomes and interleavings, leave it the same.
\<close>

theorem feed_isolation:
  assumes "launched policy r max_restarts window names = Inr s" and "sup_run s evs s'"
    and "launched policy' r' max_restarts window names' = Inr u" and "sup_run u evs' u'"
    and "name \<in> set names" and "name \<in> set names'"
    and "filter (about name) evs = filter (about name) evs'"
  shows "get_feed_state s' name = get_feed_state u' name \<and>
    get_restart_count s' name = get_restart_count u' name"
proof -
  have "map_option entry_core (feed s' name) = map_option entry_core (feed u' name)"
    using sup_run_core [OF assms(2), of name] sup_run_core [OF assms(4), of name] assms(5-7)
      launched_ok [OF assms(1)] launched_ok [OF assms(3)] by auto
  then show ?thesis
    by (cases "feed s' name"; cases "feed u' name")
      (auto simp: get_feed_state_def get_restart_count_def entry_core_def)
qed

lemma sample_run:
  obtains s s' where "launched default_backoff_policy (\<lambda>_. 0) 1 10 [''okx'', ''binance''] = Inr s"
    "sup_run s [Feed_Crashes ''okx'' 5, Sleep_Over ''okx'', Feed_Crashes ''okx'' 6, Shutdown_Requested, Cancel_All] s'"
    "map_of (sv_feeds s') ''okx'' \<noteq> None" "sv_cancelled s'"
proof -
  let ?r = "\<lambda>_. 0 :: nat"
  let ?b = "(new_feed_entry ''binance'')\<lparr>fe_task := Some In_Factory\<rparr>"
  let ?o = "(new_feed_entry ''okx'')\<lparr>fe_task := Some In_Factory\<rparr>"
  obtain s where s: "launched default_backoff_policy ?r 1 10 [''okx'', ''binance''] = Inr s"
    by (simp add: launched_def run_start_def set_sink_def)
  note l = launched_ok [OF s]
  obtain o1 r1 where c1: "feed_crashed s 5 ?o = (o1, r1)" by fastforce
  then obtain d where o1: "fe_task o1 = Some (In_Sleep d)"
    using feed_crashed_core(7) [OF c1] l by (auto simp: recent_def new_feed_entry_def)
  let ?s1 = "(put_feed ''okx'' o1 s)\<lparr>sv_rng := r1\<rparr>"
  let ?s2 = "put_feed ''okx'' (feed_woken o1) ?s1"
  obtain o2 r2 where c2: "feed_crashed ?s2 6 (feed_woken o1) = (o2, r2)" by fastforce
  let ?s3 = "(put_feed ''okx'' o2 ?s2)\<lparr>sv_rng := r2\<rparr>"
  let ?s4 = "request_shutdown ?s3" and ?s5 = "(request_shutdown ?s3)\<lparr>sv_cancelled := True\<rparr>"
  have "sup_step s (Feed_Crashes ''okx'' 5) ?s1"
    by (rule crashes [OF _ _ c1]) (simp_all add: l)
  note run1 = sup_run.snoc [OF sup_run.start this]
  have "sup_step ?s1 (Sleep_Over ''okx'') ?s2"
    by (rule wakes [OF _ o1]) simp
  note run2 = sup_run.snoc [OF run1 this]
  have "sup_step ?s2 (Feed_Crashes ''okx'' 6) ?s3"
    by (rule crashes [OF _ _ c2]) (simp_all add: feed_woken_def)
  note run3 = sup_run.snoc [OF run2 this]
  have "sup_step ?s3 Shutdown_Requested ?s4" by (rule shutdown)
  note run4 = sup_run.snoc [OF run3 this]
  have "sup_step ?s4 Cancel_All ?s5"
    by (rule cancel_all) (simp_all add: request_shutdown_def l)
  note run5 = sup_run.snoc [OF run4 this]
  have "sup_run s [Feed_Crashes ''okx'' 5, Sleep_Over ''okx'', Feed_Crashes ''okx'' 6, Shutdown_Requested,
      Cancel_All] ?s5" using run5 by simp
  with s show thesis by (rule that) (simp_all add: request_shutdown_def)
qed

lemma restart_budget_witness:
  "\<exists>s s' entry. launched default_backoff_policy (\<lambda>_. 0) 1 10 [''okx'', ''binance''] = Inr s \<and>
     sup_run s [Feed_Crashes ''okx'' 5, Sleep_Over ''okx'', Feed_Crashes ''okx'' 6, Shutdown_Requested, Cancel_All] s' \<and>
     map_of (sv_feeds s') ''okx'' = Some entry \<and> fe_state entry = PERMANENTLY_FAILED \<and> fe_restart_count entry = 1"
proof -
  obtain s s' where r: "launched default_backoff_policy (\<lambda>_. 0) 1 10 [''okx'', ''binance''] = Inr s"
    "sup_run s [Feed_Crashes ''okx'' 5, Sleep_Over ''okx'', Feed_Crashes ''okx'' 6, Shutdown_Requested, Cancel_All] s'"
    "map_of (sv_feeds s') ''okx'' \<noteq> None"
    by (rule sample_run)
  then obtain entry where e: "map_of (sv_feeds s') ''okx'' = Some entry" by auto
  from restart_budget [OF r(1,2) e] have "fe_state entry = PERMANENTLY_FAILED" "fe_restart_count entry = 1"
    by (simp_all add: burst_def recent_def)
  with r e show ?thesis by blast
qed

lemma feed_isolation_witness:
  "\<exists>s s'. launched default_backoff_policy (\<lambda>_. 0) 1 10 [''okx'', ''binance''] = Inr s \<and>
     sup_run s [Feed_Crashes ''okx'' 5, Sleep_Over ''okx'', Feed_Crashes ''okx'' 6, Shutdown_Requested, Cancel_All] s' \<and>
     get_feed_state s' ''binance'' = get_feed_state s ''binance'' \<and> get_feed_state s ''binance'' = Inr RUNNING"
proof -
  obtain s s' where r: "launched default_backoff_policy (\<lambda>_. 0) 1 10 [''okx'', ''binance''] = Inr s"
    "sup_run s [Feed_Crashes ''okx'' 5, Sleep_Over ''okx'', Feed_Crashes ''okx'' 6, Shutdown_Requested, Cancel_All] s'"
    by (rule sample_run)
  have "get_feed_state s ''binance'' = Inr RUNNING"
    using launched_ok(7) [OF r(1), of "''binance''"] by (simp add: get_feed_state_def new_feed_entry_def)
  with feed_isolation [OF r(1,2) r(1) start, of "''binance''"] r show ?thesis by auto
qed

fun sink_done :: "sup_event \<Rightarrow> bool" where
  "sink_done (Sink_Ends _) = True"
| "sink_done Sink_Cancelled = True"
| "sink_done _ = False"

definition sink_alive :: "supervisor \<Rightarrow> bool" where
  "sink_alive s \<longleftrightarrow> sv_sink_task s = Some In_Factory"

lemma sup_run_sink:
  assumes "sup_run s evs s'" and "sink_alive s" and "\<not> sv_shutdown s" and "\<not> sv_cancelled s"
  shows "(sv_shutdown s' \<longleftrightarrow> (\<exists>ev \<in> set evs. sink_done ev \<or> ev = Shutdown_Requested)) \<and>
    (sink_alive s' \<longleftrightarrow> \<not> (\<exists>ev \<in> set evs. sink_done ev)) \<and>
    length (filter sink_done evs) = (if sink_alive s' then 0 else 1) \<and>
    (sv_cancelled s' \<longleftrightarrow> Cancel_All \<in> set evs) \<and> (sv_cancelled s' \<longrightarrow> sv_shutdown s') \<and>
    ((\<exists>n. Feed_Cancelled n \<in> set evs) \<longrightarrow> sv_cancelled s') \<and>
    pred_option (\<lambda>t. t = In_Factory \<or> task_done t) (sv_sink_task s') \<and> sv_sink_task s' \<noteq> None"
  using assms
proof (induction rule: sup_run.induct)
  case (snoc evs s1 ev s2)
  note ih = snoc.IH [OF snoc.prems]
  from snoc.hyps(2) show ?case
    by (cases rule: sup_step.cases) (use ih in \<open>simp_all add: sink_alive_def request_shutdown_def; blast\<close>)+
qed (auto simp: sink_alive_def)

text \<open>
  C7: the sink is critical and never restarted. The shutdown event is set exactly by a request or by
  the end of the sink, whatever way it ends and whatever the feeds do; the sink task is in its
  factory exactly until then, and it ends at most once. Feeds are cancelled only after shutdown.
\<close>

theorem sink_is_critical:
  assumes "launched policy r max_restarts window names = Inr s" and "sup_run s evs s'"
  shows "(sv_shutdown s' \<longleftrightarrow> (\<exists>ev \<in> set evs. sink_done ev \<or> ev = Shutdown_Requested)) \<and>
    (sv_sink_task s' = Some In_Factory \<longleftrightarrow> filter sink_done evs = []) \<and>
    length (filter sink_done evs) \<le> 1 \<and>
    ((\<exists>n. Feed_Cancelled n \<in> set evs) \<longrightarrow> sv_shutdown s')"
proof -
  note l = launched_ok [OF assms(1)]
  have "sink_alive s" using l by (simp add: sink_alive_def)
  from sup_run_sink [OF assms(2) this] l
  have r: "sv_shutdown s' \<longleftrightarrow> (\<exists>ev \<in> set evs. sink_done ev \<or> ev = Shutdown_Requested)"
    "length (filter sink_done evs) = (if sink_alive s' then 0 else 1)"
    "sv_cancelled s' \<longrightarrow> sv_shutdown s'" "(\<exists>n. Feed_Cancelled n \<in> set evs) \<longrightarrow> sv_cancelled s'"
    by blast+
  moreover have "filter sink_done evs = [] \<longleftrightarrow> sv_sink_task s' = Some In_Factory"
    using r(2) by (cases "sink_alive s'") (auto simp: sink_alive_def)
  moreover have "length (filter sink_done evs) \<le> 1" using r(2) by simp
  ultimately show ?thesis by blast
qed

lemma sink_is_critical_witness:
  "\<exists>s s'. launched default_backoff_policy (\<lambda>_. 0) 1 10 [''okx'', ''binance''] = Inr s \<and>
     sup_run s [Feed_Crashes ''okx'' 5, Sleep_Over ''okx'', Feed_Crashes ''okx'' 6, Shutdown_Requested, Cancel_All] s' \<and>
     sv_shutdown s' \<and> sv_sink_task s' = Some In_Factory"
proof -
  obtain s s' where r: "launched default_backoff_policy (\<lambda>_. 0) 1 10 [''okx'', ''binance''] = Inr s"
    "sup_run s [Feed_Crashes ''okx'' 5, Sleep_Over ''okx'', Feed_Crashes ''okx'' 6, Shutdown_Requested, Cancel_All] s'"
    by (rule sample_run)
  from sink_is_critical [OF r] r show ?thesis by auto
qed

lemma ended_feed_stays:
  assumes "sup_run s evs s'" and "feed s name = Some entry" and "fe_task entry = Some (Ended err)"
  shows "feed s' name = Some entry"
  using assms
proof (induction rule: sup_run.induct)
  case (snoc evs s1 ev s2)
  then have e: "feed s1 name = Some entry" by simp
  have "\<not> about name ev"
    using snoc.hyps(2) e snoc.prems(2) by (cases rule: sup_step.cases) auto
  with sup_step_frame(6) [OF snoc.hyps(2)] e show ?case by simp
qed simp

text \<open>
  A feed can die unnoticed. When a feed that has been restarted 1024 times crashes within its
  budget, the delay computation overflows inside the handler: its task ends with the exception, the
  feed is never restarted, yet its state stays \<open>RESTARTING\<close> in every continuation.
\<close>

theorem dead_feed_looks_restarting:
  assumes "map_of (sv_feeds s) name = Some entry" and "1024 \<le> fe_restart_count entry"
    and "int (length (recent (sv_restart_window s) now (fe_restart_times entry))) < sv_max_restarts s"
    and "sup_step s (Feed_Crashes name now) s1" and "sup_run s1 evs s2"
  shows "get_feed_state s2 name = Inr RESTARTING \<and>
    (\<exists>dead. map_of (sv_feeds s2) name = Some dead \<and> fe_task dead = Some (Ended (Some OverflowError)))"
proof -
  obtain e' r where c: "feed_crashed s now entry = (e', r)" and s1: "s1 = (put_feed name e' s)\<lparr>sv_rng := r\<rparr>"
    using assms(1,4) by (auto simp: sup_step_simps)
  note core = feed_crashed_core [OF c]
  have e': "fe_task e' = Some (Ended (Some OverflowError))" "fe_state e' = RESTARTING"
    using core(3,6) assms(2,3) by simp_all
  have "feed s2 name = Some e'"
    by (rule ended_feed_stays [OF assms(5) _ e'(1)]) (simp add: s1)
  with e' show ?thesis by (simp add: get_feed_state_def)
qed

definition tired_supervisor :: supervisor where
  "tired_supervisor =
     (new_supervisor default_backoff_policy (\<lambda>_. 0) 5 300)\<lparr>sv_feeds :=
        [(''okx'', (new_feed_entry ''okx'')\<lparr>fe_restart_count := 1024, fe_task := Some In_Factory\<rparr>)]\<rparr>"

lemma dead_feed_looks_restarting_witness:
  "\<exists>s1. sup_step tired_supervisor (Feed_Crashes ''okx'' 1000000) s1 \<and> get_feed_state s1 ''okx'' = Inr RESTARTING"
proof -
  let ?e = "(new_feed_entry ''okx'')\<lparr>fe_restart_count := 1024, fe_task := Some In_Factory\<rparr>"
  obtain e' r where c: "feed_crashed tired_supervisor 1000000 ?e = (e', r)" by fastforce
  have e: "map_of (sv_feeds tired_supervisor) ''okx'' = Some ?e" by (simp add: tired_supervisor_def)
  have st: "sup_step tired_supervisor (Feed_Crashes ''okx'' 1000000)
      ((put_feed ''okx'' e' tired_supervisor)\<lparr>sv_rng := r\<rparr>)"
    by (rule crashes [OF e _ c]) simp
  from dead_feed_looks_restarting [OF e _ _ st sup_run.start] st show ?thesis
    by (auto simp: tired_supervisor_def new_supervisor_def new_feed_entry_def recent_def)
qed

text \<open>What is left to cancel, and the steps that do it.\<close>

definition unfinished :: "supervisor \<Rightarrow> string set" where
  "unfinished s = {name. \<exists>entry t. feed s name = Some entry \<and> fe_task entry = Some t \<and> \<not> task_done t}"

lemma finite_unfinished: "finite (unfinished s)"
proof (rule finite_subset)
  show "unfinished s \<subseteq> fst ` set (sv_feeds s)"
    unfolding unfinished_def by (force dest: map_of_SomeD)
qed simp

lemma sup_run_cons:
  assumes "sup_run s1 evs s2" and "sup_step s ev s1"
  shows "sup_run s (ev # evs) s2"
  using assms
proof (induction rule: sup_run.induct)
  case start
  from sup_run.snoc [OF sup_run.start this] show ?case by simp
next
  case (snoc evs s2 ev' s3)
  from sup_run.snoc [OF snoc.IH [OF snoc.prems] snoc.hyps(2)] show ?case by simp
qed

lemma cancel_feeds:
  assumes "sv_cancelled s" and "card (unfinished s) = n" and "distinct_keys (sv_feeds s)"
  shows "\<exists>evs s'. sup_run s evs s' \<and> unfinished s' = {} \<and> length evs = n \<and> sv_cancelled s' \<and>
    sv_sink_task s' = sv_sink_task s \<and> set evs \<subseteq> range Feed_Cancelled \<and> distinct_keys (sv_feeds s')"
  using assms
proof (induction n arbitrary: s)
  case 0
  then have "unfinished s = {}" using finite_unfinished by simp
  with 0 show ?case by (intro exI [of _ "[]"] exI [of _ s]) (simp add: sup_run.start)
next
  case (Suc n)
  then obtain name where n: "name \<in> unfinished s" by fastforce
  then obtain entry t where e: "feed s name = Some entry" "fe_task entry = Some t" "\<not> task_done t"
    by (auto simp: unfinished_def)
  let ?s = "put_feed name (feed_cancelled entry) s"
  have st: "sup_step s (Feed_Cancelled name) ?s" by (rule cancelled [OF Suc.prems(1) e])
  have "unfinished ?s = unfinished s - {name}"
    by (auto simp: unfinished_def feed_cancelled_def split: if_splits)
  with n Suc.prems have "card (unfinished ?s) = n" using finite_unfinished by simp
  moreover have "distinct_keys (sv_feeds ?s)" using Suc.prems(3) by (simp add: put_feed_def distinct_update)
  ultimately obtain evs s' where "sup_run ?s evs s'" "unfinished s' = {}" "length evs = n" "sv_cancelled s'"
    "sv_sink_task s' = sv_sink_task s" "set evs \<subseteq> range Feed_Cancelled" "distinct_keys (sv_feeds s')"
    using Suc.IH [of ?s] Suc.prems(1) by auto
  with sup_run_cons [OF _ st] show ?case by (intro exI [of _ "Feed_Cancelled name # evs"] exI [of _ s']) auto
qed

lemma sup_run_distinct:
  assumes "sup_run s evs s'" and "distinct_keys (sv_feeds s)"
  shows "distinct_keys (sv_feeds s')"
  using assms
proof (induction rule: sup_run.induct)
  case (snoc evs s1 ev s2)
  from snoc.hyps(2) snoc.IH [OF snoc.prems] show ?case
    by (cases rule: sup_step.cases) (simp_all add: put_feed_def distinct_update request_shutdown_def)
qed simp

lemma launched_distinct:
  "launched policy r max_restarts window names = Inr s \<Longrightarrow> distinct_keys (sv_feeds s)"
proof -
  have "distinct_keys (sv_feeds (foldl (\<lambda>s name. add_feed name s) (new_supervisor policy r max_restarts window) names))"
    by (induction names rule: rev_induct) (simp_all add: new_supervisor_def add_feed_def distinct_update)
  then show "distinct_keys (sv_feeds s)" if "launched policy r max_restarts window names = Inr s"
    using that by (auto simp: launched_def run_start_def set_sink_def comp_def split_beta)
qed

lemma no_unfinished_returned:
  "unfinished s = {} \<Longrightarrow> distinct_keys (sv_feeds s) \<Longrightarrow> sv_cancelled s \<Longrightarrow>
     pred_option task_done (sv_sink_task s) \<Longrightarrow> run_returned s"
  by (auto simp: run_returned_def unfinished_def list_all_iff pred_option_def)

text \<open>
  Shutdown can always complete. From every state a run reaches after it was asked to shut down
  and has cancelled its tasks, delivering the cancellations, at most one to each task, makes \<open>run\<close>
  return: no state of a feed, restart delays included, blocks it.
\<close>

theorem shutdown_completes:
  assumes "launched policy r max_restarts window names = Inr s" and "sup_run s evs s1" and "sv_cancelled s1"
  shows "\<exists>evs' s2. sup_run s1 evs' s2 \<and> run_returned s2 \<and> length evs' \<le> card (unfinished s1) + 1 \<and>
    set evs' \<subseteq> insert Sink_Cancelled (range Feed_Cancelled)"
proof -
  note l = launched_ok [OF assms(1)]
  have "sink_alive s" using l by (simp add: sink_alive_def)
  from sup_run_sink [OF assms(2) this] l
  have sink: "pred_option (\<lambda>t. t = In_Factory \<or> task_done t) (sv_sink_task s1)" "sv_sink_task s1 \<noteq> None"
    by blast+
  obtain evs' s2 where c: "sup_run s1 evs' s2" "unfinished s2 = {}" "length evs' = card (unfinished s1)"
    "sv_cancelled s2" "sv_sink_task s2 = sv_sink_task s1" "set evs' \<subseteq> range Feed_Cancelled"
    "distinct_keys (sv_feeds s2)"
    using cancel_feeds [OF assms(3) refl sup_run_distinct [OF assms(2) launched_distinct [OF assms(1)]]] by blast
  show ?thesis
  proof (cases "sv_sink_task s1 = Some In_Factory")
    case True
    let ?s = "s2\<lparr>sv_sink_task := Some Was_Cancelled, sv_shutdown := True\<rparr>"
    have "sup_run s1 (evs' @ [Sink_Cancelled]) ?s"
      by (rule sup_run.snoc [OF c(1)], rule sink_cancelled) (use c True in simp_all)
    moreover have "run_returned ?s"
      by (rule no_unfinished_returned) (use c in \<open>simp_all add: unfinished_def\<close>)
    ultimately show ?thesis using c(3,6) by (intro exI [of _ "evs' @ [Sink_Cancelled]"] exI [of _ ?s]) auto
  next
    case False
    with sink have "pred_option task_done (sv_sink_task s2)" using c(5) by (auto simp: pred_option_def)
    with c no_unfinished_returned show ?thesis by (intro exI [of _ evs'] exI [of _ s2]) auto
  qed
qed

lemma shutdown_completes_witness:
  "\<exists>s s1 evs' s2. launched default_backoff_policy (\<lambda>_. 0) 1 10 [''okx'', ''binance''] = Inr s \<and>
     sup_run s [Feed_Crashes ''okx'' 5, Sleep_Over ''okx'', Feed_Crashes ''okx'' 6, Shutdown_Requested, Cancel_All] s1 \<and>
     sup_run s1 evs' s2 \<and> run_returned s2"
proof -
  obtain s s' where r: "launched default_backoff_policy (\<lambda>_. 0) 1 10 [''okx'', ''binance''] = Inr s"
    "sup_run s [Feed_Crashes ''okx'' 5, Sleep_Over ''okx'', Feed_Crashes ''okx'' 6, Shutdown_Requested, Cancel_All] s'"
    "sv_cancelled s'"
    by (rule sample_run)
  from shutdown_completes [OF r] r show ?thesis by blast
qed

end
