(* ===== verification/PyJson.thy ===== *)
theory PyJson
  imports BookEngine "HOL-Library.Char_ord"
begin

text \<open>
  Parsed JSON as Python sees it, and the conversions the parsers of the feeds apply to it:
  subscripting, iteration and unpacking, \<open>int\<close> and \<open>Decimal\<close>, each with the exceptions it raises.
  Strings are of ASCII characters, which is what both exchanges send; the limits of \<open>Decimal\<close> are
  those of its 64-bit implementation. A \<open>Decimal\<close> may be an infinity or a NaN, which the book engine
  has no meaning for, so the parsers produce levels of \<open>dec\<close> and \<open>finite_level\<close> tells the rest.
\<close>

section \<open>Values\<close>

datatype py_float = Finite rat | Infinite bool | Not_A_Number

datatype json =
    JNull
  | JBool bool
  | JInt int
  | JFloat py_float
  | JStr string
  | JList "json list"
  | JDict "(string \<times> json) list"

datatype dec = Dec rat | Dec_Infinity bool | Dec_NaN

section \<open>Subscripts, iteration and unpacking\<close>

text \<open>\<open>v[key]\<close> with a string and \<open>v[i]\<close> with a small non-negative integer.\<close>

fun get_key :: "json \<Rightarrow> string \<Rightarrow> json result" where
  "get_key (JDict d) k = (case map_of d k of None \<Rightarrow> Inl KeyError | Some v \<Rightarrow> Inr v)"
| "get_key _ k = Inl TypeError"

text \<open>\<open>v.get(key)\<close>: only a dictionary has the method, and an absent key gives \<open>None\<close>.\<close>

fun get_or_none :: "json \<Rightarrow> string \<Rightarrow> json result" where
  "get_or_none (JDict d) k = Inr (case map_of d k of None \<Rightarrow> JNull | Some v \<Rightarrow> v)"
| "get_or_none _ k = Inl AttributeError"

fun get_index :: "json \<Rightarrow> nat \<Rightarrow> json result" where
  "get_index (JList vs) i = (if i < length vs then Inr (vs ! i) else Inl IndexError)"
| "get_index (JStr s) i = (if i < length s then Inr (JStr [s ! i]) else Inl IndexError)"
| "get_index (JDict d) i = Inl KeyError"
| "get_index _ i = Inl TypeError"

fun iterate :: "json \<Rightarrow> json list result" where
  "iterate (JList vs) = Inr vs"
| "iterate (JStr s) = Inr (map (\<lambda>c. JStr [c]) s)"
| "iterate (JDict d) = Inr (map (\<lambda>(k, _). JStr k) d)"
| "iterate _ = Inl TypeError"

definition unpack2 :: "json \<Rightarrow> (json \<times> json) result" where
  "unpack2 v = (case iterate v of Inl err \<Rightarrow> Inl err | Inr [p, q] \<Rightarrow> Inr (p, q) | Inr _ \<Rightarrow> Inl ValueError)"

fun is_dict :: "json \<Rightarrow> bool" where
  "is_dict (JDict d) = True"
| "is_dict _ = False"

lemma get_or_none_error: "get_or_none v k = Inl err \<longleftrightarrow> err = AttributeError \<and> \<not> is_dict v"
  by (cases v) auto

lemma get_or_none_null: "get_or_none v k = Inr JNull \<longleftrightarrow> get_key v k = Inl KeyError \<or> get_key v k = Inr JNull"
  by (cases v) (auto split: option.splits)

text \<open>A list comprehension whose body may raise: the first exception ends it.\<close>

fun map_result :: "('a \<Rightarrow> 'b result) \<Rightarrow> 'a list \<Rightarrow> 'b list result" where
  "map_result f [] = Inr []"
| "map_result f (x # xs) =
     (case f x of Inl err \<Rightarrow> Inl err
      | Inr y \<Rightarrow> (case map_result f xs of Inl err \<Rightarrow> Inl err | Inr ys \<Rightarrow> Inr (y # ys)))"

section \<open>Integers\<close>

definition digit_val :: "char \<Rightarrow> nat option" where
  "digit_val c = (let n = of_char c :: nat in if 48 \<le> n \<and> n \<le> 57 then Some (n - 48) else None)"

definition strip_by :: "(char \<Rightarrow> bool) \<Rightarrow> string \<Rightarrow> string" where
  "strip_by p s = rev (dropWhile p (rev (dropWhile p s)))"

definition c_space :: "char \<Rightarrow> bool" where
  "c_space c = (let n = of_char c :: nat in (9 \<le> n \<and> n \<le> 13) \<or> n = 32)"

definition unicode_space :: "char \<Rightarrow> bool" where
  "unicode_space c = (let n = of_char c :: nat in (9 \<le> n \<and> n \<le> 13) \<or> (28 \<le> n \<and> n \<le> 32))"

fun sign_split :: "string \<Rightarrow> int \<times> string" where
  "sign_split (c # cs) = (if c = CHR ''-'' then (-1, cs) else if c = CHR ''+'' then (1, cs) else (1, c # cs))"
| "sign_split [] = (1, [])"

text \<open>
  The digits of an integer literal: the first argument tells whether an underscore may come next,
  the second is the value so far. An underscore needs a digit on either side.
\<close>

fun int_digits :: "bool \<Rightarrow> nat \<Rightarrow> string \<Rightarrow> nat option" where
  "int_digits ok n [] = (if ok then Some n else None)"
| "int_digits ok n (c # cs) =
     (if c = CHR ''_'' then (if ok then int_digits False n cs else None)
      else (case digit_val c of None \<Rightarrow> None | Some d \<Rightarrow> int_digits True (10 * n + d) cs))"

definition max_str_digits :: nat where
  "max_str_digits = 4300"

definition int_of_str :: "string \<Rightarrow> int result" where
  "int_of_str s =
     (let (sg, digits) = sign_split (strip_by c_space s)
      in case int_digits False 0 digits of
           None \<Rightarrow> Inl ValueError
         | Some n \<Rightarrow>
             if max_str_digits < length (filter (\<lambda>c. c \<noteq> CHR ''_'') digits) then Inl ValueError
             else Inr (sg * int n))"

definition truncate_rat :: "rat \<Rightarrow> int" where
  "truncate_rat q = (if 0 \<le> q then \<lfloor>q\<rfloor> else \<lceil>q\<rceil>)"

fun int_of :: "json \<Rightarrow> int result" where
  "int_of (JInt i) = Inr i"
| "int_of (JBool b) = Inr (if b then 1 else 0)"
| "int_of (JFloat (Finite q)) = Inr (truncate_rat q)"
| "int_of (JFloat (Infinite neg)) = Inl OverflowError"
| "int_of (JFloat Not_A_Number) = Inl ValueError"
| "int_of (JStr s) = int_of_str s"
| "int_of _ = Inl TypeError"

section \<open>Decimals\<close>

definition max_emax :: int where
  "max_emax = 999999999999999999"

definition min_etiny :: int where
  "min_etiny = -1999999999999999997"

definition pow10 :: "int \<Rightarrow> rat" where
  "pow10 e = (if 0 \<le> e then 10 ^ nat e else 1 / 10 ^ nat (- e))"

text \<open>A sign, the digits of a coefficient and an exponent: exact, or refused.\<close>

definition coefficient :: "nat list \<Rightarrow> nat" where
  "coefficient ds = foldl (\<lambda>n d. 10 * n + d) 0 ds"

definition exact_dec :: "int \<Rightarrow> nat list \<Rightarrow> int \<Rightarrow> dec result" where
  "exact_dec sg ds e =
     (let significant = dropWhile (\<lambda>d. d = 0) ds; top = e + int (max (length significant) 1) - 1
      in if top \<le> max_emax \<and> min_etiny \<le> e
         then Inr (Dec (of_int sg * of_nat (coefficient ds) * pow10 e)) else Inl InvalidOperation)"

fun all_digits :: "string \<Rightarrow> nat list option" where
  "all_digits [] = Some []"
| "all_digits (c # cs) =
     (case digit_val c of None \<Rightarrow> None
      | Some d \<Rightarrow> (case all_digits cs of None \<Rightarrow> None | Some ds \<Rightarrow> Some (d # ds)))"

definition lower_char :: "char \<Rightarrow> char" where
  "lower_char c = (let n = of_char c :: nat in if 65 \<le> n \<and> n \<le> 90 then char_of (n + 32) else c)"

definition is_digit :: "char \<Rightarrow> bool" where
  "is_digit c = (digit_val c \<noteq> None)"

text \<open>The exponent part, empty or \<open>e\<close>, an optional sign and at least one digit.\<close>

fun exponent_part :: "string \<Rightarrow> int option" where
  "exponent_part [] = Some 0"
| "exponent_part (c # cs) =
     (if c \<noteq> CHR ''e'' then None
      else (let (sg, digits) = sign_split cs
            in if digits = [] then None
               else map_option (\<lambda>ds. sg * int (coefficient ds)) (all_digits digits)))"

definition number_dec :: "int \<Rightarrow> string \<Rightarrow> dec result" where
  "number_dec sg s =
     (let whole = takeWhile is_digit s; rest = dropWhile is_digit s;
          (frac, rest') = (case rest of
             c # cs \<Rightarrow> if c = CHR ''.'' then (takeWhile is_digit cs, dropWhile is_digit cs) else ([], rest)
           | [] \<Rightarrow> ([], []))
      in if whole = [] \<and> frac = [] then Inl InvalidOperation
         else case exponent_part rest' of
                None \<Rightarrow> Inl InvalidOperation
              | Some e \<Rightarrow>
                  exact_dec sg (map (\<lambda>c. the (digit_val c)) (whole @ frac)) (e - int (length frac)))"

definition decimal_of_str :: "string \<Rightarrow> dec result" where
  "decimal_of_str s =
     (let text = map lower_char (filter (\<lambda>c. c \<noteq> CHR ''_'') (strip_by unicode_space s));
          (sg, body) = sign_split text;
          payload = (if take 4 body = ''snan'' then drop 4 body else drop 3 body)
      in if body = ''inf'' \<or> body = ''infinity'' then Inr (Dec_Infinity (sg < 0))
         else if take 3 body = ''nan'' \<or> take 4 body = ''snan''
              then (if all_digits payload \<noteq> None then Inr Dec_NaN else Inl InvalidOperation)
         else number_dec sg body)"

definition fits_long :: "int \<Rightarrow> bool" where
  "fits_long i \<longleftrightarrow> - (2 ^ 63) \<le> i \<and> i < 2 ^ 63"

text \<open>\<open>PyLong_Check\<close> and the conversion to a C long: booleans are integers.\<close>

fun c_long :: "json \<Rightarrow> int result" where
  "c_long (JInt i) = (if fits_long i then Inr i else Inl OverflowError)"
| "c_long (JBool b) = Inr (if b then 1 else 0)"
| "c_long _ = Inl ValueError"

definition seq_digit :: "json \<Rightarrow> nat result" where
  "seq_digit v =
     (case c_long v of Inl err \<Rightarrow> Inl err
      | Inr d \<Rightarrow> if 0 \<le> d \<and> d \<le> 9 then Inr (nat d) else Inl ValueError)"

text \<open>\<open>Decimal([sign, digits, exponent])\<close>.\<close>

definition decimal_of_seq :: "json list \<Rightarrow> dec result" where
  "decimal_of_seq vs =
     (case vs of
        [v_sign, v_digits, v_exp] \<Rightarrow>
          (case c_long v_sign of
             Inl err \<Rightarrow> Inl err
           | Inr sg \<Rightarrow>
               if sg \<noteq> 0 \<and> sg \<noteq> 1 then Inl ValueError
               else (case (case v_exp of
                             JStr s \<Rightarrow>
                               if s = ''F'' then Inr (Some (Dec_Infinity (sg = 1)), 0)
                               else if s = ''n'' \<or> s = ''N'' then Inr (Some Dec_NaN, 0) else Inl ValueError
                           | _ \<Rightarrow> map_sum id (\<lambda>e. (None, e)) (c_long v_exp)) of
                       Inl err \<Rightarrow> Inl err
                     | Inr (special, e) \<Rightarrow>
                         (case v_digits of
                            JList digits \<Rightarrow>
                              (case map_result seq_digit digits of
                                 Inl err \<Rightarrow> Inl err
                               | Inr ds \<Rightarrow>
                                   (case special of
                                      Some d \<Rightarrow> Inr d
                                    | None \<Rightarrow> exact_dec (if sg = 1 then -1 else 1) ds e))
                          | _ \<Rightarrow> Inl ValueError)))
      | _ \<Rightarrow> Inl ValueError)"

fun decimal_of :: "json \<Rightarrow> dec result" where
  "decimal_of (JInt i) = Inr (Dec (of_int i))"
| "decimal_of (JBool b) = Inr (Dec (if b then 1 else 0))"
| "decimal_of (JFloat (Finite q)) = Inr (Dec q)"
| "decimal_of (JFloat (Infinite neg)) = Inr (Dec_Infinity neg)"
| "decimal_of (JFloat Not_A_Number) = Inr Dec_NaN"
| "decimal_of (JStr s) = decimal_of_str s"
| "decimal_of (JList vs) = decimal_of_seq vs"
| "decimal_of _ = Inl TypeError"

section \<open>Levels\<close>

type_synonym dec_level = "dec \<times> dec"

fun finite_dec :: "dec \<Rightarrow> rat option" where
  "finite_dec (Dec q) = Some q"
| "finite_dec _ = None"

definition finite_level :: "dec_level \<Rightarrow> price_level option" where
  "finite_level l =
     (case (finite_dec (fst l), finite_dec (snd l)) of (Some p, Some q) \<Rightarrow> Some (p, q) | _ \<Rightarrow> None)"

fun finite_levels :: "dec_level list \<Rightarrow> price_level list option" where
  "finite_levels [] = Some []"
| "finite_levels (l # ls) =
     (case finite_level l of None \<Rightarrow> None
      | Some p \<Rightarrow> (case finite_levels ls of None \<Rightarrow> None | Some ps \<Rightarrow> Some (p # ps)))"

section \<open>Lemmas\<close>

lemma map_result_ok:
  "map_result f xs = Inr ys \<longleftrightarrow> list_all2 (\<lambda>x y. f x = Inr y) xs ys"
proof (induction xs arbitrary: ys)
  case (Cons x xs)
  show ?case
    by (cases "f x"; cases "map_result f xs") (auto simp: list_all2_Cons1 simp flip: Cons.IH)
qed auto

lemma map_result_error:
  "map_result f xs = Inl err \<Longrightarrow> \<exists>x \<in> set xs. f x = Inl err"
  by (induction xs) (auto split: sum.splits)

lemma finite_levels_ok:
  "finite_levels ls = Some ps \<longleftrightarrow> list_all2 (\<lambda>l p. finite_level l = Some p) ls ps"
proof (induction ls arbitrary: ps)
  case (Cons l ls)
  show ?case
    by (cases "finite_level l"; cases "finite_levels ls") (auto simp: list_all2_Cons1 simp flip: Cons.IH)
qed auto

lemma iterate_error: "iterate v = Inl err \<Longrightarrow> err = TypeError"
  by (cases v) auto

lemma unpack2_error: "unpack2 v = Inl err \<Longrightarrow> err = TypeError \<or> err = ValueError"
  by (auto simp: unpack2_def dest: iterate_error split: sum.splits list.splits)

lemma int_of_error: "int_of v = Inl err \<Longrightarrow> err \<in> {ValueError, TypeError, OverflowError}"
  by (induction v rule: int_of.induct) (auto simp: int_of_str_def Let_def split: option.splits prod.splits if_splits)

lemma get_key_error: "get_key v k = Inl err \<Longrightarrow> err \<in> {KeyError, TypeError}"
  by (cases v) (auto split: option.splits)

lemma get_index_error: "get_index v i = Inl err \<Longrightarrow> err \<in> {KeyError, IndexError, TypeError}"
  by (cases v) (auto split: if_splits)

lemma exact_dec_error: "exact_dec sg ds e = Inl err \<Longrightarrow> err = InvalidOperation"
  by (auto simp: exact_dec_def Let_def split: if_splits)

lemma decimal_of_str_error: "decimal_of_str s = Inl err \<Longrightarrow> err = InvalidOperation"
  by (auto simp: decimal_of_str_def number_dec_def Let_def split: prod.splits option.splits if_splits
      dest: exact_dec_error)

lemma c_long_error: "c_long v = Inl err \<Longrightarrow> err \<in> {ValueError, OverflowError}"
  by (cases v) (auto split: if_splits)

lemma seq_digit_error: "seq_digit v = Inl err \<Longrightarrow> err \<in> {ValueError, OverflowError}"
  by (auto simp: seq_digit_def split: sum.splits if_splits dest: c_long_error)

lemma decimal_of_seq_error:
  assumes "decimal_of_seq vs = Inl err"
  shows "err \<in> {ValueError, OverflowError, InvalidOperation}"
proof -
  have digits: "map_result seq_digit ds = Inl e \<Longrightarrow> e \<in> {ValueError, OverflowError}" for ds e
    using map_result_error seq_digit_error by blast
  have expo: "map_sum id (\<lambda>e. (None, e)) (c_long v) = Inl e \<Longrightarrow> e \<in> {ValueError, OverflowError}" for v e
    using c_long_error [of v] by (cases "c_long v") auto
  show ?thesis
    using assms unfolding decimal_of_seq_def
    by (auto split: list.splits sum.splits if_splits json.splits option.splits
        dest: c_long_error digits expo exact_dec_error)
qed

lemma decimal_of_error:
  "decimal_of v = Inl err \<Longrightarrow> err \<in> {ValueError, TypeError, OverflowError, InvalidOperation}"
  by (induction v rule: decimal_of.induct) (auto dest: decimal_of_str_error decimal_of_seq_error)

end
