(* ===== verification/Parsing.thy ===== *)
theory Parsing
  imports PyJson
begin

text \<open>
  The parsing layers of \<^verbatim>\<open>feeds/binance.py\<close> and \<^verbatim>\<open>feeds/okx.py\<close>, from parsed JSON to events
  of the book engine. Both modules define a \<open>ParseError\<close> of their own, which is one exception here,
  as neither is seen by the other. The events parsed carry levels of \<open>dec\<close>; \<open>finite_diff\<close> and
  \<open>finite_snapshot\<close> give the engine's events where no level is an infinity or a NaN.
\<close>

section \<open>Parsed events\<close>

record raw_diff =
  rd_prev_id :: int
  rd_final_id :: int
  rd_bids :: "dec_level list"
  rd_asks :: "dec_level list"

record raw_snapshot =
  rs_last_update_id :: int
  rs_bids :: "dec_level list"
  rs_asks :: "dec_level list"

definition finite_diff :: "raw_diff \<Rightarrow> diff_event option" where
  "finite_diff d =
     (case (finite_levels (rd_bids d), finite_levels (rd_asks d)) of
        (Some bids, Some asks) \<Rightarrow>
          Some \<lparr>prev_id = rd_prev_id d, final_id = rd_final_id d, ev_bids = bids, ev_asks = asks\<rparr>
      | _ \<Rightarrow> None)"

definition finite_snapshot :: "raw_snapshot \<Rightarrow> snapshot_event option" where
  "finite_snapshot s =
     (case (finite_levels (rs_bids s), finite_levels (rs_asks s)) of
        (Some bids, Some asks) \<Rightarrow>
          Some \<lparr>last_update_id = rs_last_update_id s, sn_bids = bids, sn_asks = asks\<rparr>
      | _ \<Rightarrow> None)"

definition parse_errors :: "py_exc list" where
  "parse_errors = [KeyError, ValueError, TypeError, InvalidOperation]"

definition int_field :: "json \<Rightarrow> string \<Rightarrow> int result" where
  "int_field data key = bind_result (get_key data key) int_of"

section \<open>Binance\<close>

definition parse_combined_stream_envelope :: "json \<Rightarrow> json result" where
  "parse_combined_stream_envelope raw =
     bind_result (reraise [KeyError, TypeError] ParseError (get_key raw ''data''))
       (\<lambda>data. if is_dict data then Inr data else Inl ParseError)"

text \<open>\<open>PriceLevel(Decimal(p), Decimal(q)) for p, q in data[key]\<close>.\<close>

definition pair_level :: "json \<Rightarrow> dec_level result" where
  "pair_level v =
     bind_result (unpack2 v) (\<lambda>(p, q).
     bind_result (decimal_of p) (\<lambda>price.
     bind_result (decimal_of q) (\<lambda>qty. Inr (price, qty))))"

definition pair_levels :: "json \<Rightarrow> string \<Rightarrow> dec_level list result" where
  "pair_levels data key =
     bind_result (get_key data key) (\<lambda>v. bind_result (iterate v) (map_result pair_level))"

definition parse_diff_event :: "json \<Rightarrow> raw_diff result" where
  "parse_diff_event data =
     reraise parse_errors ParseError
       (bind_result (int_field data ''U'') (\<lambda>u.
        bind_result (int_field data ''u'') (\<lambda>final.
        bind_result (pair_levels data ''b'') (\<lambda>bids.
        bind_result (pair_levels data ''a'') (\<lambda>asks.
          Inr \<lparr>rd_prev_id = u - 1, rd_final_id = final, rd_bids = bids, rd_asks = asks\<rparr>)))))"

definition parse_snapshot :: "json \<Rightarrow> raw_snapshot result" where
  "parse_snapshot data =
     reraise parse_errors ParseError
       (bind_result (int_field data ''lastUpdateId'') (\<lambda>last_id.
        bind_result (pair_levels data ''bids'') (\<lambda>bids.
        bind_result (pair_levels data ''asks'') (\<lambda>asks.
          Inr \<lparr>rs_last_update_id = last_id, rs_bids = bids, rs_asks = asks\<rparr>))))"

text \<open>
  \<open>_extract_ts_exchange_ms\<close> of either module, by the name of the field; both call it outside any
  \<open>try\<close>. What is no dictionary has no \<open>get\<close>; an absent field is as a null one.
\<close>

definition extract_ts :: "string \<Rightarrow> json \<Rightarrow> int option result" where
  "extract_ts key data =
     bind_result (get_or_none data key) (\<lambda>raw.
       if raw = JNull then Inr None else map_sum id Some (int_of raw))"

section \<open>OKX\<close>

definition unwrap_book_push :: "json \<Rightarrow> json result" where
  "unwrap_book_push raw =
     bind_result
       (reraise [KeyError, IndexError, TypeError] ParseError
          (bind_result (get_key raw ''data'') (\<lambda>v. get_index v 0)))
       (\<lambda>data. if is_dict data then Inr data else Inl ParseError)"

definition parse_price_level :: "json \<Rightarrow> dec_level result" where
  "parse_price_level raw =
     reraise [IndexError, TypeError, InvalidOperation] ParseError
       (bind_result (get_index raw 0) (\<lambda>p.
        bind_result (get_index raw 1) (\<lambda>q.
        bind_result (decimal_of p) (\<lambda>price.
        bind_result (decimal_of q) (\<lambda>qty. Inr (price, qty))))))"

definition book_levels :: "json \<Rightarrow> string \<Rightarrow> dec_level list result" where
  "book_levels data key =
     bind_result (get_key data key) (\<lambda>v. bind_result (iterate v) (map_result parse_price_level))"

definition parse_book_update :: "json \<Rightarrow> raw_diff result" where
  "parse_book_update data =
     reraise parse_errors ParseError
       (bind_result (int_field data ''seqId'') (\<lambda>seq_id.
        bind_result (int_field data ''prevSeqId'') (\<lambda>prev_seq_id.
        bind_result (book_levels data ''bids'') (\<lambda>bids.
        bind_result (book_levels data ''asks'') (\<lambda>asks.
          Inr \<lparr>rd_prev_id = prev_seq_id, rd_final_id = seq_id, rd_bids = bids, rd_asks = asks\<rparr>)))))"

definition parse_book_snapshot :: "json \<Rightarrow> raw_snapshot result" where
  "parse_book_snapshot data =
     reraise parse_errors ParseError
       (bind_result (int_field data ''seqId'') (\<lambda>seq_id.
        bind_result (book_levels data ''bids'') (\<lambda>bids.
        bind_result (book_levels data ''asks'') (\<lambda>asks.
          Inr \<lparr>rs_last_update_id = seq_id, rs_bids = bids, rs_asks = asks\<rparr>))))"

section \<open>What the parsers raise\<close>

named_theorems raises \<open>the exceptions of an operation\<close>

definition parse_raises :: "py_exc set" where
  "parse_raises = {ParseError, OverflowError}"

lemma int_field_error: "int_field data key = Inl err \<Longrightarrow> err \<in> {KeyError, TypeError, ValueError, OverflowError}"
  by (auto simp: int_field_def bind_result_error dest!: get_key_error int_of_error)

lemma pair_level_error:
  "pair_level v = Inl err \<Longrightarrow> err \<in> {TypeError, ValueError, OverflowError, InvalidOperation}"
  by (auto simp: pair_level_def bind_result_error dest!: unpack2_error decimal_of_error)

lemma pair_levels_error:
  assumes "pair_levels data key = Inl err"
  shows "err \<in> {KeyError, TypeError, ValueError, OverflowError, InvalidOperation}"
proof -
  have "err \<in> {TypeError, ValueError, OverflowError, InvalidOperation}" if "map_result pair_level vs = Inl err" for vs
    using map_result_error [OF that] pair_level_error by blast
  with assms show ?thesis
    by (auto simp: pair_levels_def bind_result_error dest: get_key_error iterate_error)
qed

lemma parse_price_level_error:
  "parse_price_level v = Inl err \<Longrightarrow> err \<in> {ParseError, KeyError, ValueError, OverflowError}"
  by (auto simp: parse_price_level_def bind_result_error dest!: reraise_error get_index_error decimal_of_error)

lemma book_levels_error:
  assumes "book_levels data key = Inl err"
  shows "err \<in> {ParseError, KeyError, TypeError, ValueError, OverflowError}"
proof -
  have "err \<in> {ParseError, KeyError, ValueError, OverflowError}" if "map_result parse_price_level vs = Inl err" for vs
    using map_result_error [OF that] parse_price_level_error by blast
  with assms show ?thesis
    by (auto simp: book_levels_def bind_result_error dest: get_key_error iterate_error)
qed

lemma parsers_raise [raises]:
  "parse_diff_event data = Inl err \<Longrightarrow> err \<in> parse_raises"
  "parse_snapshot data = Inl err \<Longrightarrow> err \<in> parse_raises"
  "parse_book_update data = Inl err \<Longrightarrow> err \<in> parse_raises"
  "parse_book_snapshot data = Inl err \<Longrightarrow> err \<in> parse_raises"
  by (auto simp: parse_diff_event_def parse_snapshot_def parse_book_update_def parse_book_snapshot_def
      parse_errors_def parse_raises_def bind_result_error
      dest!: reraise_error int_field_error pair_levels_error book_levels_error)

lemma unwrap_raises [raises]:
  "parse_combined_stream_envelope raw = Inl err \<Longrightarrow> err = ParseError"
  "unwrap_book_push raw = Inl err \<Longrightarrow> err = ParseError"
  by (auto simp: parse_combined_stream_envelope_def unwrap_book_push_def bind_result_error
      dest!: reraise_error get_key_error get_index_error split: if_splits)

lemma extract_ts_raises [raises]:
  "extract_ts key data = Inl err \<Longrightarrow>
     err \<in> {ValueError, TypeError, OverflowError} \<and> is_dict data \<or> err = AttributeError \<and> \<not> is_dict data"
proof -
  have err: "map_sum id Some (int_of v) = Inl err \<Longrightarrow> err \<in> {ValueError, TypeError, OverflowError}" for v
    using int_of_error [of v] by (cases "int_of v") auto
  assume "extract_ts key data = Inl err"
  then show ?thesis
    by (cases data) (auto simp: extract_ts_def simp del: int_of.simps split: if_splits dest!: err)
qed

lemma extract_ts_absent:
  "extract_ts key data = Inr None \<longleftrightarrow> get_key data key = Inl KeyError \<or> get_key data key = Inr JNull"
proof -
  have "map_sum id Some (int_of v) \<noteq> Inr None" for v by (cases "int_of v") auto
  then show ?thesis
    unfolding get_or_none_null [symmetric] by (cases "get_or_none data key") (auto simp: extract_ts_def simp del: int_of.simps)
qed

lemma extract_ts_no_dict: "\<not> is_dict data \<Longrightarrow> extract_ts key data = Inl AttributeError"
  by (cases data) (simp_all add: extract_ts_def)

end
