(* ===== verification/WireFormat.thy ===== *)
theory WireFormat
  imports Parsing
begin

text \<open>
  The messages the two exchanges send, rendered from the events they stand for, and the proof that
  the parsers of \<^verbatim>\<open>feeds/binance.py\<close> and \<^verbatim>\<open>feeds/okx.py\<close> read them back exactly. Prices and
  quantities are decimal literals with a fixed number of decimals, given by their scaled integer.
\<close>

section \<open>Decimal literals\<close>

fun pad_digits :: "nat \<Rightarrow> nat \<Rightarrow> string" where
  "pad_digits 0 m = []"
| "pad_digits (Suc k) m = pad_digits k (m div 10) @ [digit_char (m mod 10)]"

definition fixed_str :: "nat \<Rightarrow> nat \<Rightarrow> string" where
  "fixed_str k n = nat_str (n div 10 ^ k) @ CHR ''.'' # pad_digits k (n mod 10 ^ k)"

lemma digit_cases: "d < 10 \<Longrightarrow> d \<in> {0, 1, 2, 3, 4, 5, 6, 7, 8, 9 :: nat}"
  by auto

definition plain_char :: "char \<Rightarrow> bool" where
  "plain_char c \<longleftrightarrow> \<not> unicode_space c \<and> c \<noteq> CHR ''_'' \<and> lower_char c = c"

lemma digit_char_facts:
  assumes "d < 10"
  shows "digit_val (digit_char d) = Some d" "plain_char (digit_char d)" "is_digit (digit_char d)"
    "digit_char d \<notin> set ''+-.insf''"
  using digit_cases [OF assms]
  by (auto simp: digit_char_def digit_val_def plain_char_def unicode_space_def lower_char_def is_digit_def)

lemma plain_dot: "plain_char CHR ''.''" "\<not> is_digit CHR ''.''"
  by (simp_all add: plain_char_def unicode_space_def lower_char_def is_digit_def digit_val_def)

definition is_digit_char :: "char \<Rightarrow> bool" where
  "is_digit_char c \<longleftrightarrow> (\<exists>d < 10. c = digit_char d)"

lemma nat_str_digits: "list_all is_digit_char (nat_str n)"
proof (induction n rule: nat_str.induct)
  case (1 n)
  have digit: "is_digit_char (digit_char (n mod 10))"
    unfolding is_digit_char_def by (intro exI [of _ "n mod 10"]) simp
  show ?case
  proof (cases "n < 10")
    case True
    with digit show ?thesis by (subst nat_str.simps) simp
  next
    case False
    with 1 digit show ?thesis by (subst nat_str.simps) simp
  qed
qed

lemma pad_digits_digits: "list_all is_digit_char (pad_digits k m)"
proof (induction k arbitrary: m)
  case (Suc k)
  have "is_digit_char (digit_char (m mod 10))"
    unfolding is_digit_char_def by (intro exI [of _ "m mod 10"]) simp
  with Suc show ?case by simp
qed simp

lemma coefficient_snoc: "coefficient (ds @ [d]) = 10 * coefficient ds + d"
  by (simp add: coefficient_def)

abbreviation digit_vals :: "string \<Rightarrow> nat list" where
  "digit_vals s \<equiv> map (\<lambda>c. the (digit_val c)) s"

lemma coefficient_nat_str: "coefficient (digit_vals (nat_str n)) = n"
proof (induction n rule: nat_str.induct)
  case (1 n)
  show ?case
  proof (cases "n < 10")
    case True
    then show ?thesis by (subst nat_str.simps) (simp add: digit_char_facts coefficient_def)
  next
    case False
    with 1 show ?thesis
      by (subst nat_str.simps) (simp add: digit_char_facts coefficient_snoc)
  qed
qed

lemma nat_str_eq [simp]: "nat_str i = nat_str j \<longleftrightarrow> i = j"
  using coefficient_nat_str by metis

lemma coefficient_pad:
  "m < 10 ^ k \<Longrightarrow> coefficient (ds @ digit_vals (pad_digits k m)) = coefficient ds * 10 ^ k + m"
proof (induction k arbitrary: m)
  case (Suc k)
  then have "m div 10 < 10 ^ k" by (simp add: div_less_iff_less_mult mult.commute)
  from Suc.IH [OF this] show ?case
    by (simp add: coefficient_snoc digit_char_facts flip: append_assoc)
qed simp

lemma length_pad [simp]: "length (pad_digits k m) = k"
  by (induction k arbitrary: m) simp_all

lemma length_nat_str: "n < 10 ^ Suc d \<Longrightarrow> length (nat_str n) \<le> Suc d"
proof (induction d arbitrary: n)
  case 0
  then show ?case by (subst nat_str.simps) simp
next
  case (Suc d)
  then have "n div 10 < 10 ^ Suc d" by (simp add: div_less_iff_less_mult mult.commute)
  from Suc.IH [OF this] show ?case by (subst nat_str.simps) simp
qed

lemma strip_plain: "list_all plain_char s \<Longrightarrow> strip_by unicode_space s = s"
proof -
  assume s: "list_all plain_char s"
  have "dropWhile unicode_space t = t" if "list_all plain_char t" for t
    using that by (cases t) (simp_all add: plain_char_def)
  moreover have "list_all plain_char (rev s)" using s by simp
  ultimately show ?thesis using s by (simp add: strip_by_def)
qed

lemma map_lower_plain:
  assumes "list_all plain_char s"
  shows "map lower_char (filter (\<lambda>c. c \<noteq> CHR ''_'') s) = s"
  using assms by (induction s) (simp_all add: plain_char_def)

lemma is_digit_char_facts:
  assumes "list_all is_digit_char s"
  shows "list_all plain_char s" "list_all is_digit s"
  using assms by (induction s) (auto simp: is_digit_char_def digit_char_facts)

lemma takeWhile_digits:
  assumes "list_all is_digit s"
  shows "takeWhile is_digit (s @ CHR ''.'' # t) = s" "dropWhile is_digit (s @ CHR ''.'' # t) = CHR ''.'' # t"
    "takeWhile is_digit s = s" "dropWhile is_digit s = []"
  using assms plain_dot(2) by (induction s) simp_all

lemma nat_str_nonempty: "nat_str n \<noteq> []"
  by (subst nat_str.simps) simp

lemma fixed_str_dec:
  assumes "n < 10 ^ 18" and "k \<le> 18"
  shows "decimal_of_str (fixed_str k n) = Inr (Dec (of_nat n / 10 ^ k))"
proof -
  let ?w = "nat_str (n div 10 ^ k)" and ?f = "pad_digits k (n mod 10 ^ k)"
  let ?ds = "digit_vals (?w @ ?f)"
  note w = nat_str_digits [of "n div 10 ^ k"] and f = pad_digits_digits [of k "n mod 10 ^ k"]
  have plain: "list_all plain_char (fixed_str k n)"
    using w f plain_dot(1) by (simp add: fixed_str_def is_digit_char_facts)
  obtain d cs where d: "?w = digit_char d # cs" "d < 10"
    using w nat_str_nonempty [of "n div 10 ^ k"] by (cases ?w) (auto simp: is_digit_char_def)
  then have head: "fixed_str k n = digit_char d # cs @ CHR ''.'' # ?f"
    by (simp add: fixed_str_def)
  note dc = digit_char_facts(4) [OF d(2)]
  have number: "decimal_of_str (fixed_str k n) = number_dec 1 (fixed_str k n)"
    using dc unfolding decimal_of_str_def strip_plain [OF plain] map_lower_plain [OF plain]
    by (simp add: head)
  have "n div 10 ^ k < 10 ^ Suc 17"
    using le_less_trans [OF div_le_dividend assms(1)] by simp
  from length_nat_str [OF this] have len: "length ?ds \<le> 36" using assms(2) by simp
  have coeff: "coefficient ?ds = n"
    using coefficient_pad [of "n mod 10 ^ k" k "digit_vals ?w"] div_mult_mod_eq [of n "10 ^ k"]
    by (simp add: coefficient_nat_str)
  have "length (dropWhile (\<lambda>d. d = 0) ?ds) \<le> 36"
    using length_dropWhile_le [of "\<lambda>d. d = 0" ?ds] len by (rule le_trans)
  then have "int (max (length (dropWhile (\<lambda>d. d = 0) ?ds)) 1) \<le> 36" by simp
  moreover have "of_nat n * pow10 (- int k) = (of_nat n / 10 ^ k :: rat)"
    by (simp add: pow10_def)
  ultimately have "exact_dec 1 ?ds (- int k) = Inr (Dec (of_nat n / 10 ^ k))"
    unfolding exact_dec_def Let_def coeff using assms(2) by (simp add: max_emax_def min_etiny_def)
  moreover have "number_dec 1 (fixed_str k n) = exact_dec 1 ?ds (- int k)"
    using nat_str_nonempty
    by (simp add: number_dec_def fixed_str_def takeWhile_digits(1,2) [OF is_digit_char_facts(2) [OF w]]
        takeWhile_digits(3,4) [OF is_digit_char_facts(2) [OF f]])
  ultimately show ?thesis using number by simp
qed

section \<open>Messages\<close>

text \<open>A level by its scaled price and quantity, and the decimals it is sent with.\<close>

type_synonym wire_level = "nat \<times> nat"

definition wire_price :: "nat \<Rightarrow> wire_level \<Rightarrow> price_level" where
  "wire_price k l = (of_nat (fst l) / 10 ^ k, of_nat (snd l) / 10 ^ k)"

definition wire_ok :: "wire_level list \<Rightarrow> bool" where
  "wire_ok ls \<longleftrightarrow> list_all (\<lambda>(p, q). p < 10 ^ 18 \<and> q < 10 ^ 18) ls"

definition binance_level :: "nat \<Rightarrow> wire_level \<Rightarrow> json" where
  "binance_level k l = JList [JStr (fixed_str k (fst l)), JStr (fixed_str k (snd l))]"

definition okx_level :: "nat \<Rightarrow> wire_level \<Rightarrow> json" where
  "okx_level k l = JList [JStr (fixed_str k (fst l)), JStr (fixed_str k (snd l)), JStr ''0'', JStr ''1'']"

text \<open>A depth update of the combined stream and the depth response of the REST interface.\<close>

definition binance_depth_frame ::
  "string \<Rightarrow> nat \<Rightarrow> int \<Rightarrow> int \<Rightarrow> int \<Rightarrow> wire_level list \<Rightarrow> wire_level list \<Rightarrow> json" where
  "binance_depth_frame stream k ts prev final bids asks =
     JDict [(''stream'', JStr stream),
       (''data'', JDict [(''e'', JStr ''depthUpdate''), (''E'', JInt ts), (''U'', JInt (prev + 1)),
          (''u'', JInt final), (''b'', JList (map (binance_level k) bids)),
          (''a'', JList (map (binance_level k) asks))])]"

definition binance_depth_response :: "nat \<Rightarrow> int \<Rightarrow> wire_level list \<Rightarrow> wire_level list \<Rightarrow> json" where
  "binance_depth_response k last_id bids asks =
     JDict [(''lastUpdateId'', JInt last_id), (''bids'', JList (map (binance_level k) bids)),
       (''asks'', JList (map (binance_level k) asks))]"

text \<open>A push of the books channel; its time is a string of milliseconds.\<close>

definition okx_push ::
  "string \<Rightarrow> string \<Rightarrow> nat \<Rightarrow> nat \<Rightarrow> int \<Rightarrow> int \<Rightarrow> wire_level list \<Rightarrow> wire_level list \<Rightarrow> json" where
  "okx_push symbol action k ts prev seq bids asks =
     JDict [(''arg'', JDict [(''channel'', JStr ''books''), (''instId'', JStr symbol)]),
       (''action'', JStr action),
       (''data'', JList [JDict [(''asks'', JList (map (okx_level k) asks)),
          (''bids'', JList (map (okx_level k) bids)), (''ts'', JStr (nat_str ts)),
          (''seqId'', JInt seq), (''prevSeqId'', JInt prev)]])]"

definition wire_decs :: "nat \<Rightarrow> wire_level list \<Rightarrow> dec_level list" where
  "wire_decs k ls = map (\<lambda>l. (Dec (fst (wire_price k l)), Dec (snd (wire_price k l)))) ls"

lemma finite_wire_decs [simp]: "finite_levels (wire_decs k ls) = Some (map (wire_price k) ls)"
  by (induction ls) (simp_all add: wire_decs_def finite_level_def)

lemma map_result_binance:
  "wire_ok ls \<Longrightarrow> k \<le> 18 \<Longrightarrow> map_result pair_level (map (binance_level k) ls) = Inr (wire_decs k ls)"
  by (induction ls)
    (auto simp: wire_ok_def wire_decs_def binance_level_def pair_level_def unpack2_def wire_price_def fixed_str_dec)

lemma map_result_okx:
  "wire_ok ls \<Longrightarrow> k \<le> 18 \<Longrightarrow> map_result parse_price_level (map (okx_level k) ls) = Inr (wire_decs k ls)"
  by (induction ls)
    (auto simp: wire_ok_def wire_decs_def okx_level_def parse_price_level_def wire_price_def fixed_str_dec)

lemma int_digits_of:
  "list_all is_digit_char s \<Longrightarrow> s \<noteq> [] \<or> ok \<Longrightarrow>
     int_digits ok n s = Some (foldl (\<lambda>n d. 10 * n + d) n (digit_vals s))"
proof (induction s arbitrary: ok n)
  case (Cons c s)
  then obtain d where d: "c = digit_char d" "d < 10" by (auto simp: is_digit_char_def)
  have "c \<noteq> CHR ''_''" using digit_char_facts(2) [OF d(2)] d(1) by (auto simp: plain_char_def)
  with Cons d show ?case by (simp add: digit_char_facts)
qed simp

lemma int_of_nat_str:
  assumes "n < 10 ^ 18"
  shows "int_of_str (nat_str n) = Inr (int n)"
proof -
  note w = nat_str_digits [of n]
  have "\<not> c_space c" if "plain_char c" for c
    using that by (auto simp: plain_char_def unicode_space_def c_space_def Let_def)
  then have nospace: "list_all (\<lambda>c. \<not> c_space c) (nat_str n)"
    using is_digit_char_facts(1) [OF w] by (simp add: list_all_iff)
  have drop: "dropWhile c_space t = t" if "list_all (\<lambda>c. \<not> c_space c) t" for t
    using that by (cases t) simp_all
  have strip: "strip_by c_space (nat_str n) = nat_str n"
    using drop [OF nospace] drop [of "rev (nat_str n)"] nospace by (simp add: strip_by_def)
  obtain d cs where d: "nat_str n = digit_char d # cs" "d < 10"
    using w nat_str_nonempty [of n] by (cases "nat_str n") (auto simp: is_digit_char_def)
  have sg: "sign_split (nat_str n) = (1, nat_str n)"
    using digit_char_facts(4) [OF d(2)] by (simp add: d(1))
  have digits: "int_digits False 0 (nat_str n) = Some n"
    using int_digits_of [OF w, of False 0] nat_str_nonempty [of n] coefficient_nat_str [of n]
    by (simp add: coefficient_def)
  have "length (nat_str n) \<le> 18" using length_nat_str [of n 17] assms by simp
  then have "length (filter (\<lambda>c. c \<noteq> CHR ''_'') (nat_str n)) \<le> 4300"
    using length_filter_le [of "\<lambda>c. c \<noteq> CHR ''_''" "nat_str n"] by linarith
  then show ?thesis
    by (simp add: int_of_str_def strip sg digits max_str_digits_def)
qed

section \<open>Properties\<close>

text \<open>
  C21: the Binance wire format is read back exactly. The parsers accept every depth update and every
  depth response whose prices and quantities are decimal literals below \<open>10 ^ 18\<close> units, and give the
  event it was rendered from, with \<open>U - 1\<close> as the previous id and the event time in milliseconds.
\<close>

theorem binance_wire_roundtrip:
  assumes "wire_ok bids" and "wire_ok asks" and "k \<le> 18"
  shows "(\<exists>data raw. parse_combined_stream_envelope (binance_depth_frame stream k ts prev final bids asks) = Inr data \<and>
      parse_diff_event data = Inr raw \<and> extract_ts ''E'' data = Inr (Some ts) \<and>
      finite_diff raw = Some \<lparr>prev_id = prev, final_id = final, ev_bids = map (wire_price k) bids,
        ev_asks = map (wire_price k) asks\<rparr>) \<and>
    (\<exists>raw. parse_snapshot (binance_depth_response k last_id bids asks) = Inr raw \<and>
      finite_snapshot raw = Some \<lparr>last_update_id = last_id, sn_bids = map (wire_price k) bids,
        sn_asks = map (wire_price k) asks\<rparr>)"
  using assms map_result_binance [of bids k] map_result_binance [of asks k]
  by (auto simp: parse_combined_stream_envelope_def binance_depth_frame_def parse_diff_event_def int_field_def
      pair_levels_def extract_ts_def finite_diff_def binance_depth_response_def parse_snapshot_def finite_snapshot_def)

lemma binance_wire_roundtrip_witness:
  "\<exists>raw. parse_snapshot (binance_depth_response 8 7 [(6500012000000, 150000000)] []) = Inr raw \<and>
     finite_snapshot raw = Some \<lparr>last_update_id = 7, sn_bids = [(6500012 / 100, 3 / 2)], sn_asks = []\<rparr>"
  using binance_wire_roundtrip [of "[(6500012000000, 150000000)]" "[]" 8 "[]" 0 0 0 7]
  by (simp add: wire_ok_def wire_price_def)

text \<open>
  C22: the OKX wire format is read back exactly. The parsers accept every update and snapshot push of
  the books channel whose literals are below \<open>10 ^ 18\<close> units, ignore the extra elements of a level,
  and give the sequence ids unchanged.
\<close>

theorem okx_wire_roundtrip:
  assumes "wire_ok bids" and "wire_ok asks" and "k \<le> 18" and "ts < 10 ^ 18"
  shows "\<exists>data. unwrap_book_push (okx_push instrument act k ts prev seq bids asks) = Inr data \<and>
    extract_ts ''ts'' data = Inr (Some (int ts)) \<and>
    (\<exists>raw. parse_book_update data = Inr raw \<and>
      finite_diff raw = Some \<lparr>prev_id = prev, final_id = seq, ev_bids = map (wire_price k) bids,
        ev_asks = map (wire_price k) asks\<rparr>) \<and>
    (\<exists>raw. parse_book_snapshot data = Inr raw \<and>
      finite_snapshot raw = Some \<lparr>last_update_id = seq, sn_bids = map (wire_price k) bids,
        sn_asks = map (wire_price k) asks\<rparr>)"
  using assms map_result_okx [of bids k] map_result_okx [of asks k] int_of_nat_str [of ts]
  by (auto simp: unwrap_book_push_def okx_push_def parse_book_update_def parse_book_snapshot_def int_field_def
      book_levels_def extract_ts_def finite_diff_def finite_snapshot_def)

lemma okx_wire_roundtrip_witness:
  "\<exists>data raw. unwrap_book_push (okx_push ''BTC-USDT'' ''update'' 2 1720000000000 4 9 [(6500012, 150)] []) = Inr data \<and>
     parse_book_update data = Inr raw \<and>
     finite_diff raw = Some \<lparr>prev_id = 4, final_id = 9, ev_bids = [(6500012 / 100, 3 / 2)], ev_asks = []\<rparr>"
  using okx_wire_roundtrip [of "[(6500012, 150)]" "[]" 2 1720000000000 "''BTC-USDT''" "''update''" 4 9]
  by (auto simp: wire_ok_def wire_price_def)

text \<open>
  C23: what malformed data raises. On any JSON value the parsers of events and snapshots raise only
  \<open>ParseError\<close> or \<open>OverflowError\<close>, and unwrapping only \<open>ParseError\<close>, while the extraction of the
  exchange time never raises \<open>ParseError\<close>: on what is no mapping, and only there, it raises
  \<open>AttributeError\<close>, on a mapping only \<open>ValueError\<close>, \<open>TypeError\<close> or \<open>OverflowError\<close>, and it gives no time
  exactly if the field is absent or null. A price or quantity that is text of a NaN is not malformed: it is
  accepted as a level.
\<close>

theorem parsers_reject:
  "(parse_combined_stream_envelope v = Inl e1 \<longrightarrow> e1 = ParseError) \<and>
   (unwrap_book_push v = Inl e2 \<longrightarrow> e2 = ParseError) \<and>
   (parse_diff_event v = Inl e3 \<longrightarrow> e3 \<in> {ParseError, OverflowError}) \<and>
   (parse_snapshot v = Inl e4 \<longrightarrow> e4 \<in> {ParseError, OverflowError}) \<and>
   (parse_book_update v = Inl e5 \<longrightarrow> e5 \<in> {ParseError, OverflowError}) \<and>
   (parse_book_snapshot v = Inl e6 \<longrightarrow> e6 \<in> {ParseError, OverflowError}) \<and>
   (extract_ts key v = Inl AttributeError \<longleftrightarrow> \<not> is_dict v) \<and>
   (extract_ts key v = Inl e7 \<longrightarrow> e7 \<in> {ValueError, TypeError, OverflowError, AttributeError}) \<and>
   (extract_ts key v = Inr None \<longleftrightarrow> get_key v key = Inl KeyError \<or> get_key v key = Inr JNull) \<and>
   pair_level (JList [JStr ''NaN'', JStr ''1'']) = Inr (Dec_NaN, Dec 1) \<and>
   parse_price_level (JList [JStr ''NaN'', JStr ''1'']) = Inr (Dec_NaN, Dec 1)"
proof -
  have one: "decimal_of_str ''1'' = Inr (Dec 1)"
    by code_simp
  have nan: "decimal_of_str ''NaN'' = Inr Dec_NaN"
    by code_simp
  have levels: "pair_level (JList [JStr ''NaN'', JStr ''1'']) = Inr (Dec_NaN, Dec 1)"
    "parse_price_level (JList [JStr ''NaN'', JStr ''1'']) = Inr (Dec_NaN, Dec 1)"
    by (simp_all add: pair_level_def parse_price_level_def unpack2_def one nan)
  show ?thesis
    using parsers_raise [of v] unwrap_raises [of v] extract_ts_raises [of key v] extract_ts_no_dict [of v key] extract_ts_absent [of key v] levels
    by (auto simp: parse_raises_def)
qed

lemma parsers_reject_witness:
  "parse_diff_event (JDict []) = Inl ParseError \<and> extract_ts ''E'' (JList []) = Inl AttributeError \<and>
   extract_ts ''E'' (JDict [(''E'', JStr ''soon'')]) = Inl ValueError"
proof -
  have "parse_diff_event (JDict []) \<noteq> Inr raw" for raw
    by (simp add: parse_diff_event_def int_field_def parse_errors_def)
  moreover have "parse_diff_event (JDict []) \<noteq> Inl OverflowError"
    by (simp add: parse_diff_event_def int_field_def parse_errors_def)
  ultimately have "parse_diff_event (JDict []) = Inl ParseError"
    using parsers_reject [of "JDict []" _ _ "projl (parse_diff_event (JDict []))"]
    by (cases "parse_diff_event (JDict [])") auto
  moreover have "extract_ts ''E'' (JList []) = Inl AttributeError"
    using parsers_reject [of "JList []" _ _ _ _ _ _ "''E''"] by simp
  ultimately show ?thesis
    by (simp add: extract_ts_def int_of_str_def strip_by_def c_space_def digit_val_def)
qed

end
