(* ===== verification/FeedBase.thy ===== *)
theory FeedBase
  imports EngineProps RateLimit Connection RowQueue Parsing
begin

text \<open>
  What the two feed clients of \<^verbatim>\<open>feeds/binance.py\<close> and \<^verbatim>\<open>feeds/okx.py\<close> share: frames as the
  outcome of decoding them, the counters of \<open>get_stats\<close>, the phases of \<open>run\<close>, the escalation of
  repeated failures, and the hand-over of a row to the sink's queue. The locale \<open>true_feed\<close> is the
  contract between a client and its book engine: what the engine keeps while it is fed data the
  exchange really sent, and what may then be said of a row.
\<close>

section \<open>Frames and outcomes\<close>

text \<open>
  A frame received, as \<open>json.loads\<close> takes it: a value, a \<open>JSONDecodeError\<close>, or another exception
  (bytes that are not text, a literal with too many digits, nesting that is too deep).
\<close>

datatype frame = Json_Frame json | Bad_Json | Bad_Frame py_exc

fun json_loads :: "frame \<Rightarrow> json result" where
  "json_loads (Json_Frame v) = Inr v"
| "json_loads Bad_Json = Inl JSONDecodeError"
| "json_loads (Bad_Frame err) = Inl err"

text \<open>
  How a stretch of a coroutine ends: it goes on, it raises, or it would give the engine a level that
  is an infinity or a NaN, about which the model says nothing.
\<close>

datatype outcome = Continues | Raises py_exc | Unmodelled

text \<open>Counters with default zero, in the order of their first increment.\<close>

type_synonym counters = "(string \<times> nat) list"

definition count_of :: "string \<Rightarrow> counters \<Rightarrow> nat" where
  "count_of k c = (case map_of c k of None \<Rightarrow> 0 | Some n \<Rightarrow> n)"

definition bump :: "string \<Rightarrow> counters \<Rightarrow> counters" where
  "bump k c = AList.update k (count_of k c + 1) c"

lemma count_of_bump [simp]: "count_of k (bump k' c) = (if k = k' then count_of k c + 1 else count_of k c)"
  by (simp add: count_of_def bump_def)

text \<open>What \<open>get_stats\<close> returns.\<close>

record feed_stats =
  fs_counters :: counters
  fs_connection_state :: connection_state
  fs_connection_attempt :: nat
  fs_book_state :: book_state
  fs_last_applied_id :: "int option"

definition feed_stats_of :: "counters \<Rightarrow> connection_manager \<Rightarrow> book_engine \<Rightarrow> feed_stats" where
  "feed_stats_of counters cm e =
     \<lparr>fs_counters = counters, fs_connection_state = cm_state cm, fs_connection_attempt = cm_attempt cm,
      fs_book_state = be_state e, fs_last_applied_id = be_last_applied_id e\<rparr>"

text \<open>A row for the sink, when there is a queue: building it may raise, and so may \<open>put\<close>.\<close>

definition offer_row :: "row_queue option \<Rightarrow> snapshot_row result \<Rightarrow> outcome \<times> row_queue option" where
  "offer_row queue row =
     (case queue of
        None \<Rightarrow> (Continues, None)
      | Some q \<Rightarrow>
          (case row of
             Inl err \<Rightarrow> (Raises err, Some q)
           | Inr r \<Rightarrow> (case put q r of (Inl err, q') \<Rightarrow> (Raises err, Some q') | (Inr _, q') \<Rightarrow> (Continues, Some q'))))"

section \<open>The phases of run\<close>

text \<open>
  Where the loop of \<open>run\<close> waits: on the connector, on a message of a connection (by its number), in
  a backoff sleep, or \<open>run\<close> has ended by an exception. The current websocket is forgotten only when
  the backoff sleep is over.
\<close>

datatype phase = Opening | Reading nat | Backing_Off seconds | Run_Over py_exc

text \<open>The two causes \<open>run\<close> tells apart: a \<open>TimeoutError\<close>, and any other exception.\<close>

datatype cause = Watchdog_Trip | Lost

fun cause_of :: "py_exc \<Rightarrow> cause" where
  "cause_of TimeoutError = Watchdog_Trip"
| "cause_of _ = Lost"

text \<open>The delay of the next attempt and the check of the budget that follows it.\<close>

definition next_attempt ::
  "int \<Rightarrow> connection_manager \<Rightarrow> counters \<Rightarrow> seconds \<Rightarrow> phase \<times> connection_manager \<times> counters" where
  "next_attempt max_failures cm stats now =
     (case disconnected cm now of
        (Inl err, cm') \<Rightarrow> (Run_Over err, cm', stats)
      | (Inr delay, cm') \<Rightarrow>
          if int (cm_attempt cm') < max_failures then (Backing_Off delay, cm', stats)
          else (Run_Over ReconnectBudgetExhausted, cm', bump ''reconnect_budget_exhausted'' stats))"

section \<open>The interface: a client's engine fed with true data\<close>

locale true_feed =
  fixes good :: "book_engine \<Rightarrow> bool"
    and ev_ok :: "diff_event \<Rightarrow> bool"
    and sn_ok :: "snapshot_event \<Rightarrow> bool"
    and row_ok :: "snapshot_row \<Rightarrow> bool"
  assumes good_wf: "good e \<Longrightarrow> engine_wf e"
    and good_event: "good e \<Longrightarrow> ev_ok event \<Longrightarrow> good (snd (apply_event e event))"
    and good_snapshot: "good e \<Longrightarrow> sn_ok s \<Longrightarrow> load_snapshot e s = Inr (res, e') \<Longrightarrow> good e'"
    and good_invalidate: "good (invalidate e)"
    and good_row: "good e \<Longrightarrow> build_snapshot_row e instr lns wns ems = Inr row \<Longrightarrow> row_ok row"

definition queue_ok :: "(snapshot_row \<Rightarrow> bool) \<Rightarrow> row_queue option \<Rightarrow> bool" where
  "queue_ok row_ok queue \<longleftrightarrow> pred_option (\<lambda>q. queue_wf q \<and> list_all row_ok (rq_items q)) queue"

lemma put_items: "queue_wf q \<Longrightarrow> list_all P (rq_items q) \<Longrightarrow> P row \<Longrightarrow> list_all P (rq_items (snd (put q row)))"
  using put_full [of q row] by (cases "has_room q"; cases "rq_items q") (auto simp: put_room)

lemma put_total: "queue_wf q \<Longrightarrow> \<exists>evicted. fst (put q row) = Inr evicted"
  using put_full [of q row] by (cases "has_room q") (auto simp: put_room)

text \<open>Handing over a row of a live engine never raises and keeps the queue.\<close>

lemma build_row_live:
  assumes "engine_wf e" and "be_state e = LIVE"
  obtains row where "build_snapshot_row e instr lns wns ems = Inr row"
  using assms that
  by (cases "top_levels e None") (auto simp: build_snapshot_row_def engine_wf_def split: option.splits)

lemma offer_row_ok:
  assumes "queue_ok row_ok queue" and "row = Inr r" and "row_ok r"
  shows "fst (offer_row queue row) = Continues \<and> queue_ok row_ok (snd (offer_row queue row))"
proof (cases queue)
  case (Some q)
  with assms(1) have q: "queue_wf q" "list_all row_ok (rq_items q)" by (simp_all add: queue_ok_def)
  obtain evicted q' where "put q r = (Inr evicted, q')" using put_total [OF q(1), of r] by (cases "put q r") auto
  then have "offer_row queue row = (Continues, Some (snd (put q r)))"
    using Some assms(2) by (simp add: offer_row_def)
  with put_wf [OF q(1)] put_items [OF q assms(3)] show ?thesis by (simp add: queue_ok_def)
qed (use assms in \<open>simp add: offer_row_def\<close>)

lemma queue_ok_put:
  "queue_ok row_ok (Some q) \<Longrightarrow> row_ok row \<Longrightarrow> queue_ok row_ok (Some (snd (put q row)))"
  by (simp add: queue_ok_def put_wf put_items)

lemma queue_ok_get:
  "queue_ok row_ok (Some q) \<Longrightarrow> get q = Some (row, q') \<Longrightarrow> row_ok row \<and> queue_ok row_ok (Some q')"
  using get_wf [of q row q'] rows.get_some [of q row q'] by (auto simp: queue_ok_def)

text \<open>A snapshot makes an engine live exactly when it is reported as applied.\<close>

lemma replay_status:
  "be_state e = LIVE \<Longrightarrow>
     (be_state (snd (replay e events)) = LIVE \<longleftrightarrow> status (fst (replay e events)) = APPLIED) \<and>
     status (fst (replay e events)) \<in> {APPLIED, GAP_DETECTED}"
proof (induction events arbitrary: e)
  case (Cons event events)
  show ?case
  proof (cases "be_last_applied_id e = Some (prev_id event)")
    case True
    with Cons show ?thesis by (simp add: apply_live_chained split_beta Let_def)
  next
    case False
    then show ?thesis by (simp add: apply_live_gap split_beta Let_def)
  qed
qed simp

lemma load_snapshot_status:
  assumes "load_snapshot e s = Inr (res, e')"
  shows "(be_state e' = LIVE \<longleftrightarrow> status res = APPLIED) \<and> status res \<noteq> BUFFERED"
  using assms
proof (cases rule: load_snapshot_cases)
  case (replayed first rest)
  from replay_status [of "replay_start e s first" rest] show ?thesis
    unfolding replayed(4) [symmetric] by auto
qed auto

text \<open>An event keeps a live engine live unless it is a gap, and only a live engine applies.\<close>

lemma apply_event_live:
  "be_state (snd (apply_event e event)) = LIVE \<longleftrightarrow>
     be_state e = LIVE \<and> status (fst (apply_event e event)) \<noteq> GAP_DETECTED"
  "status (fst (apply_event e event)) = APPLIED \<Longrightarrow> be_state (snd (apply_event e event)) = LIVE"
proof -
  have st: "be_state (snd (apply_event e event)) = LIVE \<and> status (fst (apply_event e event)) = APPLIED \<or>
      be_state (snd (apply_event e event)) = RESYNCING \<and> status (fst (apply_event e event)) = GAP_DETECTED"
    if "be_state e = LIVE"
  proof (cases "be_last_applied_id e = Some (prev_id event)")
    case True
    with that show ?thesis by (simp add: apply_event_def apply_live_chained)
  next
    case False
    with that show ?thesis by (simp add: apply_event_def apply_live_gap)
  qed
  have buf: "be_state (snd (apply_event e event)) = be_state e \<and> status (fst (apply_event e event)) = BUFFERED"
    if "be_state e \<noteq> LIVE" using that by (simp add: apply_event_def)
  show "be_state (snd (apply_event e event)) = LIVE \<longleftrightarrow>
     be_state e = LIVE \<and> status (fst (apply_event e event)) \<noteq> GAP_DETECTED"
    using st buf by (cases "be_state e = LIVE") auto
  show "status (fst (apply_event e event)) = APPLIED \<Longrightarrow> be_state (snd (apply_event e event)) = LIVE"
    using st buf by (cases "be_state e = LIVE") auto
qed

section \<open>Rows of a true book\<close>

text \<open>
  A row is true to a history: its levels are the best of the exchange's book at the id it carries,
  in order, and no level of that book that is left out is better than one that is in.
\<close>

definition row_true :: "(int \<Rightarrow> book) \<Rightarrow> snapshot_row \<Rightarrow> bool" where
  "row_true hist row \<longleftrightarrow>
     (let (bids, asks) = hist (row_last_applied_id row)
      in sorted_wrt (>) (map fst (row_bids row)) \<and> sorted_wrt (<) (map fst (row_asks row)) \<and>
         (\<forall>(p, q) \<in> set (row_bids row). bids p = Some q) \<and> (\<forall>(p, q) \<in> set (row_asks row). asks p = Some q) \<and>
         (\<forall>p \<in> dom bids - fst ` set (row_bids row). \<forall>p' \<in> fst ` set (row_bids row). p < p') \<and>
         (\<forall>p \<in> dom asks - fst ` set (row_asks row). \<forall>p' \<in> fst ` set (row_asks row). p' < p))"

lemma slice_to_take: "\<exists>k. slice_to n xs = take k xs"
  by (auto simp: slice_to_def)

text \<open>A prefix of a side sorted by an order on the prices.\<close>

lemma sorted_side_true:
  assumes "sorted_wrt R (map fst xs)" and "set xs = set side" and "distinct_keys side"
  shows "sorted_wrt R (map fst (take k xs)) \<and> (\<forall>(p, q) \<in> set (take k xs). map_of side p = Some q) \<and>
    (\<forall>p \<in> dom (map_of side) - fst ` set (take k xs). \<forall>p' \<in> fst ` set (take k xs). R p' p)"
proof (intro conjI ballI)
  show "sorted_wrt R (map fst (take k xs))"
    using assms(1) by (simp add: sorted_wrt_take flip: take_map)
next
  fix l assume "l \<in> set (take k xs)"
  then have "l \<in> set xs" by (rule in_set_takeD)
  with assms(2) have "l \<in> set side" by simp
  then show "case l of (p, q) \<Rightarrow> map_of side p = Some q"
    using assms(3) by (simp split: prod.split)
next
  fix p p' assume p: "p \<in> dom (map_of side) - fst ` set (take k xs)" and p': "p' \<in> fst ` set (take k xs)"
  then obtain q where q: "(p, q) \<in> set xs" "(p, q) \<notin> set (take k xs)"
    using assms(2) by (force dest: map_of_SomeD)
  obtain l where l: "l \<in> set (take k xs)" "p' = fst l" using p' by auto
  from take_best [OF assms(1) q l(1)] l(2) show "R p' p" by simp
qed

lemma replica_row_true:
  assumes "replica hist e" and "engine_wf e" and "build_snapshot_row e instr lns wns ems = Inr row"
  shows "row_true hist row"
proof -
  obtain t where t: "be_last_applied_id e = Some t"
    using assms(3) by (auto simp: build_snapshot_row_def split: option.splits)
  then have "be_state e = LIVE" using assms(2) by (auto simp: engine_wf_def split: if_splits)
  with assms(1) t have h: "hist t = (map_of (be_bids e), map_of (be_asks e))"
    by (simp add: replica_def engine_book_def)
  have d: "distinct_keys (be_bids e)" "distinct_keys (be_asks e)" using assms(2) by (simp_all add: engine_wf_def)
  obtain kb ka where tops: "top_levels e None = (take kb (rev (sort (be_bids e))), take ka (sort (be_asks e)))"
    using slice_to_take unfolding top_levels_def Let_def by (metis (no_types, lifting))
  have "sorted_wrt (>) (map fst (rev (sort (be_bids e))))" "sorted_wrt (<) (map fst (sort (be_asks e)))"
    using sort_keys_strict [OF d(1)] sort_keys_strict [OF d(2)]
    by (simp_all add: rev_map [symmetric] sorted_wrt_rev)
  note b = sorted_side_true [OF this(1) _ d(1), of kb] and a = sorted_side_true [OF this(2) _ d(2), of ka]
  have row: "row_last_applied_id row = t" "row_bids row = take kb (rev (sort (be_bids e)))"
    "row_asks row = take ka (sort (be_asks e))"
    using assms(3) t tops by (auto simp: build_snapshot_row_def)
  show ?thesis
    unfolding row_true_def row h using a b by (simp add: split_beta)
qed

text \<open>Without any assumption on the data the engine is at least well-formed.\<close>

interpretation untrusted: true_feed engine_wf "\<lambda>_. True" "\<lambda>_. True" "\<lambda>_. True"
  by unfold_locales (auto intro: wf_intros)

text \<open>The documented contract of an exchange makes the real engine such a feed, for every history.\<close>

definition replica_good :: "(int \<Rightarrow> book) \<Rightarrow> book_engine \<Rightarrow> bool" where
  "replica_good hist e \<longleftrightarrow> engine_wf e \<and> replica hist e \<and> list_all (faithful_event hist) (be_buffer e)"

interpretation exchange: true_feed "replica_good hist" "faithful_event hist" "faithful_snapshot hist" "row_true hist"
  for hist
proof unfold_locales
  fix e event s res e' instr lns wns ems row
  show "replica_good hist e \<Longrightarrow> engine_wf e" by (simp add: replica_good_def)
  show "replica_good hist e \<Longrightarrow> faithful_event hist event \<Longrightarrow> replica_good hist (snd (apply_event e event))"
    using documented.exec_replica [of hist e "Apply_Event event"] by (simp add: replica_good_def apply_event_wf)
  show "replica_good hist e \<Longrightarrow> faithful_snapshot hist s \<Longrightarrow> load_snapshot e s = Inr (res, e') \<Longrightarrow>
      replica_good hist e'"
    using documented.load_snapshot_replica [of e s res e' hist] by (auto simp: replica_good_def intro: load_snapshot_wf)
  show "replica_good hist (invalidate e)"
    by (simp add: replica_good_def invalidate_wf replica_def) (simp add: invalidate_def)
  show "replica_good hist e \<Longrightarrow> build_snapshot_row e instr lns wns ems = Inr row \<Longrightarrow> row_true hist row"
    unfolding replica_good_def by (blast intro: replica_row_true)
qed

text \<open>
  Several clients share a queue: a row of the given client is true, and rows of other clients are
  not its business.
\<close>

definition own_row_true :: "string \<Rightarrow> string \<Rightarrow> (int \<Rightarrow> book) \<Rightarrow> snapshot_row \<Rightarrow> bool" where
  "own_row_true exch name hist row \<longleftrightarrow>
     (row_exchange row = exch \<and> row_symbol row = name \<longrightarrow> row_true hist row)"

interpretation shared: true_feed "replica_good hist" "faithful_event hist" "faithful_snapshot hist"
    "own_row_true exch name hist" for hist exch name
  by unfold_locales
    (simp_all add: own_row_true_def exchange.good_wf exchange.good_event exchange.good_snapshot exchange.good_invalidate
      exchange.good_row)

text \<open>A fresh engine and a fresh queue satisfy what the clients keep.\<close>

lemma fresh_good: "replica_good hist (new_engine depth)"
  by (simp add: replica_good_def replica_def new_engine_wf) (simp add: new_engine_def)

lemma fresh_queue: "queue_ok row_ok (Some (new_row_queue maxsize))"
  by (simp add: queue_ok_def new_row_queue_wf) (simp add: new_row_queue_def)

end
