(* ===== verification/Binance.thy ===== *)
theory Binance
  imports FeedBase
begin

text \<open>
  The client of \<^verbatim>\<open>feeds/binance.py\<close>. Two coroutines share the client: the loop of \<open>run\<close> with its
  reader, and the resync worker that fetches snapshots over HTTP. A step is what one of them does
  between two awaits; the phase and the worker state say where each is waiting. Responses, messages
  and the times at which they come are arbitrary. Histogram, gauge and log calls do not change the
  state and are left out, as is the heartbeat, which only logs. The clock is read once per step.
\<close>

section \<open>State\<close>

text \<open>
  Where the resync worker waits: on the event \<open>resync_needed\<close>; in the throttling sleep, the request
  or the rate-limit sleep of HTTP attempt \<open>k\<close> of snapshot attempt \<open>a\<close>; in \<open>close\<close> of a websocket; or
  it has ended by an exception or by cancellation.
\<close>

datatype worker =
    W_Waiting
  | W_Throttled nat nat seconds
  | W_Getting nat nat
  | W_Rate_Limited nat nat seconds
  | W_Closing
  | W_Dead py_exc
  | W_Cancelled

record binance_client =
  bc_symbol :: string
  bc_engine :: book_engine
  bc_snapshot_retry_limit :: int
  bc_http_retry_limit :: int
  bc_depth_limit :: int
  bc_max_failures :: int
  bc_connection :: connection_manager
  bc_bucket :: token_bucket
  bc_queue :: "row_queue option"
  bc_resync_needed :: bool
  bc_current_ws :: "nat option"
  bc_buffered :: nat
  bc_stats :: counters
  bc_phase :: phase
  bc_worker :: worker
  bc_closed :: "nat list" \<comment> \<open>the websockets the worker has closed\<close>
  bc_requested :: "(string \<times> int) list" \<comment> \<open>the depth requests sent: their symbol and limit\<close>

definition binance_snapshot_retry_limit :: int where
  "binance_snapshot_retry_limit = 20"

definition binance_http_retry_limit :: int where
  "binance_http_retry_limit = 10"

definition default_depth_limit :: int where
  "default_depth_limit = 100"

text \<open>The client when its loop first waits for the connector; no caller passes another depth limit.\<close>

definition new_binance_client ::
  "string \<Rightarrow> book_engine \<Rightarrow> int \<Rightarrow> int \<Rightarrow> int \<Rightarrow> backoff_policy \<Rightarrow> rng \<Rightarrow> row_queue option \<Rightarrow> seconds \<Rightarrow> binance_client" where
  "new_binance_client name engine snapshot_limit http_limit max_failures policy r queue now =
     \<lparr>bc_symbol = name, bc_engine = engine, bc_snapshot_retry_limit = snapshot_limit,
      bc_http_retry_limit = http_limit, bc_depth_limit = default_depth_limit, bc_max_failures = max_failures,
      bc_connection = connecting (new_connection_manager policy r),
      bc_bucket = default_snapshot_bucket now, bc_queue = queue, bc_resync_needed = False,
      bc_current_ws = None, bc_buffered = 0, bc_stats = [], bc_phase = Opening, bc_worker = W_Waiting,
      bc_closed = [], bc_requested = []\<rparr>"

definition bump_stat :: "string \<Rightarrow> binance_client \<Rightarrow> binance_client" where
  "bump_stat k c = c\<lparr>bc_stats := bump k (bc_stats c)\<rparr>"

text \<open>The address of the stream and the figures of \<open>get_stats\<close>, which the heartbeat logs.\<close>

definition stream_url :: "string \<Rightarrow> string \<Rightarrow> string" where
  "stream_url name speed =
     ''wss://stream.binance.com:9443/stream?streams='' @ map lower_char name @ ''@depth@'' @ speed"

definition binance_get_stats :: "binance_client \<Rightarrow> feed_stats" where
  "binance_get_stats c = feed_stats_of (bc_stats c) (bc_connection c) (bc_engine c)"

section \<open>The loop of run\<close>

definition on_connected :: "binance_client \<Rightarrow> nat \<Rightarrow> seconds \<Rightarrow> binance_client" where
  "on_connected c ws now =
     (bump_stat ''ws_reconnected'' c)
       \<lparr>bc_current_ws := Some ws, bc_connection := snd (connected (bc_connection c) now),
        bc_engine := invalidate (bc_engine c), bc_resync_needed := True, bc_phase := Reading ws\<rparr>"

text \<open>
  The outer \<open>finally\<close>: the worker is cancelled and awaited. Only a cancellation is suppressed there, so
  the exception of a worker that has died replaces the one in flight.
\<close>

definition finish_run :: "binance_client \<Rightarrow> py_exc \<Rightarrow> binance_client" where
  "finish_run c err =
     (case bc_worker c of
        W_Dead e \<Rightarrow> c\<lparr>bc_current_ws := None, bc_phase := Run_Over e\<rparr>
      | _ \<Rightarrow> c\<lparr>bc_current_ws := None, bc_phase := Run_Over err, bc_worker := W_Cancelled\<rparr>)"

definition on_disconnected :: "binance_client \<Rightarrow> cause \<Rightarrow> seconds \<Rightarrow> binance_client" where
  "on_disconnected c why now =
     (let c1 = bump_stat (case why of Watchdog_Trip \<Rightarrow> ''watchdog_tripped'' | Lost \<Rightarrow> ''ws_disconnected'') c;
          (ph, cm, stats) = next_attempt (bc_max_failures c1) (bc_connection c1) (bc_stats c1) now;
          c2 = c1\<lparr>bc_connection := cm, bc_stats := stats, bc_phase := ph\<rparr>
      in case ph of Run_Over err \<Rightarrow> finish_run c2 err | _ \<Rightarrow> c2)"

definition begin_attempt :: "binance_client \<Rightarrow> binance_client" where
  "begin_attempt c =
     c\<lparr>bc_current_ws := None, bc_connection := connecting (bc_connection c), bc_phase := Opening\<rparr>"

section \<open>The reader\<close>

definition binance_instrument :: "binance_client \<Rightarrow> instrument_id" where
  "binance_instrument c = \<lparr>exchange = ''binance'', symbol = bc_symbol c\<rparr>"

definition offer :: "binance_client \<Rightarrow> int \<Rightarrow> int \<Rightarrow> int option \<Rightarrow> outcome \<times> binance_client" where
  "offer c lns wns ems =
     (let (out, queue) = offer_row (bc_queue c) (build_snapshot_row (bc_engine c) (binance_instrument c) lns wns ems)
      in (out, c\<lparr>bc_queue := queue\<rparr>))"

definition apply_diff ::
  "binance_client \<Rightarrow> diff_event \<Rightarrow> int \<Rightarrow> int \<Rightarrow> int option \<Rightarrow> outcome \<times> binance_client" where
  "apply_diff c diff lns wns ems =
     (let (res, e) = apply_event (bc_engine c) diff; c1 = c\<lparr>bc_engine := e\<rparr>
      in case status res of
           BUFFERED \<Rightarrow> (Continues, c1\<lparr>bc_buffered := bc_buffered c1 + 1\<rparr>)
         | GAP_DETECTED \<Rightarrow> (Continues, (bump_stat ''gap_detected'' c1)\<lparr>bc_resync_needed := True\<rparr>)
         | APPLIED \<Rightarrow> offer c1 lns wns ems
         | SNAPSHOT_STALE \<Rightarrow> (Continues, c1))"

definition parse_frame :: "frame \<Rightarrow> (json \<times> raw_diff) result" where
  "parse_frame frame =
     bind_result (json_loads frame) (\<lambda>envelope.
     bind_result (parse_combined_stream_envelope envelope) (\<lambda>data.
     bind_result (parse_diff_event data) (\<lambda>diff. Inr (data, diff))))"

text \<open>What one message does, up to the next \<open>recv\<close>.\<close>

definition read_message :: "binance_client \<Rightarrow> frame \<Rightarrow> int \<Rightarrow> int \<Rightarrow> outcome \<times> binance_client" where
  "read_message c frame lns wns =
     (let c1 = bump_stat ''messages_received'' (c\<lparr>bc_connection := message_received (bc_connection c)\<rparr>)
      in case parse_frame frame of
           Inl err \<Rightarrow>
             if err = ParseError \<or> err = JSONDecodeError then (Continues, bump_stat ''malformed_message'' c1)
             else (Raises err, c1)
         | Inr (data, raw) \<Rightarrow>
             (case extract_ts ''E'' data of
                Inl err \<Rightarrow> (Raises err, c1)
              | Inr ems \<Rightarrow>
                  (case finite_diff raw of
                     None \<Rightarrow> (Unmodelled, c1)
                   | Some diff \<Rightarrow> apply_diff c1 diff lns wns ems)))"

section \<open>The resync worker\<close>

text \<open>
  A response of the HTTP client: its status, what \<open>float\<close> makes of its \<open>Retry-After\<close> header, what
  \<open>raise_for_status\<close> raises on it if anything, and its body as \<open>json\<close> takes it.
\<close>

record http_response =
  rsp_status :: int
  rsp_retry_after :: "seconds result"
  rsp_error :: "py_exc option"
  rsp_body :: frame

definition give_up :: "binance_client \<Rightarrow> binance_client" where
  "give_up c =
     (let c1 = bump_stat ''snapshot_retry_limit_exceeded'' c
      in case bc_current_ws c1 of
           None \<Rightarrow> c1\<lparr>bc_worker := W_Waiting\<rparr>
         | Some ws \<Rightarrow> c1\<lparr>bc_worker := W_Closing, bc_closed := ws # bc_closed c1\<rparr>)"

text \<open>The wait for a token is over: one is taken, and the request goes out with symbol and limit.\<close>

definition issue_get :: "binance_client \<Rightarrow> seconds \<Rightarrow> nat \<Rightarrow> nat \<Rightarrow> binance_client" where
  "issue_get c now a k =
     c\<lparr>bc_bucket := snd (try_acquire (bc_bucket c) 1 now), bc_worker := W_Getting a k,
       bc_requested := bc_requested c @ [(bc_symbol c, bc_depth_limit c)]\<rparr>"

text \<open>The head of the loop of \<open>_fetch_snapshot\<close>; out of attempts, \<open>_perform_resync\<close> gives up.\<close>

definition fetch :: "binance_client \<Rightarrow> seconds \<Rightarrow> nat \<Rightarrow> nat \<Rightarrow> binance_client" where
  "fetch c now a k =
     (if bc_http_retry_limit c \<le> int k then give_up (bump_stat ''snapshot_fetch_failed'' c)
      else case time_until_available (bc_bucket c) 1 now of
             (Inl err, b) \<Rightarrow> c\<lparr>bc_bucket := b, bc_worker := W_Dead err\<rparr>
           | (Inr wait, b) \<Rightarrow>
               (let c1 = c\<lparr>bc_bucket := b\<rparr>
                in if 0 < wait then c1\<lparr>bc_worker := W_Throttled a k (now + wait)\<rparr> else issue_get c1 now a k))"

text \<open>Any exception of the HTTP client is a failed attempt.\<close>

definition network_error :: "binance_client \<Rightarrow> seconds \<Rightarrow> nat \<Rightarrow> nat \<Rightarrow> binance_client" where
  [simp]: "network_error c now a k = fetch (bump_stat ''snapshot_fetch_network_error'' c) now a (k + 1)"

text \<open>The head of the loop of \<open>_perform_resync\<close>.\<close>

definition attempt_resync :: "binance_client \<Rightarrow> seconds \<Rightarrow> nat \<Rightarrow> binance_client" where
  "attempt_resync c now a = (if bc_snapshot_retry_limit c \<le> int a then give_up c else fetch c now a 0)"

definition worker_wakes :: "binance_client \<Rightarrow> seconds \<Rightarrow> binance_client" where
  "worker_wakes c now =
     (let c1 = c\<lparr>bc_resync_needed := False\<rparr>
      in if be_state (bc_engine c1) = LIVE then c1 else attempt_resync (c1\<lparr>bc_buffered := 0\<rparr>) now 0)"

definition on_snapshot ::
  "binance_client \<Rightarrow> seconds \<Rightarrow> nat \<Rightarrow> snapshot_event \<Rightarrow> int \<Rightarrow> int \<Rightarrow> binance_client" where
  "on_snapshot c now a s lns wns =
     (case load_snapshot (bc_engine c) s of
        Inl err \<Rightarrow> c\<lparr>bc_worker := W_Dead err\<rparr>
      | Inr (res, e) \<Rightarrow>
          (let c1 = c\<lparr>bc_engine := e\<rparr>
           in case status res of
                APPLIED \<Rightarrow>
                  (case offer (bump_stat ''resync_completed'' c1) lns wns None of
                     (Raises err, c2) \<Rightarrow> c2\<lparr>bc_worker := W_Dead err\<rparr>
                   | (_, c2) \<Rightarrow> c2\<lparr>bc_worker := W_Waiting\<rparr>)
              | GAP_DETECTED \<Rightarrow> attempt_resync (bump_stat ''gap_detected'' c1) now (a + 1)
              | _ \<Rightarrow> attempt_resync (bump_stat ''snapshot_stale_retry'' c1) now (a + 1)))"

text \<open>A response to the request of HTTP attempt \<open>k\<close>; \<open>None\<close> if a level of it is not finite.\<close>

definition on_response ::
  "binance_client \<Rightarrow> seconds \<Rightarrow> nat \<Rightarrow> nat \<Rightarrow> http_response \<Rightarrow> int \<Rightarrow> int \<Rightarrow> binance_client option" where
  "on_response c now a k rsp lns wns =
     (if rsp_status rsp = 429 \<or> rsp_status rsp = 418
      then Some (case rsp_retry_after rsp of
                   Inl err \<Rightarrow> c\<lparr>bc_worker := W_Dead err\<rparr>
                 | Inr wait \<Rightarrow> (bump_stat ''rate_limited'' c)\<lparr>bc_worker := W_Rate_Limited a k (now + wait)\<rparr>)
      else case rsp_error rsp of
             Some err \<Rightarrow> Some (c\<lparr>bc_worker := W_Dead err\<rparr>)
           | None \<Rightarrow>
               (case bind_result (json_loads (rsp_body rsp)) parse_snapshot of
                  Inl err \<Rightarrow> Some (c\<lparr>bc_worker := W_Dead err\<rparr>)
                | Inr raw \<Rightarrow> map_option (\<lambda>s. on_snapshot c now a s lns wns) (finite_snapshot raw)))"

section \<open>Steps\<close>

text \<open>
  A message that raises ends the connection and is an event of its own. The queue is shared: the
  sink takes rows from it and other clients put theirs.
\<close>

datatype binance_event =
    Connect_Ok nat seconds
  | Disconnect cause seconds
  | Message frame int int
  | Fatal_Message frame int int seconds
  | Backoff_Over
  | Cancel_Run
  | Worker_Wakes seconds
  | Throttle_Over seconds
  | Get_Fails seconds
  | Get_Returns http_response int int seconds
  | Rate_Limit_Over seconds
  | Close_Returns
  | Sink_Takes snapshot_row
  | Other_Puts snapshot_row

fun running :: "phase \<Rightarrow> bool" where
  "running (Run_Over _) = False"
| "running _ = True"

inductive binance_step :: "binance_client \<Rightarrow> binance_event \<Rightarrow> binance_client \<Rightarrow> bool" where
  opens: "bc_phase c = Opening \<Longrightarrow> binance_step c (Connect_Ok ws now) (on_connected c ws now)"
| refused: "bc_phase c = Opening \<Longrightarrow> binance_step c (Disconnect why now) (on_disconnected c why now)"
| lost: "bc_phase c = Reading ws \<Longrightarrow> binance_step c (Disconnect why now) (on_disconnected c why now)"
| message: "bc_phase c = Reading ws \<Longrightarrow> read_message c frame lns wns = (Continues, c') \<Longrightarrow>
    binance_step c (Message frame lns wns) c'"
| message_raises: "bc_phase c = Reading ws \<Longrightarrow> read_message c frame lns wns = (Raises err, c') \<Longrightarrow>
    binance_step c (Fatal_Message frame lns wns now) (on_disconnected c' (cause_of err) now)"
| backoff_over: "bc_phase c = Backing_Off delay \<Longrightarrow> binance_step c Backoff_Over (begin_attempt c)"
| cancel: "running (bc_phase c) \<Longrightarrow> binance_step c Cancel_Run (finish_run c CancelledError)"
| wakes: "bc_worker c = W_Waiting \<Longrightarrow> bc_resync_needed c \<Longrightarrow>
    binance_step c (Worker_Wakes now) (worker_wakes c now)"
| throttle_over: "bc_worker c = W_Throttled a k until \<Longrightarrow> until \<le> now \<Longrightarrow>
    binance_step c (Throttle_Over now) (issue_get c now a k)"
| get_fails: "bc_worker c = W_Getting a k \<Longrightarrow>
    binance_step c (Get_Fails now) (network_error c now a k)"
| get_returns: "bc_worker c = W_Getting a k \<Longrightarrow> on_response c now a k rsp lns wns = Some c' \<Longrightarrow>
    binance_step c (Get_Returns rsp lns wns now) c'"
| rate_limit_over: "bc_worker c = W_Rate_Limited a k until \<Longrightarrow> until \<le> now \<Longrightarrow>
    binance_step c (Rate_Limit_Over now) (fetch c now a (k + 1))"
| close_returns: "bc_worker c = W_Closing \<Longrightarrow> binance_step c Close_Returns (c\<lparr>bc_worker := W_Waiting\<rparr>)"
| sink_takes: "bc_queue c = Some q \<Longrightarrow> get q = Some (row, q') \<Longrightarrow>
    binance_step c (Sink_Takes row) (c\<lparr>bc_queue := Some q'\<rparr>)"
| other_puts: "bc_queue c = Some q \<Longrightarrow>
    binance_step c (Other_Puts row) (c\<lparr>bc_queue := Some (snd (put q row))\<rparr>)"

inductive_cases binance_stepE: "binance_step c ev c'"

inductive binance_run :: "binance_client \<Rightarrow> binance_event list \<Rightarrow> binance_client \<Rightarrow> bool" for c where
  start: "binance_run c [] c"
| snoc: "binance_run c evs c1 \<Longrightarrow> binance_step c1 ev c2 \<Longrightarrow> binance_run c (evs @ [ev]) c2"

section \<open>What the operations leave alone\<close>

fun dead :: "worker \<Rightarrow> bool" where
  "dead (W_Dead err) = True"
| "dead _ = False"


lemma bump_stat_frame [simp, frame_simps]:
  "bc_engine (bump_stat k c) = bc_engine c" "bc_queue (bump_stat k c) = bc_queue c"
  "bc_worker (bump_stat k c) = bc_worker c" "bc_phase (bump_stat k c) = bc_phase c"
  "bc_resync_needed (bump_stat k c) = bc_resync_needed c" "bc_closed (bump_stat k c) = bc_closed c"
  "bc_current_ws (bump_stat k c) = bc_current_ws c" "bc_connection (bump_stat k c) = bc_connection c"
  "bc_bucket (bump_stat k c) = bc_bucket c" "bc_max_failures (bump_stat k c) = bc_max_failures c"
  "bc_snapshot_retry_limit (bump_stat k c) = bc_snapshot_retry_limit c"
  "bc_http_retry_limit (bump_stat k c) = bc_http_retry_limit c" "bc_symbol (bump_stat k c) = bc_symbol c"
  by (simp_all add: bump_stat_def)

lemma on_disconnected_frame [simp, frame_simps]:
  "bc_engine (on_disconnected c why now) = bc_engine c" "bc_queue (on_disconnected c why now) = bc_queue c"
  "bc_resync_needed (on_disconnected c why now) = bc_resync_needed c"
  "bc_bucket (on_disconnected c why now) = bc_bucket c"
  "bc_max_failures (on_disconnected c why now) = bc_max_failures c"
  "bc_connection (on_disconnected c why now) = snd (disconnected (bc_connection c) now)"
  by (simp_all add: on_disconnected_def finish_run_def next_attempt_def Let_def
      split: prod.splits phase.splits worker.splits sum.splits if_splits)

lemma on_disconnected_worker:
  "bc_worker (on_disconnected c why now) =
     (if running (bc_phase (on_disconnected c why now)) \<or> dead (bc_worker c) then bc_worker c else W_Cancelled)"
  by (auto simp: on_disconnected_def finish_run_def Let_def split: prod.splits phase.splits worker.splits)

lemma on_disconnected_phase: "bc_phase (on_disconnected c why now) \<noteq> Reading ws"
  by (auto simp: on_disconnected_def finish_run_def next_attempt_def Let_def
      split: prod.splits phase.splits worker.splits sum.splits if_splits)

lemma finish_run_frame [simp, frame_simps]:
  "bc_engine (finish_run c err) = bc_engine c" "bc_queue (finish_run c err) = bc_queue c"
  "bc_resync_needed (finish_run c err) = bc_resync_needed c" "bc_bucket (finish_run c err) = bc_bucket c"
  "bc_max_failures (finish_run c err) = bc_max_failures c" "bc_connection (finish_run c err) = bc_connection c"
  "\<not> running (bc_phase (finish_run c err))"
  by (simp_all add: finish_run_def split: worker.splits)

lemma finish_run_worker:
  "bc_worker (finish_run c err) = (if dead (bc_worker c) then bc_worker c else W_Cancelled)"
  by (simp add: finish_run_def split: worker.splits)

lemma offer_frame [simp, frame_simps]:
  "bc_engine (snd (offer c lns wns ems)) = bc_engine c" "bc_worker (snd (offer c lns wns ems)) = bc_worker c"
  "bc_phase (snd (offer c lns wns ems)) = bc_phase c" "bc_bucket (snd (offer c lns wns ems)) = bc_bucket c"
  "bc_resync_needed (snd (offer c lns wns ems)) = bc_resync_needed c"
  "bc_closed (snd (offer c lns wns ems)) = bc_closed c"
  "bc_connection (snd (offer c lns wns ems)) = bc_connection c"
  "bc_max_failures (snd (offer c lns wns ems)) = bc_max_failures c"
  "bc_current_ws (snd (offer c lns wns ems)) = bc_current_ws c"
  by (simp_all add: offer_def split: prod.splits)

text \<open>Giving up and fetching touch the worker, the bucket, the counters and the list of closed sockets.\<close>

lemma give_up_frame [simp, frame_simps]:
  "bc_engine (give_up c) = bc_engine c" "bc_queue (give_up c) = bc_queue c"
  "bc_phase (give_up c) = bc_phase c" "bc_bucket (give_up c) = bc_bucket c"
  "bc_resync_needed (give_up c) = bc_resync_needed c" "bc_connection (give_up c) = bc_connection c"
  "bc_max_failures (give_up c) = bc_max_failures c" "bc_current_ws (give_up c) = bc_current_ws c"
  by (simp_all add: give_up_def Let_def split: option.splits)

lemma give_up_worker:
  "bc_worker (give_up c) = (if bc_current_ws c = None then W_Waiting else W_Closing)"
  "bc_closed (give_up c) = (case bc_current_ws c of None \<Rightarrow> bc_closed c | Some ws \<Rightarrow> ws # bc_closed c)"
  by (simp_all add: give_up_def Let_def split: option.splits)

lemma fetch_frame [simp, frame_simps]:
  "bc_engine (fetch c now a k) = bc_engine c" "bc_queue (fetch c now a k) = bc_queue c"
  "bc_phase (fetch c now a k) = bc_phase c" "bc_resync_needed (fetch c now a k) = bc_resync_needed c"
  "bc_connection (fetch c now a k) = bc_connection c" "bc_max_failures (fetch c now a k) = bc_max_failures c"
  "bc_current_ws (fetch c now a k) = bc_current_ws c"
  by (simp_all add: fetch_def issue_get_def Let_def split: prod.splits sum.splits)

lemma attempt_resync_frame [simp, frame_simps]:
  "bc_engine (attempt_resync c now a) = bc_engine c" "bc_queue (attempt_resync c now a) = bc_queue c"
  "bc_phase (attempt_resync c now a) = bc_phase c" "bc_connection (attempt_resync c now a) = bc_connection c"
  "bc_resync_needed (attempt_resync c now a) = bc_resync_needed c"
  "bc_max_failures (attempt_resync c now a) = bc_max_failures c"
  "bc_current_ws (attempt_resync c now a) = bc_current_ws c"
  by (simp_all add: attempt_resync_def)

text \<open>
  After giving up, fetching or a new attempt the worker is busy, or it is closing the current
  websocket, or there is none. It cannot die there, as the bucket refills.
\<close>

fun busy :: "worker \<Rightarrow> bool" where
  "busy (W_Throttled a k until) = True"
| "busy (W_Getting a k) = True"
| "busy (W_Rate_Limited a k until) = True"
| "busy _ = False"

definition on_its_way :: "binance_client \<Rightarrow> bool" where
  "on_its_way c \<longleftrightarrow>
     busy (bc_worker c) \<or>
     (case bc_current_ws c of None \<Rightarrow> bc_worker c = W_Waiting
      | Some ws \<Rightarrow> bc_worker c = W_Closing \<and> ws \<in> set (bc_closed c))"

lemma give_up_way: "on_its_way (give_up c)"
  by (auto simp: on_its_way_def give_up_worker split: option.splits)

lemma fetch_way: "tb_refill_rate (bc_bucket c) \<noteq> 0 \<Longrightarrow> on_its_way (fetch c now a k)"
  using give_up_way [of "bump_stat ''snapshot_fetch_failed'' c"]
  by (auto simp: fetch_def issue_get_def time_until_available_def Let_def on_its_way_def split: prod.splits sum.splits)

lemma attempt_way: "tb_refill_rate (bc_bucket c) \<noteq> 0 \<Longrightarrow> on_its_way (attempt_resync c now a)"
  by (simp add: attempt_resync_def give_up_way fetch_way)

lemma fetch_rate [simp]: "tb_refill_rate (bc_bucket (fetch c now a k)) = tb_refill_rate (bc_bucket c)"
proof -
  have "tb_refill_rate b = tb_refill_rate (bc_bucket c)" if "time_until_available (bc_bucket c) 1 now = (w, b)" for w b
    using wait_rate [of "bc_bucket c" 1 now] that by simp
  then show ?thesis by (auto simp: fetch_def issue_get_def Let_def split: prod.splits sum.splits)
qed

lemma attempt_rate [simp]: "tb_refill_rate (bc_bucket (attempt_resync c now a)) = tb_refill_rate (bc_bucket c)"
  by (simp add: attempt_resync_def)

section \<open>The invariant\<close>

text \<open>What a step feeds to the engine satisfies the given predicates.\<close>

definition frame_carries :: "(diff_event \<Rightarrow> bool) \<Rightarrow> frame \<Rightarrow> bool" where
  "frame_carries ev_ok frame \<longleftrightarrow>
     (case parse_frame frame of Inl err \<Rightarrow> True | Inr (data, raw) \<Rightarrow> pred_option ev_ok (finite_diff raw))"

definition response_carries :: "(snapshot_event \<Rightarrow> bool) \<Rightarrow> http_response \<Rightarrow> bool" where
  "response_carries sn_ok rsp \<longleftrightarrow>
     (case bind_result (json_loads (rsp_body rsp)) parse_snapshot of
        Inl err \<Rightarrow> True | Inr raw \<Rightarrow> pred_option sn_ok (finite_snapshot raw))"

fun binance_carries ::
  "(diff_event \<Rightarrow> bool) \<Rightarrow> (snapshot_event \<Rightarrow> bool) \<Rightarrow> (snapshot_row \<Rightarrow> bool) \<Rightarrow> binance_event \<Rightarrow> bool" where
  "binance_carries ev_ok sn_ok row_ok (Message frame lns wns) = frame_carries ev_ok frame"
| "binance_carries ev_ok sn_ok row_ok (Fatal_Message frame lns wns now) = frame_carries ev_ok frame"
| "binance_carries ev_ok sn_ok row_ok (Get_Returns rsp lns wns now) = response_carries sn_ok rsp"
| "binance_carries ev_ok sn_ok row_ok (Other_Puts row) = row_ok row"
| "binance_carries ev_ok sn_ok row_ok _ = True"

text \<open>
  A connection whose engine is not live has a resync under way or requested, or the worker has
  closed it, or the worker is dead.
\<close>

definition not_forgotten :: "binance_client \<Rightarrow> bool" where
  "not_forgotten c \<longleftrightarrow>
     (\<forall>ws. bc_phase c = Reading ws \<longrightarrow> bc_current_ws c = Some ws \<and>
        (be_state (bc_engine c) = LIVE \<or> bc_resync_needed c \<or> busy (bc_worker c) \<or> dead (bc_worker c) \<or>
         ws \<in> set (bc_closed c)))"

definition binance_ok :: "(book_engine \<Rightarrow> bool) \<Rightarrow> (snapshot_row \<Rightarrow> bool) \<Rightarrow> binance_client \<Rightarrow> bool" where
  "binance_ok good row_ok c \<longleftrightarrow>
     good (bc_engine c) \<and> queue_ok row_ok (bc_queue c) \<and> tb_refill_rate (bc_bucket c) \<noteq> 0 \<and>
     (busy (bc_worker c) \<or> dead (bc_worker c) \<longrightarrow> be_state (bc_engine c) \<noteq> LIVE) \<and>
     (running (bc_phase c) \<longrightarrow> bc_worker c \<noteq> W_Cancelled) \<and>
     (\<not> running (bc_phase c) \<longrightarrow> bc_worker c = W_Cancelled \<or> dead (bc_worker c)) \<and> not_forgotten c"

lemma read_message_cases:
  assumes "read_message c frame lns wns = (out, c')"
  obtains
    (skipped) "bc_engine c' = bc_engine c" "bc_queue c' = bc_queue c" "bc_resync_needed c' = bc_resync_needed c"
      "bc_worker c' = bc_worker c" "bc_phase c' = bc_phase c" "bc_bucket c' = bc_bucket c"
      "bc_closed c' = bc_closed c" "bc_current_ws c' = bc_current_ws c" "bc_max_failures c' = bc_max_failures c"
      "bc_connection c' = message_received (bc_connection c)"
  | (parsed) data raw diff ems where "parse_frame frame = Inr (data, raw)" "finite_diff raw = Some diff"
      "(out, c') = apply_diff
         (bump_stat ''messages_received'' (c\<lparr>bc_connection := message_received (bc_connection c)\<rparr>)) diff lns wns ems"
proof (cases "\<exists>data raw ems diff. parse_frame frame = Inr (data, raw) \<and> extract_ts ''E'' data = Inr ems \<and>
    finite_diff raw = Some diff")
  case True
  then obtain data raw ems diff where p: "parse_frame frame = Inr (data, raw)" "extract_ts ''E'' data = Inr ems"
    "finite_diff raw = Some diff" by blast
  with assms show thesis by (intro parsed [OF p(1,3), of ems]) (simp add: read_message_def Let_def)
next
  case False
  then have "c' = bump_stat ''messages_received'' (c\<lparr>bc_connection := message_received (bc_connection c)\<rparr>) \<or>
      c' = bump_stat ''malformed_message''
        (bump_stat ''messages_received'' (c\<lparr>bc_connection := message_received (bc_connection c)\<rparr>))"
    using assms unfolding read_message_def Let_def
    by (auto split: sum.splits prod.splits option.splits if_splits)
  then show thesis by (elim disjE) (rule skipped; simp)+
qed

lemma apply_diff_frame:
  assumes "apply_diff c diff lns wns ems = (out, c')"
  shows "bc_engine c' = snd (apply_event (bc_engine c) diff)" "bc_worker c' = bc_worker c"
    "bc_phase c' = bc_phase c" "bc_bucket c' = bc_bucket c" "bc_closed c' = bc_closed c"
    "bc_current_ws c' = bc_current_ws c" "bc_connection c' = bc_connection c" "bc_max_failures c' = bc_max_failures c"
    "bc_resync_needed c' =
       (bc_resync_needed c \<or> status (fst (apply_event (bc_engine c) diff)) = GAP_DETECTED)"
    "status (fst (apply_event (bc_engine c) diff)) \<noteq> APPLIED \<Longrightarrow> bc_queue c' = bc_queue c \<and> out = Continues"
    "status (fst (apply_event (bc_engine c) diff)) = APPLIED \<Longrightarrow>
       (out, c') = offer (c\<lparr>bc_engine := snd (apply_event (bc_engine c) diff)\<rparr>) lns wns ems"
proof -
  obtain res e where a: "apply_event (bc_engine c) diff = (res, e)" by fastforce
  obtain o2 c2 where o: "offer (c\<lparr>bc_engine := e\<rparr>) lns wns ems = (o2, c2)" by fastforce
  have f: "bc_engine c2 = e" "bc_worker c2 = bc_worker c" "bc_phase c2 = bc_phase c" "bc_bucket c2 = bc_bucket c"
    "bc_closed c2 = bc_closed c" "bc_current_ws c2 = bc_current_ws c" "bc_connection c2 = bc_connection c"
    "bc_max_failures c2 = bc_max_failures c" "bc_resync_needed c2 = bc_resync_needed c"
    using offer_frame [of "c\<lparr>bc_engine := e\<rparr>" lns wns ems] o by simp_all
  have c': "(status res = APPLIED \<and> out = o2 \<and> c' = c2) \<or>
    (status res = GAP_DETECTED \<and> out = Continues \<and>
       c' = (bump_stat ''gap_detected'' (c\<lparr>bc_engine := e\<rparr>))\<lparr>bc_resync_needed := True\<rparr>) \<or>
    ((status res = BUFFERED \<or> status res = SNAPSHOT_STALE) \<and> out = Continues \<and>
       (\<exists>n. c' = c\<lparr>bc_engine := e, bc_buffered := n\<rparr>))"
    using assms a o
    by (cases "status res") (auto simp: apply_diff_def intro: exI [of _ "bc_buffered c"])
  from c' f show "bc_engine c' = snd (apply_event (bc_engine c) diff)" by (auto simp: a)
  from c' f show "bc_worker c' = bc_worker c" by auto
  from c' f show "bc_phase c' = bc_phase c" by auto
  from c' f show "bc_bucket c' = bc_bucket c" by auto
  from c' f show "bc_closed c' = bc_closed c" by auto
  from c' f show "bc_current_ws c' = bc_current_ws c" by auto
  from c' f show "bc_connection c' = bc_connection c" by auto
  from c' f show "bc_max_failures c' = bc_max_failures c" by auto
  from c' f show "bc_resync_needed c' =
      (bc_resync_needed c \<or> status (fst (apply_event (bc_engine c) diff)) = GAP_DETECTED)" by (auto simp: a)
  from c' f show "status (fst (apply_event (bc_engine c) diff)) \<noteq> APPLIED \<Longrightarrow> bc_queue c' = bc_queue c \<and> out = Continues"
    by (auto simp: a)
  from c' o show "status (fst (apply_event (bc_engine c) diff)) = APPLIED \<Longrightarrow>
      (out, c') = offer (c\<lparr>bc_engine := snd (apply_event (bc_engine c) diff)\<rparr>) lns wns ems"
    by (auto simp: a)
qed

end
