(* ===== verification/BinanceProps.thy ===== *)
theory BinanceProps
  imports Binance
begin

text \<open>
  The properties of the Binance client: its invariant is kept by every step, whatever the
  interleaving of reader and worker; a resync is never forgotten; what kills the
  worker and what that means; the rate of its requests; the escalation of silent reconnects.
\<close>

section \<open>The invariant is kept\<close>

definition linked :: "binance_client \<Rightarrow> bool" where
  "linked c \<longleftrightarrow> (\<forall>ws. bc_phase c = Reading ws \<longrightarrow> bc_current_ws c = Some ws)"

definition binance_core :: "(book_engine \<Rightarrow> bool) \<Rightarrow> (snapshot_row \<Rightarrow> bool) \<Rightarrow> binance_client \<Rightarrow> bool" where
  "binance_core good row_ok c \<longleftrightarrow>
     good (bc_engine c) \<and> queue_ok row_ok (bc_queue c) \<and> tb_refill_rate (bc_bucket c) \<noteq> 0 \<and> linked c \<and>
     running (bc_phase c)"

lemma binance_ok_running:
  "binance_ok good row_ok c \<Longrightarrow> bc_worker c \<noteq> W_Cancelled \<Longrightarrow> \<not> dead (bc_worker c) \<Longrightarrow> running (bc_phase c)"
  by (auto simp: binance_ok_def)

lemma binance_ok_core:
  "binance_ok good row_ok c \<Longrightarrow> running (bc_phase c) \<Longrightarrow> binance_core good row_ok c"
  by (auto simp: binance_ok_def binance_core_def linked_def not_forgotten_def)

lemma core_bump [simp]: "binance_core good row_ok (bump_stat k c) = binance_core good row_ok c"
  by (simp add: binance_core_def linked_def)

text \<open>From an engine that is not live, whatever is on its way is a good state.\<close>

lemma on_its_way_ok:
  assumes "binance_core good row_ok c" and "on_its_way c" and "be_state (bc_engine c) \<noteq> LIVE"
  shows "binance_ok good row_ok c"
proof -
  have "bc_worker c \<noteq> W_Cancelled"
    using assms(2) by (auto simp: on_its_way_def split: option.splits)
  moreover have "not_forgotten c"
    using assms(1,2) by (auto simp: not_forgotten_def on_its_way_def binance_core_def linked_def split: option.splits)
  ultimately show ?thesis
    using assms by (simp add: binance_ok_def binance_core_def)
qed

lemma attempt_ok:
  assumes "binance_core good row_ok c" and "be_state (bc_engine c) \<noteq> LIVE"
  shows "binance_ok good row_ok (attempt_resync c now a)"
proof (rule on_its_way_ok)
  show "binance_core good row_ok (attempt_resync c now a)"
    using assms(1) by (simp add: binance_core_def linked_def)
  show "on_its_way (attempt_resync c now a)"
    using assms(1) by (simp add: attempt_way binance_core_def)
qed (use assms in simp)

lemma fetch_ok:
  assumes "binance_core good row_ok c" and "be_state (bc_engine c) \<noteq> LIVE"
  shows "binance_ok good row_ok (fetch c now a k)"
proof (rule on_its_way_ok)
  show "binance_core good row_ok (fetch c now a k)"
    using assms(1) by (simp add: binance_core_def linked_def)
  show "on_its_way (fetch c now a k)"
    using assms(1) by (simp add: fetch_way binance_core_def)
qed (use assms in simp)

lemma busy_not_dead [simp]: "busy w \<Longrightarrow> \<not> dead w"
  by (cases w) simp_all

lemma read_message_frame:
  assumes "read_message c frame lns wns = (out, c')"
  shows "bc_phase c' = bc_phase c" "bc_worker c' = bc_worker c" "bc_bucket c' = bc_bucket c"
    "bc_connection c' = message_received (bc_connection c)" "bc_max_failures c' = bc_max_failures c"
proof -
  have "bc_phase c' = bc_phase c \<and> bc_worker c' = bc_worker c \<and> bc_bucket c' = bc_bucket c \<and>
    bc_connection c' = message_received (bc_connection c) \<and> bc_max_failures c' = bc_max_failures c"
    using assms
  proof (cases rule: read_message_cases)
    case (parsed data raw diff ems)
    note f = apply_diff_frame(2-4,7,8) [OF parsed(3) [symmetric]]
    show ?thesis unfolding f by simp
  qed simp
  then show "bc_phase c' = bc_phase c" "bc_worker c' = bc_worker c" "bc_bucket c' = bc_bucket c"
    "bc_connection c' = message_received (bc_connection c)" "bc_max_failures c' = bc_max_failures c"
    by blast+
qed

text \<open>The exception with which a response ends the worker, if it does.\<close>

definition response_kills :: "http_response \<Rightarrow> py_exc option" where
  "response_kills rsp =
     (if rsp_status rsp = 429 \<or> rsp_status rsp = 418
      then (case rsp_retry_after rsp of Inl err \<Rightarrow> Some err | Inr wait \<Rightarrow> None)
      else case rsp_error rsp of
             Some err \<Rightarrow> Some err
           | None \<Rightarrow> (case bind_result (json_loads (rsp_body rsp)) parse_snapshot of
                        Inl err \<Rightarrow> Some err | Inr raw \<Rightarrow> None))"

lemma on_response_cases:
  assumes "on_response c now a k rsp lns wns = Some c'"
  obtains
    (died) err where "response_kills rsp = Some err" "c' = c\<lparr>bc_worker := W_Dead err\<rparr>"
  | (limited) wait where "response_kills rsp = None"
      "c' = (bump_stat ''rate_limited'' c)\<lparr>bc_worker := W_Rate_Limited a k (now + wait)\<rparr>"
  | (loaded) raw s where "response_kills rsp = None"
      "bind_result (json_loads (rsp_body rsp)) parse_snapshot = Inr raw" "finite_snapshot raw = Some s"
      "c' = on_snapshot c now a s lns wns"
proof (cases "rsp_status rsp = 429 \<or> rsp_status rsp = 418")
  case True
  with assms died limited show thesis
    by (cases "rsp_retry_after rsp") (auto simp: on_response_def response_kills_def)
next
  case False
  show thesis
  proof (cases "rsp_error rsp")
    case (Some err)
    with False assms died show thesis by (auto simp: on_response_def response_kills_def)
  next
    case None
    with False assms died loaded show thesis
      by (cases "bind_result (json_loads (rsp_body rsp)) parse_snapshot")
        (auto simp: on_response_def response_kills_def)
  qed
qed

context true_feed
begin

lemma offer_ok:
  assumes "good (bc_engine c)" and "be_state (bc_engine c) = LIVE" and "queue_ok row_ok (bc_queue c)"
  shows "fst (offer c lns wns ems) = Continues \<and> queue_ok row_ok (bc_queue (snd (offer c lns wns ems)))"
proof -
  obtain r where r: "build_snapshot_row (bc_engine c) (binance_instrument c) lns wns ems = Inr r"
    by (rule build_row_live [OF good_wf [OF assms(1)] assms(2)])
  from offer_row_ok [OF assms(3) r good_row [OF assms(1) r]] show ?thesis
    by (simp add: offer_def split_beta Let_def)
qed

lemma apply_diff_ok:
  assumes "binance_ok good row_ok c" and "ev_ok diff" and "apply_diff c diff lns wns ems = (out, c')"
  shows "out = Continues \<and> binance_ok good row_ok c'"
proof -
  let ?e = "snd (apply_event (bc_engine c) diff)" and ?st = "status (fst (apply_event (bc_engine c) diff))"
  note f = apply_diff_frame [OF assms(3)] and live = apply_event_live [of "bc_engine c" diff]
  have e: "good ?e" using assms(1,2) good_event by (simp add: binance_ok_def)
  have q: "out = Continues \<and> queue_ok row_ok (bc_queue c')"
  proof (cases "?st = APPLIED")
    case True
    from offer_ok [of "c\<lparr>bc_engine := ?e\<rparr>" lns wns ems] e live(2) [OF True] assms(1) f(11) [OF True]
    show ?thesis by (cases "offer (c\<lparr>bc_engine := ?e\<rparr>) lns wns ems") (simp add: binance_ok_def)
  next
    case False
    with f(10) assms(1) show ?thesis by (simp add: binance_ok_def)
  qed
  have "not_forgotten c'"
    using assms(1) f(1-9) live(1) by (auto simp: binance_ok_def not_forgotten_def)
  with q e f(1-9) live(1) assms(1) show ?thesis
    by (auto simp: binance_ok_def)
qed

lemma read_message_ok:
  assumes "binance_ok good row_ok c" and "frame_carries ev_ok frame"
    and "read_message c frame lns wns = (out, c')"
  shows "binance_ok good row_ok c'"
  using assms(3)
proof (cases rule: read_message_cases)
  case skipped
  with assms(1) show ?thesis by (simp add: binance_ok_def not_forgotten_def)
next
  case (parsed data raw diff ems)
  let ?c = "bump_stat ''messages_received'' (c\<lparr>bc_connection := message_received (bc_connection c)\<rparr>)"
  have "binance_ok good row_ok ?c" using assms(1) by (simp add: binance_ok_def not_forgotten_def)
  moreover have "ev_ok diff" using assms(2) parsed(1,2) by (simp add: frame_carries_def)
  ultimately show ?thesis using apply_diff_ok parsed(3) by metis
qed

lemma on_disconnected_ok:
  assumes "binance_ok good row_ok c" and "running (bc_phase c)"
  shows "binance_ok good row_ok (on_disconnected c why now)"
  using assms on_disconnected_worker [of c why now] on_disconnected_phase [of c why now]
  by (auto simp: binance_ok_def not_forgotten_def)

lemma finish_run_ok: "binance_ok good row_ok c \<Longrightarrow> binance_ok good row_ok (finish_run c err)"
  using finish_run_worker [of c err] finish_run_frame(7) [of c err]
  by (auto simp: binance_ok_def not_forgotten_def simp del: finish_run_frame(7))

lemma on_snapshot_ok:
  assumes "binance_ok good row_ok c" and "sn_ok s" and "busy (bc_worker c)"
  shows "binance_ok good row_ok (on_snapshot c now a s lns wns) \<and> \<not> dead (bc_worker (on_snapshot c now a s lns wns))"
proof -
  have nl: "be_state (bc_engine c) \<noteq> LIVE" using assms(1,3) by (simp add: binance_ok_def)
  obtain res e where l: "load_snapshot (bc_engine c) s = Inr (res, e)"
    by (rule load_snapshot_not_live [OF nl])
  have e: "good e" using good_snapshot [OF _ assms(2) l] assms(1) by (simp add: binance_ok_def)
  have "bc_worker c \<noteq> W_Cancelled" using assms(3) by auto
  then have "running (bc_phase c)" using binance_ok_running [OF assms(1)] assms(3) by simp
  then have core: "binance_core good row_ok (bump_stat k (c\<lparr>bc_engine := e\<rparr>))" for k
    using binance_ok_core [OF assms(1)] e by (simp add: binance_core_def linked_def)
  note st = load_snapshot_status [OF l]
  show ?thesis
  proof (cases "status res = APPLIED")
    case True
    let ?c = "bump_stat ''resync_completed'' (c\<lparr>bc_engine := e\<rparr>)"
    obtain o2 c2 where o: "offer ?c lns wns None = (o2, c2)" by fastforce
    have "o2 = Continues" "queue_ok row_ok (bc_queue c2)"
      using offer_ok [of ?c lns wns None] True st core [of "''resync_completed''"] o
      by (simp_all add: binance_core_def e)
    moreover have "on_snapshot c now a s lns wns = c2\<lparr>bc_worker := W_Waiting\<rparr>"
      using l True o \<open>o2 = Continues\<close> by (simp add: on_snapshot_def Let_def)
    moreover have "bc_engine c2 = e" "bc_bucket c2 = bc_bucket c" "bc_phase c2 = bc_phase c" "bc_current_ws c2 = bc_current_ws c"
      using offer_frame [of ?c lns wns None] o by simp_all
    ultimately show ?thesis
      using True st e core by (simp add: binance_ok_def not_forgotten_def binance_core_def linked_def)
  next
    case False
    with st have nl: "be_state e \<noteq> LIVE" by simp
    obtain k where eq: "on_snapshot c now a s lns wns = attempt_resync (bump_stat k (c\<lparr>bc_engine := e\<rparr>)) now (a + 1)"
      using l False st by (cases "status res") (auto simp: on_snapshot_def Let_def)
    have "on_its_way (on_snapshot c now a s lns wns)"
      unfolding eq using core [of k] by (intro attempt_way) (simp add: binance_core_def)
    moreover have "binance_ok good row_ok (on_snapshot c now a s lns wns)"
      unfolding eq using core [of k] nl by (intro attempt_ok) simp_all
    ultimately show ?thesis by (auto simp: on_its_way_def split: option.splits)
  qed
qed

lemma on_response_ok:
  assumes "binance_ok good row_ok c" and "response_carries sn_ok rsp" and "bc_worker c = W_Getting a k"
    and "on_response c now a k rsp lns wns = Some c'"
  shows "binance_ok good row_ok c'"
proof -
  have nl: "be_state (bc_engine c) \<noteq> LIVE" using assms(1,3) by (simp add: binance_ok_def)
  have set_worker: "binance_ok good row_ok (d\<lparr>bc_worker := w\<rparr>)"
    if "d = c \<or> (\<exists>n. d = bump_stat n c)" "busy w \<or> dead w" for d w
    using assms(1) nl that binance_ok_running [OF assms(1)] assms(3)
    by (auto simp: binance_ok_def not_forgotten_def)
  from assms(4) show ?thesis
  proof (cases rule: on_response_cases)
    case (died err)
    with set_worker [of c "W_Dead err"] show ?thesis by simp
  next
    case (limited wait)
    with set_worker [of "bump_stat ''rate_limited'' c" "W_Rate_Limited a k (now + wait)"] show ?thesis by auto
  next
    case (loaded raw s)
    with assms(2) have "sn_ok s" by (simp add: response_carries_def)
    with on_snapshot_ok [OF assms(1)] assms(3) loaded show ?thesis by simp
  qed
qed

lemma binance_step_keeps:
  assumes "binance_step c ev c'" and "binance_ok good row_ok c" and "binance_carries ev_ok sn_ok row_ok ev"
  shows "binance_ok good row_ok c'"
  using assms(1)
proof (cases rule: binance_step.cases)
  case (opens ws now)
  with assms(2) good_invalidate show ?thesis
    by (auto simp: binance_ok_def not_forgotten_def on_connected_def invalidate_def)
next
  case (message ws frame lns wns)
  with read_message_ok [OF assms(2)] assms(3) show ?thesis by auto
next
  case (message_raises ws frame lns wns err c1 now)
  have "binance_ok good row_ok c1" using read_message_ok [OF assms(2) _ message_raises(4)] assms(3) message_raises(1) by simp
  with message_raises read_message_frame(1) [OF message_raises(4)] on_disconnected_ok show ?thesis by simp
next
  case (refused why now)
  with on_disconnected_ok [OF assms(2)] show ?thesis by simp
next
  case (lost ws why now)
  with on_disconnected_ok [OF assms(2)] show ?thesis by simp
next
  case (backoff_over delay)
  with assms(2) show ?thesis by (auto simp: binance_ok_def not_forgotten_def begin_attempt_def)
next
  case (cancel)
  with finish_run_ok [OF assms(2)] show ?thesis by simp
next
  case (wakes now)
  let ?c = "c\<lparr>bc_resync_needed := False\<rparr>"
  have core: "binance_core good row_ok (?c\<lparr>bc_buffered := 0\<rparr>)"
    using binance_ok_core [OF assms(2)] binance_ok_running [OF assms(2)] wakes by (simp add: binance_core_def linked_def)
  show ?thesis
  proof (cases "be_state (bc_engine c) = LIVE")
    case True
    with wakes assms(2) show ?thesis by (simp add: worker_wakes_def binance_ok_def not_forgotten_def)
  next
    case False
    with wakes attempt_ok [OF core] show ?thesis by (simp add: worker_wakes_def)
  qed
next
  case (throttle_over a k until now)
  then show ?thesis using assms(2) by (simp add: issue_get_def binance_ok_def not_forgotten_def)
next
  case (get_fails a k now)
  have "be_state (bc_engine c) \<noteq> LIVE" using assms(2) get_fails by (simp add: binance_ok_def)
  with get_fails fetch_ok [of good row_ok "bump_stat ''snapshot_fetch_network_error'' c"] binance_ok_core [OF assms(2)]
    binance_ok_running [OF assms(2)]
  show ?thesis by simp
next
  case (get_returns a k now rsp lns wns)
  with on_response_ok [OF assms(2)] assms(3) show ?thesis by auto
next
  case (rate_limit_over a k until now)
  have "be_state (bc_engine c) \<noteq> LIVE" using assms(2) rate_limit_over by (simp add: binance_ok_def)
  with rate_limit_over fetch_ok [OF binance_ok_core [OF assms(2)]] binance_ok_running [OF assms(2)]
  show ?thesis by simp
next
  case close_returns
  with assms(2) show ?thesis by (simp add: binance_ok_def not_forgotten_def)
next
  case (sink_takes q row q')
  with queue_ok_get [of row_ok q row q'] assms(2) show ?thesis by (simp add: binance_ok_def not_forgotten_def)
next
  case (other_puts q row)
  with queue_ok_put [of row_ok q row] assms(2,3) show ?thesis by (simp add: binance_ok_def not_forgotten_def)
qed

lemma binance_run_keeps:
  assumes "binance_run c evs c'" and "binance_ok good row_ok c" and "list_all (binance_carries ev_ok sn_ok row_ok) evs"
  shows "binance_ok good row_ok c'"
  using assms by (induction rule: binance_run.induct) (auto intro: binance_step_keeps)

lemma binance_taken_ok:
  assumes "binance_run c evs c'" and "binance_ok good row_ok c"
    and "list_all (binance_carries ev_ok sn_ok row_ok) evs" and "Sink_Takes row \<in> set evs"
  shows "row_ok row"
  using assms
proof (induction rule: binance_run.induct)
  case (snoc evs c1 ev c2)
  show ?case
  proof (cases "Sink_Takes row \<in> set evs")
    case True
    with snoc show ?thesis by simp
  next
    case False
    with snoc.prems(3) have ev: "ev = Sink_Takes row" by simp
    have "binance_ok good row_ok c1"
      using binance_run_keeps [OF snoc.hyps(1) snoc.prems(1)] snoc.prems(2) by simp
    then have "queue_ok row_ok (bc_queue c1)" by (simp add: binance_ok_def)
    moreover obtain q q' where "bc_queue c1 = Some q" "get q = Some (row, q')"
      using snoc.hyps(2) unfolding ev by (auto elim: binance_stepE)
    ultimately show ?thesis using queue_ok_get [of row_ok q row q'] by simp
  qed
qed simp

lemma new_binance_ok:
  assumes "good engine" and "queue_ok row_ok queue"
  shows "binance_ok good row_ok (new_binance_client name engine sl hl mf policy r queue now)"
  using assms
  by (simp add: binance_ok_def new_binance_client_def not_forgotten_def default_snapshot_bucket_def new_bucket_def)

end

section \<open>A resync is never forgotten\<close>

abbreviation fresh_binance ::
  "string \<Rightarrow> int \<Rightarrow> int \<Rightarrow> int \<Rightarrow> int \<Rightarrow> backoff_policy \<Rightarrow> rng \<Rightarrow> int \<Rightarrow> seconds \<Rightarrow> binance_client" where
  "fresh_binance name depth sl hl mf policy r maxsize t0 \<equiv>
     new_binance_client name (new_engine depth) sl hl mf policy r (Some (new_row_queue maxsize)) t0"

fun worker_event :: "binance_event \<Rightarrow> bool" where
  "worker_event (Worker_Wakes now) = True"
| "worker_event (Throttle_Over now) = True"
| "worker_event (Get_Fails now) = True"
| "worker_event (Get_Returns rsp lns wns now) = True"
| "worker_event (Rate_Limit_Over now) = True"
| "worker_event Close_Returns = True"
| "worker_event _ = False"

lemma fresh_untrusted:
  assumes "binance_run (fresh_binance name depth sl hl mf policy r maxsize t0) evs c"
  shows "binance_ok engine_wf (\<lambda>_. True) c"
proof (rule untrusted.binance_run_keeps [OF assms])
  show "binance_ok engine_wf (\<lambda>_. True) (fresh_binance name depth sl hl mf policy r maxsize t0)"
    by (rule untrusted.new_binance_ok [OF new_engine_wf fresh_queue])
  have "binance_carries (\<lambda>_. True) (\<lambda>_. True) (\<lambda>_. True) ev" for ev
    by (cases ev) (auto simp: frame_carries_def response_carries_def option.pred_True split: sum.splits option.splits)
  then show "list_all (binance_carries (\<lambda>_. True) (\<lambda>_. True) (\<lambda>_. True)) evs"
    by (simp add: list_all_iff)
qed

lemma worker_can_move:
  assumes "\<not> dead (bc_worker c)" and "bc_worker c \<noteq> W_Cancelled" and "bc_resync_needed c \<or> busy (bc_worker c)"
  shows "\<exists>ev c'. worker_event ev \<and> binance_step c ev c'"
proof (cases "bc_worker c")
  case W_Waiting
  with assms(3) wakes [of c 0] show ?thesis by (intro exI [of _ "Worker_Wakes 0"]) auto
next
  case (W_Throttled a k until)
  from throttle_over [OF this order_refl] show ?thesis by (intro exI [of _ "Throttle_Over until"]) auto
next
  case (W_Getting a k)
  from get_fails [OF this, of 0] show ?thesis by (intro exI [of _ "Get_Fails 0"]) auto
next
  case (W_Rate_Limited a k until)
  from rate_limit_over [OF this order_refl] show ?thesis by (intro exI [of _ "Rate_Limit_Over until"]) auto
next
  case W_Closing
  from close_returns [OF this] show ?thesis by (intro exI [of _ Close_Returns]) auto
qed (use assms in auto)

text \<open>
  C12: a resync is never forgotten. Whatever is received, while a connection is being read and the
  engine is not live, the resync worker can take a step of its own, or it has closed that connection,
  or it is dead.
\<close>

theorem binance_resync_not_forgotten:
  assumes "binance_run (fresh_binance name depth sl hl mf policy r maxsize t0) evs c"
    and "bc_phase c = Reading ws" and "be_state (bc_engine c) \<noteq> LIVE"
  shows "(\<exists>ev c'. worker_event ev \<and> binance_step c ev c') \<or>
    (bc_current_ws c = Some ws \<and> ws \<in> set (bc_closed c)) \<or> (\<exists>err. bc_worker c = W_Dead err)"
proof -
  note ok = fresh_untrusted [OF assms(1)]
  show ?thesis
  proof (cases "dead (bc_worker c)")
    case True
    then show ?thesis by (cases "bc_worker c") auto
  next
    case False
    moreover have "bc_worker c \<noteq> W_Cancelled" using ok assms(2) by (simp add: binance_ok_def)
    moreover have "bc_current_ws c = Some ws" "bc_resync_needed c \<or> busy (bc_worker c) \<or> ws \<in> set (bc_closed c)"
      using ok assms(2,3) False by (auto simp: binance_ok_def not_forgotten_def)
    ultimately show ?thesis using worker_can_move [of c] by blast
  qed
qed

section \<open>The death of the worker\<close>

lemma worker_dies_only:
  assumes "binance_step c ev c'" and "binance_ok engine_wf (\<lambda>_. True) c" and "bc_worker c' = W_Dead err"
    and "bc_worker c \<noteq> W_Dead err"
  shows "\<exists>rsp lns wns now. ev = Get_Returns rsp lns wns now \<and> response_kills rsp = Some err"
  using assms(1)
proof (cases rule: binance_step.cases)
  case (get_returns a k now rsp lns wns)
  from get_returns(3) show ?thesis
  proof (cases rule: on_response_cases)
    case (died e)
    with get_returns(1) assms(3) show ?thesis by auto
  next
    case (loaded raw s)
    with untrusted.on_snapshot_ok [OF assms(2), where s = s and now = now and a = a and lns = lns and wns = wns]
      get_returns(2) assms(3) show ?thesis by simp
  qed (use assms(3) in auto)
next
  case (wakes now)
  have "on_its_way (attempt_resync (c\<lparr>bc_resync_needed := False, bc_buffered := 0\<rparr>) now 0)"
    using assms(2) by (intro attempt_way) (simp add: binance_ok_def)
  with wakes assms(3) show ?thesis
    by (auto simp: worker_wakes_def on_its_way_def Let_def split: if_splits option.splits)
next
  case (get_fails a k now)
  have "on_its_way (fetch (bump_stat ''snapshot_fetch_network_error'' c) now a (k + 1))"
    using assms(2) by (intro fetch_way) (simp add: binance_ok_def)
  with get_fails assms(3) show ?thesis by (auto simp: on_its_way_def split: option.splits)
next
  case (rate_limit_over a k until now)
  have "on_its_way (fetch c now a (k + 1))"
    using assms(2) by (intro fetch_way) (simp add: binance_ok_def)
  with rate_limit_over assms(3) show ?thesis by (auto simp: on_its_way_def split: option.splits)
next
  case (message ws frame lns wns)
  with read_message_frame(2) [OF message(3)] assms(3,4) show ?thesis by simp
next
  case (message_raises ws frame lns wns e c1 now)
  with read_message_frame(2) [OF message_raises(4)] on_disconnected_worker [of c1 "cause_of e" now] assms(3,4)
  show ?thesis by (simp split: if_splits)
next
  case (refused why now)
  with on_disconnected_worker [of c why now] assms(3,4) show ?thesis by (simp split: if_splits)
next
  case (lost ws why now)
  with on_disconnected_worker [of c why now] assms(3,4) show ?thesis by (simp split: if_splits)
next
  case cancel
  with finish_run_worker [of c CancelledError] assms(3,4) show ?thesis by (simp split: if_splits)
qed (use assms(3,4) in \<open>auto simp: on_connected_def begin_attempt_def issue_get_def\<close>)

text \<open>
  What kills the resync worker. In every reachable state, the worker dies only of a response:
  an error status that is not a rate limit, a \<open>Retry-After\<close> that is not a number, or a body that
  is not a depth snapshot. Network failures, stale snapshots, gaps in the replay, a full queue and
  the engine's own errors never do, and neither does any message or disconnect.
\<close>

theorem binance_worker_dies_only_of_response:
  assumes "binance_run (fresh_binance name depth sl hl mf policy r maxsize t0) evs c"
    and "binance_step c ev c'" and "bc_worker c' = W_Dead err" and "bc_worker c \<noteq> W_Dead err"
  shows "\<exists>rsp lns wns now. ev = Get_Returns rsp lns wns now \<and> response_kills rsp = Some err"
  by (rule worker_dies_only [OF assms(2) fresh_untrusted [OF assms(1)] assms(3,4)])

lemma read_message_down:
  assumes "read_message c frame lns wns = (out, c')" and "be_state (bc_engine c) \<noteq> LIVE"
  shows "be_state (bc_engine c') \<noteq> LIVE"
  using assms(1)
proof (cases rule: read_message_cases)
  case (parsed data raw diff ems)
  from apply_diff_frame(1) [OF parsed(3) [symmetric]] assms(2) show ?thesis by (simp add: apply_event_live)
qed (use assms(2) in simp)

text \<open>Once dead, the worker stays dead, and the engine stays down: nothing else loads a snapshot.\<close>

lemma dead_worker_stays:
  assumes "binance_step c ev c'" and "bc_worker c = W_Dead err" and "be_state (bc_engine c) \<noteq> LIVE"
  shows "bc_worker c' = W_Dead err \<and> be_state (bc_engine c') \<noteq> LIVE \<and> \<not> worker_event ev \<and>
    (bc_phase c' = Run_Over e \<longrightarrow> bc_phase c = Run_Over e \<or> e = err)"
proof -
  have disc: "bc_worker (on_disconnected d why now) = W_Dead err \<and>
      (bc_phase (on_disconnected d why now) = Run_Over e \<longrightarrow> e = err)" if "bc_worker d = W_Dead err" for d why now
    using that by (auto simp: on_disconnected_def finish_run_def Let_def split: prod.splits phase.splits)
  show ?thesis
    using assms(1)
  proof (cases rule: binance_step.cases)
    case (message ws frame lns wns)
    have "be_state (bc_engine c') \<noteq> LIVE" using read_message_down [OF message(3) assms(3)] .
    with message read_message_frame [OF message(3)] assms(2) show ?thesis by simp
  next
    case (message_raises ws frame lns wns e1 c1 now)
    have "be_state (bc_engine c1) \<noteq> LIVE" using read_message_down [OF message_raises(4) assms(3)] .
    with message_raises read_message_frame [OF message_raises(4)] assms(2) disc [of c1] show ?thesis by simp
  next
    case (refused why now)
    with disc [OF assms(2)] assms show ?thesis by simp
  next
    case (lost ws why now)
    with disc [OF assms(2)] assms show ?thesis by simp
  qed (use assms(2,3) in \<open>auto simp: on_connected_def begin_attempt_def invalidate_def finish_run_def split: if_splits\<close>)
qed

lemma dead_run:
  assumes "binance_run c evs c'" and "bc_worker c = W_Dead err" and "be_state (bc_engine c) \<noteq> LIVE"
  shows "bc_worker c' = W_Dead err \<and> be_state (bc_engine c') \<noteq> LIVE \<and> \<not> list_ex worker_event evs \<and>
    (running (bc_phase c) \<longrightarrow> bc_phase c' = Run_Over e \<longrightarrow> e = err)"
  using assms
proof (induction arbitrary: e rule: binance_run.induct)
  case (snoc evs c1 ev c2)
  have ih: "bc_worker c1 = W_Dead err" "be_state (bc_engine c1) \<noteq> LIVE" "\<not> list_ex worker_event evs"
    using snoc.IH [OF snoc.prems] by blast+
  note st = dead_worker_stays [OF snoc.hyps(2) ih(1,2)]
  show ?case using ih(3) st [of e] snoc.IH [OF snoc.prems, of e] by auto
qed auto

lemma binance_run_split:
  assumes "binance_run c (evs @ evs') c2"
  obtains c1 where "binance_run c evs c1" "binance_run c1 evs' c2"
  using assms
proof (induction evs' arbitrary: c2 thesis rule: rev_induct)
  case Nil
  then show ?case by (auto intro: binance_run.start)
next
  case (snoc ev evs')
  from snoc.prems(2) obtain c3 where "binance_run c (evs @ evs') c3" "binance_step c3 ev c2"
    by (cases rule: binance_run.cases) auto
  with snoc.IH snoc.prems(1) show ?case by (metis binance_run.snoc)
qed

lemma binance_run_single: "binance_run c [ev] c' \<Longrightarrow> binance_step c ev c'"
  by (erule binance_run.cases) (auto elim: binance_run.cases)

text \<open>
  C13: one bad response ends the book for good. After a response that kills the worker, for example
  any HTTP status that \<open>raise_for_status\<close> rejects, the engine is never live again while \<open>run\<close>
  goes on: no further snapshot is requested, although messages are read and buffered and
  reconnects happen, and nothing is raised until \<open>run\<close> itself ends, which then raises that error.
\<close>

theorem binance_dead_worker_never_live:
  assumes "binance_run (fresh_binance name depth sl hl mf policy r maxsize t0)
      (evs @ Get_Returns rsp lns wns now # evs') c"
    and "response_kills rsp = Some err"
  shows "be_state (bc_engine c) \<noteq> LIVE \<and> bc_worker c = W_Dead err \<and> \<not> list_ex worker_event evs' \<and>
    (\<forall>e. bc_phase c = Run_Over e \<longrightarrow> e = err)"
proof -
  obtain c1 where c1: "binance_run (fresh_binance name depth sl hl mf policy r maxsize t0) evs c1"
    "binance_run c1 ([Get_Returns rsp lns wns now] @ evs') c"
    using assms(1) by (auto elim: binance_run_split)
  obtain c2 where c2: "binance_run c1 [Get_Returns rsp lns wns now] c2" "binance_run c2 evs' c"
    using binance_run_split [OF c1(2)] .
  have st: "binance_step c1 (Get_Returns rsp lns wns now) c2"
    using c2(1) by (rule binance_run_single)
  note ok = fresh_untrusted [OF c1(1)]
  from st obtain a k where g: "bc_worker c1 = W_Getting a k" "on_response c1 now a k rsp lns wns = Some c2"
    by (cases rule: binance_step.cases) auto
  from g(2) assms(2) have c2': "c2 = c1\<lparr>bc_worker := W_Dead err\<rparr>"
    by (cases rule: on_response_cases) auto
  have nl: "be_state (bc_engine c1) \<noteq> LIVE" "running (bc_phase c1)"
    using ok g(1) binance_ok_running [OF ok] by (auto simp: binance_ok_def)
  from dead_run [OF c2(2), of err] c2' nl show ?thesis by simp
qed

section \<open>The rate of requests\<close>

fun event_clock :: "binance_event \<Rightarrow> seconds option" where
  "event_clock (Worker_Wakes now) = Some now"
| "event_clock (Throttle_Over now) = Some now"
| "event_clock (Get_Fails now) = Some now"
| "event_clock (Get_Returns rsp lns wns now) = Some now"
| "event_clock (Rate_Limit_Over now) = Some now"
| "event_clock _ = None"

definition clocks :: "binance_event list \<Rightarrow> seconds list" where
  "clocks evs = List.map_filter event_clock evs"

fun get_ends :: "binance_event \<Rightarrow> bool" where
  "get_ends (Get_Fails now) = True"
| "get_ends (Get_Returns rsp lns wns now) = True"
| "get_ends _ = False"

fun getting :: "worker \<Rightarrow> nat" where
  "getting (W_Getting a k) = 1"
| "getting _ = 0"

text \<open>The requests sent in a run: those that have ended and the one under way.\<close>

definition requests :: "binance_event list \<Rightarrow> binance_client \<Rightarrow> nat" where
  "requests evs c = length (filter get_ends evs) + getting (bc_worker c)"

abbreviation requested :: "seconds \<Rightarrow> nat \<Rightarrow> token_bucket \<Rightarrow> bool" where
  "requested t0 n b \<equiv> spent 10 (1 / 2) t0 (of_nat n) b"

definition throttle_ok :: "binance_client \<Rightarrow> bool" where
  "throttle_ok c \<longleftrightarrow>
     (\<forall>a k until. bc_worker c = W_Throttled a k until \<longrightarrow>
        1 \<le> tb_tokens (bc_bucket c) + (until - tb_last_refill (bc_bucket c)) * (1 / 2))"

lemma give_up_not_getting [simp]:
  "getting (bc_worker (give_up c)) = 0" "throttle_ok (give_up c)"
  by (simp_all add: give_up_worker throttle_ok_def)

lemma fetch_spent:
  assumes "requested t0 x (bc_bucket c)" and "tb_last_refill (bc_bucket c) \<le> now"
  shows "requested t0 (x + getting (bc_worker (fetch c now a k))) (bc_bucket (fetch c now a k)) \<and>
    throttle_ok (fetch c now a k) \<and> tb_last_refill (bc_bucket (fetch c now a k)) \<le> now"
proof (cases "bc_http_retry_limit c \<le> int k")
  case True
  with assms show ?thesis by (simp add: fetch_def)
next
  case False
  let ?b = "refill (bc_bucket c) now"
  have b: "requested t0 x ?b" using refill_spent [OF assms] .
  have last: "tb_last_refill ?b = now" by simp
  show ?thesis
  proof (cases "1 \<le> tb_tokens ?b")
    case True
    with False have f: "fetch c now a k = issue_get (c\<lparr>bc_bucket := ?b\<rparr>) now a k"
      by (simp add: fetch_def time_until_available_def Let_def)
    from acquire_spent [OF b, of now 1] True show ?thesis
      unfolding f by (simp add: issue_get_def throttle_ok_def add.commute)
  next
    case less: False
    have rate: "tb_refill_rate (bc_bucket c) = 1 / 2" using assms(1) by (simp add: spent_def)
    let ?wait = "(1 - tb_tokens ?b) / (1 / 2)"
    from less False have f: "fetch c now a k = c\<lparr>bc_bucket := ?b, bc_worker := W_Throttled a k (now + ?wait)\<rparr>"
      by (simp add: fetch_def time_until_available_def Let_def rate)
    from b show ?thesis unfolding f by (simp add: throttle_ok_def field_simps)
  qed
qed

lemma attempt_spent:
  assumes "requested t0 x (bc_bucket c)" and "tb_last_refill (bc_bucket c) \<le> now"
  shows "requested t0 (x + getting (bc_worker (attempt_resync c now a))) (bc_bucket (attempt_resync c now a)) \<and>
    throttle_ok (attempt_resync c now a) \<and> tb_last_refill (bc_bucket (attempt_resync c now a)) \<le> now"
  using fetch_spent [OF assms] assms by (simp add: attempt_resync_def)

lemma on_snapshot_cases:
  obtains
    (raised) err where "on_snapshot c now a s lns wns = c\<lparr>bc_worker := W_Dead err\<rparr>"
  | (applied) e o2 c2 w where "offer (bump_stat ''resync_completed'' (c\<lparr>bc_engine := e\<rparr>)) lns wns None = (o2, c2)"
      "on_snapshot c now a s lns wns = c2\<lparr>bc_worker := w\<rparr>" "dead w \<or> w = W_Waiting"
  | (again) e n where "on_snapshot c now a s lns wns = attempt_resync (bump_stat n (c\<lparr>bc_engine := e\<rparr>)) now (a + 1)"
proof (cases "load_snapshot (bc_engine c) s")
  case (Inl err)
  then show thesis by (intro raised [of err]) (simp add: on_snapshot_def)
next
  case (Inr r)
  obtain res e where r: "load_snapshot (bc_engine c) s = Inr (res, e)" using Inr by (cases r) auto
  obtain o2 c2 where o: "offer (bump_stat ''resync_completed'' (c\<lparr>bc_engine := e\<rparr>)) lns wns None = (o2, c2)" by fastforce
  show thesis
  proof (cases "status res = APPLIED")
    case True
    with r o have "on_snapshot c now a s lns wns =
        c2\<lparr>bc_worker := (case o2 of Raises err \<Rightarrow> W_Dead err | _ \<Rightarrow> W_Waiting)\<rparr>"
      by (cases o2) (simp_all add: on_snapshot_def Let_def)
    with o show thesis by (rule applied) (simp split: outcome.split)
  next
    case False
    with r that(3) show thesis by (cases "status res") (auto simp: on_snapshot_def Let_def)
  qed
qed

lemma offer_keeps:
  "offer (bump_stat n (c\<lparr>bc_engine := e\<rparr>)) lns wns ems = (o2, c2) \<Longrightarrow>
     bc_connection c2 = bc_connection c \<and> bc_phase c2 = bc_phase c \<and> bc_max_failures c2 = bc_max_failures c \<and>
     bc_bucket c2 = bc_bucket c"
  using offer_frame [of "bump_stat n (c\<lparr>bc_engine := e\<rparr>)" lns wns ems] by simp

lemma on_snapshot_spent:
  assumes "requested t0 x (bc_bucket c)" and "tb_last_refill (bc_bucket c) \<le> now"
  shows "requested t0 (x + getting (bc_worker (on_snapshot c now a s lns wns))) (bc_bucket (on_snapshot c now a s lns wns)) \<and>
    throttle_ok (on_snapshot c now a s lns wns) \<and> tb_last_refill (bc_bucket (on_snapshot c now a s lns wns)) \<le> now"
proof (cases rule: on_snapshot_cases [where c = c and now = now and a = a and s = s and lns = lns and wns = wns])
  case (raised err)
  with assms show ?thesis by (simp add: throttle_ok_def)
next
  case (applied e o2 c2 w)
  with offer_keeps [OF applied(1)] assms show ?thesis by (auto simp: throttle_ok_def) (cases w; simp)+
next
  case (again e n)
  with attempt_spent [of t0 x "bump_stat n (c\<lparr>bc_engine := e\<rparr>)" now "a + 1"] assms show ?thesis by simp
qed

lemma clocks_snoc: "clocks (evs @ [ev]) = clocks evs @ (case event_clock ev of None \<Rightarrow> [] | Some t \<Rightarrow> [t])"
  by (simp add: clocks_def map_filter_def split: option.split)

definition metered_ok :: "seconds \<Rightarrow> nat \<Rightarrow> seconds \<Rightarrow> binance_client \<Rightarrow> bool" where
  "metered_ok t0 n t c \<longleftrightarrow>
     requested t0 (n + getting (bc_worker c)) (bc_bucket c) \<and> throttle_ok c \<and> tb_last_refill (bc_bucket c) \<le> t"

lemma metered_mono: "metered_ok t0 n t c \<Longrightarrow> t \<le> t' \<Longrightarrow> metered_ok t0 n t' c"
  by (simp add: metered_ok_def)

lemma metered_frame:
  assumes "metered_ok t0 n t c" and "bc_bucket c' = bc_bucket c"
    and "bc_worker c' = bc_worker c \<or> bc_worker c' = W_Cancelled"
  shows "metered_ok t0 n t c'"
  using assms(3)
proof
  assume "bc_worker c' = bc_worker c"
  with assms(1,2) show ?thesis unfolding metered_ok_def throttle_ok_def by simp
next
  assume "bc_worker c' = W_Cancelled"
  with assms(1,2) spent_mono [of 10 "1 / 2" t0 "of_nat (n + getting (bc_worker c))" "bc_bucket c" "of_nat n"] show ?thesis
    unfolding metered_ok_def throttle_ok_def by simp
qed

lemma quiet_metered:
  assumes "binance_step c ev c'" and "metered_ok t0 n t c" and "event_clock ev = None"
  shows "metered_ok t0 n t c'"
  using assms(1)
proof (cases rule: binance_step.cases)
  case (message ws frame lns wns)
  with read_message_frame [OF message(3)] show ?thesis by (intro metered_frame [OF assms(2)]) simp_all
next
  case (message_raises ws frame lns wns err c1 now)
  with read_message_frame [OF message_raises(4)] on_disconnected_worker [of c1 "cause_of err" now] show ?thesis
    by (intro metered_frame [OF assms(2)]) simp_all
next
  case (refused why now)
  with on_disconnected_worker [of c why now] show ?thesis by (intro metered_frame [OF assms(2)]) simp_all
next
  case (lost ws why now)
  with on_disconnected_worker [of c why now] show ?thesis by (intro metered_frame [OF assms(2)]) simp_all
next
  case cancel
  with finish_run_worker [of c CancelledError] show ?thesis by (intro metered_frame [OF assms(2)]) simp_all
next
  case (opens ws now)
  then show ?thesis by (intro metered_frame [OF assms(2)]) (simp_all add: on_connected_def)
next
  case (backoff_over delay)
  then show ?thesis by (intro metered_frame [OF assms(2)]) (simp_all add: begin_attempt_def)
next
  case close_returns
  then show ?thesis using assms(2) by (simp add: metered_ok_def throttle_ok_def)
next
  case (sink_takes q row q')
  then show ?thesis by (intro metered_frame [OF assms(2)]) simp_all
next
  case (other_puts q row)
  then show ?thesis by (intro metered_frame [OF assms(2)]) simp_all
qed (use assms(3) in simp_all)

lemma timed_metered:
  assumes "binance_step c ev c'" and "metered_ok t0 n t c" and "event_clock ev = Some now" and "t \<le> now"
  shows "metered_ok t0 (n + (if get_ends ev then 1 else 0)) now c'"
proof -
  have m: "requested t0 (n + getting (bc_worker c)) (bc_bucket c)" "throttle_ok c" "tb_last_refill (bc_bucket c) \<le> now"
    using assms(2,4) by (auto simp: metered_ok_def)
  have low: "requested t0 n (bc_bucket c)" by (rule spent_mono [OF m(1)]) simp
  from assms(1) show ?thesis
  proof (cases rule: binance_step.cases)
    case (wakes now')
    let ?c = "c\<lparr>bc_resync_needed := False, bc_buffered := 0\<rparr>"
    have now: "now' = now" using wakes(1) assms(3) by simp
    show ?thesis
    proof (cases "be_state (bc_engine c) = LIVE")
      case True
      with wakes m show ?thesis by (simp add: worker_wakes_def metered_ok_def throttle_ok_def)
    next
      case False
      with wakes now have "c' = attempt_resync ?c now 0" by (simp add: worker_wakes_def)
      with wakes(1) attempt_spent [of t0 n ?c now 0] low m(3) show ?thesis by (simp add: metered_ok_def)
    qed
  next
    case (throttle_over a k until now')
    have now: "now' = now" using throttle_over(1) assms(3) by simp
    have "1 \<le> tb_tokens (bc_bucket c) + (until - tb_last_refill (bc_bucket c)) * (1 / 2)"
      using m(2) throttle_over(3) by (simp add: throttle_ok_def)
    moreover have "(until - tb_last_refill (bc_bucket c)) * (1 / 2) \<le> (now - tb_last_refill (bc_bucket c)) * (1 / 2)"
      using throttle_over(4) now by simp
    ultimately have "1 \<le> tb_tokens (bc_bucket c) + (now - tb_last_refill (bc_bucket c)) * (1 / 2)" by linarith
    from acquire_spent [OF low m(3) _ _ this] throttle_over now show ?thesis
      by (simp add: metered_ok_def issue_get_def throttle_ok_def add.commute)
  next
    case (get_fails a k now')
    with m fetch_spent [of t0 "n + 1" "bump_stat ''snapshot_fetch_network_error'' c" now a "k + 1"] assms(3)
    show ?thesis by (simp add: metered_ok_def)
  next
    case (get_returns a k now' rsp lns wns)
    have now: "now' = now" using get_returns(1) assms(3) by simp
    have x: "requested t0 (n + 1) (bc_bucket c)" using m(1) get_returns(2) by simp
    from get_returns(3) show ?thesis
    proof (cases rule: on_response_cases)
      case (loaded raw s)
      with on_snapshot_spent [OF x m(3)] get_returns(1) now show ?thesis by (simp add: metered_ok_def)
    qed (use get_returns x m now in \<open>auto simp: metered_ok_def throttle_ok_def\<close>)
  next
    case (rate_limit_over a k until now')
    with low m fetch_spent [of t0 n c now a "k + 1"] assms(3) show ?thesis by (simp add: metered_ok_def)
  qed (use assms(3) in simp_all)
qed

lemma run_metered:
  assumes "binance_run c evs c'" and "metered_ok t0 0 t0 c" and "sorted (t0 # clocks evs)"
  shows "metered_ok t0 (length (filter get_ends evs)) (last (t0 # clocks evs)) c'"
  using assms
proof (induction rule: binance_run.induct)
  case (snoc evs c1 ev c2)
  show ?case
  proof (cases "event_clock ev")
    case None
    then have "\<not> get_ends ev" by (cases ev) auto
    with None snoc quiet_metered [OF snoc.hyps(2) _ None] show ?thesis by (simp add: clocks_snoc)
  next
    case (Some now)
    with snoc.prems(2) have srt: "sorted (t0 # clocks evs)" "\<forall>t \<in> set (t0 # clocks evs). t \<le> now"
      by (auto simp: clocks_snoc sorted_append)
    then have "last (t0 # clocks evs) \<le> now" using last_in_set [of "t0 # clocks evs"] by blast
    from timed_metered [OF snoc.hyps(2) snoc.IH [OF snoc.prems(1) srt(1)] Some this] Some
    show ?thesis by (simp add: clocks_snoc split: if_splits)
  qed
qed (simp add: clocks_def map_filter_def)

text \<open>
  C14: the request budget. In every run whose clock does not go back, the depth requests sent since
  the start are at most ten plus one for every two seconds passed, across all resyncs, retries,
  network failures and reconnects: a request is only sent for a token, although the result of
  \<open>try_acquire\<close> is not looked at.
\<close>

theorem binance_request_rate:
  assumes "binance_run (fresh_binance name depth sl hl mf policy r maxsize t0) evs c"
    and "sorted (t0 # clocks evs)"
  shows "of_nat (requests evs c) \<le> 10 + (last (t0 # clocks evs) - t0) / 2"
proof -
  have "metered_ok t0 0 t0 (fresh_binance name depth sl hl mf policy r maxsize t0)"
    by (simp add: metered_ok_def throttle_ok_def new_binance_client_def default_snapshot_bucket_def new_bucket_spent)
      (simp add: new_bucket_def)
  from run_metered [OF assms(1) this assms(2)]
  have "requested t0 (requests evs c) (bc_bucket c)" "tb_last_refill (bc_bucket c) \<le> last (t0 # clocks evs)"
    by (simp_all add: metered_ok_def requests_def)
  from spent_bound [OF this] show ?thesis by simp
qed

section \<open>Escalation\<close>

text \<open>Connections in a row that ended without a message since the last one that had a message.\<close>

fun silence_step :: "nat \<Rightarrow> binance_event \<Rightarrow> nat" where
  "silence_step n (Message frame lns wns) = 0"
| "silence_step n (Fatal_Message frame lns wns now) = 1"
| "silence_step n (Disconnect why now) = n + 1"
| "silence_step n _ = n"

definition silence :: "binance_event list \<Rightarrow> nat" where
  "silence evs = foldl silence_step 0 evs"

fun ends_connection :: "binance_event \<Rightarrow> bool" where
  "ends_connection (Disconnect why now) = True"
| "ends_connection (Fatal_Message frame lns wns now) = True"
| "ends_connection _ = False"

text \<open>The manager agrees with the phase, and it has counted \<open>n\<close> attempts.\<close>

definition counted :: "nat \<Rightarrow> binance_client \<Rightarrow> bool" where
  "counted n c \<longleftrightarrow>
     cm_attempt (bc_connection c) = n \<and>
     (running (bc_phase c) \<longrightarrow> n = 0 \<or> int n < bc_max_failures c) \<and>
     (bc_phase c = Opening \<longrightarrow> \<not> cm_message_seen (bc_connection c)) \<and>
     (\<forall>ws. bc_phase c = Reading ws \<longrightarrow> cm_state (bc_connection c) = CONNECTED \<and>
        (cm_message_seen (bc_connection c) \<longrightarrow> n = 0))"

lemma on_disconnected_running:
  assumes "cm_attempt (bc_connection c) < 1024"
  shows "running (bc_phase (on_disconnected c why now)) \<longleftrightarrow>
      int (cm_attempt (bc_connection c) + 1) < bc_max_failures c"
    and "running (bc_phase (on_disconnected c why now)) \<Longrightarrow>
      \<exists>delay. bc_phase (on_disconnected c why now) = Backing_Off delay"
proof -
  obtain delay cm where d: "disconnected (bc_connection c) now = (Inr delay, cm)"
    using disconnected_delay [OF assms] by blast
  then have "cm_attempt cm = cm_attempt (bc_connection c) + 1"
    using disconnected_simps(5) [of "bc_connection c" now] assms by simp
  with d show "running (bc_phase (on_disconnected c why now)) \<longleftrightarrow>
      int (cm_attempt (bc_connection c) + 1) < bc_max_failures c"
    and "running (bc_phase (on_disconnected c why now)) \<Longrightarrow>
      \<exists>delay. bc_phase (on_disconnected c why now) = Backing_Off delay"
    by (auto simp: on_disconnected_def next_attempt_def finish_run_def Let_def split: worker.splits if_splits)
qed

lemma on_disconnected_counted:
  assumes "counted n c" and "running (bc_phase c)" and "bc_max_failures c \<le> 1024"
  shows "counted (n + 1) (on_disconnected c why now) \<and>
    (running (bc_phase (on_disconnected c why now)) \<longleftrightarrow> int (n + 1) < bc_max_failures c)"
proof -
  have a: "cm_attempt (bc_connection c) = n" "cm_attempt (bc_connection c) < 1024"
    using assms by (auto simp: counted_def)
  note r = on_disconnected_running [OF a(2), of why now]
  show ?thesis
    using r(1) a on_disconnected_phase [of c why now] r(2)
    by (cases "running (bc_phase (on_disconnected c why now))") (auto simp: counted_def)
qed

lemma message_counted:
  assumes "counted n c" and "bc_phase c = Reading ws" and "read_message c frame lns wns = (out, c')"
  shows "counted 0 c'" and "bc_max_failures c' = bc_max_failures c"
  using assms read_message_frame [OF assms(3)]
  by (auto simp: counted_def message_received_def)

lemma step_counted:
  assumes "binance_step c ev c'" and "counted n c" and "bc_max_failures c \<le> 1024"
  shows "counted (silence_step n ev) c' \<and> bc_max_failures c' = bc_max_failures c \<and>
    (ends_connection ev \<longrightarrow> (running (bc_phase c') \<longleftrightarrow> int (silence_step n ev) < bc_max_failures c))"
  using assms(1)
proof (cases rule: binance_step.cases)
  case (message ws frame lns wns)
  with message_counted [OF assms(2) message(2,3)] show ?thesis by simp
next
  case (message_raises ws frame lns wns err c1 now)
  note m = message_counted [OF assms(2) message_raises(3,4)]
  have "running (bc_phase c1)" using read_message_frame(1) [OF message_raises(4)] message_raises(3) by simp
  with message_raises m on_disconnected_counted [OF m(1)] assms(3) show ?thesis by simp
next
  case (refused why now)
  with on_disconnected_counted [OF assms(2) _ assms(3)] show ?thesis by simp
next
  case (lost ws why now)
  with on_disconnected_counted [OF assms(2) _ assms(3)] show ?thesis by simp
next
  case (get_returns a k now rsp lns wns)
  have "bc_connection c' = bc_connection c \<and> bc_phase c' = bc_phase c \<and> bc_max_failures c' = bc_max_failures c"
    using get_returns(3)
  proof (cases rule: on_response_cases)
    case (loaded raw s)
    from loaded(4) show ?thesis
      by (cases rule: on_snapshot_cases [where c = c and now = now and a = a and s = s and lns = lns and wns = wns]) (auto dest: offer_keeps)
  qed simp_all
  with get_returns assms(2) show ?thesis by (simp add: counted_def)
next
  case cancel
  have "\<not> running (bc_phase (finish_run c CancelledError))" by simp
  then have "bc_phase (finish_run c CancelledError) \<noteq> Opening" "bc_phase (finish_run c CancelledError) \<noteq> Reading ws" for ws
    by (metis running.simps)+
  with cancel assms(2) show ?thesis by (simp add: counted_def)
qed (use assms(2) in \<open>auto simp: counted_def on_connected_def connected_def begin_attempt_def connecting_def
    worker_wakes_def issue_get_def Let_def\<close>)

lemma run_counted:
  assumes "binance_run c evs c'" and "counted 0 c" and "bc_max_failures c \<le> 1024"
  shows "counted (silence evs) c' \<and> bc_max_failures c' = bc_max_failures c"
  using assms
proof (induction rule: binance_run.induct)
  case (snoc evs c1 ev c2)
  with step_counted [OF snoc.hyps(2), of "silence evs"] show ?case by (simp add: silence_def)
qed (simp add: silence_def)

text \<open>
  Escalation after silent reconnects. The attempt counter of a running client is the number of
  connections in a row that ended without a message, and when a connection ends, \<open>run\<close> goes on,
  after a backoff, exactly while that number is below the limit; otherwise it raises, so that the
  supervisor restarts the feed. Isolated disconnects with messages in between never add up.
\<close>

theorem binance_escalates:
  assumes "binance_run (fresh_binance name depth sl hl mf policy r maxsize t0) (evs @ [ev]) c"
    and "mf \<le> 1024" and "ends_connection ev"
  shows "cm_attempt (bc_connection c) = silence (evs @ [ev]) \<and>
    (running (bc_phase c) \<longleftrightarrow> int (silence (evs @ [ev])) < mf)"
proof -
  let ?c0 = "fresh_binance name depth sl hl mf policy r maxsize t0"
  have c0: "counted 0 ?c0" "bc_max_failures ?c0 = mf"
    by (simp_all add: counted_def new_binance_client_def connecting_def new_connection_manager_def)
  obtain c1 where c1: "binance_run ?c0 evs c1" "binance_run c1 [ev] c"
    using binance_run_split [OF assms(1)] .
  from run_counted [OF c1(1) c0(1)] c0(2) assms(2)
  have n: "counted (silence evs) c1" "bc_max_failures c1 = mf" by simp_all
  from step_counted [OF binance_run_single [OF c1(2)] n(1)] n(2) assms(2,3) show ?thesis
    by (simp add: counted_def silence_def)
qed

section \<open>Witnesses\<close>

text \<open>A client that connects, fetches a snapshot and is live.\<close>

definition demo_client :: binance_client where
  "demo_client = fresh_binance ''BTCUSDT'' 20 20 10 2 default_backoff_policy (\<lambda>_. 0) 100 0"

definition demo_body :: json where
  "demo_body = JDict [(''lastUpdateId'', JInt 7), (''bids'', JList [JList [JStr ''100'', JStr ''2'']]), (''asks'', JList [])]"

definition demo_snapshot :: snapshot_event where
  "demo_snapshot = \<lparr>last_update_id = 7, sn_bids = [(100, 2)], sn_asks = []\<rparr>"

definition demo_response :: http_response where
  "demo_response = \<lparr>rsp_status = 200, rsp_retry_after = Inr 1, rsp_error = None, rsp_body = Json_Frame demo_body\<rparr>"

definition error_response :: http_response where
  "error_response = \<lparr>rsp_status = 500, rsp_retry_after = Inr 1, rsp_error = Some HTTPStatusError, rsp_body = Bad_Json\<rparr>"

lemma demo_parsed: "parse_snapshot demo_body = Inr \<lparr>rs_last_update_id = 7, rs_bids = [(Dec 100, Dec 2)], rs_asks = []\<rparr>"
  by code_simp

lemma demo_finite:
  "finite_snapshot \<lparr>rs_last_update_id = 7, rs_bids = [(Dec 100, Dec 2)], rs_asks = []\<rparr> = Some demo_snapshot"
  by (simp add: finite_snapshot_def finite_level_def demo_snapshot_def)

lemma demo_getting:
  obtains c where "binance_run demo_client [Connect_Ok 1 0, Worker_Wakes 0] c" "bc_worker c = W_Getting 0 0"
    "bc_phase c = Reading 1" "be_buffer (bc_engine c) = []" "be_state (bc_engine c) = BUFFERING"
proof -
  let ?c1 = "on_connected demo_client 1 0" and ?c2 = "worker_wakes (on_connected demo_client 1 0) 0"
  have "binance_step demo_client (Connect_Ok 1 0) ?c1"
    by (rule opens) (simp add: demo_client_def new_binance_client_def)
  moreover have "binance_step ?c1 (Worker_Wakes 0) ?c2"
    by (rule wakes) (simp_all add: on_connected_def demo_client_def new_binance_client_def bump_stat_def)
  ultimately have "binance_run demo_client (([] @ [Connect_Ok 1 0]) @ [Worker_Wakes 0]) ?c2"
    by (blast intro: binance_run.snoc binance_run.start)
  moreover have "bc_worker ?c2 = W_Getting 0 0" "bc_phase ?c2 = Reading 1" "be_buffer (bc_engine ?c2) = []"
    "be_state (bc_engine ?c2) = BUFFERING"
    by (simp_all add: worker_wakes_def on_connected_def demo_client_def new_binance_client_def bump_stat_def
        invalidate_def new_engine_def attempt_resync_def fetch_def time_until_available_def refill_def
        default_snapshot_bucket_def new_bucket_def issue_get_def Let_def)
  ultimately show thesis by (intro that [of ?c2]) simp_all
qed

lemma demo_live:
  obtains c where "binance_run demo_client [Connect_Ok 1 0, Worker_Wakes 0, Get_Returns demo_response 5 6 0] c"
    "be_state (bc_engine c) = LIVE" "bc_phase c = Reading 1"
proof -
  obtain c where c: "binance_run demo_client [Connect_Ok 1 0, Worker_Wakes 0] c" "bc_worker c = W_Getting 0 0"
    "bc_phase c = Reading 1" "be_buffer (bc_engine c) = []" "be_state (bc_engine c) = BUFFERING"
    by (rule demo_getting)
  let ?c = "on_snapshot c 0 0 demo_snapshot 5 6"
  have "on_response c 0 0 0 demo_response 5 6 = Some ?c"
    by (simp add: on_response_def demo_response_def demo_parsed demo_finite)
  from binance_run.snoc [OF c(1) get_returns [OF c(2) this]]
  have "binance_run demo_client [Connect_Ok 1 0, Worker_Wakes 0, Get_Returns demo_response 5 6 0] ?c" by simp
  moreover have "be_state (bc_engine ?c) = LIVE \<and> bc_phase ?c = Reading 1"
  proof -
    obtain e where e: "load_snapshot (bc_engine c) demo_snapshot = Inr (\<lparr>status = APPLIED, detail = None\<rparr>, e)" "be_state e = LIVE"
      using c(4,5) by (auto simp: load_snapshot_def survivors_def Let_def)
    obtain o2 c2 where o: "offer (bump_stat ''resync_completed'' (c\<lparr>bc_engine := e\<rparr>)) 5 6 None = (o2, c2)" by fastforce
    then have "bc_engine c2 = e" "bc_phase c2 = Reading 1"
      using offer_frame [of "bump_stat ''resync_completed'' (c\<lparr>bc_engine := e\<rparr>)" 5 6 None] c(3) by simp_all
    with e o show ?thesis by (cases o2) (simp_all add: on_snapshot_def Let_def)
  qed
  ultimately show thesis by (intro that [of ?c]) simp_all
qed

lemma binance_resync_not_forgotten_witness:
  "\<exists>c. binance_run demo_client [Connect_Ok 1 0, Worker_Wakes 0] c \<and> bc_worker c = W_Getting 0 0 \<and>
     ((\<exists>ev c'. worker_event ev \<and> binance_step c ev c') \<or> 1 \<in> set (bc_closed c))"
proof -
  obtain c where c: "binance_run demo_client [Connect_Ok 1 0, Worker_Wakes 0] c" "bc_worker c = W_Getting 0 0"
    "bc_phase c = Reading 1" "be_state (bc_engine c) = BUFFERING" by (rule demo_getting)
  have "be_state (bc_engine c) \<noteq> LIVE" using c(4) by simp
  from binance_resync_not_forgotten [OF c(1) [unfolded demo_client_def] c(3) this] c(1,2) show ?thesis by auto
qed

lemma error_response_kills: "response_kills error_response = Some HTTPStatusError"
  by (simp add: response_kills_def error_response_def)

lemma demo_error:
  assumes "bc_worker c = W_Getting 0 0"
  shows "binance_step c (Get_Returns error_response 5 6 0) (c\<lparr>bc_worker := W_Dead HTTPStatusError\<rparr>)"
  by (rule get_returns [OF assms]) (simp add: on_response_def error_response_def)

lemma binance_worker_dies_only_of_response_witness:
  "\<exists>c c'. binance_run demo_client [Connect_Ok 1 0, Worker_Wakes 0] c \<and>
     binance_step c (Get_Returns error_response 5 6 0) c' \<and> bc_worker c' = W_Dead HTTPStatusError"
proof -
  obtain c where c: "binance_run demo_client [Connect_Ok 1 0, Worker_Wakes 0] c" "bc_worker c = W_Getting 0 0"
    by (rule demo_getting)
  from binance_worker_dies_only_of_response [OF c(1) [unfolded demo_client_def] demo_error [OF c(2)]] c(2)
  have "\<exists>rsp lns wns now. Get_Returns error_response 5 6 0 = Get_Returns rsp lns wns now \<and>
      response_kills rsp = Some HTTPStatusError" by simp
  with c(1) demo_error [OF c(2)] show ?thesis
    by (intro exI [of _ c] exI [of _ "c\<lparr>bc_worker := W_Dead HTTPStatusError\<rparr>"]) simp
qed

lemma binance_dead_worker_never_live_witness:
  "\<exists>c. binance_run demo_client [Connect_Ok 1 0, Worker_Wakes 0, Get_Returns error_response 5 6 0] c \<and>
     be_state (bc_engine c) \<noteq> LIVE \<and> bc_worker c = W_Dead HTTPStatusError"
proof -
  obtain c where c: "binance_run demo_client [Connect_Ok 1 0, Worker_Wakes 0] c" "bc_worker c = W_Getting 0 0"
    by (rule demo_getting)
  let ?c = "c\<lparr>bc_worker := W_Dead HTTPStatusError\<rparr>"
  have run: "binance_run demo_client ([Connect_Ok 1 0, Worker_Wakes 0] @ Get_Returns error_response 5 6 0 # []) ?c"
    using binance_run.snoc [OF c(1) demo_error [OF c(2)]] by simp
  from binance_dead_worker_never_live [OF run [unfolded demo_client_def] error_response_kills] run
  show ?thesis by (intro exI [of _ ?c]) simp
qed

lemma binance_request_rate_witness:
  "\<exists>c. binance_run demo_client [Connect_Ok 1 0, Worker_Wakes 0, Get_Returns demo_response 5 6 0] c \<and>
     rat_of_nat (requests [Connect_Ok 1 0, Worker_Wakes 0, Get_Returns demo_response 5 6 0] c) \<le> 10"
proof -
  obtain c where c: "binance_run demo_client [Connect_Ok 1 0, Worker_Wakes 0, Get_Returns demo_response 5 6 0] c"
    by (rule demo_live)
  from binance_request_rate [OF c [unfolded demo_client_def]] c show ?thesis
    by (auto simp: clocks_def map_filter_def)
qed

lemma binance_escalates_witness:
  "\<exists>c. binance_run demo_client [Disconnect Lost 0] c \<and> running (bc_phase c) \<and> cm_attempt (bc_connection c) = 1"
proof -
  have "binance_step demo_client (Disconnect Lost 0) (on_disconnected demo_client Lost 0)"
    by (rule refused) (simp add: demo_client_def new_binance_client_def)
  from binance_run.snoc [OF binance_run.start this]
  have run: "binance_run demo_client ([] @ [Disconnect Lost 0]) (on_disconnected demo_client Lost 0)" .
  from binance_escalates [OF run [unfolded demo_client_def]] run show ?thesis
    by (intro exI [of _ "on_disconnected demo_client Lost 0"]) (simp add: silence_def demo_client_def)
qed

end
