(* ===== verification/Okx.thy ===== *)
theory Okx
  imports FeedBase
begin

text \<open>
  The client of \<^verbatim>\<open>feeds/okx.py\<close> as an executable machine: \<open>okx_next\<close> is what one of its two
  coroutines, the loop of \<open>run\<close> with its reader and the resync worker, does between two awaits. A
  snapshot comes as a push on the same connection, so the reader loads it, and the worker only asks
  for another by subscribing again. As for Binance, what happens and when is arbitrary, the clock is
  read once per step, and log, histogram and gauge calls and the logging heartbeat are left out.
\<close>

section \<open>State\<close>

text \<open>
  Where \<open>run\<close> waits: not called yet; in the sleep before a connection attempt; on the connector; in
  the first \<open>send\<close>; in \<open>recv\<close>; in the \<open>send\<close> of a ping and in the \<open>recv\<close> after it; in the \<open>close\<close> of
  a connection whose snapshots keep failing; in the exit of the connection with the exception that
  left it; in a backoff sleep; or it has ended by an exception.
\<close>

datatype okx_phase =
    OP_Not_Started
  | OP_Throttled seconds
  | OP_Opening
  | OP_Subscribing nat
  | OP_Reading nat
  | OP_Pinging nat
  | OP_Pinged nat
  | OP_Closing nat
  | OP_Leaving py_exc
  | OP_Backing_Off seconds
  | OP_Over py_exc

datatype okx_worker =
    RW_Waiting
  | RW_Throttled seconds
  | RW_Unsubscribing nat
  | RW_Subscribing nat
  | RW_Dead py_exc
  | RW_Cancelled

datatype okx_message = Ping | Op_Message json

record okx_client =
  oc_symbol :: string
  oc_engine :: book_engine
  oc_snapshot_retry_limit :: int
  oc_max_failures :: int
  oc_connection :: connection_manager
  oc_resubscribe_bucket :: token_bucket
  oc_connection_bucket :: token_bucket
  oc_queue :: "row_queue option"
  oc_resync_needed :: bool
  oc_current_ws :: "nat option"
  oc_snapshot_retry_count :: nat
  oc_stats :: counters
  oc_phase :: okx_phase
  oc_worker :: okx_worker
  oc_sent :: "(nat \<times> okx_message) list" \<comment> \<open>what was given to \<open>send\<close>, latest first\<close>
  oc_closed :: "nat list" \<comment> \<open>the connections \<open>close\<close> was called on\<close>

definition default_resubscribe_bucket :: "seconds \<Rightarrow> token_bucket" where
  "default_resubscribe_bucket = new_bucket 40 (480 / 3600)"

definition default_connection_bucket :: "seconds \<Rightarrow> token_bucket" where
  "default_connection_bucket = new_bucket 3 3"

definition resubscribe_op_cost :: rat where
  "resubscribe_op_cost = 2"

definition okx_snapshot_retry_limit :: int where
  "okx_snapshot_retry_limit = 20"

definition new_okx_client ::
  "string \<Rightarrow> book_engine \<Rightarrow> int \<Rightarrow> int \<Rightarrow> backoff_policy \<Rightarrow> rng \<Rightarrow> token_bucket \<Rightarrow> token_bucket \<Rightarrow>
     row_queue option \<Rightarrow> okx_client" where
  "new_okx_client name engine snapshot_limit max_failures policy r resubscribe connect queue =
     \<lparr>oc_symbol = name, oc_engine = engine, oc_snapshot_retry_limit = snapshot_limit,
      oc_max_failures = max_failures, oc_connection = new_connection_manager policy r,
      oc_resubscribe_bucket = resubscribe, oc_connection_bucket = connect, oc_queue = queue,
      oc_resync_needed = False, oc_current_ws = None, oc_snapshot_retry_count = 0, oc_stats = [],
      oc_phase = OP_Not_Started, oc_worker = RW_Waiting, oc_sent = [], oc_closed = []\<rparr>"

definition okx_get_stats :: "okx_client \<Rightarrow> feed_stats" where
  "okx_get_stats c = feed_stats_of (oc_stats c) (oc_connection c) (oc_engine c)"

definition okx_bump :: "string \<Rightarrow> okx_client \<Rightarrow> okx_client" where
  "okx_bump k c = c\<lparr>oc_stats := bump k (oc_stats c)\<rparr>"

text \<open>The value \<open>_subscribe_message\<close> dumps.\<close>

definition subscribe_message :: "string \<Rightarrow> string \<Rightarrow> json" where
  "subscribe_message op name =
     JDict [(''op'', JStr op), (''args'', JList [JDict [(''channel'', JStr ''books''), (''instId'', JStr name)]])]"

definition send_op :: "okx_client \<Rightarrow> nat \<Rightarrow> string \<Rightarrow> okx_client" where
  "send_op c ws op = c\<lparr>oc_sent := (ws, Op_Message (subscribe_message op (oc_symbol c))) # oc_sent c\<rparr>"

section \<open>The loop of run\<close>

text \<open>The outer \<open>finally\<close>, as in the Binance client.\<close>

definition okx_finish :: "okx_client \<Rightarrow> py_exc \<Rightarrow> okx_client" where
  "okx_finish c err =
     (case oc_worker c of
        RW_Dead e \<Rightarrow> c\<lparr>oc_current_ws := None, oc_phase := OP_Over e\<rparr>
      | _ \<Rightarrow> c\<lparr>oc_current_ws := None, oc_phase := OP_Over err, oc_worker := RW_Cancelled\<rparr>)"

definition open_round :: "okx_client \<Rightarrow> seconds \<Rightarrow> okx_client" where
  "open_round c now =
     c\<lparr>oc_connection_bucket := snd (try_acquire (oc_connection_bucket c) 1 now),
       oc_connection := connecting (oc_connection c), oc_phase := OP_Opening\<rparr>"

definition begin_round :: "okx_client \<Rightarrow> seconds \<Rightarrow> okx_client" where
  "begin_round c now =
     (case time_until_available (oc_connection_bucket c) 1 now of
        (Inl err, b) \<Rightarrow> okx_finish (c\<lparr>oc_connection_bucket := b\<rparr>) err
      | (Inr wait, b) \<Rightarrow>
          (let c1 = c\<lparr>oc_connection_bucket := b\<rparr>
           in if 0 < wait then c1\<lparr>oc_phase := OP_Throttled (now + wait)\<rparr> else open_round c1 now))"

definition on_socket :: "okx_client \<Rightarrow> nat \<Rightarrow> okx_client" where
  "on_socket c ws = (send_op c ws ''subscribe'')\<lparr>oc_current_ws := Some ws, oc_phase := OP_Subscribing ws\<rparr>"

definition on_subscribed :: "okx_client \<Rightarrow> nat \<Rightarrow> seconds \<Rightarrow> okx_client" where
  "on_subscribed c ws now =
     (okx_bump ''ws_reconnected'' (c\<lparr>oc_connection := snd (connected (oc_connection c) now)\<rparr>))
       \<lparr>oc_engine := invalidate (oc_engine c), oc_snapshot_retry_count := 0, oc_phase := OP_Reading ws\<rparr>"

text \<open>The three \<open>except\<close> clauses, by the exception that left the connection.\<close>

definition on_left :: "okx_client \<Rightarrow> py_exc \<Rightarrow> seconds \<Rightarrow> okx_client" where
  "on_left c err now =
     (let c1 = (if err = ServiceNoticeReconnect then c
                else case cause_of err of
                       Watchdog_Trip \<Rightarrow> okx_bump ''watchdog_tripped'' c
                     | Lost \<Rightarrow> okx_bump ''ws_disconnected'' c);
          (ph, cm, stats) = next_attempt (oc_max_failures c1) (oc_connection c1) (oc_stats c1) now;
          c2 = c1\<lparr>oc_connection := cm, oc_stats := stats\<rparr>
      in case ph of
           Run_Over e \<Rightarrow> okx_finish c2 e
         | Backing_Off delay \<Rightarrow> c2\<lparr>oc_phase := OP_Backing_Off delay\<rparr>
         | _ \<Rightarrow> c2)"

section \<open>The reader\<close>

text \<open>A text frame: the pong, which is no JSON, or anything else.\<close>

datatype okx_text = Pong | Text frame

text \<open>\<open>"event" in envelope\<close>, on whatever JSON came.\<close>

fun has_event :: "json \<Rightarrow> bool result" where
  "has_event (JDict d) = Inr (map_of d ''event'' \<noteq> None)"
| "has_event (JList vs) = Inr (JStr ''event'' \<in> set vs)"
| "has_event (JStr s) = Inr (sublist ''event'' s)"
| "has_event _ = Inl TypeError"

definition okx_skip :: "okx_client \<Rightarrow> outcome \<times> okx_client" where
  "okx_skip c = (Continues, okx_bump ''malformed_message'' c)"

definition handle_control_message :: "okx_client \<Rightarrow> json \<Rightarrow> outcome \<times> okx_client" where
  "handle_control_message c envelope =
     (case get_or_none envelope ''event'' of
        Inl err \<Rightarrow> (Raises err, c)
      | Inr event \<Rightarrow>
          if event = JStr ''subscribe'' \<or> event = JStr ''unsubscribe'' then (Continues, c)
          else if event = JStr ''notice'' \<and> get_or_none envelope ''code'' = Inr (JStr ''64008'')
          then (Raises ServiceNoticeReconnect, okx_bump ''okx_service_notice'' c)
          else if event = JStr ''error'' then (Continues, okx_bump ''okx_subscribe_error'' c)
          else okx_skip c)"

definition okx_instrument :: "okx_client \<Rightarrow> instrument_id" where
  "okx_instrument c = \<lparr>exchange = ''okx'', symbol = oc_symbol c\<rparr>"

definition okx_offer :: "okx_client \<Rightarrow> int \<Rightarrow> int \<Rightarrow> int option \<Rightarrow> outcome \<times> okx_client" where
  "okx_offer c lns wns ems =
     (let (out, queue) = offer_row (oc_queue c) (build_snapshot_row (oc_engine c) (okx_instrument c) lns wns ems)
      in (out, c\<lparr>oc_queue := queue\<rparr>))"

definition okx_apply ::
  "okx_client \<Rightarrow> diff_event \<Rightarrow> int \<Rightarrow> int \<Rightarrow> int option \<Rightarrow> outcome \<times> okx_client" where
  "okx_apply c diff lns wns ems =
     (let (res, e) = apply_event (oc_engine c) diff; c1 = c\<lparr>oc_engine := e\<rparr>
      in case status res of
           GAP_DETECTED \<Rightarrow> (Continues, (okx_bump ''gap_detected'' c1)\<lparr>oc_resync_needed := True\<rparr>)
         | APPLIED \<Rightarrow> okx_offer c1 lns wns ems
         | _ \<Rightarrow> (Continues, c1))"

definition handle_update_push :: "okx_client \<Rightarrow> json \<Rightarrow> int \<Rightarrow> int \<Rightarrow> outcome \<times> okx_client" where
  "handle_update_push c data lns wns =
     (case parse_book_update data of
        Inl err \<Rightarrow> if err = ParseError then okx_skip c else (Raises err, c)
      | Inr raw \<Rightarrow>
          (case extract_ts ''ts'' data of
             Inl err \<Rightarrow> (Raises err, c)
           | Inr ems \<Rightarrow>
               (case finite_diff raw of
                  None \<Rightarrow> (Unmodelled, c)
                | Some diff \<Rightarrow> okx_apply c diff lns wns ems)))"

definition okx_give_up :: "okx_client \<Rightarrow> outcome \<times> okx_client" where
  "okx_give_up c =
     (let c1 = okx_bump ''snapshot_retry_limit_exceeded'' c
      in case oc_current_ws c1 of
           None \<Rightarrow> (Continues, c1)
         | Some ws \<Rightarrow> (Continues, c1\<lparr>oc_phase := OP_Closing ws, oc_closed := ws # oc_closed c1\<rparr>))"

definition handle_resync_result ::
  "okx_client \<Rightarrow> apply_result \<Rightarrow> int option \<Rightarrow> int \<Rightarrow> int \<Rightarrow> outcome \<times> okx_client" where
  "handle_resync_result c res ems lns wns =
     (if status res = APPLIED
      then okx_offer (okx_bump ''resync_completed'' (c\<lparr>oc_snapshot_retry_count := 0\<rparr>)) lns wns ems
      else (let c1 = c\<lparr>oc_snapshot_retry_count := oc_snapshot_retry_count c + 1\<rparr>;
                c2 = okx_bump (if status res = GAP_DETECTED then ''gap_detected'' else ''snapshot_stale_retry'') c1
            in if oc_snapshot_retry_limit c2 \<le> int (oc_snapshot_retry_count c2) then okx_give_up c2
               else (Continues, c2\<lparr>oc_resync_needed := True\<rparr>)))"

definition handle_snapshot_push :: "okx_client \<Rightarrow> json \<Rightarrow> int \<Rightarrow> int \<Rightarrow> outcome \<times> okx_client" where
  "handle_snapshot_push c data lns wns =
     (case parse_book_snapshot data of
        Inl err \<Rightarrow> if err = ParseError then okx_skip c else (Raises err, c)
      | Inr raw \<Rightarrow>
          (case extract_ts ''ts'' data of
             Inl err \<Rightarrow> (Raises err, c)
           | Inr ems \<Rightarrow>
               (case finite_snapshot raw of
                  None \<Rightarrow> (Unmodelled, c)
                | Some s \<Rightarrow>
                    (case load_snapshot (oc_engine c) s of
                       Inl err \<Rightarrow> (Raises err, c)
                     | Inr (res, e) \<Rightarrow> handle_resync_result (c\<lparr>oc_engine := e\<rparr>) res ems lns wns))))"

text \<open>\<open>lns\<close> and \<open>wns\<close> are read when the message came, \<open>lns'\<close> and \<open>wns'\<close> when a snapshot is loaded.\<close>

definition handle_channel_push ::
  "okx_client \<Rightarrow> json \<Rightarrow> int \<Rightarrow> int \<Rightarrow> int \<Rightarrow> int \<Rightarrow> outcome \<times> okx_client" where
  "handle_channel_push c envelope lns wns lns' wns' =
     (case unwrap_book_push envelope of
        Inl err \<Rightarrow> if err = ParseError then okx_skip c else (Raises err, c)
      | Inr data \<Rightarrow>
          (case get_or_none envelope ''action'' of
             Inl err \<Rightarrow> (Raises err, c)
           | Inr action \<Rightarrow>
               if action = JStr ''snapshot'' then handle_snapshot_push c data lns' wns'
               else if action = JStr ''update'' then handle_update_push c data lns wns
               else okx_skip c))"

definition okx_read ::
  "okx_client \<Rightarrow> okx_text \<Rightarrow> int \<Rightarrow> int \<Rightarrow> int \<Rightarrow> int \<Rightarrow> outcome \<times> okx_client" where
  "okx_read c txt lns wns lns' wns' =
     (let c1 = okx_bump ''messages_received'' (c\<lparr>oc_connection := message_received (oc_connection c)\<rparr>)
      in case txt of
           Pong \<Rightarrow> (Continues, c1)
         | Text frame \<Rightarrow>
             (case json_loads frame of
                Inl err \<Rightarrow> if err = JSONDecodeError then okx_skip c1 else (Raises err, c1)
              | Inr envelope \<Rightarrow>
                  (case has_event envelope of
                     Inl err \<Rightarrow> (Raises err, c1)
                   | Inr True \<Rightarrow> handle_control_message c1 envelope
                   | Inr False \<Rightarrow> handle_channel_push c1 envelope lns wns lns' wns')))"

section \<open>The resync worker\<close>

definition send_resubscribe :: "okx_client \<Rightarrow> seconds \<Rightarrow> okx_client" where
  "send_resubscribe c now =
     (let c1 = c\<lparr>oc_resubscribe_bucket := snd (try_acquire (oc_resubscribe_bucket c) resubscribe_op_cost now)\<rparr>
      in case oc_current_ws c1 of
           None \<Rightarrow> c1\<lparr>oc_worker := RW_Waiting\<rparr>
         | Some ws \<Rightarrow> (send_op c1 ws ''unsubscribe'')\<lparr>oc_worker := RW_Unsubscribing ws\<rparr>)"

definition request_resubscribe :: "okx_client \<Rightarrow> seconds \<Rightarrow> okx_client" where
  "request_resubscribe c now =
     (case time_until_available (oc_resubscribe_bucket c) resubscribe_op_cost now of
        (Inl err, b) \<Rightarrow> c\<lparr>oc_resubscribe_bucket := b, oc_worker := RW_Dead err\<rparr>
      | (Inr wait, b) \<Rightarrow>
          (let c1 = c\<lparr>oc_resubscribe_bucket := b\<rparr>
           in if 0 < wait then (okx_bump ''resubscribe_throttled'' c1)\<lparr>oc_worker := RW_Throttled (now + wait)\<rparr>
              else send_resubscribe c1 now))"

definition resync_wakes :: "okx_client \<Rightarrow> seconds \<Rightarrow> okx_client" where
  "resync_wakes c now =
     (let c1 = c\<lparr>oc_resync_needed := False\<rparr>
      in if be_state (oc_engine c1) = LIVE then c1 else request_resubscribe c1 now)"

section \<open>Steps\<close>

text \<open>
  What may happen. \<open>Leave_Ends\<close> is the end of the exit of a connection, which may raise another
  exception. The queue is shared: the sink takes rows, other clients put theirs.
\<close>

datatype okx_event =
    Run_Begins seconds
  | Round_Due seconds
  | Socket_Opens nat
  | Subscribed seconds
  | Frame_Comes okx_text int int int int
  | Silence
  | Ping_Sent
  | Socket_Closed
  | Connection_Fails py_exc
  | Leave_Ends "py_exc option" seconds
  | Backoff_Ends seconds
  | Run_Cancelled
  | Resync_Wakes seconds
  | Resubscribe_Due seconds
  | Unsubscribe_Sent
  | Resubscribe_Sent
  | Send_Fails
  | Row_Taken snapshot_row
  | Row_Put snapshot_row

text \<open>The connection \<open>recv\<close> waits on, and whether an exception can leave a phase.\<close>

fun listening :: "okx_phase \<Rightarrow> nat option" where
  "listening (OP_Reading ws) = Some ws"
| "listening (OP_Pinged ws) = Some ws"
| "listening _ = None"

fun may_fail :: "okx_phase \<Rightarrow> py_exc \<Rightarrow> bool" where
  "may_fail OP_Opening err = True"
| "may_fail (OP_Subscribing ws) err = True"
| "may_fail (OP_Reading ws) err = (err \<noteq> TimeoutError)"
| "may_fail (OP_Pinging ws) err = True"
| "may_fail (OP_Pinged ws) err = True"
| "may_fail _ err = False"

fun okx_alive :: "okx_phase \<Rightarrow> bool" where
  "okx_alive OP_Not_Started = False"
| "okx_alive (OP_Over err) = False"
| "okx_alive _ = True"

definition after_read :: "outcome \<times> okx_client \<Rightarrow> okx_client option" where
  "after_read r =
     (case r of
        (Continues, c) \<Rightarrow> Some c
      | (Raises err, c) \<Rightarrow> Some (c\<lparr>oc_phase := OP_Leaving err\<rparr>)
      | (Unmodelled, c) \<Rightarrow> None)"

fun okx_next :: "okx_client \<Rightarrow> okx_event \<Rightarrow> okx_client option" where
  "okx_next c (Run_Begins now) = (if oc_phase c = OP_Not_Started then Some (begin_round c now) else None)"
| "okx_next c (Round_Due now) =
     (case oc_phase c of
        OP_Throttled until \<Rightarrow> if until \<le> now then Some (open_round c now) else None
      | _ \<Rightarrow> None)"
| "okx_next c (Socket_Opens ws) = (if oc_phase c = OP_Opening then Some (on_socket c ws) else None)"
| "okx_next c (Subscribed now) =
     (case oc_phase c of OP_Subscribing ws \<Rightarrow> Some (on_subscribed c ws now) | _ \<Rightarrow> None)"
| "okx_next c (Frame_Comes txt lns wns lns' wns') =
     (case listening (oc_phase c) of
        None \<Rightarrow> None
      | Some ws \<Rightarrow> after_read (okx_read (c\<lparr>oc_phase := OP_Reading ws\<rparr>) txt lns wns lns' wns'))"
| "okx_next c Silence =
     (case oc_phase c of
        OP_Reading ws \<Rightarrow> Some (c\<lparr>oc_sent := (ws, Ping) # oc_sent c, oc_phase := OP_Pinging ws\<rparr>)
      | _ \<Rightarrow> None)"
| "okx_next c Ping_Sent = (case oc_phase c of OP_Pinging ws \<Rightarrow> Some (c\<lparr>oc_phase := OP_Pinged ws\<rparr>) | _ \<Rightarrow> None)"
| "okx_next c Socket_Closed = (case oc_phase c of OP_Closing ws \<Rightarrow> Some (c\<lparr>oc_phase := OP_Reading ws\<rparr>) | _ \<Rightarrow> None)"
| "okx_next c (Connection_Fails err) =
     (if may_fail (oc_phase c) err \<and> err \<noteq> CancelledError then Some (c\<lparr>oc_phase := OP_Leaving err\<rparr>) else None)"
| "okx_next c (Leave_Ends other now) =
     (case oc_phase c of
        OP_Leaving err \<Rightarrow>
          if other \<noteq> Some CancelledError then Some (on_left c (case other of None \<Rightarrow> err | Some e \<Rightarrow> e) now) else None
      | _ \<Rightarrow> None)"
| "okx_next c (Backoff_Ends now) =
     (case oc_phase c of OP_Backing_Off delay \<Rightarrow> Some (begin_round (c\<lparr>oc_current_ws := None\<rparr>) now) | _ \<Rightarrow> None)"
| "okx_next c Run_Cancelled = (if okx_alive (oc_phase c) then Some (okx_finish c CancelledError) else None)"
| "okx_next c (Resync_Wakes now) =
     (if oc_worker c = RW_Waiting \<and> oc_resync_needed c then Some (resync_wakes c now) else None)"
| "okx_next c (Resubscribe_Due now) =
     (case oc_worker c of
        RW_Throttled until \<Rightarrow> if until \<le> now then Some (send_resubscribe c now) else None
      | _ \<Rightarrow> None)"
| "okx_next c Unsubscribe_Sent =
     (case oc_worker c of
        RW_Unsubscribing ws \<Rightarrow> Some ((send_op c ws ''subscribe'')\<lparr>oc_worker := RW_Subscribing ws\<rparr>)
      | _ \<Rightarrow> None)"
| "okx_next c Resubscribe_Sent =
     (case oc_worker c of RW_Subscribing ws \<Rightarrow> Some (c\<lparr>oc_worker := RW_Waiting\<rparr>) | _ \<Rightarrow> None)"
| "okx_next c Send_Fails =
     (case oc_worker c of
        RW_Unsubscribing ws \<Rightarrow> Some (c\<lparr>oc_worker := RW_Waiting\<rparr>)
      | RW_Subscribing ws \<Rightarrow> Some (c\<lparr>oc_worker := RW_Waiting\<rparr>)
      | _ \<Rightarrow> None)"
| "okx_next c (Row_Taken row) =
     (case oc_queue c of
        None \<Rightarrow> None
      | Some q \<Rightarrow>
          (case get q of
             None \<Rightarrow> None
           | Some (r, q') \<Rightarrow> if r = row then Some (c\<lparr>oc_queue := Some q'\<rparr>) else None))"
| "okx_next c (Row_Put row) =
     (case oc_queue c of None \<Rightarrow> None | Some q \<Rightarrow> Some (c\<lparr>oc_queue := Some (snd (put q row))\<rparr>))"

fun okx_run :: "okx_client \<Rightarrow> okx_event list \<Rightarrow> okx_client option" where
  "okx_run c [] = Some c"
| "okx_run c (ev # evs) = (case okx_next c ev of None \<Rightarrow> None | Some c' \<Rightarrow> okx_run c' evs)"

lemma okx_run_append:
  "okx_run c (evs @ evs') = (case okx_run c evs of None \<Rightarrow> None | Some c' \<Rightarrow> okx_run c' evs')"
  by (induction evs arbitrary: c) (auto split: option.splits)

lemma okx_run_snocE:
  assumes "okx_run c (evs @ [ev]) = Some c2"
  obtains c1 where "okx_run c evs = Some c1" "okx_next c1 ev = Some c2"
  using assms by (auto simp: okx_run_append split: option.splits)

end
