(* ===== verification/OkxInv.thy ===== *)
theory OkxInv
  imports Okx
begin

text \<open>
  What one step of the OKX client can do: the cases of a message, the cases of the operations that
  may go several ways, and the invariant that every step keeps, proved once inside the locale
  \<open>true_feed\<close>.
\<close>

section \<open>What a message carries\<close>

definition book_push :: "okx_text \<Rightarrow> (json \<times> json) option" where
  "book_push txt =
     (case txt of
        Pong \<Rightarrow> None
      | Text frame \<Rightarrow>
          (case json_loads frame of
             Inl err \<Rightarrow> None
           | Inr envelope \<Rightarrow>
               (case (has_event envelope, unwrap_book_push envelope, get_or_none envelope ''action'') of
                  (Inr False, Inr data, Inr action) \<Rightarrow> Some (action, data)
                | _ \<Rightarrow> None)))"

definition text_diff :: "okx_text \<Rightarrow> diff_event option" where
  "text_diff txt =
     (case book_push txt of
        None \<Rightarrow> None
      | Some (action, data) \<Rightarrow>
          if action \<noteq> JStr ''update'' then None
          else (case parse_book_update data of Inl err \<Rightarrow> None | Inr raw \<Rightarrow> finite_diff raw))"

definition text_snapshot :: "okx_text \<Rightarrow> snapshot_event option" where
  "text_snapshot txt =
     (case book_push txt of
        None \<Rightarrow> None
      | Some (action, data) \<Rightarrow>
          if action \<noteq> JStr ''snapshot'' then None
          else (case parse_book_snapshot data of
                  Inl err \<Rightarrow> None
                | Inr raw \<Rightarrow>
                    (case extract_ts ''ts'' data of Inl err \<Rightarrow> None | Inr ems \<Rightarrow> finite_snapshot raw)))"

fun okx_carries ::
  "(diff_event \<Rightarrow> bool) \<Rightarrow> (snapshot_event \<Rightarrow> bool) \<Rightarrow> (snapshot_row \<Rightarrow> bool) \<Rightarrow> okx_event \<Rightarrow> bool" where
  "okx_carries ev_ok sn_ok row_ok (Frame_Comes txt lns wns lns' wns') =
     (pred_option ev_ok (text_diff txt) \<and> pred_option sn_ok (text_snapshot txt))"
| "okx_carries ev_ok sn_ok row_ok (Row_Put row) = row_ok row"
| "okx_carries ev_ok sn_ok row_ok _ = True"

section \<open>The effect of a message\<close>

abbreviation okx_seen :: "okx_client \<Rightarrow> okx_client" where
  "okx_seen c \<equiv> okx_bump ''messages_received'' (c\<lparr>oc_connection := message_received (oc_connection c)\<rparr>)"

definition seen_only :: "okx_client \<Rightarrow> okx_client \<Rightarrow> bool" where
  "seen_only c c' \<longleftrightarrow>
     (\<exists>stats. c' = c\<lparr>oc_connection := message_received (oc_connection c), oc_stats := stats\<rparr>)"

lemma seen_only_intros [simp]:
  "seen_only c (okx_seen c)" "seen_only c (okx_bump k (okx_seen c))"
  by (auto simp: seen_only_def okx_bump_def)

text \<open>
  A message changes only counters and the connection manager, or it carries an update that is
  applied, or a snapshot that is loaded.
\<close>

lemma okx_read_cases:
  assumes "okx_read c txt lns wns lns' wns' = (out, c')"
  obtains
    (same) "seen_only c c'" "be_state (oc_engine c) \<noteq> LIVE \<Longrightarrow> text_snapshot txt = None"
      "text_snapshot txt \<noteq> None \<Longrightarrow> out = Raises ValueError"
  | (update) diff ems where "text_diff txt = Some diff" "text_snapshot txt = None"
      "(out, c') = okx_apply (okx_seen c) diff lns wns ems"
  | (loaded) s res e ems where "text_snapshot txt = Some s" "load_snapshot (oc_engine c) s = Inr (res, e)"
      "(out, c') = handle_resync_result ((okx_seen c)\<lparr>oc_engine := e\<rparr>) res ems lns' wns'"
proof -
  let ?same = "seen_only c c'"
  show thesis
  proof (cases "book_push txt")
    case None
    then have "text_snapshot txt = None" by (simp add: text_snapshot_def)
    moreover have ?same
      using assms None unfolding okx_read_def Let_def
      by (auto simp: book_push_def handle_control_message_def okx_skip_def handle_channel_push_def
          split: okx_text.splits sum.splits bool.splits if_splits)
    ultimately show thesis using same by auto
  next
    case (Some p)
    then obtain action data frame envelope where p: "book_push txt = Some (action, data)" "txt = Text frame"
      "json_loads frame = Inr envelope" "has_event envelope = Inr False" "unwrap_book_push envelope = Inr data"
      "get_or_none envelope ''action'' = Inr action"
      by (cases p) (auto simp: book_push_def split: okx_text.splits sum.splits bool.splits)
    then have read: "(out, c') = (if action = JStr ''snapshot'' then handle_snapshot_push (okx_seen c) data lns' wns'
        else if action = JStr ''update'' then handle_update_push (okx_seen c) data lns wns
        else okx_skip (okx_seen c))"
      using assms by (simp add: okx_read_def handle_channel_push_def Let_def)
    consider "action = JStr ''snapshot''" | "action = JStr ''update''"
      | "action \<noteq> JStr ''snapshot''" "action \<noteq> JStr ''update''" by blast
    then show thesis
    proof cases
      case 1
      show thesis
      proof (cases "text_snapshot txt")
        case None
        have ?same
          using read None p(1) unfolding 1
          by (auto simp: handle_snapshot_push_def text_snapshot_def okx_skip_def split: sum.splits option.splits if_splits)
        with None same show thesis by auto
      next
        case (Some s)
        then obtain ems where push: "handle_snapshot_push (okx_seen c) data lns' wns' =
            (case load_snapshot (oc_engine (okx_seen c)) s of
               Inl err \<Rightarrow> (Raises err, okx_seen c)
             | Inr (res, e) \<Rightarrow> handle_resync_result ((okx_seen c)\<lparr>oc_engine := e\<rparr>) res ems lns' wns')"
          using p(1) 1 by (auto simp: text_snapshot_def handle_snapshot_push_def split: sum.splits)
        have eng: "oc_engine (okx_seen c) = oc_engine c" by (simp add: okx_bump_def)
        show thesis
        proof (cases "be_state (oc_engine c) = LIVE")
          case True
          with push eng read 1 have "(out, c') = (Raises ValueError, okx_seen c)"
            by (simp add: load_snapshot_live)
          with True same show thesis by auto
        next
          case False
          then obtain res e where "load_snapshot (oc_engine c) s = Inr (res, e)"
            by (rule load_snapshot_not_live)
          with loaded [OF Some this] push eng read 1 show thesis by simp
        qed
      qed
    next
      case 2
      then have none: "text_snapshot txt = None" using p(1) by (simp add: text_snapshot_def)
      show thesis
      proof (cases "\<exists>ems raw diff. parse_book_update data = Inr raw \<and> extract_ts ''ts'' data = Inr ems \<and>
          finite_diff raw = Some diff")
        case True
        then obtain ems raw diff where d: "parse_book_update data = Inr raw" "extract_ts ''ts'' data = Inr ems"
          "finite_diff raw = Some diff" by blast
        then show thesis
          using update [of diff ems] none p(1) 2 read by (simp add: text_diff_def handle_update_push_def)
      next
        case False
        then have ?same
          using read unfolding 2
          by (auto simp: handle_update_push_def okx_skip_def split: sum.splits option.splits if_splits)
        with none same show thesis by auto
      qed
    next
      case 3
      then have "text_snapshot txt = None" using p(1) by (simp add: text_snapshot_def)
      moreover from 3 have ?same using read by (auto simp: okx_skip_def)
      ultimately show thesis using same by auto
    qed
  qed
qed

section \<open>The invariant\<close>

text \<open>The connection a phase is about: it is the current one.\<close>

fun socket_of :: "okx_phase \<Rightarrow> nat option" where
  "socket_of (OP_Subscribing ws) = Some ws"
| "socket_of (OP_Reading ws) = Some ws"
| "socket_of (OP_Pinging ws) = Some ws"
| "socket_of (OP_Pinged ws) = Some ws"
| "socket_of (OP_Closing ws) = Some ws"
| "socket_of _ = None"

fun worker_fits :: "okx_worker \<Rightarrow> okx_phase \<Rightarrow> bool" where
  "worker_fits (RW_Dead err) ph = False"
| "worker_fits RW_Cancelled ph = (\<exists>err. ph = OP_Over err)"
| "worker_fits w ph = (\<forall>err. ph \<noteq> OP_Over err)"

definition okx_ok :: "(book_engine \<Rightarrow> bool) \<Rightarrow> (snapshot_row \<Rightarrow> bool) \<Rightarrow> okx_client \<Rightarrow> bool" where
  "okx_ok good row_ok c \<longleftrightarrow>
     good (oc_engine c) \<and> queue_ok row_ok (oc_queue c) \<and>
     tb_refill_rate (oc_resubscribe_bucket c) \<noteq> 0 \<and> tb_refill_rate (oc_connection_bucket c) \<noteq> 0 \<and>
     (\<forall>ws. socket_of (oc_phase c) = Some ws \<longrightarrow> oc_current_ws c = Some ws) \<and>
     worker_fits (oc_worker c) (oc_phase c)"

text \<open>The effect of the operations that may go several ways.\<close>

lemma okx_finish_fits:
  "worker_fits (oc_worker c) ph \<Longrightarrow>
     okx_finish c err = c\<lparr>oc_current_ws := None, oc_phase := OP_Over err, oc_worker := RW_Cancelled\<rparr>"
  by (cases "oc_worker c") (simp_all add: okx_finish_def)

lemma wait_not_raises:
  assumes "tb_refill_rate b \<noteq> 0"
  obtains wait where "time_until_available b cost now = (Inr wait, refill b now)"
  using assms that by (cases "cost \<le> tb_tokens (refill b now)") (auto simp: time_until_available_def Let_def)

lemma begin_round_cases:
  assumes "tb_refill_rate (oc_connection_bucket c) \<noteq> 0"
  obtains
    (throttled) wait where "time_until_available (oc_connection_bucket c) 1 now = (Inr wait, refill (oc_connection_bucket c) now)"
      "0 < wait" "begin_round c now =
        c\<lparr>oc_connection_bucket := refill (oc_connection_bucket c) now, oc_phase := OP_Throttled (now + wait)\<rparr>"
  | (opened) wait where "time_until_available (oc_connection_bucket c) 1 now = (Inr wait, refill (oc_connection_bucket c) now)"
      "wait \<le> 0" "begin_round c now = open_round (c\<lparr>oc_connection_bucket := refill (oc_connection_bucket c) now\<rparr>) now"
proof -
  obtain wait where w: "time_until_available (oc_connection_bucket c) 1 now = (Inr wait, refill (oc_connection_bucket c) now)"
    by (rule wait_not_raises [OF assms])
  then show thesis
    by (cases "0 < wait") (auto intro: throttled opened simp: begin_round_def Let_def)
qed

lemma request_cases:
  assumes "tb_refill_rate (oc_resubscribe_bucket c) \<noteq> 0"
  obtains
    (throttled) wait where "time_until_available (oc_resubscribe_bucket c) resubscribe_op_cost now =
        (Inr wait, refill (oc_resubscribe_bucket c) now)" "0 < wait"
      "request_resubscribe c now =
        (okx_bump ''resubscribe_throttled'' (c\<lparr>oc_resubscribe_bucket := refill (oc_resubscribe_bucket c) now\<rparr>))
          \<lparr>oc_worker := RW_Throttled (now + wait)\<rparr>"
  | (sent) wait where "time_until_available (oc_resubscribe_bucket c) resubscribe_op_cost now =
        (Inr wait, refill (oc_resubscribe_bucket c) now)" "wait \<le> 0"
      "request_resubscribe c now = send_resubscribe (c\<lparr>oc_resubscribe_bucket := refill (oc_resubscribe_bucket c) now\<rparr>) now"
proof -
  obtain wait where "time_until_available (oc_resubscribe_bucket c) resubscribe_op_cost now =
      (Inr wait, refill (oc_resubscribe_bucket c) now)"
    by (rule wait_not_raises [OF assms])
  then show thesis
    by (cases "0 < wait") (auto intro: throttled sent simp: request_resubscribe_def Let_def)
qed

lemma send_resubscribe_cases:
  obtains
    (idle) "oc_current_ws c = None" "send_resubscribe c now =
        c\<lparr>oc_resubscribe_bucket := snd (try_acquire (oc_resubscribe_bucket c) resubscribe_op_cost now), oc_worker := RW_Waiting\<rparr>"
  | (sends) ws where "oc_current_ws c = Some ws" "send_resubscribe c now =
        c\<lparr>oc_resubscribe_bucket := snd (try_acquire (oc_resubscribe_bucket c) resubscribe_op_cost now),
          oc_sent := (ws, Op_Message (subscribe_message ''unsubscribe'' (oc_symbol c))) # oc_sent c,
          oc_worker := RW_Unsubscribing ws\<rparr>"
  by (cases "oc_current_ws c") (auto simp: send_resubscribe_def send_op_def Let_def)

lemma on_left_cases:
  assumes "worker_fits (oc_worker c) ph"
  obtains
    (retry) stats delay where "on_left c err now =
        c\<lparr>oc_connection := snd (disconnected (oc_connection c) now), oc_stats := stats, oc_phase := OP_Backing_Off delay\<rparr>"
  | (over) stats e where "on_left c err now =
        c\<lparr>oc_connection := snd (disconnected (oc_connection c) now), oc_stats := stats, oc_current_ws := None,
          oc_phase := OP_Over e, oc_worker := RW_Cancelled\<rparr>"
proof -
  define c1 where "c1 = (if err = ServiceNoticeReconnect then c
      else case cause_of err of Watchdog_Trip \<Rightarrow> okx_bump ''watchdog_tripped'' c | Lost \<Rightarrow> okx_bump ''ws_disconnected'' c)"
  obtain stats1 where c1: "c1 = c\<lparr>oc_stats := stats1\<rparr>"
  proof -
    have "c1 = c\<lparr>oc_stats := oc_stats c1\<rparr>"
      unfolding c1_def by (auto simp: okx_bump_def split: cause.splits)
    then show thesis by (rule that)
  qed
  obtain ph cm stats where n: "next_attempt (oc_max_failures c1) (oc_connection c1) (oc_stats c1) now = (ph, cm, stats)"
    by (metis prod.exhaust)
  have cm: "cm = snd (disconnected (oc_connection c) now)"
    and ph: "(\<exists>delay. ph = Backing_Off delay) \<or> (\<exists>e. ph = Run_Over e)"
    using n unfolding c1 by (auto simp: next_attempt_def split: prod.splits sum.splits if_splits)
  have eq: "on_left c err now =
      (case ph of Run_Over e \<Rightarrow> okx_finish (c1\<lparr>oc_connection := cm, oc_stats := stats\<rparr>) e
       | Backing_Off delay \<Rightarrow> c1\<lparr>oc_connection := cm, oc_stats := stats, oc_phase := OP_Backing_Off delay\<rparr>
       | _ \<Rightarrow> c1\<lparr>oc_connection := cm, oc_stats := stats\<rparr>)"
    using n by (simp add: on_left_def c1_def [symmetric] Let_def)
  have fin: "okx_finish (c1\<lparr>oc_connection := cm, oc_stats := stats\<rparr>) e =
      c1\<lparr>oc_connection := cm, oc_stats := stats, oc_current_ws := None, oc_phase := OP_Over e, oc_worker := RW_Cancelled\<rparr>" for e
    using okx_finish_fits [of "c1\<lparr>oc_connection := cm, oc_stats := stats\<rparr>" _ e] assms by (simp add: c1)
  from ph show thesis
  proof
    assume "\<exists>delay. ph = Backing_Off delay"
    with eq retry show thesis unfolding c1 cm by auto
  next
    assume "\<exists>e. ph = Run_Over e"
    with eq fin over show thesis unfolding c1 cm by auto
  qed
qed

context true_feed
begin

lemma okx_offer_ok:
  assumes "good (oc_engine c)" and "be_state (oc_engine c) = LIVE" and "queue_ok row_ok (oc_queue c)"
  obtains queue where "okx_offer c lns wns ems = (Continues, c\<lparr>oc_queue := queue\<rparr>)" "queue_ok row_ok queue"
proof -
  obtain r where r: "build_snapshot_row (oc_engine c) (okx_instrument c) lns wns ems = Inr r"
    by (rule build_row_live [OF good_wf [OF assms(1)] assms(2)])
  from offer_row_ok [OF assms(3) r good_row [OF assms(1) r]] show thesis
    by (intro that [of "snd (offer_row (oc_queue c) (Inr r))"]) (simp_all add: okx_offer_def r split_beta)
qed

text \<open>What an update does to a client whose invariant holds.\<close>

lemma okx_apply_good:
  assumes "good (oc_engine c)" and "queue_ok row_ok (oc_queue c)" and "ev_ok diff"
    and "okx_apply c diff lns wns ems = (out, c')"
  obtains queue stats needed where "out = Continues"
    "c' = c\<lparr>oc_engine := snd (apply_event (oc_engine c) diff), oc_queue := queue, oc_stats := stats,
      oc_resync_needed := needed\<rparr>"
    "queue_ok row_ok queue" "needed = (oc_resync_needed c \<or> status (fst (apply_event (oc_engine c) diff)) = GAP_DETECTED)"
proof -
  obtain res e where a: "apply_event (oc_engine c) diff = (res, e)" by fastforce
  have e: "good e" using good_event [OF assms(1,3)] a by simp
  show thesis
  proof (cases "status res = APPLIED")
    case True
    with a apply_event_live(2) [of "oc_engine c" diff] have "be_state e = LIVE" by simp
    with e assms(2) have pre: "good (oc_engine (c\<lparr>oc_engine := e\<rparr>))" "be_state (oc_engine (c\<lparr>oc_engine := e\<rparr>)) = LIVE"
      "queue_ok row_ok (oc_queue (c\<lparr>oc_engine := e\<rparr>))" by simp_all
    obtain queue where q: "okx_offer (c\<lparr>oc_engine := e\<rparr>) lns wns ems = (Continues, (c\<lparr>oc_engine := e\<rparr>)\<lparr>oc_queue := queue\<rparr>)"
      "queue_ok row_ok queue" by (rule okx_offer_ok [OF pre])
    with True a assms(4) have "out = Continues \<and> c' = c\<lparr>oc_engine := e, oc_queue := queue\<rparr>"
      by (simp add: okx_apply_def)
    then have "out = Continues" "c' = c\<lparr>oc_engine := e, oc_queue := queue\<rparr>" by blast+
    with True a q(2) show thesis
      by (intro that [where queue = queue and stats = "oc_stats c" and needed = "oc_resync_needed c"]) simp_all
  next
    case False
    with a assms(2,4) show thesis
      by (intro that [where queue = "oc_queue c" and stats = "oc_stats c'" and needed = "oc_resync_needed c'"])
        (auto simp: okx_apply_def okx_bump_def Let_def split: apply_status.splits)
  qed
qed

text \<open>
  What a loaded snapshot does: it completes the resync, or the failure is followed by another
  request, or the connection is closed.
\<close>

lemma resync_result_good:
  assumes "good (oc_engine c)" and "queue_ok row_ok (oc_queue c)"
    and "be_state (oc_engine c) = LIVE \<longleftrightarrow> status res = APPLIED"
    and "handle_resync_result c res ems lns wns = (out, c')"
  obtains
    (completed) queue stats where "out = Continues" "be_state (oc_engine c) = LIVE" "queue_ok row_ok queue"
      "c' = c\<lparr>oc_snapshot_retry_count := 0, oc_stats := stats, oc_queue := queue\<rparr>"
  | (retried) stats where "out = Continues" "be_state (oc_engine c) \<noteq> LIVE"
      "int (oc_snapshot_retry_count c + 1) < oc_snapshot_retry_limit c"
      "c' = c\<lparr>oc_snapshot_retry_count := oc_snapshot_retry_count c + 1, oc_stats := stats, oc_resync_needed := True\<rparr>"
  | (gave_up) stats where "out = Continues" "be_state (oc_engine c) \<noteq> LIVE"
      "oc_snapshot_retry_limit c \<le> int (oc_snapshot_retry_count c + 1)"
      "c' = (case oc_current_ws c of
           None \<Rightarrow> c\<lparr>oc_snapshot_retry_count := oc_snapshot_retry_count c + 1, oc_stats := stats\<rparr>
         | Some ws \<Rightarrow> c\<lparr>oc_snapshot_retry_count := oc_snapshot_retry_count c + 1, oc_stats := stats,
             oc_phase := OP_Closing ws, oc_closed := ws # oc_closed c\<rparr>)"
proof (cases "status res = APPLIED")
  case True
  let ?c = "okx_bump ''resync_completed'' (c\<lparr>oc_snapshot_retry_count := 0\<rparr>)"
  have pre: "good (oc_engine ?c)" "be_state (oc_engine ?c) = LIVE" "queue_ok row_ok (oc_queue ?c)"
    using assms(1-3) True by (simp_all add: okx_bump_def)
  obtain queue where "okx_offer ?c lns wns ems = (Continues, ?c\<lparr>oc_queue := queue\<rparr>)" "queue_ok row_ok queue"
    by (rule okx_offer_ok [OF pre])
  with True assms(3,4) completed show thesis by (auto simp: handle_resync_result_def okx_bump_def)
next
  case False
  let ?n = "oc_snapshot_retry_count c + 1"
  show thesis
  proof (cases "oc_snapshot_retry_limit c \<le> int ?n")
    case True
    then show thesis
      using False assms(3,4) by (intro gave_up [of "oc_stats c'"])
        (auto simp: handle_resync_result_def okx_give_up_def okx_bump_def Let_def split: option.splits)
  next
    case less: False
    then show thesis
      using False assms(3,4) by (intro retried [of "oc_stats c'"])
        (auto simp: handle_resync_result_def okx_bump_def Let_def)
  qed
qed

text \<open>Every case of a message that is read while the invariant holds.\<close>

lemma okx_message_cases:
  assumes "good (oc_engine c)" and "queue_ok row_ok (oc_queue c)"
    and "pred_option ev_ok (text_diff txt)" and "pred_option sn_ok (text_snapshot txt)"
    and "okx_read c txt lns wns lns' wns' = (out, c')"
  obtains
    (same) "seen_only c c'" "be_state (oc_engine c) \<noteq> LIVE \<Longrightarrow> text_snapshot txt = None"
      "text_snapshot txt \<noteq> None \<Longrightarrow> out = Raises ValueError"
  | (update) diff queue stats needed where "text_diff txt = Some diff" "text_snapshot txt = None" "out = Continues"
      "good (snd (apply_event (oc_engine c) diff))" "queue_ok row_ok queue"
      "needed = (oc_resync_needed c \<or> status (fst (apply_event (oc_engine c) diff)) = GAP_DETECTED)"
      "c' = c\<lparr>oc_connection := message_received (oc_connection c), oc_engine := snd (apply_event (oc_engine c) diff),
        oc_queue := queue, oc_stats := stats, oc_resync_needed := needed\<rparr>"
  | (completed) s res e queue stats where "text_snapshot txt = Some s" "load_snapshot (oc_engine c) s = Inr (res, e)"
      "out = Continues" "good e" "be_state e = LIVE" "queue_ok row_ok queue"
      "c' = c\<lparr>oc_connection := message_received (oc_connection c), oc_engine := e, oc_snapshot_retry_count := 0,
        oc_stats := stats, oc_queue := queue\<rparr>"
  | (retried) s res e stats where "text_snapshot txt = Some s" "load_snapshot (oc_engine c) s = Inr (res, e)"
      "out = Continues" "good e" "be_state e \<noteq> LIVE"
      "int (oc_snapshot_retry_count c + 1) < oc_snapshot_retry_limit c"
      "c' = c\<lparr>oc_connection := message_received (oc_connection c), oc_engine := e,
        oc_snapshot_retry_count := oc_snapshot_retry_count c + 1, oc_stats := stats, oc_resync_needed := True\<rparr>"
  | (gave_up) s res e stats where "text_snapshot txt = Some s" "load_snapshot (oc_engine c) s = Inr (res, e)"
      "out = Continues" "good e" "be_state e \<noteq> LIVE"
      "oc_snapshot_retry_limit c \<le> int (oc_snapshot_retry_count c + 1)"
      "c' = (case oc_current_ws c of
           None \<Rightarrow> c\<lparr>oc_connection := message_received (oc_connection c), oc_engine := e,
             oc_snapshot_retry_count := oc_snapshot_retry_count c + 1, oc_stats := stats\<rparr>
         | Some ws \<Rightarrow> c\<lparr>oc_connection := message_received (oc_connection c), oc_engine := e,
             oc_snapshot_retry_count := oc_snapshot_retry_count c + 1, oc_stats := stats,
             oc_phase := OP_Closing ws, oc_closed := ws # oc_closed c\<rparr>)"
  using assms(5)
proof (cases rule: okx_read_cases)
  case same
  then show thesis by (rule that(1))
next
  case up: (update diff ems)
  have pre: "good (oc_engine (okx_seen c))" "queue_ok row_ok (oc_queue (okx_seen c))" "ev_ok diff"
    using assms(1-3) up(1) by (simp_all add: okx_bump_def)
  from good_event [OF assms(1) pre(3)] have e: "good (snd (apply_event (oc_engine c) diff))" .
  show thesis
    by (rule okx_apply_good [OF pre up(3) [symmetric]])
      (rule update [OF up(1,2) _ e], auto simp: okx_bump_def)
next
  case ld: (loaded s res e ems)
  have e: "good e" using good_snapshot [OF assms(1) _ ld(2)] assms(4) ld(1) by simp
  let ?c = "(okx_seen c)\<lparr>oc_engine := e\<rparr>"
  have pre: "good (oc_engine ?c)" "queue_ok row_ok (oc_queue ?c)" "be_state (oc_engine ?c) = LIVE \<longleftrightarrow> status res = APPLIED"
    using assms(2) e load_snapshot_status [OF ld(2)] by (simp_all add: okx_bump_def)
  from pre ld(3) [symmetric] show thesis
  proof (cases rule: resync_result_good)
    case (completed queue stats)
    then show thesis by (intro that(3) [OF ld(1,2) _ e]) (simp_all add: okx_bump_def)
  next
    case (retried stats)
    then show thesis by (intro that(4) [OF ld(1,2) _ e]) (simp_all add: okx_bump_def)
  next
    case (gave_up stats)
    then show thesis by (intro that(5) [OF ld(1,2) _ e]) (simp_all add: okx_bump_def split: option.splits)
  qed
qed

end

text \<open>Taking an optional step apart.\<close>

lemma after_read_some:
  "after_read (out, c) = Some c' \<longleftrightarrow>
     (out = Continues \<and> c' = c) \<or> (\<exists>err. out = Raises err \<and> c' = c\<lparr>oc_phase := OP_Leaving err\<rparr>)"
  by (cases out) (auto simp: after_read_def)

lemma frame_comesE:
  assumes "okx_next c (Frame_Comes txt lns wns lns' wns') = Some c'"
  obtains ws out c1 where "listening (oc_phase c) = Some ws"
    "okx_read (c\<lparr>oc_phase := OP_Reading ws\<rparr>) txt lns wns lns' wns' = (out, c1)"
    "(out = Continues \<and> c' = c1) \<or> (\<exists>err. out = Raises err \<and> c' = c1\<lparr>oc_phase := OP_Leaving err\<rparr>)"
proof -
  from assms obtain ws where ws: "listening (oc_phase c) = Some ws" by (auto split: option.splits)
  obtain out c1 where r: "okx_read (c\<lparr>oc_phase := OP_Reading ws\<rparr>) txt lns wns lns' wns' = (out, c1)" by fastforce
  from assms ws r show thesis by (intro that [OF ws r]) (simp add: after_read_some)
qed

lemma listening_socket: "listening ph = Some ws \<Longrightarrow> socket_of ph = Some ws"
  by (cases ph) auto

lemma worker_fits_alive:
  "worker_fits w ph \<Longrightarrow> okx_alive ph \<Longrightarrow> okx_alive ph' \<Longrightarrow> worker_fits w ph'"
  by (cases w; cases ph; cases ph') auto

lemma may_fail_alive: "may_fail ph err \<Longrightarrow> okx_alive ph"
  by (cases ph) auto

lemma worker_fits_moves:
  assumes "worker_fits w ph" and "w \<noteq> RW_Cancelled"
  shows "worker_fits RW_Waiting ph" "worker_fits (RW_Throttled t) ph" "worker_fits (RW_Unsubscribing ws) ph"
    "worker_fits (RW_Subscribing ws) ph"
  using assms by (cases w; simp)+

context true_feed
begin

lemma okx_frame_keeps:
  assumes "okx_next c (Frame_Comes txt lns wns lns' wns') = Some c'" and "okx_ok good row_ok c"
    and "pred_option ev_ok (text_diff txt)" and "pred_option sn_ok (text_snapshot txt)"
  shows "okx_ok good row_ok c'"
proof -
  obtain ws out c1 where r: "listening (oc_phase c) = Some ws"
    "okx_read (c\<lparr>oc_phase := OP_Reading ws\<rparr>) txt lns wns lns' wns' = (out, c1)"
    "(out = Continues \<and> c' = c1) \<or> (\<exists>err. out = Raises err \<and> c' = c1\<lparr>oc_phase := OP_Leaving err\<rparr>)"
    using assms(1) by (rule frame_comesE)
  let ?c = "c\<lparr>oc_phase := OP_Reading ws\<rparr>"
  have ws: "oc_current_ws c = Some ws"
    using assms(2) listening_socket [OF r(1)] by (simp add: okx_ok_def)
  have fit: "worker_fits (oc_worker c) ph" if "okx_alive ph" for ph
    using worker_fits_alive [of "oc_worker c" "oc_phase c"] assms(2) r(1) that
    by (cases "oc_phase c") (auto simp: okx_ok_def)
  have pre: "good (oc_engine ?c)" "queue_ok row_ok (oc_queue ?c)" using assms(2) by (simp_all add: okx_ok_def)
  from pre assms(3,4) r(2) have c1: "okx_ok good row_ok c1 \<and> oc_worker c1 = oc_worker c"
  proof (cases rule: okx_message_cases)
    case same
    then show ?thesis using assms(2) ws fit by (auto simp: seen_only_def okx_ok_def)
  next
    case (update diff queue stats needed)
    then show ?thesis using assms(2) ws fit by (simp add: okx_ok_def)
  next
    case (completed s res e queue stats)
    then show ?thesis using assms(2) ws fit by (simp add: okx_ok_def)
  next
    case (retried s res e stats)
    then show ?thesis using assms(2) ws fit by (simp add: okx_ok_def)
  next
    case (gave_up s res e stats)
    then show ?thesis using assms(2) ws fit by (simp add: okx_ok_def)
  qed
  then have "okx_ok good row_ok (c1\<lparr>oc_phase := OP_Leaving err\<rparr>)" for err
    using fit by (simp add: okx_ok_def)
  with c1 show ?thesis using r(3) by auto
qed

lemma begin_round_keeps:
  assumes "okx_ok good row_ok c" and "socket_of (oc_phase c) = None" and "\<not> (\<exists>err. oc_phase c = OP_Over err)"
  shows "okx_ok good row_ok (begin_round c now)"
proof -
  have fit: "worker_fits (oc_worker c) (OP_Throttled t)" "worker_fits (oc_worker c) OP_Opening" for t
    using assms(1,3) by (cases "oc_worker c"; auto simp: okx_ok_def)+
  have "tb_refill_rate (oc_connection_bucket c) \<noteq> 0" using assms(1) by (simp add: okx_ok_def)
  then show ?thesis
    by (cases rule: begin_round_cases [where now = now])
      (use assms fit in \<open>auto simp: okx_ok_def open_round_def\<close>)
qed

lemma send_resubscribe_keeps:
  assumes "okx_ok good row_ok c" and "oc_worker c \<noteq> RW_Cancelled"
  shows "okx_ok good row_ok (send_resubscribe c now)"
proof -
  have "worker_fits (oc_worker c) (oc_phase c)" using assms(1) by (simp add: okx_ok_def)
  note fit = worker_fits_moves [OF this assms(2)]
  show ?thesis
    by (cases rule: send_resubscribe_cases [where c = c and now = now])
      (use assms(1) fit in \<open>simp_all add: okx_ok_def del: worker_fits.simps\<close>)
qed

lemma request_keeps:
  assumes "okx_ok good row_ok c" and "oc_worker c \<noteq> RW_Cancelled"
  shows "okx_ok good row_ok (request_resubscribe c now)"
proof -
  have "tb_refill_rate (oc_resubscribe_bucket c) \<noteq> 0" using assms(1) by (simp add: okx_ok_def)
  then show ?thesis
  proof (cases rule: request_cases [where now = now])
    case (throttled wait)
    have "worker_fits (oc_worker c) (oc_phase c)" using assms(1) by (simp add: okx_ok_def)
    from worker_fits_moves(2) [OF this assms(2)] throttled assms(1) show ?thesis
      by (simp add: okx_ok_def okx_bump_def del: worker_fits.simps)
  next
    case (sent wait)
    have "okx_ok good row_ok (c\<lparr>oc_resubscribe_bucket := refill (oc_resubscribe_bucket c) now\<rparr>)"
      using assms(1) by (simp add: okx_ok_def)
    from send_resubscribe_keeps [OF this] sent(3) assms(2) show ?thesis by simp
  qed
qed

lemma on_left_keeps:
  assumes "okx_ok good row_ok c" and "oc_phase c = OP_Leaving e"
  shows "okx_ok good row_ok (on_left c err now)"
proof -
  have fit: "worker_fits (oc_worker c) (OP_Leaving e)" using assms by (simp add: okx_ok_def)
  then show ?thesis
  proof (cases rule: on_left_cases [where err = err and now = now])
    case (retry stats delay)
    have "worker_fits (oc_worker c) (OP_Backing_Off delay)" using fit by (cases "oc_worker c") auto
    with retry assms(1) show ?thesis by (simp add: okx_ok_def)
  next
    case (over stats err)
    with assms(1) show ?thesis by (simp add: okx_ok_def)
  qed
qed

lemma okx_step_keeps:
  assumes "okx_next c ev = Some c'" and "okx_ok good row_ok c" and "okx_carries ev_ok sn_ok row_ok ev"
  shows "okx_ok good row_ok c'"
proof -
  have fit: "okx_alive (oc_phase c) \<Longrightarrow> okx_alive ph \<Longrightarrow> worker_fits (oc_worker c) ph" for ph
    using worker_fits_alive assms(2) by (auto simp: okx_ok_def)
  show ?thesis
  proof (cases ev)
    case (Frame_Comes m lns wns lns' wns')
    with okx_frame_keeps [of c m lns wns lns' wns'] assms show ?thesis by simp
  next
    case (Run_Begins now)
    with begin_round_keeps [OF assms(2)] assms(1) show ?thesis by (auto split: if_splits)
  next
    case (Backoff_Ends now)
    then obtain delay where d: "oc_phase c = OP_Backing_Off delay" "c' = begin_round (c\<lparr>oc_current_ws := None\<rparr>) now"
      using assms(1) by (auto split: okx_phase.splits)
    have "okx_ok good row_ok (c\<lparr>oc_current_ws := None\<rparr>)" using assms(2) d(1) by (simp add: okx_ok_def)
    from begin_round_keeps [OF this] d show ?thesis by simp
  next
    case (Leave_Ends other now)
    then obtain err e where "oc_phase c = OP_Leaving err" "c' = on_left c e now"
      using assms(1) by (auto split: okx_phase.splits if_splits)
    with on_left_keeps [OF assms(2)] show ?thesis by simp
  next
    case (Resync_Wakes now)
    then have w: "oc_worker c = RW_Waiting" "c' = resync_wakes c now" using assms(1) by (auto split: if_splits)
    have "okx_ok good row_ok (c\<lparr>oc_resync_needed := False\<rparr>)" using assms(2) by (simp add: okx_ok_def)
    with request_keeps [OF this] w show ?thesis by (simp add: resync_wakes_def Let_def)
  next
    case (Resubscribe_Due now)
    then obtain until where "oc_worker c = RW_Throttled until" "c' = send_resubscribe c now"
      using assms(1) by (auto split: okx_worker.splits if_splits)
    with send_resubscribe_keeps [OF assms(2)] show ?thesis by simp
  next
    case Run_Cancelled
    then have a: "okx_alive (oc_phase c)" "c' = okx_finish c CancelledError" using assms(1) by (auto split: if_splits)
    have "worker_fits (oc_worker c) (oc_phase c)" using assms(2) by (simp add: okx_ok_def)
    from okx_finish_fits [OF this] a(2) assms(2) show ?thesis by (simp add: okx_ok_def)
  next
    case (Row_Taken row)
    then obtain q q' where q: "oc_queue c = Some q" "get q = Some (row, q')" "c' = c\<lparr>oc_queue := Some q'\<rparr>"
      using assms(1) by (auto split: option.splits if_splits)
    with queue_ok_get [of row_ok q row q'] assms(2) show ?thesis by (simp add: okx_ok_def)
  next
    case (Row_Put row)
    then obtain q where q: "oc_queue c = Some q" "c' = c\<lparr>oc_queue := Some (snd (put q row))\<rparr>"
      using assms(1) by (auto split: option.splits)
    with queue_ok_put [of row_ok q row] assms(2,3) Row_Put show ?thesis by (simp add: okx_ok_def)
  next
    case (Socket_Opens ws)
    with assms(1,2) show ?thesis
      by (cases "oc_worker c") (auto simp: okx_ok_def on_socket_def send_op_def split: if_splits)
  next
    case (Subscribed now)
    with assms(1,2) good_invalidate show ?thesis
      by (cases "oc_worker c") (auto simp: okx_ok_def on_subscribed_def okx_bump_def split: okx_phase.splits)
  next
    case (Connection_Fails err)
    then have "may_fail (oc_phase c) err" "c' = c\<lparr>oc_phase := OP_Leaving err\<rparr>"
      using assms(1) by (auto split: if_splits)
    with fit may_fail_alive assms(2) show ?thesis by (simp add: okx_ok_def)
  qed (insert assms(1,2), auto simp: okx_ok_def open_round_def send_op_def fit
      split: okx_phase.splits okx_worker.splits if_splits)
qed

lemma okx_run_keeps:
  assumes "okx_run c evs = Some c'" and "okx_ok good row_ok c" and "list_all (okx_carries ev_ok sn_ok row_ok) evs"
  shows "okx_ok good row_ok c'"
  using assms by (induction evs arbitrary: c) (auto split: option.splits dest: okx_step_keeps)

lemma okx_taken_ok:
  assumes "okx_run c evs = Some c'" and "okx_ok good row_ok c"
    and "list_all (okx_carries ev_ok sn_ok row_ok) evs" and "Row_Taken row \<in> set evs"
  shows "row_ok row"
  using assms
proof (induction evs arbitrary: c)
  case (Cons ev evs)
  then obtain c1 where c1: "okx_next c ev = Some c1" "okx_run c1 evs = Some c'" by (auto split: option.splits)
  have ok: "okx_ok good row_ok c1" using okx_step_keeps [OF c1(1)] Cons.prems(2,3) by simp
  show ?case
  proof (cases "Row_Taken row \<in> set evs")
    case True
    with Cons.IH [OF c1(2) ok] Cons.prems(3) show ?thesis by simp
  next
    case False
    with Cons.prems(4) have ev: "ev = Row_Taken row" by simp
    then obtain q q' where "oc_queue c = Some q" "get q = Some (row, q')"
      using c1(1) by (auto split: option.splits if_splits)
    with queue_ok_get [of row_ok q row q'] Cons.prems(2) show ?thesis by (simp add: okx_ok_def)
  qed
qed simp

lemma new_okx_ok:
  assumes "good engine" and "queue_ok row_ok queue" and "tb_refill_rate rb \<noteq> 0" and "tb_refill_rate cb \<noteq> 0"
  shows "okx_ok good row_ok (new_okx_client name engine sl mf policy r rb cb queue)"
  using assms by (simp add: okx_ok_def new_okx_client_def)

end

end
