(* ===== verification/OkxProps.thy ===== *)
theory OkxProps
  imports OkxInv
begin

text \<open>
  The properties of the OKX client: rows are true; the worker cannot die and a failed resync is
  always followed up; a connection whose snapshot is lost stays stale; a throttled resubscribe is
  sent without looking at the book again; what a message can raise; the two budgets.
\<close>

section \<open>Truth of the rows\<close>

abbreviation fresh_okx ::
  "string \<Rightarrow> int \<Rightarrow> int \<Rightarrow> int \<Rightarrow> backoff_policy \<Rightarrow> rng \<Rightarrow> int \<Rightarrow> seconds \<Rightarrow> okx_client" where
  "fresh_okx name depth sl mf policy r maxsize t0 \<equiv>
     new_okx_client name (new_engine depth) sl mf policy r (default_resubscribe_bucket t0)
       (default_connection_bucket t0) (Some (new_row_queue maxsize))"

lemma default_rates [simp]:
  "tb_refill_rate (default_resubscribe_bucket t0) = 480 / 3600" "tb_refill_rate (default_connection_bucket t0) = 3"
  by (simp_all add: default_resubscribe_bucket_def default_connection_bucket_def new_bucket_def)

lemma fresh_okx_untrusted:
  assumes "okx_run (fresh_okx name depth sl mf policy r maxsize t0) evs = Some c"
  shows "okx_ok engine_wf (\<lambda>_. True) c"
proof (rule untrusted.okx_run_keeps [OF assms])
  show "okx_ok engine_wf (\<lambda>_. True) (fresh_okx name depth sl mf policy r maxsize t0)"
    by (rule untrusted.new_okx_ok [OF new_engine_wf fresh_queue]) simp_all
  have "okx_carries (\<lambda>_. True) (\<lambda>_. True) (\<lambda>_. True) ev" for ev
    by (cases ev) (simp_all add: option.pred_True)
  then show "list_all (okx_carries (\<lambda>_. True) (\<lambda>_. True) (\<lambda>_. True)) evs"
    by (simp add: list_all_iff)
qed

text \<open>
  C15: the OKX client never shows a wrong book. If the updates and snapshots pushed to it are those
  of an exchange whose book has the history \<open>hist\<close>, then after any interleaving of pushes, gaps,
  resubscribes, pings, notices, failures and reconnects its engine, when live, holds the exchange's
  book at its checkpoint, and every row of the client that the sink has taken or that is in the
  queue shows the best levels of the exchange's book at the id it carries.
\<close>

theorem okx_rows_true:
  assumes "okx_run (fresh_okx name depth sl mf policy r maxsize t0) evs = Some c"
    and "list_all (okx_carries (faithful_event hist) (faithful_snapshot hist) (own_row_true ''okx'' name hist)) evs"
  shows "(be_state (oc_engine c) = LIVE \<longrightarrow>
      (\<exists>t. be_last_applied_id (oc_engine c) = Some t \<and> engine_book (oc_engine c) = hist t)) \<and>
    (\<forall>row. Row_Taken row \<in> set evs \<longrightarrow> own_row_true ''okx'' name hist row) \<and>
    (\<forall>q. oc_queue c = Some q \<longrightarrow> list_all (own_row_true ''okx'' name hist) (rq_items q))"
proof -
  have start: "okx_ok (replica_good hist) (own_row_true ''okx'' name hist)
      (fresh_okx name depth sl mf policy r maxsize t0)"
    by (rule shared.new_okx_ok [OF fresh_good fresh_queue]) simp_all
  from shared.okx_run_keeps [OF assms(1) start assms(2)] shared.okx_taken_ok [OF assms(1) start assms(2)]
  show ?thesis by (auto simp: okx_ok_def replica_good_def replica_def queue_ok_def)
qed

section \<open>Failed syncs are followed up\<close>

fun okx_worker_event :: "okx_event \<Rightarrow> bool" where
  "okx_worker_event (Resync_Wakes now) = True"
| "okx_worker_event (Resubscribe_Due now) = True"
| "okx_worker_event Unsubscribe_Sent = True"
| "okx_worker_event Resubscribe_Sent = True"
| "okx_worker_event Send_Fails = True"
| "okx_worker_event _ = False"

lemma okx_worker_can_move:
  assumes "worker_fits (oc_worker c) (oc_phase c)" and "okx_alive (oc_phase c)" and "oc_resync_needed c"
  shows "\<exists>ev c'. okx_worker_event ev \<and> okx_next c ev = Some c'"
proof (cases "oc_worker c")
  case RW_Waiting
  then have "okx_next c (Resync_Wakes 0) = Some (resync_wakes c 0)" using assms(3) by simp
  then show ?thesis by (intro exI [of _ "Resync_Wakes 0"]) auto
next
  case (RW_Throttled until)
  then have "okx_next c (Resubscribe_Due until) = Some (send_resubscribe c until)" by simp
  then show ?thesis by (intro exI [of _ "Resubscribe_Due until"]) auto
next
  case (RW_Unsubscribing ws)
  then show ?thesis by (intro exI [of _ Unsubscribe_Sent]) auto
next
  case (RW_Subscribing ws)
  then show ?thesis by (intro exI [of _ Resubscribe_Sent]) auto
qed (use assms in auto)

lemma untrusted_message:
  assumes "okx_ok engine_wf (\<lambda>_. True) c"
  shows "engine_wf (oc_engine (c\<lparr>oc_phase := ph\<rparr>))" "queue_ok (\<lambda>_. True) (oc_queue (c\<lparr>oc_phase := ph\<rparr>))"
    "pred_option (\<lambda>_. True) (text_diff m)" "pred_option (\<lambda>_. True) (text_snapshot m)"
  using assms by (simp_all add: okx_ok_def option.pred_True)

text \<open>
  C16: a failed sync is followed up, and the worker cannot die. In every reachable state, when a
  message takes the book from live to not live, or carries a snapshot after which the book is not
  live, then a resync is requested and the worker can take a step of its own, or the connection is
  being closed. Whatever happens, the worker is never dead.
\<close>

theorem okx_failed_sync_followed_up:
  assumes "okx_run (fresh_okx name depth sl mf policy r maxsize t0) evs = Some c"
    and "okx_next c (Frame_Comes m lns wns lns' wns') = Some c'"
    and "be_state (oc_engine c') \<noteq> LIVE" and "be_state (oc_engine c) = LIVE \<or> text_snapshot m \<noteq> None"
  shows "((oc_resync_needed c' \<and> (\<exists>ev c''. okx_worker_event ev \<and> okx_next c' ev = Some c'')) \<or>
      (\<exists>ws. oc_phase c' = OP_Closing ws \<and> ws \<in> set (oc_closed c'))) \<and>
    (\<forall>err. oc_worker c' \<noteq> RW_Dead err)"
proof -
  note ok = fresh_okx_untrusted [OF assms(1)]
  have run': "okx_run (fresh_okx name depth sl mf policy r maxsize t0) (evs @ [Frame_Comes m lns wns lns' wns']) = Some c'"
    using assms(1,2) by (simp add: okx_run_append)
  note ok' = fresh_okx_untrusted [OF run']
  then have fit: "worker_fits (oc_worker c') (oc_phase c')" by (simp add: okx_ok_def)
  obtain ws out c1 where r: "listening (oc_phase c) = Some ws"
    "okx_read (c\<lparr>oc_phase := OP_Reading ws\<rparr>) m lns wns lns' wns' = (out, c1)"
    "(out = Continues \<and> c' = c1) \<or> (\<exists>err. out = Raises err \<and> c' = c1\<lparr>oc_phase := OP_Leaving err\<rparr>)"
    using assms(2) by (rule frame_comesE)
  have ws: "oc_current_ws c = Some ws" using ok listening_socket [OF r(1)] by (simp add: okx_ok_def)
  have eng: "oc_engine c' = oc_engine c1" using r(3) by auto
  have "(oc_resync_needed c' \<and> okx_alive (oc_phase c')) \<or> (\<exists>ws. oc_phase c' = OP_Closing ws \<and> ws \<in> set (oc_closed c'))"
    using untrusted_message(1,2) [OF ok, of "OP_Reading ws"] untrusted_message(3,4) [OF ok, of m] r(2)
  proof (cases rule: untrusted.okx_message_cases)
    case same
    with assms(3,4) eng show ?thesis by (auto simp: seen_only_def)
  next
    case (update diff queue stats needed)
    then have "be_state (snd (apply_event (oc_engine c) diff)) \<noteq> LIVE" "be_state (oc_engine c) = LIVE"
      using assms(3,4) eng by simp_all
    with apply_event_live(1) have "status (fst (apply_event (oc_engine c) diff)) = GAP_DETECTED" by blast
    with update r(3) show ?thesis by simp
  next
    case (completed s res e queue stats)
    with assms(3) eng show ?thesis by simp
  next
    case (retried s res e stats)
    with r(3) show ?thesis by simp
  next
    case (gave_up s res e stats)
    with r(3) ws show ?thesis by simp
  qed
  with okx_worker_can_move [OF fit] fit show ?thesis by (cases "oc_worker c'") auto
qed

section \<open>A lost snapshot is never asked for again\<close>

fun brings_snapshot :: "okx_event \<Rightarrow> bool" where
  "brings_snapshot (Frame_Comes m lns wns lns' wns') = (text_snapshot m \<noteq> None)"
| "brings_snapshot (Socket_Opens ws) = True"
| "brings_snapshot _ = False"

definition stalled :: "okx_client \<Rightarrow> bool" where
  "stalled c \<longleftrightarrow>
     okx_ok engine_wf (\<lambda>_. True) c \<and> be_state (oc_engine c) \<noteq> LIVE \<and> \<not> oc_resync_needed c \<and>
     oc_worker c \<in> {RW_Waiting, RW_Cancelled}"

definition only_pings :: "okx_client \<Rightarrow> okx_client \<Rightarrow> bool" where
  "only_pings c c' \<longleftrightarrow> (\<exists>pings. oc_sent c' = pings @ oc_sent c \<and> list_all (\<lambda>(ws, m). m = Ping) pings)"

lemma only_pings_same: "oc_sent c' = oc_sent c \<Longrightarrow> only_pings c c'"
  by (simp add: only_pings_def)

lemma only_pings_trans: "only_pings c c1 \<Longrightarrow> only_pings c1 c2 \<Longrightarrow> only_pings c c2"
  unfolding only_pings_def by (metis append.assoc list_all_append)

lemma begin_round_sent: "tb_refill_rate (oc_connection_bucket c) \<noteq> 0 \<Longrightarrow>
   oc_sent (begin_round c now) = oc_sent c \<and> oc_engine (begin_round c now) = oc_engine c \<and>
   oc_resync_needed (begin_round c now) = oc_resync_needed c \<and> oc_worker (begin_round c now) = oc_worker c"
  by (cases rule: begin_round_cases [where c = c and now = now]) (auto simp: open_round_def)

lemma stalled_frame:
  assumes "okx_next c (Frame_Comes m lns wns lns' wns') = Some c'" and "stalled c" and "text_snapshot m = None"
  shows "be_state (oc_engine c') \<noteq> LIVE \<and> \<not> oc_resync_needed c' \<and> oc_worker c' = oc_worker c \<and> oc_sent c' = oc_sent c"
proof -
  obtain ws out c1 where r: "listening (oc_phase c) = Some ws"
    "okx_read (c\<lparr>oc_phase := OP_Reading ws\<rparr>) m lns wns lns' wns' = (out, c1)"
    "(out = Continues \<and> c' = c1) \<or> (\<exists>err. out = Raises err \<and> c' = c1\<lparr>oc_phase := OP_Leaving err\<rparr>)"
    using assms(1) by (rule frame_comesE)
  have eq: "oc_engine c' = oc_engine c1" "oc_resync_needed c' = oc_resync_needed c1" "oc_worker c' = oc_worker c1"
    "oc_sent c' = oc_sent c1" using r(3) by auto
  have ok: "okx_ok engine_wf (\<lambda>_. True) c" using assms(2) by (simp add: stalled_def)
  have "be_state (oc_engine c1) \<noteq> LIVE \<and> \<not> oc_resync_needed c1 \<and> oc_worker c1 = oc_worker c \<and> oc_sent c1 = oc_sent c"
    using untrusted_message(1,2) [OF ok, of "OP_Reading ws"] untrusted_message(3,4) [OF ok, of m] r(2)
  proof (cases rule: untrusted.okx_message_cases)
    case (update diff queue stats needed)
    have "be_state (oc_engine c) \<noteq> LIVE" using assms(2) by (simp add: stalled_def)
    then have "be_state (snd (apply_event (oc_engine c) diff)) \<noteq> LIVE"
      "status (fst (apply_event (oc_engine c) diff)) \<noteq> GAP_DETECTED"
      by (simp_all add: apply_event_def)
    with update assms(2) show ?thesis by (simp add: stalled_def)
  qed (use assms(2,3) in \<open>auto simp: seen_only_def stalled_def\<close>)
  with eq show ?thesis by simp
qed

lemma stalled_step:
  assumes "okx_next c ev = Some c'" and "stalled c" and "\<not> brings_snapshot ev"
  shows "stalled c' \<and> only_pings c c'"
proof -
  have ok: "okx_ok engine_wf (\<lambda>_. True) c" and nl: "be_state (oc_engine c) \<noteq> LIVE" "\<not> oc_resync_needed c"
    "oc_worker c \<in> {RW_Waiting, RW_Cancelled}" using assms(2) by (simp_all add: stalled_def)
  have "okx_carries (\<lambda>_. True) (\<lambda>_. True) (\<lambda>_. True) ev" by (cases ev) (simp_all add: option.pred_True)
  from untrusted.okx_step_keeps [OF assms(1) ok this] have ok': "okx_ok engine_wf (\<lambda>_. True) c'" .
  have rate: "tb_refill_rate (oc_connection_bucket c) \<noteq> 0" using ok by (simp add: okx_ok_def)
  have "be_state (oc_engine c') \<noteq> LIVE \<and> \<not> oc_resync_needed c' \<and> oc_worker c' \<in> {RW_Waiting, RW_Cancelled} \<and>
    only_pings c c'"
  proof (cases ev)
    case (Frame_Comes m lns wns lns' wns')
    with stalled_frame [OF _ assms(2)] assms(1,3) nl show ?thesis by (auto intro: only_pings_same)
  next
    case (Run_Begins now)
    with assms(1) begin_round_sent [OF rate, of now] nl show ?thesis
      by (auto intro: only_pings_same split: if_splits)
  next
    case (Backoff_Ends now)
    with assms(1) begin_round_sent [of "c\<lparr>oc_current_ws := None\<rparr>" now] rate nl show ?thesis
      by (auto intro: only_pings_same split: okx_phase.splits)
  next
    case (Leave_Ends other now)
    then obtain err e where l: "oc_phase c = OP_Leaving err" "c' = on_left c e now"
      using assms(1) by (auto split: okx_phase.splits if_splits)
    have "worker_fits (oc_worker c) (oc_phase c)" using ok by (simp add: okx_ok_def)
    then show ?thesis unfolding l(2)
      by (cases rule: on_left_cases [where err = e and now = now]) (use nl in \<open>auto intro: only_pings_same\<close>)
  next
    case Run_Cancelled
    have "worker_fits (oc_worker c) (oc_phase c)" using ok by (simp add: okx_ok_def)
    from okx_finish_fits [OF this] Run_Cancelled assms(1) nl show ?thesis
      by (auto intro: only_pings_same split: if_splits)
  next
    case Silence
    with assms(1) nl show ?thesis by (auto simp: only_pings_def split: okx_phase.splits)
  qed (insert assms(1,3) nl, auto intro!: only_pings_same simp: open_round_def on_subscribed_def okx_bump_def
      invalidate_def split: okx_phase.splits okx_worker.splits option.splits if_splits)
  with ok' show ?thesis by (simp add: stalled_def)
qed

text \<open>
  C17: a snapshot that never came is never asked for. From any reachable state in which the book is
  not live, no resync is requested and the worker is idle, which is so on a connection whose
  snapshot push was malformed or whose subscription was refused, the book stays not live and
  nothing but pings is sent, through any number of updates, pongs and pings, until a snapshot comes
  unasked or a new connection is opened: no timer asks again, and pongs keep the connection alive.
\<close>

theorem okx_lost_snapshot_stalls:
  assumes "okx_run (fresh_okx name depth sl mf policy r maxsize t0) evs = Some c"
    and "be_state (oc_engine c) \<noteq> LIVE" and "\<not> oc_resync_needed c" and "oc_worker c = RW_Waiting"
    and "okx_run c evs' = Some c'" and "\<not> list_ex brings_snapshot evs'"
  shows "be_state (oc_engine c') \<noteq> LIVE \<and> \<not> oc_resync_needed c' \<and> only_pings c c'"
proof -
  have "stalled c" using fresh_okx_untrusted [OF assms(1)] assms(2-4) by (simp add: stalled_def)
  with assms(5,6) have "stalled c' \<and> only_pings c c'"
  proof (induction evs' arbitrary: c)
    case Nil
    then show ?case by (simp add: only_pings_same)
  next
    case (Cons ev evs)
    then obtain c1 where c1: "okx_next c ev = Some c1" "okx_run c1 evs = Some c'" by (auto split: option.splits)
    with stalled_step [OF c1(1) Cons.prems(3)] Cons.IH [OF c1(2)] Cons.prems(2) show ?case
      by (auto intro: only_pings_trans)
  qed
  then show ?thesis by (simp add: stalled_def)
qed

section \<open>A throttled resubscribe does not look again\<close>

text \<open>
  C18: a resubscribe that was throttled is sent whatever the book has become. When its sleep is over
  and there is a connection, be it a newer one, the unsubscribe and the subscribe are sent there
  without a look at the engine. If the book is live by then, the snapshot this brings makes
  \<open>load_snapshot\<close> raise \<open>ValueError\<close>, which no handler on the way catches: the healthy connection is
  left.
\<close>

theorem okx_resubscribes_blindly:
  assumes "oc_worker c = RW_Throttled until" and "until \<le> now" and "oc_current_ws c = Some ws"
  shows "\<exists>c'. okx_run c [Resubscribe_Due now, Unsubscribe_Sent, Resubscribe_Sent] = Some c' \<and>
    oc_sent c' = (ws, Op_Message (subscribe_message ''subscribe'' (oc_symbol c))) #
      (ws, Op_Message (subscribe_message ''unsubscribe'' (oc_symbol c))) # oc_sent c \<and>
    oc_engine c' = oc_engine c \<and> oc_phase c' = oc_phase c \<and>
    (be_state (oc_engine c) = LIVE \<longrightarrow>
      (\<forall>m lns wns lns' wns' c''. text_snapshot m \<noteq> None \<longrightarrow>
         okx_next c' (Frame_Comes m lns wns lns' wns') = Some c'' \<longrightarrow> oc_phase c'' = OP_Leaving ValueError))"
proof -
  have snd: "send_resubscribe c now = c\<lparr>oc_resubscribe_bucket := snd (try_acquire (oc_resubscribe_bucket c) resubscribe_op_cost now),
      oc_sent := (ws, Op_Message (subscribe_message ''unsubscribe'' (oc_symbol c))) # oc_sent c,
      oc_worker := RW_Unsubscribing ws\<rparr>"
    using assms(3) by (cases rule: send_resubscribe_cases [where c = c and now = now]) auto
  define c' where "c' = c\<lparr>oc_resubscribe_bucket := snd (try_acquire (oc_resubscribe_bucket c) resubscribe_op_cost now),
      oc_sent := (ws, Op_Message (subscribe_message ''subscribe'' (oc_symbol c))) #
        (ws, Op_Message (subscribe_message ''unsubscribe'' (oc_symbol c))) # oc_sent c,
      oc_worker := RW_Waiting\<rparr>"
  have run: "okx_run c [Resubscribe_Due now, Unsubscribe_Sent, Resubscribe_Sent] = Some c'"
    using assms(1,2) snd by (simp add: c'_def send_op_def)
  have "oc_phase c'' = OP_Leaving ValueError"
    if live: "be_state (oc_engine c) = LIVE" and m: "text_snapshot m \<noteq> None"
      and st: "okx_next c' (Frame_Comes m lns wns lns' wns') = Some c''" for m lns wns lns' wns' c''
  proof -
    obtain ws1 out c1 where r: "okx_read (c'\<lparr>oc_phase := OP_Reading ws1\<rparr>) m lns wns lns' wns' = (out, c1)"
      "(out = Continues \<and> c'' = c1) \<or> (\<exists>err. out = Raises err \<and> c'' = c1\<lparr>oc_phase := OP_Leaving err\<rparr>)"
      using st by (rule frame_comesE)
    from r(1) have "out = Raises ValueError"
    proof (cases rule: okx_read_cases)
      case (loaded s res e ems)
      with live show ?thesis by (simp add: c'_def load_snapshot_live)
    qed (use m in simp_all)
    with r(2) show ?thesis by auto
  qed
  with run show ?thesis by (intro exI [of _ c']) (simp add: c'_def)
qed

section \<open>What a message can raise\<close>

lemma has_event_false_dict: "has_event v = Inl err \<Longrightarrow> err = TypeError"
  by (cases v) auto

lemma extract_ts_error:
  "extract_ts key data = Inl err \<Longrightarrow> err \<in> {ValueError, TypeError, OverflowError, AttributeError}"
  using extract_ts_raises by blast

lemma offer_row_raises:
  assumes "okx_ok engine_wf (\<lambda>_. True) c" and "okx_apply (okx_seen c) diff lns wns ems = (Raises err, c')"
  shows False
proof -
  have pre: "engine_wf (oc_engine (okx_seen c))" "queue_ok (\<lambda>_. True) (oc_queue (okx_seen c))"
    using assms(1) by (simp_all add: okx_ok_def okx_bump_def)
  show False
    by (rule untrusted.okx_apply_good [OF pre _ assms(2)]) simp_all
qed

lemma resync_result_raises:
  assumes "okx_ok engine_wf (\<lambda>_. True) c" and "load_snapshot (oc_engine c) s = Inr (res, e)"
    and "handle_resync_result ((okx_seen c)\<lparr>oc_engine := e\<rparr>) res ems lns wns = (Raises err, c')"
  shows False
proof -
  have pre: "engine_wf (oc_engine ((okx_seen c)\<lparr>oc_engine := e\<rparr>))"
    "queue_ok (\<lambda>_. True) (oc_queue ((okx_seen c)\<lparr>oc_engine := e\<rparr>))"
    "be_state (oc_engine ((okx_seen c)\<lparr>oc_engine := e\<rparr>)) = LIVE \<longleftrightarrow> status res = APPLIED"
    using assms(1) load_snapshot_wf [OF _ assms(2)] load_snapshot_status [OF assms(2)]
    by (simp_all add: okx_ok_def okx_bump_def)
  from pre assms(3) show False
    by (cases rule: untrusted.resync_result_good) simp_all
qed

lemma load_snapshot_raises: "load_snapshot e s = Inl err \<Longrightarrow> err = ValueError"
  by (cases "be_state e = LIVE") (auto simp: load_snapshot_live elim: load_snapshot_not_live [where e = e and snapshot = s])

text \<open>The exceptions that come from the text of a message alone, or from a snapshot on a live book.\<close>

definition message_errors :: "py_exc set" where
  "message_errors = {TypeError, AttributeError, ServiceNoticeReconnect, ValueError, OverflowError}"

lemma push_errors:
  assumes "okx_ok engine_wf (\<lambda>_. True) c"
    and "handle_channel_push (okx_seen c) envelope lns wns lns' wns' = (Raises err, c')"
  shows "err \<in> message_errors \<and> seen_only c c'"
proof -
  have eng: "oc_engine (okx_seen c) = oc_engine c" by (simp add: okx_bump_def)
  have upd: "handle_update_push (okx_seen c) data lns wns = (Raises err, c') \<Longrightarrow> err \<in> message_errors \<and> seen_only c c'" for data
    unfolding handle_update_push_def message_errors_def
    by (auto simp: okx_skip_def parse_raises_def split: sum.splits option.splits if_splits
        dest!: parsers_raise(3) extract_ts_error dest: offer_row_raises [OF assms(1)])
  have snp: "handle_snapshot_push (okx_seen c) data lns' wns' = (Raises err, c') \<Longrightarrow> err \<in> message_errors \<and> seen_only c c'" for data
    unfolding handle_snapshot_push_def message_errors_def eng
    by (auto simp: okx_skip_def parse_raises_def split: sum.splits option.splits if_splits
        dest!: parsers_raise(4) extract_ts_error dest: resync_result_raises [OF assms(1)] load_snapshot_raises)
  show ?thesis
    using assms(2) upd snp unfolding handle_channel_push_def
    by (auto simp: okx_skip_def message_errors_def split: sum.splits if_splits simp: get_or_none_error dest!: unwrap_raises(2))
qed

text \<open>
  What a message can raise, and what it leaves. In every reachable state a message ends the
  connection only by a \<open>TypeError\<close>, \<open>AttributeError\<close>, \<open>ValueError\<close> or \<open>OverflowError\<close> of unexpected
  JSON, by a snapshot on a live book, by the service notice, or by an exception of the JSON decoder
  other than \<open>JSONDecodeError\<close>; the book, the rows and the pending resync are then as before the
  message. Building a row and queueing it never raise.
\<close>

theorem okx_message_errors:
  assumes "okx_run (fresh_okx name depth sl mf policy r maxsize t0) evs = Some c"
    and "okx_read c m lns wns lns' wns' = (Raises err, c')"
  shows "(err \<in> message_errors \<or> m = Text (Bad_Frame err)) \<and>
    oc_engine c' = oc_engine c \<and> oc_queue c' = oc_queue c \<and> oc_resync_needed c' = oc_resync_needed c"
proof -
  note ok = fresh_okx_untrusted [OF assms(1)]
  have ctl: "handle_control_message (okx_seen c) envelope = (Raises err, c') \<Longrightarrow> err \<in> message_errors \<and> seen_only c c'" for envelope
    unfolding handle_control_message_def message_errors_def
    by (auto simp: okx_skip_def get_or_none_error split: sum.splits if_splits)
  have "(err \<in> message_errors \<or> m = Text (Bad_Frame err)) \<and> seen_only c c'"
  proof (cases m)
    case Pong
    with assms(2) show ?thesis by (simp add: okx_read_def)
  next
    case (Text frame)
    show ?thesis
    proof (cases "json_loads frame")
      case (Inl e)
      with Text assms(2) have "e = err" "e \<noteq> JSONDecodeError" "c' = okx_seen c"
        by (auto simp: okx_read_def okx_skip_def Let_def split: if_splits)
      with Inl Text show ?thesis by (cases frame) auto
    next
      case (Inr envelope)
      show ?thesis
      proof (cases "has_event envelope")
        case (Inl e)
        with \<open>json_loads frame = Inr envelope\<close> Text assms(2) has_event_false_dict [OF Inl] show ?thesis
          by (auto simp: okx_read_def message_errors_def Let_def)
      next
        case (Inr b)
        with \<open>json_loads frame = Inr envelope\<close> Text assms(2) ctl [of envelope] push_errors [OF ok, of envelope lns wns lns' wns' err c']
        show ?thesis by (cases b) (simp_all add: okx_read_def Let_def)
      qed
    qed
  qed
  then show ?thesis by (auto simp: seen_only_def)
qed

section \<open>The budgets\<close>

fun okx_clock :: "okx_event \<Rightarrow> seconds option" where
  "okx_clock (Run_Begins now) = Some now"
| "okx_clock (Round_Due now) = Some now"
| "okx_clock (Subscribed now) = Some now"
| "okx_clock (Leave_Ends other now) = Some now"
| "okx_clock (Backoff_Ends now) = Some now"
| "okx_clock (Resync_Wakes now) = Some now"
| "okx_clock (Resubscribe_Due now) = Some now"
| "okx_clock _ = None"

fun clock_after :: "seconds \<Rightarrow> okx_event list \<Rightarrow> seconds" where
  "clock_after t [] = t"
| "clock_after t (ev # evs) = clock_after (case okx_clock ev of None \<Rightarrow> t | Some now \<Rightarrow> now) evs"

fun clock_ok :: "seconds \<Rightarrow> okx_event list \<Rightarrow> bool" where
  "clock_ok t [] = True"
| "clock_ok t (ev # evs) =
     (case okx_clock ev of None \<Rightarrow> clock_ok t evs | Some now \<Rightarrow> t \<le> now \<and> clock_ok now evs)"

text \<open>Steps of a run that start something: a connection attempt, a resubscribe.\<close>

fun count_steps :: "(okx_client \<Rightarrow> okx_client \<Rightarrow> bool) \<Rightarrow> okx_client \<Rightarrow> okx_event list \<Rightarrow> nat" where
  "count_steps p c [] = 0"
| "count_steps p c (ev # evs) =
     (case okx_next c ev of None \<Rightarrow> 0 | Some c' \<Rightarrow> (if p c c' then 1 else 0) + count_steps p c' evs)"

definition starts_attempt :: "okx_client \<Rightarrow> okx_client \<Rightarrow> bool" where
  "starts_attempt c c' \<longleftrightarrow> oc_phase c \<noteq> OP_Opening \<and> oc_phase c' = OP_Opening"

fun unsubscribing :: "okx_worker \<Rightarrow> bool" where
  "unsubscribing (RW_Unsubscribing ws) = True"
| "unsubscribing _ = False"

definition starts_resubscribe :: "okx_client \<Rightarrow> okx_client \<Rightarrow> bool" where
  "starts_resubscribe c c' \<longleftrightarrow> \<not> unsubscribing (oc_worker c) \<and> unsubscribing (oc_worker c')"

fun attempt_until :: "okx_phase \<Rightarrow> seconds option" where
  "attempt_until (OP_Throttled until) = Some until"
| "attempt_until _ = None"

fun resubscribe_until :: "okx_worker \<Rightarrow> seconds option" where
  "resubscribe_until (RW_Throttled until) = Some until"
| "resubscribe_until _ = None"

text \<open>What is kept of a bucket: what was taken from it, its clock, and the gate of a sleep.\<close>

definition budget_ok ::
  "rat \<Rightarrow> rat \<Rightarrow> seconds \<Rightarrow> rat \<Rightarrow> nat \<Rightarrow> seconds \<Rightarrow> token_bucket \<Rightarrow> seconds option \<Rightarrow> bool" where
  "budget_ok capacity rate t0 cost n t b until \<longleftrightarrow>
     spent capacity rate t0 (of_nat n * cost) b \<and> tb_last_refill b \<le> t \<and> pred_option (throttle_gate cost b) until"

lemma budget_later:
  "budget_ok capacity rate t0 cost n t b until \<Longrightarrow> t \<le> t' \<Longrightarrow> until' = until \<or> until' = None \<Longrightarrow>
     budget_ok capacity rate t0 cost n t' b until'"
  by (auto simp: budget_ok_def)

lemma budget_wait:
  assumes "budget_ok capacity rate t0 cost n t b until" and "t \<le> now" and "rate \<noteq> 0"
    and "time_until_available b cost now = (Inr wait, b')"
  shows "budget_ok capacity rate t0 cost n now b' (Some (now + wait))"
  using wait_gate [of capacity rate t0 "of_nat n * cost" b now cost wait b'] assms by (simp add: budget_ok_def)

lemma budget_acquire:
  assumes "budget_ok capacity rate t0 cost n t b (Some until)" and "t \<le> now" and "until \<le> now"
    and "0 \<le> cost" and "cost \<le> capacity"
  shows "budget_ok capacity rate t0 cost (n + 1) now (snd (try_acquire b cost now)) None"
  using gate_acquire [of capacity rate t0 "of_nat n * cost" b now cost until] assms
  by (simp add: budget_ok_def algebra_simps)

lemma begin_round_budget:
  assumes "budget_ok 3 3 t0 1 n t (oc_connection_bucket c) until" and "t \<le> now"
    and "tb_refill_rate (oc_connection_bucket c) \<noteq> 0"
  shows "budget_ok 3 3 t0 1 (n + (if oc_phase (begin_round c now) = OP_Opening then 1 else 0)) now
    (oc_connection_bucket (begin_round c now)) (attempt_until (oc_phase (begin_round c now)))"
  using assms(3)
proof (cases rule: begin_round_cases [where now = now])
  case (throttled wait)
  with budget_wait [OF assms(1,2) _ throttled(1)] show ?thesis by simp
next
  case (opened wait)
  from budget_wait [OF assms(1,2) _ opened(1)]
  have "budget_ok 3 3 t0 1 n now (refill (oc_connection_bucket c) now) (Some (now + wait))" by simp
  from budget_acquire [OF this order_refl] opened show ?thesis by (simp add: open_round_def)
qed

text \<open>A message does not touch the buckets, the worker or the sleep of the loop.\<close>

lemma frame_budget_frame:
  assumes "okx_next c (Frame_Comes m lns wns lns' wns') = Some c'" and "okx_ok engine_wf (\<lambda>_. True) c"
  shows "oc_connection_bucket c' = oc_connection_bucket c" "oc_resubscribe_bucket c' = oc_resubscribe_bucket c"
    "oc_worker c' = oc_worker c" "oc_phase c' \<noteq> OP_Opening" "attempt_until (oc_phase c') = None"
proof -
  obtain ws out c1 where r: "listening (oc_phase c) = Some ws"
    "okx_read (c\<lparr>oc_phase := OP_Reading ws\<rparr>) m lns wns lns' wns' = (out, c1)"
    "(out = Continues \<and> c' = c1) \<or> (\<exists>err. out = Raises err \<and> c' = c1\<lparr>oc_phase := OP_Leaving err\<rparr>)"
    using assms(1) by (rule frame_comesE)
  have "oc_connection_bucket c1 = oc_connection_bucket c \<and> oc_resubscribe_bucket c1 = oc_resubscribe_bucket c \<and>
    oc_worker c1 = oc_worker c \<and> oc_phase c1 \<noteq> OP_Opening \<and> attempt_until (oc_phase c1) = None"
    using untrusted_message(1,2) [OF assms(2), of "OP_Reading ws"] untrusted_message(3,4) [OF assms(2), of m] r(2)
    by (cases rule: untrusted.okx_message_cases) (auto simp: seen_only_def split: option.splits)
  with r(3) show "oc_connection_bucket c' = oc_connection_bucket c" "oc_resubscribe_bucket c' = oc_resubscribe_bucket c"
    "oc_worker c' = oc_worker c" "oc_phase c' \<noteq> OP_Opening" "attempt_until (oc_phase c') = None" by auto
qed

fun attempt_event :: "okx_event \<Rightarrow> bool" where
  "attempt_event (Run_Begins now) = True"
| "attempt_event (Round_Due now) = True"
| "attempt_event (Backoff_Ends now) = True"
| "attempt_event _ = False"

fun resubscribe_event :: "okx_event \<Rightarrow> bool" where
  "resubscribe_event (Resync_Wakes now) = True"
| "resubscribe_event (Resubscribe_Due now) = True"
| "resubscribe_event _ = False"

lemma begin_round_frame:
  assumes "tb_refill_rate (oc_connection_bucket c) \<noteq> 0"
  shows "oc_resubscribe_bucket (begin_round c now) = oc_resubscribe_bucket c" "oc_worker (begin_round c now) = oc_worker c"
  using assms by (cases rule: begin_round_cases [where now = now]; simp add: open_round_def)+

lemma request_frame:
  assumes "tb_refill_rate (oc_resubscribe_bucket c) \<noteq> 0"
  shows "oc_connection_bucket (request_resubscribe c now) = oc_connection_bucket c \<and>
    oc_phase (request_resubscribe c now) = oc_phase c"
  using assms
proof (cases rule: request_cases [where now = now])
  case (sent wait)
  then show ?thesis
    by (cases rule: send_resubscribe_cases [where c = "c\<lparr>oc_resubscribe_bucket := refill (oc_resubscribe_bucket c) now\<rparr>"
          and now = now]) simp_all
qed (simp add: okx_bump_def)

lemma okx_ok_facts:
  assumes "okx_ok good row_ok c"
  shows "tb_refill_rate (oc_connection_bucket c) \<noteq> 0" "tb_refill_rate (oc_resubscribe_bucket c) \<noteq> 0"
    "worker_fits (oc_worker c) (oc_phase c)"
  using assms by (simp_all add: okx_ok_def)

text \<open>Other events leave a bucket alone, and start nothing that pays from it.\<close>

lemma attempt_frame:
  assumes "okx_next c ev = Some c'" and "okx_ok engine_wf (\<lambda>_. True) c" and "\<not> attempt_event ev"
  shows "oc_connection_bucket c' = oc_connection_bucket c \<and>
    (oc_phase c' = oc_phase c \<or> (oc_phase c' \<noteq> OP_Opening \<and> attempt_until (oc_phase c') = None))"
proof (cases ev)
  case (Frame_Comes m lns wns lns' wns')
  with frame_budget_frame [of c m lns wns lns' wns' c'] assms show ?thesis by simp
next
  case (Leave_Ends other now)
  then obtain err e where l: "oc_phase c = OP_Leaving err" "c' = on_left c e now"
    using assms(1) by (auto split: okx_phase.splits if_splits)
  show ?thesis unfolding l(2)
    using okx_ok_facts(3) [OF assms(2)] by (cases rule: on_left_cases [where err = e and now = now]) simp_all
next
  case Run_Cancelled
  with okx_finish_fits [OF okx_ok_facts(3) [OF assms(2)]] assms(1) show ?thesis by (auto split: if_splits)
next
  case (Resync_Wakes now)
  with assms(1) request_frame [of "c\<lparr>oc_resync_needed := False\<rparr>" now] okx_ok_facts(2) [OF assms(2)] show ?thesis
    by (auto simp: resync_wakes_def Let_def split: if_splits)
next
  case (Resubscribe_Due now)
  then have "c' = send_resubscribe c now" using assms(1) by (auto split: okx_worker.splits if_splits)
  then show ?thesis by (cases rule: send_resubscribe_cases [where c = c and now = now]) simp_all
qed (insert assms(1,3), auto simp: on_socket_def on_subscribed_def send_op_def okx_bump_def
    split: okx_phase.splits okx_worker.splits option.splits if_splits)

lemma resubscribe_frame:
  assumes "okx_next c ev = Some c'" and "okx_ok engine_wf (\<lambda>_. True) c" and "\<not> resubscribe_event ev"
  shows "oc_resubscribe_bucket c' = oc_resubscribe_bucket c \<and>
    (oc_worker c' = oc_worker c \<or> (\<not> unsubscribing (oc_worker c') \<and> resubscribe_until (oc_worker c') = None))"
proof (cases ev)
  case (Frame_Comes m lns wns lns' wns')
  with frame_budget_frame [of c m lns wns lns' wns' c'] assms show ?thesis by simp
next
  case (Leave_Ends other now)
  then obtain err e where l: "oc_phase c = OP_Leaving err" "c' = on_left c e now"
    using assms(1) by (auto split: okx_phase.splits if_splits)
  show ?thesis unfolding l(2)
    using okx_ok_facts(3) [OF assms(2)] by (cases rule: on_left_cases [where err = e and now = now]) simp_all
next
  case Run_Cancelled
  with okx_finish_fits [OF okx_ok_facts(3) [OF assms(2)]] assms(1) show ?thesis by (auto split: if_splits)
next
  case (Run_Begins now)
  with assms(1) begin_round_frame [OF okx_ok_facts(1) [OF assms(2)]] show ?thesis by (auto split: if_splits)
next
  case (Backoff_Ends now)
  with assms(1) begin_round_frame [of "c\<lparr>oc_current_ws := None\<rparr>" now] okx_ok_facts(1) [OF assms(2)] show ?thesis
    by (auto split: okx_phase.splits)
qed (insert assms(1,3), auto simp: on_socket_def on_subscribed_def send_op_def okx_bump_def open_round_def
    split: okx_phase.splits okx_worker.splits option.splits if_splits)

lemma attempt_step:
  assumes "okx_next c ev = Some c'" and "okx_ok engine_wf (\<lambda>_. True) c"
    and "budget_ok 3 3 t0 1 n t (oc_connection_bucket c) (attempt_until (oc_phase c))"
    and "\<And>now. okx_clock ev = Some now \<Longrightarrow> t \<le> now"
  shows "budget_ok 3 3 t0 1 (n + (if starts_attempt c c' then 1 else 0))
    (case okx_clock ev of None \<Rightarrow> t | Some now \<Rightarrow> now) (oc_connection_bucket c') (attempt_until (oc_phase c'))"
proof (cases "attempt_event ev")
  case False
  note f = attempt_frame [OF assms(1,2) False]
  then have "\<not> starts_attempt c c'" by (auto simp: starts_attempt_def)
  moreover have "budget_ok 3 3 t0 1 n (case okx_clock ev of None \<Rightarrow> t | Some now \<Rightarrow> now) (oc_connection_bucket c')
      (attempt_until (oc_phase c'))"
    unfolding conjunct1 [OF f] by (rule budget_later [OF assms(3)]) (use assms(4) f in \<open>auto split: option.splits\<close>)
  ultimately show ?thesis by simp
next
  case True
  note rate = okx_ok_facts(1) [OF assms(2)]
  from True show ?thesis
  proof (cases ev)
    case (Run_Begins now)
    with assms(1) have c': "c' = begin_round c now" "oc_phase c \<noteq> OP_Opening" by (auto split: if_splits)
    have "t \<le> now" using assms(4) [of now] Run_Begins by simp
    from begin_round_budget [OF assms(3) this rate] Run_Begins c' show ?thesis by (simp add: starts_attempt_def)
  next
    case (Backoff_Ends now)
    with assms(1) have c': "c' = begin_round (c\<lparr>oc_current_ws := None\<rparr>) now" "oc_phase c \<noteq> OP_Opening"
      by (auto split: okx_phase.splits)
    have "t \<le> now" using assms(4) [of now] Backoff_Ends by simp
    from begin_round_budget [OF _ this, of t0 n "c\<lparr>oc_current_ws := None\<rparr>"] assms(3) rate Backoff_Ends c' show ?thesis
      by (simp add: starts_attempt_def)
  next
    case (Round_Due now)
    with assms(1) obtain until where c': "oc_phase c = OP_Throttled until" "until \<le> now" "c' = open_round c now"
      by (auto split: okx_phase.splits if_splits)
    have "t \<le> now" using assms(4) [of now] Round_Due by simp
    from budget_acquire [OF _ this c'(2)] assms(3) c' Round_Due show ?thesis
      by (simp add: starts_attempt_def open_round_def)
  qed simp_all
qed

lemma send_resubscribe_budget:
  assumes "budget_ok 40 (480 / 3600) t0 2 n t (oc_resubscribe_bucket c) (Some until)" and "t \<le> now" and "until \<le> now"
    and "\<not> unsubscribing (oc_worker c)"
  shows "budget_ok 40 (480 / 3600) t0 2 (n + (if starts_resubscribe c (send_resubscribe c now) then 1 else 0)) now
    (oc_resubscribe_bucket (send_resubscribe c now)) (resubscribe_until (oc_worker (send_resubscribe c now)))"
proof -
  from budget_acquire [OF assms(1-3)]
  have b: "budget_ok 40 (480 / 3600) t0 2 (n + 1) now (snd (try_acquire (oc_resubscribe_bucket c) 2 now)) None" by simp
  have low: "budget_ok 40 (480 / 3600) t0 2 n now (snd (try_acquire (oc_resubscribe_bucket c) 2 now)) None"
    using b spent_mono [of 40 "480 / 3600" t0 "of_nat (n + 1) * 2" _ "of_nat n * 2"] by (simp add: budget_ok_def)
  show ?thesis
  proof (cases rule: send_resubscribe_cases [where c = c and now = now])
    case idle
    then have "\<not> starts_resubscribe c (send_resubscribe c now)" by (simp add: starts_resubscribe_def)
    with low idle show ?thesis by (simp add: resubscribe_op_cost_def)
  next
    case (sends ws)
    then have "starts_resubscribe c (send_resubscribe c now)" using assms(4) by (simp add: starts_resubscribe_def)
    with b sends show ?thesis by (simp add: resubscribe_op_cost_def)
  qed
qed

lemma resubscribe_step:
  assumes "okx_next c ev = Some c'" and "okx_ok engine_wf (\<lambda>_. True) c"
    and "budget_ok 40 (480 / 3600) t0 2 n t (oc_resubscribe_bucket c) (resubscribe_until (oc_worker c))"
    and "\<And>now. okx_clock ev = Some now \<Longrightarrow> t \<le> now"
  shows "budget_ok 40 (480 / 3600) t0 2 (n + (if starts_resubscribe c c' then 1 else 0))
    (case okx_clock ev of None \<Rightarrow> t | Some now \<Rightarrow> now) (oc_resubscribe_bucket c') (resubscribe_until (oc_worker c'))"
proof (cases "resubscribe_event ev")
  case False
  note f = resubscribe_frame [OF assms(1,2) False]
  then have "\<not> starts_resubscribe c c'" by (auto simp: starts_resubscribe_def)
  moreover have "budget_ok 40 (480 / 3600) t0 2 n (case okx_clock ev of None \<Rightarrow> t | Some now \<Rightarrow> now)
      (oc_resubscribe_bucket c') (resubscribe_until (oc_worker c'))"
    unfolding conjunct1 [OF f] by (rule budget_later [OF assms(3)]) (use assms(4) f in \<open>auto split: option.splits\<close>)
  ultimately show ?thesis by simp
next
  case True
  note rate = okx_ok_facts(2) [OF assms(2)]
  from True show ?thesis
  proof (cases ev)
    case (Resync_Wakes now)
    with assms(1) have c': "oc_worker c = RW_Waiting" "c' = resync_wakes c now" by (auto split: if_splits)
    have now: "t \<le> now" using assms(4) [of now] Resync_Wakes by simp
    let ?c = "c\<lparr>oc_resync_needed := False\<rparr>"
    show ?thesis
    proof (cases "be_state (oc_engine c) = LIVE")
      case True
      with c' Resync_Wakes budget_later [OF assms(3) now] show ?thesis by (simp add: resync_wakes_def starts_resubscribe_def)
    next
      case False
      with c'(2) have c'': "c' = request_resubscribe ?c now" by (simp add: resync_wakes_def)
      have "tb_refill_rate (oc_resubscribe_bucket ?c) \<noteq> 0" using rate by simp
      then show ?thesis
      proof (cases rule: request_cases [where now = now])
        case (throttled wait)
        with budget_wait [OF assms(3) now, of wait "refill (oc_resubscribe_bucket c) now"] c'' c'(1) Resync_Wakes show ?thesis
          by (simp add: starts_resubscribe_def okx_bump_def resubscribe_op_cost_def)
      next
        case (sent wait)
        let ?d = "?c\<lparr>oc_resubscribe_bucket := refill (oc_resubscribe_bucket c) now\<rparr>"
        have "budget_ok 40 (480 / 3600) t0 2 n now (oc_resubscribe_bucket ?d) (Some (now + wait))"
          using budget_wait [OF assms(3) now, of wait "refill (oc_resubscribe_bucket c) now"] sent(1)
          by (simp add: resubscribe_op_cost_def)
        from send_resubscribe_budget [OF this order_refl] sent(2,3) c'' c'(1) Resync_Wakes show ?thesis
          by (simp add: starts_resubscribe_def)
      qed
    qed
  next
    case (Resubscribe_Due now)
    with assms(1) obtain until where c': "oc_worker c = RW_Throttled until" "until \<le> now" "c' = send_resubscribe c now"
      by (auto split: okx_worker.splits if_splits)
    have "t \<le> now" using assms(4) [of now] Resubscribe_Due by simp
    from send_resubscribe_budget [OF _ this c'(2)] assms(3) c' Resubscribe_Due show ?thesis by simp
  qed simp_all
qed

lemma budget_run:
  assumes "okx_run c evs = Some c'" and "okx_ok engine_wf (\<lambda>_. True) c" and "clock_ok t evs"
    and "budget_ok 3 3 t0 1 n t (oc_connection_bucket c) (attempt_until (oc_phase c))"
    and "budget_ok 40 (480 / 3600) t0 2 k t (oc_resubscribe_bucket c) (resubscribe_until (oc_worker c))"
  shows "budget_ok 3 3 t0 1 (n + count_steps starts_attempt c evs) (clock_after t evs) (oc_connection_bucket c')
      (attempt_until (oc_phase c')) \<and>
    budget_ok 40 (480 / 3600) t0 2 (k + count_steps starts_resubscribe c evs) (clock_after t evs)
      (oc_resubscribe_bucket c') (resubscribe_until (oc_worker c'))"
  using assms
proof (induction evs arbitrary: c t n k)
  case (Cons ev evs)
  then obtain c1 where c1: "okx_next c ev = Some c1" "okx_run c1 evs = Some c'" by (auto split: option.splits)
  let ?t = "case okx_clock ev of None \<Rightarrow> t | Some now \<Rightarrow> now"
  have mono: "okx_clock ev = Some now \<Longrightarrow> t \<le> now" for now using Cons.prems(3) by simp
  have ok: "okx_ok engine_wf (\<lambda>_. True) c1"
  proof (rule untrusted.okx_step_keeps [OF c1(1) Cons.prems(2)])
    show "okx_carries (\<lambda>_. True) (\<lambda>_. True) (\<lambda>_. True) ev" by (cases ev) (simp_all add: option.pred_True)
  qed
  have clk: "clock_ok ?t evs" using Cons.prems(3) by (simp split: option.splits)
  from Cons.IH [OF c1(2) ok clk attempt_step [OF c1(1) Cons.prems(2,4) mono] resubscribe_step [OF c1(1) Cons.prems(2,5) mono]]
  show ?case using c1(1) by (simp add: add.assoc)
qed simp

text \<open>
  C19: the two budgets. In every run whose clock does not go back, the connection attempts are at
  most three plus three for every second passed, and the operations sent to resubscribe, two each
  time, are at most forty plus 480 for every hour passed, over all connections, although the result
  of \<open>try_acquire\<close> is never looked at.
\<close>

theorem okx_budgets:
  assumes "okx_run (fresh_okx name depth sl mf policy r maxsize t0) evs = Some c" and "clock_ok t0 evs"
  shows "of_nat (count_steps starts_attempt (fresh_okx name depth sl mf policy r maxsize t0) evs)
      \<le> 3 + 3 * (clock_after t0 evs - t0) \<and>
    2 * of_nat (count_steps starts_resubscribe (fresh_okx name depth sl mf policy r maxsize t0) evs)
      \<le> 40 + 480 / 3600 * (clock_after t0 evs - t0)"
proof -
  let ?c = "fresh_okx name depth sl mf policy r maxsize t0"
  have ok: "okx_ok engine_wf (\<lambda>_. True) ?c" by (rule fresh_okx_untrusted [where evs = "[]"]) simp
  have b: "budget_ok 3 3 t0 1 0 t0 (oc_connection_bucket ?c) (attempt_until (oc_phase ?c))"
    "budget_ok 40 (480 / 3600) t0 2 0 t0 (oc_resubscribe_bucket ?c) (resubscribe_until (oc_worker ?c))"
    using new_bucket_spent [of 3 3 t0] new_bucket_spent [of 40 "480 / 3600" t0]
    by (simp_all add: budget_ok_def new_okx_client_def default_connection_bucket_def default_resubscribe_bucket_def)
      (simp_all add: new_bucket_def)
  from budget_run [OF assms(1) ok assms(2) b] show ?thesis
    using spent_bound [of 3 3 t0 "of_nat (count_steps starts_attempt ?c evs) * 1" "oc_connection_bucket c" "clock_after t0 evs"]
      spent_bound [of 40 "480 / 3600" t0 "of_nat (count_steps starts_resubscribe ?c evs) * 2" "oc_resubscribe_bucket c" "clock_after t0 evs"]
    by (simp add: budget_ok_def)
qed

section \<open>Witnesses\<close>

definition okx_text_push :: "string \<Rightarrow> (string \<times> json) list \<Rightarrow> okx_text" where
  "okx_text_push action data = Text (Json_Frame (JDict [(''action'', JStr action), (''data'', JList [JDict data])]))"

definition demo_snapshot_push :: okx_text where
  "demo_snapshot_push = okx_text_push ''snapshot''
     [(''asks'', JList []), (''bids'', JList [JList [JStr ''100'', JStr ''2'', JStr ''0'', JStr ''1'']]),
      (''seqId'', JInt 12), (''prevSeqId'', JInt (-1))]"

definition demo_gap_push :: okx_text where
  "demo_gap_push = okx_text_push ''update''
     [(''asks'', JList []), (''bids'', JList []), (''seqId'', JInt 12), (''prevSeqId'', JInt 9)]"

definition demo_refusal :: okx_text where
  "demo_refusal = Text (Json_Frame (JDict [(''event'', JStr ''error''), (''code'', JStr ''60012'')]))"

definition demo_okx :: okx_client where
  "demo_okx = fresh_okx ''BTC-USDT'' 20 20 2 default_backoff_policy (\<lambda>_. 0) 100 0"

definition demo_connect :: "okx_event list" where
  "demo_connect = [Run_Begins 0, Socket_Opens 1, Subscribed 0]"

definition demo_live :: "okx_event list" where
  "demo_live = demo_connect @ [Frame_Comes demo_snapshot_push 5 6 7 8]"

text \<open>A subscription that is refused, and pongs that keep its connection alive.\<close>

definition demo_refused :: "okx_event list" where
  "demo_refused = demo_connect @ [Frame_Comes demo_refusal 5 6 7 8]"

definition demo_pings :: "okx_event list" where
  "demo_pings = [Silence, Ping_Sent, Frame_Comes Pong 5 6 7 8, Silence, Ping_Sent, Frame_Comes Pong 5 6 7 8]"

text \<open>A gap, a resubscribe and a new snapshot.\<close>

definition demo_resync :: "okx_event list" where
  "demo_resync = [Frame_Comes demo_gap_push 5 6 7 8, Resync_Wakes 0, Unsubscribe_Sent, Resubscribe_Sent,
     Frame_Comes demo_snapshot_push 5 6 7 8]"

text \<open>
  With a bucket of two operations, a second gap after that finds it empty; the connection is lost
  while the worker sleeps, and the next one is live.
\<close>

definition small_okx :: okx_client where
  "small_okx = new_okx_client ''BTC-USDT'' (new_engine 20) 20 2 default_backoff_policy (\<lambda>_. 0)
     (new_bucket 2 (480 / 3600) 0) (default_connection_bucket 0) (Some (new_row_queue 100))"

definition demo_lost :: "okx_event list" where
  "demo_lost = demo_live @ demo_resync @
     [Frame_Comes demo_gap_push 5 6 7 8, Resync_Wakes 0, Connection_Fails ConnectionClosed]"

definition demo_again :: "okx_event list" where
  "demo_again = [Leave_Ends None 0, Backoff_Ends 0, Socket_Opens 2, Subscribed 0, Frame_Comes demo_snapshot_push 5 6 7 8]"

lemma demo_snapshot_parsed:
  "text_snapshot demo_snapshot_push = Some \<lparr>last_update_id = 12, sn_bids = [(100, 2)], sn_asks = []\<rparr>"
  "text_diff demo_snapshot_push = None"
  by code_simp+

lemma demo_live_run:
  obtains c where "okx_run demo_okx demo_live = Some c" "be_state (oc_engine c) = LIVE"
    "oc_phase c = OP_Reading 1" "engine_book (oc_engine c) = ([100 \<mapsto> 2], Map.empty)"
proof -
  have "map_option (\<lambda>c. (be_state (oc_engine c), oc_phase c, be_bids (oc_engine c), be_asks (oc_engine c)))
      (okx_run demo_okx demo_live) = Some (LIVE, OP_Reading 1, [(100, 2)], [])" by code_simp
  then show thesis by (auto intro: that simp: engine_book_def)
qed

lemma okx_rows_true_witness:
  "\<exists>c. okx_run demo_okx demo_live = Some c \<and> be_state (oc_engine c) = LIVE \<and>
     (\<exists>t. be_last_applied_id (oc_engine c) = Some t \<and>
        engine_book (oc_engine c) = snapshot_book \<lparr>last_update_id = 12, sn_bids = [(100, 2)], sn_asks = []\<rparr>)"
proof -
  obtain c where c: "okx_run demo_okx demo_live = Some c" "be_state (oc_engine c) = LIVE" by (rule demo_live_run)
  let ?s = "\<lparr>last_update_id = 12, sn_bids = [(100, 2)], sn_asks = []\<rparr>"
  have "list_all (okx_carries (faithful_event (\<lambda>_. snapshot_book ?s)) (faithful_snapshot (\<lambda>_. snapshot_book ?s))
      (own_row_true ''okx'' ''BTC-USDT'' (\<lambda>_. snapshot_book ?s))) demo_live"
    by (simp add: demo_live_def demo_connect_def demo_snapshot_parsed faithful_snapshot_def)
  from okx_rows_true [OF c(1) [unfolded demo_okx_def] this] c show ?thesis by auto
qed

lemma okx_failed_sync_followed_up_witness:
  "\<exists>c c'. okx_run demo_okx demo_live = Some c \<and> okx_next c (Frame_Comes demo_gap_push 5 6 7 8) = Some c' \<and>
     oc_resync_needed c' \<and> (\<exists>ev c''. okx_worker_event ev \<and> okx_next c' ev = Some c'')"
proof -
  obtain c where c: "okx_run demo_okx demo_live = Some c" "be_state (oc_engine c) = LIVE" by (rule demo_live_run)
  have "map_option (\<lambda>c. (be_state (oc_engine c), oc_phase c))
      (okx_run demo_okx (demo_live @ [Frame_Comes demo_gap_push 5 6 7 8])) = Some (RESYNCING, OP_Reading 1)"
    by code_simp
  then obtain c' where c': "okx_next c (Frame_Comes demo_gap_push 5 6 7 8) = Some c'" "be_state (oc_engine c') = RESYNCING"
    "oc_phase c' = OP_Reading 1" using c(1) by (auto simp: okx_run_append split: option.splits)
  have "be_state (oc_engine c') \<noteq> LIVE" "be_state (oc_engine c) = LIVE \<or> text_snapshot demo_gap_push \<noteq> None"
    using c c' by simp_all
  from okx_failed_sync_followed_up [OF c(1) [unfolded demo_okx_def] c'(1) this] c(1) c' show ?thesis by auto
qed

lemma okx_lost_snapshot_stalls_witness:
  "\<exists>c'. okx_run demo_okx (demo_refused @ demo_pings) = Some c' \<and>
     oc_phase c' = OP_Reading 1 \<and> be_state (oc_engine c') \<noteq> LIVE \<and> \<not> oc_resync_needed c'"
proof -
  have "map_option (\<lambda>c. (be_state (oc_engine c), oc_resync_needed c, oc_worker c)) (okx_run demo_okx demo_refused) =
      Some (BUFFERING, False, RW_Waiting)" by code_simp
  then obtain c where c: "okx_run demo_okx demo_refused = Some c" "be_state (oc_engine c) = BUFFERING" "\<not> oc_resync_needed c"
    "oc_worker c = RW_Waiting" by auto
  have "map_option oc_phase (okx_run demo_okx (demo_refused @ demo_pings)) = Some (OP_Reading 1)" by code_simp
  then obtain c' where all: "okx_run demo_okx (demo_refused @ demo_pings) = Some c'" "oc_phase c' = OP_Reading 1" by auto
  with c(1) have c': "okx_run c demo_pings = Some c'" by (simp add: okx_run_append)
  have "\<not> list_ex brings_snapshot demo_pings" by code_simp
  moreover have "be_state (oc_engine c) \<noteq> LIVE" using c(2) by simp
  ultimately have "be_state (oc_engine c') \<noteq> LIVE \<and> \<not> oc_resync_needed c' \<and> only_pings c c'"
    using okx_lost_snapshot_stalls [OF c(1) [unfolded demo_okx_def] _ c(3,4) c'] by blast
  with all show ?thesis by simp
qed

text \<open>A snapshot on a fresh connection makes the book live.\<close>

lemma first_snapshot:
  assumes "okx_ok engine_wf (\<lambda>_. True) c" and "oc_phase c = OP_Reading ws" and "be_state (oc_engine c) \<noteq> LIVE"
    and "be_buffer (oc_engine c) = []"
  obtains c' where "okx_next c (Frame_Comes demo_snapshot_push 5 6 7 8) = Some c'" "be_state (oc_engine c') = LIVE"
    "oc_phase c' = OP_Reading ws" "oc_worker c' = oc_worker c" "oc_current_ws c' = oc_current_ws c"
proof -
  obtain out c' where r: "okx_read (c\<lparr>oc_phase := OP_Reading ws\<rparr>) demo_snapshot_push 5 6 7 8 = (out, c')" by fastforce
  have load: "load_snapshot (oc_engine c) s = Inr (res, e) \<Longrightarrow> be_state e = LIVE" for s res e
    using assms(3,4) by (auto simp: load_snapshot_def survivors_def Let_def)
  have "out = Continues \<and> be_state (oc_engine c') = LIVE \<and> oc_phase c' = OP_Reading ws \<and> oc_worker c' = oc_worker c \<and>
      oc_current_ws c' = oc_current_ws c"
    using untrusted_message(1,2) [OF assms(1), of "OP_Reading ws"] untrusted_message(3,4) [OF assms(1), of demo_snapshot_push] r
    by (cases rule: untrusted.okx_message_cases) (use assms(3) load in \<open>auto simp: demo_snapshot_parsed\<close>)
  with r assms(2) show thesis by (intro that [of c']) (simp_all add: after_read_def)
qed

text \<open>A connection that is lost while the worker sleeps, and the next one.\<close>

lemma demo_reconnect:
  assumes "okx_ok engine_wf (\<lambda>_. True) c" and "oc_phase c = OP_Leaving ConnectionClosed"
    and "cm_attempt (oc_connection c) = 0" and "oc_max_failures c = 2"
    and "oc_connection_bucket c = \<lparr>tb_capacity = 3, tb_refill_rate = 3, tb_tokens = 2, tb_last_refill = 0\<rparr>"
  obtains c' where "okx_run c demo_again = Some c'" "be_state (oc_engine c') = LIVE"
    "oc_phase c' = OP_Reading 2" "oc_worker c' = oc_worker c" "oc_current_ws c' = Some 2"
proof -
  obtain delay cm where d: "disconnected (oc_connection c) 0 = (Inr delay, cm)"
    using disconnected_delay [of "oc_connection c" 0] assms(3) by auto
  have "cm_attempt cm = 1" using disconnected_simps(5) [of "oc_connection c" 0] d assms(3) by simp
  then have left: "on_left c ConnectionClosed 0 =
      (okx_bump ''ws_disconnected'' c)\<lparr>oc_connection := cm, oc_phase := OP_Backing_Off delay\<rparr>"
    using d assms(4) by (simp add: on_left_def next_attempt_def okx_bump_def)
  obtain c1 where c1: "okx_run c [Leave_Ends None 0, Backoff_Ends 0, Socket_Opens 2, Subscribed 0] = Some c1"
    "oc_phase c1 = OP_Reading 2" "oc_engine c1 = invalidate (oc_engine c)" "oc_worker c1 = oc_worker c"
    "oc_current_ws c1 = Some 2"
    using assms(2) left
    by (simp add: begin_round_def time_until_available_def refill_def open_round_def on_socket_def on_subscribed_def
        send_op_def okx_bump_def assms(5))
  have "list_all (okx_carries (\<lambda>_. True) (\<lambda>_. True) (\<lambda>_. True)) [Leave_Ends None 0, Backoff_Ends 0, Socket_Opens 2, Subscribed 0]"
    by simp
  from untrusted.okx_run_keeps [OF c1(1) assms(1) this] have ok: "okx_ok engine_wf (\<lambda>_. True) c1" .
  have inv: "be_state (oc_engine c1) \<noteq> LIVE" "be_buffer (oc_engine c1) = []"
    unfolding c1(3) by (simp_all add: invalidate_def)
  obtain c' where c': "okx_next c1 (Frame_Comes demo_snapshot_push 5 6 7 8) = Some c'" "be_state (oc_engine c') = LIVE"
    "oc_phase c' = OP_Reading 2" "oc_worker c' = oc_worker c1" "oc_current_ws c' = oc_current_ws c1"
    by (rule first_snapshot [OF ok c1(2) inv])
  have "okx_run c demo_again = Some c'"
    using okx_run_append [of c "[Leave_Ends None 0, Backoff_Ends 0, Socket_Opens 2, Subscribed 0]"
        "[Frame_Comes demo_snapshot_push 5 6 7 8]"] c1(1) c'(1) by (simp add: demo_again_def del: okx_next.simps)
  with c' c1 show thesis by (intro that [of c']) simp_all
qed

lemma okx_resubscribes_blindly_witness:
  "\<exists>c c'. okx_run small_okx (demo_lost @ demo_again) = Some c \<and> be_state (oc_engine c) = LIVE \<and> oc_phase c = OP_Reading 2 \<and>
     okx_run c [Resubscribe_Due 15, Unsubscribe_Sent, Resubscribe_Sent] = Some c' \<and>
     (\<forall>c''. okx_next c' (Frame_Comes demo_snapshot_push 5 6 7 8) = Some c'' \<longrightarrow> oc_phase c'' = OP_Leaving ValueError)"
proof -
  have "map_option (\<lambda>c. (oc_phase c, oc_worker c, cm_attempt (oc_connection c), oc_max_failures c, oc_connection_bucket c))
      (okx_run small_okx demo_lost) =
      Some (OP_Leaving ConnectionClosed, RW_Throttled 15, 0, 2,
        \<lparr>tb_capacity = 3, tb_refill_rate = 3, tb_tokens = 2, tb_last_refill = 0\<rparr>)" by code_simp
  then obtain c1 where c1: "okx_run small_okx demo_lost = Some c1" "oc_phase c1 = OP_Leaving ConnectionClosed"
    "oc_worker c1 = RW_Throttled 15" "cm_attempt (oc_connection c1) = 0" "oc_max_failures c1 = 2"
    "oc_connection_bucket c1 = \<lparr>tb_capacity = 3, tb_refill_rate = 3, tb_tokens = 2, tb_last_refill = 0\<rparr>" by auto
  have "okx_ok engine_wf (\<lambda>_. True) small_okx"
    unfolding small_okx_def by (rule untrusted.new_okx_ok [OF new_engine_wf fresh_queue]) (simp_all add: new_bucket_def)
  moreover have "list_all (okx_carries (\<lambda>_. True) (\<lambda>_. True) (\<lambda>_. True)) evs" for evs
  proof -
    have "okx_carries (\<lambda>_. True) (\<lambda>_. True) (\<lambda>_. True) ev" for ev by (cases ev) (simp_all add: option.pred_True)
    then show ?thesis by (simp add: list_all_iff)
  qed
  ultimately have ok: "okx_ok engine_wf (\<lambda>_. True) c1" using untrusted.okx_run_keeps [OF c1(1)] by blast
  obtain c where c: "okx_run c1 demo_again = Some c" "be_state (oc_engine c) = LIVE"
    "oc_phase c = OP_Reading 2" "oc_worker c = oc_worker c1" "oc_current_ws c = Some 2"
    by (rule demo_reconnect [OF ok c1(2,4-6)])
  have "oc_worker c = RW_Throttled 15" using c(4) c1(3) by simp
  from okx_resubscribes_blindly [OF this order_refl c(5)] c(2) obtain c' where c':
    "okx_run c [Resubscribe_Due 15, Unsubscribe_Sent, Resubscribe_Sent] = Some c'"
    "\<forall>m lns wns lns' wns' c''. text_snapshot m \<noteq> None \<longrightarrow>
       okx_next c' (Frame_Comes m lns wns lns' wns') = Some c'' \<longrightarrow> oc_phase c'' = OP_Leaving ValueError" by blast
  have "text_snapshot demo_snapshot_push \<noteq> None" by (simp add: demo_snapshot_parsed)
  with c'(2) have "\<forall>c''. okx_next c' (Frame_Comes demo_snapshot_push 5 6 7 8) = Some c'' \<longrightarrow>
      oc_phase c'' = OP_Leaving ValueError" by blast
  moreover have "okx_run small_okx (demo_lost @ demo_again) = Some c" using c1(1) c(1) by (simp add: okx_run_append)
  ultimately show ?thesis using c(2,3) c'(1) by blast
qed

lemma okx_message_errors_witness:
  "\<exists>c c'. okx_run demo_okx demo_live = Some c \<and> okx_read c demo_snapshot_push 5 6 7 8 = (Raises ValueError, c') \<and>
     oc_engine c' = oc_engine c"
proof -
  obtain c where c: "okx_run demo_okx demo_live = Some c" "be_state (oc_engine c) = LIVE" by (rule demo_live_run)
  obtain out c' where r: "okx_read c demo_snapshot_push 5 6 7 8 = (out, c')" by fastforce
  then have out: "out = Raises ValueError"
    by (cases rule: okx_read_cases) (use c(2) in \<open>auto simp: demo_snapshot_parsed load_snapshot_live\<close>)
  from okx_message_errors [OF c(1) [unfolded demo_okx_def] r [unfolded out]] c(1) r out show ?thesis by auto
qed

lemma okx_budgets_witness:
  "2 * rat_of_nat (count_steps starts_resubscribe demo_okx (demo_live @ demo_resync)) \<le> 40"
proof -
  have "map_option oc_phase (okx_run demo_okx (demo_live @ demo_resync)) = Some (OP_Reading 1)" by code_simp
  then obtain c where c: "okx_run demo_okx (demo_live @ demo_resync) = Some c" by auto
  have "clock_ok 0 (demo_live @ demo_resync)" "clock_after 0 (demo_live @ demo_resync) = 0" by code_simp+
  with okx_budgets [OF c [unfolded demo_okx_def]] show ?thesis by (simp add: demo_okx_def)
qed

end
