(* ===== verification/HourKey.thy ===== *)
theory HourKey
  imports WireFormat
begin

text \<open>
  Where a row goes: \<open>_hour_key_for\<close> and \<open>_partition_dir\<close> of \<^verbatim>\<open>sinks/parquet_sink.py\<close>, with the
  parts of \<open>datetime\<close> and \<open>pathlib\<close> they use. A day is its number in the proleptic Gregorian
  calendar, counted from the first of January of the year 1; a path is its list of parts. A
  timestamp outside the years 1 to 9999 raises, whatever the class of the exception: it is
  \<open>ValueError\<close> here. The rounding of the division by \<open>1e9\<close> is not modelled, that to microseconds is.
\<close>

section \<open>The civil calendar\<close>

definition is_leap :: "nat \<Rightarrow> bool" where
  "is_leap y \<longleftrightarrow> y mod 4 = 0 \<and> (y mod 100 \<noteq> 0 \<or> y mod 400 = 0)"

definition month_lengths :: "nat \<Rightarrow> nat list" where
  "month_lengths y = [31, if is_leap y then 29 else 28, 31, 30, 31, 30, 31, 31, 30, 31, 30, 31]"

fun month_day :: "nat list \<Rightarrow> nat \<Rightarrow> nat \<Rightarrow> nat \<times> nat" where
  "month_day [] m n = (m, n + 1)"
| "month_day (l # ls) m n = (if n < l then (m, n + 1) else month_day ls (m + 1) (n - l))"

text \<open>The year of a day and the day within it.\<close>

definition year_day :: "nat \<Rightarrow> nat \<times> nat" where
  "year_day n =
     (let n400 = n div 146097; r = n mod 146097;
          n100 = min (r div 36524) 3; r2 = r - 36524 * n100;
          n4 = r2 div 1461; r3 = r2 mod 1461;
          n1 = min (r3 div 365) 3
      in (400 * n400 + 100 * n100 + 4 * n4 + n1 + 1, r3 - 365 * n1))"

definition civil_date :: "nat \<Rightarrow> nat \<times> nat \<times> nat" where
  "civil_date n = (let (y, d) = year_day n in (y, month_day (month_lengths y) 1 d))"

section \<open>Hour keys and partition directories\<close>

definition zero_pad :: "nat \<Rightarrow> nat \<Rightarrow> string" where
  "zero_pad k n = replicate (k - length (nat_str n)) CHR ''0'' @ nat_str n"

definition round_half_even :: "int \<Rightarrow> int \<Rightarrow> int" where
  "round_half_even a b =
     (let q = a div b; r = 2 * (a mod b) in if r < b then q else if b < r then q + 1 else q + q mod 2)"

text \<open>Hours since the epoch.\<close>

definition hour_number :: "int \<Rightarrow> int" where
  "hour_number ts_wall_ns = round_half_even ts_wall_ns 1000 div 3600000000"

definition hour_text :: "nat \<Rightarrow> string" where
  "hour_text hours =
     (let (y, m, d) = civil_date (hours div 24)
      in nat_str y @ ''-'' @ zero_pad 2 m @ ''-'' @ zero_pad 2 d @ ''/'' @ zero_pad 2 (hours mod 24))"

definition epoch_day :: int where
  "epoch_day = 719162"

definition days_of_9999_years :: int where
  "days_of_9999_years = 3652059"

definition hour_key_for :: "int \<Rightarrow> string result" where
  "hour_key_for ts_wall_ns =
     (let hours = hour_number ts_wall_ns + 24 * epoch_day
      in if 0 \<le> hours \<and> hours < 24 * days_of_9999_years then Inr (hour_text (nat hours)) else Inl ValueError)"

fun split_on :: "char \<Rightarrow> string \<Rightarrow> string list" where
  "split_on c [] = [[]]"
| "split_on c (x # xs) =
     (if x = c then [] # split_on c xs
      else (case split_on c xs of [] \<Rightarrow> [[x]] | w # ws \<Rightarrow> (x # w) # ws))"

type_synonym path = "string list"

definition path_join :: "path \<Rightarrow> string \<Rightarrow> path" where
  "path_join base s = base @ filter (\<lambda>p. p \<noteq> [] \<and> p \<noteq> ''.'') (split_on CHR ''/'' s)"

definition partition_dir :: "path \<Rightarrow> string \<Rightarrow> string \<Rightarrow> string \<Rightarrow> path result" where
  "partition_dir base_dir exch name hour_key =
     (case split_on CHR ''/'' hour_key of
        [date_str, hour_str] \<Rightarrow>
          Inr (path_join (path_join (path_join (path_join base_dir
            (''exchange='' @ exch)) (''symbol='' @ name)) (''date='' @ date_str)) (''hour='' @ hour_str))
      | _ \<Rightarrow> Inl ValueError)"

definition part_name :: "nat \<Rightarrow> string" where
  "part_name sequence = ''part-'' @ zero_pad 4 sequence @ ''.parquet''"

section \<open>Days and dates are one to one\<close>

definition days_before_year :: "nat \<Rightarrow> nat" where
  "days_before_year y = (y - 1) * 365 + (y - 1) div 4 - (y - 1) div 100 + (y - 1) div 400"

lemma days_before_year_at:
  assumes "b \<le> 3" "c \<le> 24" "d \<le> 3"
  shows "days_before_year (400 * a + 100 * b + 4 * c + d + 1) = 146097 * a + 36524 * b + 1461 * c + 365 * d"
proof -
  let ?y = "400 * a + 100 * b + 4 * c + d"
  have "?y div 4 = 100 * a + 25 * b + c" "?y div 100 = 4 * a + b" "?y div 400 = a"
    using assms by linarith+
  then show ?thesis by (simp add: days_before_year_def)
qed

lemma year_day_parts:
  assumes "year_day n = (y, d)"
  obtains a b c e where "y = 400 * a + 100 * b + 4 * c + e + 1" "b \<le> 3" "c \<le> 24" "e \<le> 3"
    "n = 146097 * a + 36524 * b + 1461 * c + 365 * e + d"
    "d < (if e = 3 \<and> (c = 24 \<longrightarrow> b = 3) then 366 else 365)"
proof -
  define a r where ar: "a = n div 146097" "r = n mod 146097"
  define b where b: "b = min (r div 36524) 3"
  define r2 where r2: "r2 = r - 36524 * b"
  define c r3 where c: "c = r2 div 1461" "r3 = r2 mod 1461"
  define e where e: "e = min (r3 div 365) 3"
  have y: "y = 400 * a + 100 * b + 4 * c + e + 1" "d = r3 - 365 * e"
    using assms by (simp_all add: year_day_def Let_def ar b r2 c e)
  have n: "n = 146097 * a + r" "r < 146097" unfolding ar by simp_all
  have r: "r = 36524 * b + r2" "r2 \<le> 36524" "b \<le> 3" "b < 3 \<Longrightarrow> r2 < 36524"
    using n(2) unfolding r2 b by linarith+
  have r2': "r2 = 1461 * c + r3" "r3 < 1461" unfolding c by simp_all
  have c24: "c \<le> 24" using r(2) r2' by linarith
  have r3: "r3 = 365 * e + d" "e \<le> 3" "d \<le> 365" "e < 3 \<Longrightarrow> d < 365"
    using r2'(2) unfolding y(2) e by linarith+
  have "d < 365" if "\<not> (e = 3 \<and> (c = 24 \<longrightarrow> b = 3))"
  proof (cases "e = 3")
    case True
    with that r have "c = 24" "r2 < 36524" by auto
    with r2'(1) True show ?thesis unfolding y(2) by simp
  qed (use r3 in simp)
  then have "d < (if e = 3 \<and> (c = 24 \<longrightarrow> b = 3) then 366 else 365)" using r3(3) by simp
  moreover have "n = 146097 * a + 36524 * b + 1461 * c + 365 * e + d"
    using n(1) r(1) r2'(1) r3(1) by simp
  ultimately show ?thesis using that y(1) r(3) c24 r3(2) by blast
qed

lemma year_day_inverse:
  assumes "year_day n = (y, d)"
  shows "n = days_before_year y + d \<and> 1 \<le> y"
proof -
  from year_day_parts [OF assms] obtain a b c e
    where parts: "y = 400 * a + 100 * b + 4 * c + e + 1" "b \<le> 3" "c \<le> 24" "e \<le> 3"
      "n = 146097 * a + 36524 * b + 1461 * c + 365 * e + d" .
  with days_before_year_at [OF parts(2-4), of a] show ?thesis by simp
qed

lemma month_day_inverse:
  "month_day ls m n = (m', d) \<Longrightarrow> n < sum_list ls \<Longrightarrow> m \<le> m' \<and> 1 \<le> d \<and> n + 1 = sum_list (take (m' - m) ls) + d \<and>
     m' < m + length ls \<and> d \<le> Max (set ls)"
proof (induction ls m n rule: month_day.induct)
  case (2 l ls m n)
  show ?case
  proof (cases "n < l")
    case True
    with 2 show ?thesis by (auto simp: less_Suc_eq_le Suc_le_eq intro: Max_ge order.trans [OF Suc_leI Max_ge])
  next
    case False
    with 2 have IH: "m + 1 \<le> m' \<and> 1 \<le> d \<and> n - l + 1 = sum_list (take (m' - (m + 1)) ls) + d \<and>
        m' < m + 1 + length ls \<and> d \<le> Max (set ls)" by simp
    then have "ls \<noteq> []" by auto
    then have "Max (set ls) \<le> Max (set (l # ls))" by simp
    moreover have "m' - m = Suc (m' - (m + 1))" using IH by linarith
    ultimately show ?thesis using IH False by auto
  qed
qed simp

lemma year_length: "d < sum_list (month_lengths y) \<longleftrightarrow> d < (if is_leap y then 366 else 365)"
  by (simp add: month_lengths_def)

lemma leap_at:
  assumes "b \<le> 3" "c \<le> 24" "d \<le> 3"
  shows "is_leap (400 * a + 100 * b + 4 * c + d + 1) \<longleftrightarrow> d = 3 \<and> (c = 24 \<longrightarrow> b = 3)"
proof -
  let ?y = "400 * a + 100 * b + 4 * c + d + 1"
  have below: "x mod m = 0 \<longleftrightarrow> x = m" if "0 < x" "x \<le> m" for x m :: nat
    using that by (cases "x = m") auto
  have "?y = (d + 1) + 4 * (100 * a + 25 * b + c)" by simp
  then have "?y mod 4 = (d + 1) mod 4" by (metis mod_mult_self2)
  then have four: "?y mod 4 = 0 \<longleftrightarrow> d = 3" using below [of "d + 1" 4] assms by simp
  have "?y = (4 * c + d + 1) + 100 * (4 * a + b)" by simp
  then have "?y mod 100 = (4 * c + d + 1) mod 100" by (metis mod_mult_self2)
  then have cent: "?y mod 100 = 0 \<longleftrightarrow> 4 * c + d + 1 = 100" using below [of "4 * c + d + 1" 100] assms by simp
  have "?y = (100 * b + 4 * c + d + 1) + 400 * a" by simp
  then have "?y mod 400 = (100 * b + 4 * c + d + 1) mod 400" by (metis mod_mult_self2)
  then have quad: "?y mod 400 = 0 \<longleftrightarrow> 100 * b + 4 * c + d + 1 = 400"
    using below [of "100 * b + 4 * c + d + 1" 400] assms by simp
  show ?thesis unfolding is_leap_def four cent quad using assms by presburger
qed

lemma year_day_in_year:
  assumes "year_day n = (y, d)"
  shows "d < sum_list (month_lengths y)"
proof -
  from year_day_parts [OF assms] obtain a b c e
    where parts: "y = 400 * a + 100 * b + 4 * c + e + 1" "b \<le> 3" "c \<le> 24" "e \<le> 3"
      "d < (if e = 3 \<and> (c = 24 \<longrightarrow> b = 3) then 366 else 365)" .
  then show ?thesis by (simp only: year_length leap_at)
qed

theorem civil_date_inj: "civil_date n = civil_date n' \<Longrightarrow> n = n'"
proof -
  assume eq: "civil_date n = civil_date n'"
  obtain y d y' d' where yd: "year_day n = (y, d)" "year_day n' = (y', d')" by fastforce
  obtain m k m' k' where md: "month_day (month_lengths y) 1 d = (m, k)" "month_day (month_lengths y') 1 d' = (m', k')"
    by fastforce
  have same: "y' = y" "m' = m" "k' = k" using eq md unfolding civil_date_def yd by auto
  from month_day_inverse [OF md(1) year_day_in_year [OF yd(1)]]
    month_day_inverse [OF md(2) year_day_in_year [OF yd(2)]]
  have "d = d'" by (simp add: same)
  with year_day_inverse [OF yd(1)] year_day_inverse [OF yd(2)] same show ?thesis by simp
qed

lemma civil_date_bounds:
  assumes "civil_date n = (y, m, k)"
  shows "1 \<le> y \<and> 1 \<le> m \<and> m \<le> 12 \<and> 1 \<le> k \<and> k \<le> 31"
proof -
  obtain d where d: "year_day n = (y, d)" "month_day (month_lengths y) 1 d = (m, k)"
    using assms by (auto simp: civil_date_def split: prod.splits)
  from month_day_inverse [OF d(2) year_day_in_year [OF d(1)]] year_day_inverse [OF d(1)]
  show ?thesis by (auto simp: month_lengths_def split: if_splits)
qed

section \<open>Hour keys are one to one\<close>

lemma zero_pad_digits: "list_all is_digit_char (zero_pad k n)"
proof -
  have "is_digit_char CHR ''0''" by (simp add: is_digit_char_def digit_char_def) (intro exI [of _ 0], simp)
  then show ?thesis using nat_str_digits [of n] by (auto simp: zero_pad_def list_all_iff)
qed

lemma zero_pad_inj [simp]: "zero_pad k m = zero_pad k n \<longleftrightarrow> m = n"
proof -
  have zeros: "coefficient (replicate i 0 @ ds) = coefficient ds" for i ds
    by (induction i) (simp_all add: coefficient_def)
  have "the (digit_val CHR ''0'') = 0" by code_simp
  then have "coefficient (digit_vals (zero_pad k n)) = n" for n
    by (simp add: zero_pad_def zeros coefficient_nat_str)
  then show ?thesis by metis
qed

lemma length_zero_pad: "n < 10 ^ Suc k \<Longrightarrow> length (zero_pad (Suc k) n) = Suc k"
  using length_nat_str [of n k] by (simp add: zero_pad_def)

lemma hour_text_parts:
  assumes "civil_date (hours div 24) = (y, m, d)"
  shows "hour_text hours = nat_str y @ CHR ''-'' # zero_pad 2 m @ CHR ''-'' # zero_pad 2 d @ CHR ''/'' # zero_pad 2 (hours mod 24)"
  by (simp add: hour_text_def assms)

lemma two_digits:
  assumes "civil_date n = (y, m, d)"
  shows "length (zero_pad 2 m) = 2" "length (zero_pad 2 d) = 2" "length (zero_pad 2 (hours mod 24)) = 2"
  using civil_date_bounds [OF assms] length_zero_pad [of _ 1] pos_mod_bound [of 24 hours]
  by (simp_all add: numeral_2_eq_2)

theorem hour_text_inj: "hour_text h = hour_text h' \<Longrightarrow> h = h'"
proof -
  assume eq: "hour_text h = hour_text h'"
  obtain y m d where c: "civil_date (h div 24) = (y, m, d)" by (metis prod_cases3)
  obtain y' m' d' where c': "civil_date (h' div 24) = (y', m', d')" by (metis prod_cases3)
  note len = two_digits [OF c] two_digits [OF c']
  have "nat_str y = nat_str y' \<and> zero_pad 2 m = zero_pad 2 m' \<and> zero_pad 2 d = zero_pad 2 d' \<and>
      zero_pad 2 (h mod 24) = zero_pad 2 (h' mod 24)"
    using eq [unfolded hour_text_parts [OF c] hour_text_parts [OF c']] len by (simp add: append_eq_append_conv)
  then have "civil_date (h div 24) = civil_date (h' div 24)" and m: "h mod 24 = h' mod 24" using c c' by simp_all
  then have "h div 24 = h' div 24" by (simp add: civil_date_inj)
  with m show "h = h'" by (metis div_mod_decomp)
qed

lemma round_half_even_mono:
  assumes "0 < b" and "x \<le> y"
  shows "round_half_even x b \<le> round_half_even y b"
proof (cases "x div b = y div b")
  case True
  then have "x mod b \<le> y mod b" using assms minus_div_mult_eq_mod [of x b] minus_div_mult_eq_mod [of y b] by simp
  with True show ?thesis by (auto simp: round_half_even_def Let_def)
next
  case False
  with zdiv_mono1 [OF assms(2, 1)] have "x div b + 1 \<le> y div b" by simp
  moreover have "round_half_even x b \<le> x div b + 1" "y div b \<le> round_half_even y b"
    by (auto simp: round_half_even_def Let_def)
  ultimately show ?thesis by simp
qed

lemma hour_number_mono: "x \<le> y \<Longrightarrow> hour_number x \<le> hour_number y"
  unfolding hour_number_def by (rule zdiv_mono1) (simp_all add: round_half_even_mono)

text \<open>Timestamps that do not decrease never come back to an hour key they have left.\<close>

theorem hour_key_interval:
  assumes "x \<le> y" "y \<le> z" and "hour_key_for x = Inr k" "hour_key_for z = Inr k"
  shows "hour_key_for y = Inr k"
proof -
  have "hour_number x + 24 * epoch_day = hour_number z + 24 * epoch_day"
    using assms(3,4) by (auto simp: hour_key_for_def Let_def split: if_splits dest: hour_text_inj)
  then have "hour_number x = hour_number y"
    using hour_number_mono [OF assms(1)] hour_number_mono [OF assms(2)] by simp
  with assms(3) show ?thesis by (simp add: hour_key_for_def)
qed

section \<open>Directories are one to one\<close>

lemma split_on_plain: "c \<notin> set s \<Longrightarrow> split_on c s = [s]"
  by (induction s) auto

lemma split_on_append: "c \<notin> set s \<Longrightarrow> split_on c (s @ c # t) = s # split_on c t"
  by (induction s) auto

lemma path_join_plain: "CHR ''/'' \<notin> set s \<Longrightarrow> s \<noteq> [] \<Longrightarrow> s \<noteq> ''.'' \<Longrightarrow> path_join base s = base @ [s]"
  by (simp add: path_join_def split_on_plain)

lemma digits_no_slash:
  assumes "list_all is_digit_char s"
  shows "CHR ''/'' \<notin> set s"
proof
  assume "CHR ''/'' \<in> set s"
  with assms have "is_digit_char CHR ''/''" by (auto simp: list_all_iff)
  then obtain n where n: "n < 10" "CHR ''/'' = digit_char n" by (auto simp: is_digit_char_def)
  have "\<forall>n\<in>set [0..<10]. digit_char n \<noteq> CHR ''/''" by code_simp
  with n show False by auto
qed

definition names_plain :: "string \<Rightarrow> string \<Rightarrow> bool" where
  "names_plain exch name \<longleftrightarrow> CHR ''/'' \<notin> set exch \<and> CHR ''/'' \<notin> set name"

lemma hour_key_split:
  assumes "hour_key_for ts = Inr key"
  obtains date_str hour_str where "key = date_str @ CHR ''/'' # hour_str"
    "CHR ''/'' \<notin> set date_str" "CHR ''/'' \<notin> set hour_str"
proof -
  let ?h = "nat (hour_number ts + 24 * epoch_day)"
  have key: "key = hour_text ?h" using assms by (auto simp: hour_key_for_def Let_def split: if_splits)
  obtain y m d where c: "civil_date (?h div 24) = (y, m, d)" by (metis prod_cases3)
  let ?date = "nat_str y @ ''-'' @ zero_pad 2 m @ ''-'' @ zero_pad 2 d"
  have "CHR ''/'' \<notin> set ?date" "CHR ''/'' \<notin> set (zero_pad 2 (?h mod 24))"
    using digits_no_slash [OF nat_str_digits] digits_no_slash [OF zero_pad_digits] by auto
  with that [of ?date "zero_pad 2 (?h mod 24)"] key hour_text_parts [OF c] show ?thesis by simp
qed

lemma partition_dir_parts:
  assumes "names_plain exch name" and "CHR ''/'' \<notin> set date_str" "CHR ''/'' \<notin> set hour_str"
  shows "partition_dir base exch name (date_str @ CHR ''/'' # hour_str) =
    Inr (base @ [''exchange='' @ exch, ''symbol='' @ name, ''date='' @ date_str, ''hour='' @ hour_str])"
  using assms
  by (simp add: partition_dir_def names_plain_def split_on_append split_on_plain path_join_plain)

lemma partition_dir_total:
  assumes "hour_key_for ts = Inr key"
  shows "\<exists>dir. partition_dir base exch name key = Inr dir"
proof -
  from hour_key_split [OF assms] obtain a b where "key = a @ CHR ''/'' # b" "CHR ''/'' \<notin> set a" "CHR ''/'' \<notin> set b" .
  then show ?thesis by (simp add: partition_dir_def split_on_append split_on_plain)
qed

lemma partition_dir_inj:
  assumes "partition_dir base exch name key = Inr dir" "partition_dir base exch' name' key' = Inr dir'"
    and "hour_key_for ts = Inr key" "hour_key_for ts' = Inr key'"
    and "names_plain exch name" "names_plain exch' name'"
  shows "dir = dir' \<longleftrightarrow> exch = exch' \<and> name = name' \<and> key = key'"
proof -
  from hour_key_split [OF assms(3)] obtain a b
    where ab: "key = a @ CHR ''/'' # b" "CHR ''/'' \<notin> set a" "CHR ''/'' \<notin> set b" .
  from hour_key_split [OF assms(4)] obtain a' b'
    where ab': "key' = a' @ CHR ''/'' # b'" "CHR ''/'' \<notin> set a'" "CHR ''/'' \<notin> set b'" .
  have dirs: "dir = base @ [''exchange='' @ exch, ''symbol='' @ name, ''date='' @ a, ''hour='' @ b]"
    "dir' = base @ [''exchange='' @ exch', ''symbol='' @ name', ''date='' @ a', ''hour='' @ b']"
    using assms(1,2) partition_dir_parts [OF assms(5) ab(2,3), of base] partition_dir_parts [OF assms(6) ab'(2,3), of base]
    unfolding ab(1) ab'(1) by simp_all
  have "key = key' \<longleftrightarrow> a = a' \<and> b = b'"
  proof
    assume "key = key'"
    then have "split_on CHR ''/'' key = split_on CHR ''/'' key'" by simp
    then show "a = a' \<and> b = b'"
      unfolding ab(1) ab'(1) split_on_append [OF ab(2)] split_on_append [OF ab'(2)]
        split_on_plain [OF ab(3)] split_on_plain [OF ab'(3)] by simp
  qed (simp add: ab(1) ab'(1))
  then show ?thesis unfolding dirs by simp
qed

lemma part_name_plain: "path_join dir (part_name i) = dir @ [part_name i]"
  "path_join dir (part_name i @ ''.tmp'') = dir @ [part_name i @ ''.tmp'']"
  using digits_no_slash [OF zero_pad_digits [of 4 i]] by (simp_all add: path_join_plain part_name_def)

lemma part_name_eq [simp]:
  "part_name i = part_name j \<longleftrightarrow> i = j"
  "part_name i @ ''.tmp'' = part_name j @ ''.tmp'' \<longleftrightarrow> i = j"
  by (simp_all add: part_name_def)

lemma part_name_not_tmp: "part_name i \<noteq> s @ ''.tmp''"
proof
  assume "part_name i = s @ ''.tmp''"
  then have "rev (part_name i) = rev (s @ ''.tmp'')" by simp
  then show False by (simp add: part_name_def)
qed

end
