(* ===== verification/ParquetTable.thy ===== *)
theory ParquetTable
  imports RowQueue WireFormat
begin

text \<open>
  From rows to tables: \<open>build_schema\<close> and \<open>rows_to_table\<close> of \<^verbatim>\<open>sinks/parquet_sink.py\<close>. \<open>pa.array\<close> is
  not part of the repository and is a parameter: it makes an array of a column of cells, or raises.
  The metadata of the schema does not depend on the rows and is left out.
\<close>

section \<open>Schema\<close>

datatype arrow_type = Int64 | Decimal128 nat nat

datatype cell = Null | Int_Cell int | Dec_Cell decimal

record schema_field =
  sf_name :: string
  sf_type :: arrow_type
  sf_nullable :: bool

definition decimal_type :: arrow_type where
  "decimal_type = Decimal128 18 8"

definition column_name :: "string \<Rightarrow> string \<Rightarrow> nat \<Rightarrow> string" where
  "column_name side kind i = side @ ''_'' @ kind @ ''_'' @ nat_str i"

definition level_fields :: "string \<Rightarrow> int \<Rightarrow> schema_field list" where
  "level_fields side depth =
     concat (map (\<lambda>i. [\<lparr>sf_name = column_name side ''price'' i, sf_type = decimal_type, sf_nullable = True\<rparr>,
                        \<lparr>sf_name = column_name side ''qty'' i, sf_type = decimal_type, sf_nullable = True\<rparr>])
             [0..<nat depth])"

definition build_schema :: "int \<Rightarrow> schema_field list" where
  "build_schema depth =
     [\<lparr>sf_name = ''ts_exchange_ms'', sf_type = Int64, sf_nullable = True\<rparr>,
      \<lparr>sf_name = ''ts_local_ns'', sf_type = Int64, sf_nullable = False\<rparr>,
      \<lparr>sf_name = ''ts_wall_ns'', sf_type = Int64, sf_nullable = False\<rparr>,
      \<lparr>sf_name = ''last_applied_id'', sf_type = Int64, sf_nullable = False\<rparr>] @
     level_fields ''ask'' depth @ level_fields ''bid'' depth"

section \<open>The row loop\<close>

type_synonym columns = "(string \<times> cell list) list"

text \<open>The cells one row appends, with the column each goes to, in the order of the appends.\<close>

definition side_cells :: "string \<Rightarrow> price_level list \<Rightarrow> int \<Rightarrow> (string \<times> cell) list" where
  "side_cells side levels depth =
     concat (map (\<lambda>i. if i < length levels
                       then [(column_name side ''price'' i, Dec_Cell (fst (levels ! i))),
                             (column_name side ''qty'' i, Dec_Cell (snd (levels ! i)))]
                       else [(column_name side ''price'' i, Null), (column_name side ''qty'' i, Null)])
             [0..<nat depth])"

definition opt_cell :: "int option \<Rightarrow> cell" where
  "opt_cell x = (case x of None \<Rightarrow> Null | Some i \<Rightarrow> Int_Cell i)"

definition row_cells :: "snapshot_row \<Rightarrow> int \<Rightarrow> (string \<times> cell) list" where
  "row_cells row depth =
     [(''ts_exchange_ms'', opt_cell (row_ts_exchange_ms row)), (''ts_local_ns'', Int_Cell (row_ts_local_ns row)),
      (''ts_wall_ns'', Int_Cell (row_ts_wall_ns row)), (''last_applied_id'', Int_Cell (row_last_applied_id row))] @
     side_cells ''ask'' (row_asks row) depth @ side_cells ''bid'' (row_bids row) depth"

fun append_cell :: "columns \<Rightarrow> string \<times> cell \<Rightarrow> columns" where
  "append_cell cols (name, c) =
     (case map_of cols name of None \<Rightarrow> cols | Some xs \<Rightarrow> AList.update name (xs @ [c]) cols)"

definition append_row :: "int \<Rightarrow> columns \<Rightarrow> snapshot_row \<Rightarrow> columns" where
  "append_row depth cols row = foldl append_cell cols (row_cells row depth)"

text \<open>The columns the loop resolves before it starts: a missing one is a \<open>KeyError\<close>.\<close>

definition wanted_columns :: "int \<Rightarrow> string list" where
  "wanted_columns depth =
     [''ts_exchange_ms'', ''ts_local_ns'', ''ts_wall_ns'', ''last_applied_id''] @
     map sf_name (level_fields ''ask'' depth) @ map sf_name (level_fields ''bid'' depth)"

definition rows_to_table ::
  "(arrow_type \<Rightarrow> cell list \<Rightarrow> 'a result) \<Rightarrow> snapshot_row list \<Rightarrow> int \<Rightarrow> schema_field list \<Rightarrow> 'a list result" where
  "rows_to_table pa_array rows depth schema =
     (let empty = dict_of [] (map (\<lambda>f. (sf_name f, [])) schema)
      in if \<not> set (wanted_columns depth) \<subseteq> fst ` set empty then Inl KeyError
         else (let columns = foldl (append_row depth) empty rows
               in map_result (\<lambda>f. pa_array (sf_type f) (the (map_of columns (sf_name f)))) schema))"

section \<open>The reference: column by column\<close>

definition level_cell :: "(price_level \<Rightarrow> decimal) \<Rightarrow> price_level list \<Rightarrow> nat \<Rightarrow> cell" where
  "level_cell part levels i = (if i < length levels then Dec_Cell (part (levels ! i)) else Null)"

definition side_getters :: "string \<Rightarrow> (snapshot_row \<Rightarrow> price_level list) \<Rightarrow> int \<Rightarrow> (string \<times> (snapshot_row \<Rightarrow> cell)) list" where
  "side_getters side levels_of depth =
     concat (map (\<lambda>i. [(column_name side ''price'' i, \<lambda>row. level_cell fst (levels_of row) i),
                        (column_name side ''qty'' i, \<lambda>row. level_cell snd (levels_of row) i)]) [0..<nat depth])"

text \<open>Each column with the cell it takes of a row.\<close>

definition getters :: "int \<Rightarrow> (string \<times> (snapshot_row \<Rightarrow> cell)) list" where
  "getters depth =
     [(''ts_exchange_ms'', opt_cell \<circ> row_ts_exchange_ms), (''ts_local_ns'', Int_Cell \<circ> row_ts_local_ns),
      (''ts_wall_ns'', Int_Cell \<circ> row_ts_wall_ns), (''last_applied_id'', Int_Cell \<circ> row_last_applied_id)] @
     side_getters ''ask'' row_asks depth @ side_getters ''bid'' row_bids depth"

definition column_wise ::
  "(arrow_type \<Rightarrow> cell list \<Rightarrow> 'a result) \<Rightarrow> snapshot_row list \<Rightarrow> int \<Rightarrow> 'a list result" where
  "column_wise pa_array rows depth =
     map_result (\<lambda>(f, pick). pa_array (sf_type f) (map pick rows)) (zip (build_schema depth) (map snd (getters depth)))"

section \<open>Lemmas\<close>

lemma column_name_eq [simp]:
  "column_name side ''price'' i = column_name side ''price'' j \<longleftrightarrow> i = j"
  "column_name side ''qty'' i = column_name side ''qty'' j \<longleftrightarrow> i = j"
  "column_name side ''price'' i \<noteq> column_name side ''qty'' j"
  "column_name side ''qty'' i \<noteq> column_name side ''price'' j"
  "column_name ''ask'' kind i \<noteq> column_name ''bid'' kind' j"
  "column_name ''bid'' kind i \<noteq> column_name ''ask'' kind' j"
  by (simp_all add: column_name_def)

lemma column_name_fixed [simp]:
  "side \<in> {''ask'', ''bid''} \<Longrightarrow> column_name side kind i \<notin> {''ts_exchange_ms'', ''ts_local_ns'', ''ts_wall_ns'', ''last_applied_id''}"
  by (auto simp: column_name_def)

text \<open>The columns of the schema, of a row and of the getters are the same, and distinct.\<close>

lemma map_concat_pair:
  "map f (concat (map (\<lambda>i. [g i, h i]) xs)) = concat (map (\<lambda>i. [f (g i), f (h i)]) xs)"
  by (induction xs) simp_all

definition side_names :: "string \<Rightarrow> int \<Rightarrow> string list" where
  "side_names side depth =
     concat (map (\<lambda>i. [column_name side ''price'' i, column_name side ''qty'' i]) [0..<nat depth])"

lemma side_names_of:
  "map sf_name (level_fields side depth) = side_names side depth"
  "map fst (side_getters side levels_of depth) = side_names side depth"
  by (simp_all add: level_fields_def side_getters_def side_names_def map_concat_pair)

lemma side_cells_getters:
  "side_cells side (levels_of row) depth = map (\<lambda>(name, pick). (name, pick row)) (side_getters side levels_of depth)"
  by (simp add: side_cells_def side_getters_def map_concat_pair level_cell_def if_distrib cong: if_cong)
    (rule arg_cong [where f = concat], simp)

lemma row_cells_getters: "row_cells row depth = map (\<lambda>(name, pick). (name, pick row)) (getters depth)"
  by (simp add: row_cells_def getters_def side_cells_getters)

lemma names_of:
  "map fst (getters depth) = map sf_name (build_schema depth)"
  "wanted_columns depth = map sf_name (build_schema depth)"
  by (simp_all add: getters_def build_schema_def wanted_columns_def side_names_of)

lemma set_side_names: "n \<in> set (side_names side depth) \<Longrightarrow> \<exists>kind i. n = column_name side kind i"
  by (auto simp: side_names_def)

lemma distinct_side_names: "distinct (side_names side depth)"
proof -
  have "distinct (concat (map (\<lambda>i. [column_name side ''price'' i, column_name side ''qty'' i]) xs))"
    if "distinct xs" for xs
    using that by (induction xs) auto
  then show ?thesis by (simp add: side_names_def)
qed

abbreviation fixed_names :: "string list" where
  "fixed_names \<equiv> [''ts_exchange_ms'', ''ts_local_ns'', ''ts_wall_ns'', ''last_applied_id'']"

lemma distinct_names: "distinct (map sf_name (build_schema depth))"
proof -
  have eq: "map sf_name (build_schema depth) = fixed_names @ side_names ''ask'' depth @ side_names ''bid'' depth"
    by (simp add: build_schema_def side_names_of)
  have fixed: "set fixed_names \<inter> set (side_names side depth) = {}" if "side \<in> {''ask'', ''bid''}" for side
    using set_side_names [of _ side depth] column_name_fixed [OF that] by fastforce
  have "set (side_names ''ask'' depth) \<inter> set (side_names ''bid'' depth) = {}"
    by (auto dest!: set_side_names)
  moreover have "distinct fixed_names" by simp
  moreover have "set fixed_names \<inter> set (side_names ''ask'' depth @ side_names ''bid'' depth) = {}"
    using fixed [of "''ask''"] fixed [of "''bid''"] unfolding set_append by blast
  ultimately show ?thesis
    unfolding eq distinct_append [of fixed_names] distinct_append [of "side_names ''ask'' depth"]
    using distinct_side_names by blast
qed

text \<open>Appending the cells of a row adds each to its column.\<close>

lemma append_cell_at:
  "map_of (append_cell cols (name, c)) k =
     (if k = name then map_option (\<lambda>xs. xs @ [c]) (map_of cols k) else map_of cols k)"
  by (simp split: option.split)

lemma append_cells_at:
  "distinct (map fst kvs) \<Longrightarrow>
     map_of (foldl append_cell cols kvs) k =
       (case map_of kvs k of None \<Rightarrow> map_of cols k | Some c \<Rightarrow> map_option (\<lambda>xs. xs @ [c]) (map_of cols k))"
proof (induction kvs arbitrary: cols)
  case (Cons kv kvs)
  obtain name c where kv: "kv = (name, c)" by fastforce
  show ?case
  proof (cases "k = name")
    case True
    with Cons.prems kv have "map_of kvs k = None" by (simp add: map_of_eq_None_iff)
    with Cons kv True show ?thesis by (simp add: append_cell_at del: append_cell.simps)
  next
    case False
    with Cons kv show ?thesis by (simp add: append_cell_at del: append_cell.simps split: option.split)
  qed
qed simp

lemma append_rows_at:
  assumes "(name, pick) \<in> set (getters depth)"
  shows "map_of (foldl (append_row depth) cols rows) name = map_option (\<lambda>xs. xs @ map pick rows) (map_of cols name)"
proof (induction rows arbitrary: cols)
  case Nil
  then show ?case by (cases "map_of cols name") simp_all
next
  case (Cons row rows)
  have d: "distinct (map fst (row_cells row depth))"
    by (simp add: row_cells_getters names_of(1) [symmetric] comp_def split_beta) (simp add: names_of(1) distinct_names)
  have "(name, pick row) \<in> set (row_cells row depth)"
    using assms by (force simp: row_cells_getters)
  then have "map_of (row_cells row depth) name = Some (pick row)" using d by simp
  then have "map_of (append_row depth cols row) name = map_option (\<lambda>xs. xs @ [pick row]) (map_of cols name)"
    by (simp add: append_row_def append_cells_at [OF d])
  with Cons [of "append_row depth cols row"] show ?case
    by (cases "map_of cols name") simp_all
qed

lemma map_result_cong:
  "(\<And>x. x \<in> set xs \<Longrightarrow> f x = g x) \<Longrightarrow> map_result f xs = map_result g xs"
  by (induction xs) (auto split: sum.splits)

lemma map_result_map: "map_result f (map g xs) = map_result (f \<circ> g) xs"
  by (induction xs) (auto split: sum.splits)

section \<open>The row loop is the column-wise reference\<close>

lemma zip_names_getters:
  assumes "(f, pick) \<in> set (zip (build_schema depth) (map snd (getters depth)))"
  shows "(sf_name f, pick) \<in> set (getters depth)"
proof -
  have len: "length (getters depth) = length (build_schema depth)"
    using arg_cong [OF names_of(1), of length] by simp
  obtain i where i: "i < length (build_schema depth)" "f = build_schema depth ! i" "pick = snd (getters depth ! i)"
    using assms len by (auto simp: in_set_zip)
  have "map fst (getters depth) ! i = map sf_name (build_schema depth) ! i" by (simp only: names_of(1))
  with i len have "getters depth ! i = (sf_name f, pick)" by (simp add: prod_eq_iff)
  with i(1) len show ?thesis by (metis nth_mem)
qed

lemma empty_columns:
  assumes "distinct names"
  shows "map_of (dict_of [] (map (\<lambda>n. (n, [] :: cell list)) names)) n = (if n \<in> set names then Some [] else None)"
proof -
  let ?kvs = "map (\<lambda>n. (n, [] :: cell list)) names"
  have d: "distinct (map fst ?kvs)" using assms by (simp add: comp_def)
  have "map_of (dict_of [] ?kvs) n = map_of ?kvs n" using map_of_rev_distinct [OF d] by (simp add: map_of_dict_of)
  also have "\<dots> = (if n \<in> set names then Some [] else None)" by (induction names) auto
  finally show ?thesis .
qed

text \<open>
  The table builder equals its column-wise reference. For every list of rows and every depth,
  the row loop with its resolved lists appends exactly the column that takes its cell of every row
  in order: the four fixed fields, and for each side and level the price and the quantity of that
  level or a null where the row has fewer levels; no row is split, shifted or short of a cell, the
  columns are in the order of the schema, and an error is the first that \<open>pa.array\<close> raises.
\<close>

theorem table_is_column_wise: "rows_to_table pa_array rows depth (build_schema depth) = column_wise pa_array rows depth"
proof -
  let ?schema = "build_schema depth" and ?gs = "map snd (getters depth)"
  let ?empty = "dict_of [] (map (\<lambda>f. (sf_name f, [])) ?schema) :: columns"
  have empty: "map_of ?empty n = (if n \<in> sf_name ` set ?schema then Some [] else None)" for n
    using empty_columns [OF distinct_names [of depth], of n] by (simp add: comp_def)
  have dom: "fst ` set ?empty = sf_name ` set ?schema"
  proof -
    have "fst ` set ?empty = dom (map_of ?empty)" by (simp add: dom_map_of_conv_image_fst)
    also have "\<dots> = sf_name ` set ?schema" by (auto simp: empty dom_def split: if_splits)
    finally show ?thesis .
  qed
  have len: "length ?gs = length ?schema"
    using arg_cong [OF names_of(1), of length] by simp
  have "rows_to_table pa_array rows depth ?schema =
      map_result (\<lambda>f. pa_array (sf_type f) (the (map_of (foldl (append_row depth) ?empty rows) (sf_name f)))) ?schema"
    by (simp add: rows_to_table_def dom names_of Let_def)
  also have "\<dots> = map_result ((\<lambda>f. pa_array (sf_type f) (the (map_of (foldl (append_row depth) ?empty rows) (sf_name f)))) \<circ> fst)
      (zip ?schema ?gs)"
    using len by (simp flip: map_result_map)
  also have "\<dots> = column_wise pa_array rows depth"
    unfolding column_wise_def
  proof (rule map_result_cong)
    fix x assume x: "x \<in> set (zip ?schema ?gs)"
    obtain f pick where fp: "x = (f, pick)" by fastforce
    from zip_names_getters [OF x [unfolded fp]] have g: "(sf_name f, pick) \<in> set (getters depth)" .
    have "f \<in> set ?schema" using x fp by (auto dest: set_zip_leftD)
    then have "map_of ?empty (sf_name f) = Some []" by (simp add: empty)
    with append_rows_at [OF g, of ?empty rows] fp
    show "((\<lambda>f. pa_array (sf_type f) (the (map_of (foldl (append_row depth) ?empty rows) (sf_name f)))) \<circ> fst) x =
        (case x of (f, pick) \<Rightarrow> pa_array (sf_type f) (map pick rows))" by simp
  qed
  finally show ?thesis .
qed

section \<open>Types, and reading a table back\<close>

fun cell_fits :: "schema_field \<Rightarrow> cell \<Rightarrow> bool" where
  "cell_fits f Null = sf_nullable f"
| "cell_fits f (Int_Cell i) = (sf_type f = Int64)"
| "cell_fits f (Dec_Cell q) = (sf_type f = decimal_type)"

text \<open>What a reader makes of the columns of a table at position \<open>k\<close>: levels up to the first null.\<close>

fun cell_int :: "cell \<Rightarrow> int option" where
  "cell_int (Int_Cell i) = Some i"
| "cell_int _ = None"

fun cell_level :: "cell \<times> cell \<Rightarrow> price_level option" where
  "cell_level (Dec_Cell p, Dec_Cell q) = Some (p, q)"
| "cell_level _ = None"

definition read_levels :: "(string \<Rightarrow> cell) \<Rightarrow> string \<Rightarrow> int \<Rightarrow> price_level list" where
  "read_levels col side depth =
     map the (takeWhile (\<lambda>l. l \<noteq> None)
       (map (\<lambda>i. cell_level (col (column_name side ''price'' i), col (column_name side ''qty'' i))) [0..<nat depth]))"

definition table_column :: "int \<Rightarrow> cell list list \<Rightarrow> nat \<Rightarrow> string \<Rightarrow> cell" where
  "table_column depth table k n = (the (map_of (zip (map sf_name (build_schema depth)) table) n)) ! k"

definition read_row :: "string \<Rightarrow> string \<Rightarrow> int \<Rightarrow> cell list list \<Rightarrow> nat \<Rightarrow> snapshot_row" where
  "read_row exch name depth table k =
     (let col = table_column depth table k
      in \<lparr>row_exchange = exch, row_symbol = name, row_ts_exchange_ms = cell_int (col ''ts_exchange_ms''),
          row_ts_local_ns = the (cell_int (col ''ts_local_ns'')), row_ts_wall_ns = the (cell_int (col ''ts_wall_ns'')),
          row_last_applied_id = the (cell_int (col ''last_applied_id'')),
          row_bids = read_levels col ''bid'' depth, row_asks = read_levels col ''ask'' depth\<rparr>)"

lemma takeWhile_levels:
  "map the (takeWhile (\<lambda>l. l \<noteq> None) (map (\<lambda>i. cell_level (level_cell fst ls i, level_cell snd ls i)) [0..<n])) = take n ls"
proof -
  let ?f = "\<lambda>i. cell_level (level_cell fst ls i, level_cell snd ls i)"
  have f: "?f i = (if i < length ls then Some (ls ! i) else None)" for i by (simp add: level_cell_def)
  have upto: "takeWhile (\<lambda>i. i < m) [0..<n] = [0..<min n m]" for m :: nat
  proof (induction n)
    case (Suc n)
    show ?case
    proof (cases "n < m")
      case True
      then show ?thesis by (simp add: takeWhile_append2 min_def)
    next
      case False
      then have "takeWhile (\<lambda>i. i < m) (is @ [n]) = takeWhile (\<lambda>i. i < m) is" for "is"
        by (induction "is") simp_all
      with Suc False show ?thesis by (simp add: min_def)
    qed
  qed simp
  have "takeWhile (\<lambda>l. l \<noteq> None) (map ?f [0..<n]) = map ?f (takeWhile (\<lambda>i. i < length ls) [0..<n])"
    unfolding takeWhile_map comp_def f by (rule arg_cong [where f = "map _"]) (rule takeWhile_cong, simp_all)
  then have "map the (takeWhile (\<lambda>l. l \<noteq> None) (map ?f [0..<n])) = map (\<lambda>i. the (?f i)) [0..<min n (length ls)]"
    by (simp add: upto comp_def)
  also have "\<dots> = take n ls" by (rule nth_equalityI) (simp_all add: f)
  finally show ?thesis .
qed

lemma column_wise_exact:
  "column_wise (\<lambda>t cells. Inr cells) rows depth = Inr (map (\<lambda>pick. map pick rows) (map snd (getters depth)))"
proof -
  have len: "length (map snd (getters depth)) = length (build_schema depth)"
    using arg_cong [OF names_of(1), of length] by simp
  have "map_result (\<lambda>(f, pick). Inr (map pick rows)) xs = Inr (map (\<lambda>(f, pick). map pick rows) xs)"
    for xs :: "(schema_field \<times> (snapshot_row \<Rightarrow> cell)) list"
    by (induction xs) auto
  then have "column_wise (\<lambda>t cells. Inr cells) rows depth = Inr (map (\<lambda>(f, pick). map pick rows) (zip (build_schema depth) (map snd (getters depth))))"
    unfolding column_wise_def .
  also have "map (\<lambda>(f, pick). map pick rows) (zip (build_schema depth) (map snd (getters depth))) =
      map (\<lambda>pick. map pick rows) (map snd (zip (build_schema depth) (map snd (getters depth))))"
    by (simp add: split_beta)
  also have "map snd (zip (build_schema depth) (map snd (getters depth))) = map snd (getters depth)"
    using len by (simp only: map_snd_zip)
  finally show ?thesis .
qed

lemma getter_column:
  assumes "(n, pick) \<in> set (getters depth)" and "k < length rows"
  shows "table_column depth (map (\<lambda>pick. map pick rows) (map snd (getters depth))) k n = pick (rows ! k)"
proof -
  have "map_of (zip (map fst xs) (map (\<lambda>pick. map pick rows) (map snd xs))) n =
      map_option (\<lambda>pick. map pick rows) (map_of xs n)" for xs :: "(string \<times> (snapshot_row \<Rightarrow> cell)) list"
    by (induction xs) auto
  from this [of "getters depth"]
  have "map_of (zip (map fst (getters depth)) (map (\<lambda>pick. map pick rows) (map snd (getters depth)))) n =
      map_option (\<lambda>pick. map pick rows) (map_of (getters depth) n)" .
  moreover have "map_of (getters depth) n = Some pick"
    using assms(1) distinct_names [of depth] by (simp add: names_of(1) [symmetric])
  ultimately show ?thesis using assms(2) by (simp add: table_column_def names_of(1))
qed

lemma table_exists:
  "\<exists>table. rows_to_table (\<lambda>t cells. Inr cells) rows depth (build_schema depth) = Inr table"
  by (simp only: table_is_column_wise column_wise_exact) blast

text \<open>What the reader gets back of a row: the levels within the depth.\<close>

definition cut_row :: "int \<Rightarrow> snapshot_row \<Rightarrow> snapshot_row" where
  "cut_row depth row = row\<lparr>row_bids := take (nat depth) (row_bids row), row_asks := take (nat depth) (row_asks row)\<rparr>"

lemma side_getter_at:
  assumes "i < nat depth"
  shows "(column_name side ''price'' i, \<lambda>row. level_cell fst (levels_of row) i) \<in> set (side_getters side levels_of depth)"
    and "(column_name side ''qty'' i, \<lambda>row. level_cell snd (levels_of row) i) \<in> set (side_getters side levels_of depth)"
  using assms by (force simp: side_getters_def)+

lemma read_levels_getters:
  assumes "k < length rows" and "set (side_getters side levels_of depth) \<subseteq> set (getters depth)"
  shows "read_levels (table_column depth (map (\<lambda>pick. map pick rows) (map snd (getters depth))) k) side depth =
    take (nat depth) (levels_of (rows ! k))"
proof -
  let ?col = "table_column depth (map (\<lambda>pick. map pick rows) (map snd (getters depth))) k"
  have "cell_level (?col (column_name side ''price'' i), ?col (column_name side ''qty'' i)) =
      cell_level (level_cell fst (levels_of (rows ! k)) i, level_cell snd (levels_of (rows ! k)) i)" if "i < nat depth" for i
    using getter_column [OF subsetD [OF assms(2) side_getter_at(1) [OF that]] assms(1)]
      getter_column [OF subsetD [OF assms(2) side_getter_at(2) [OF that]] assms(1)] by simp
  then have "map (\<lambda>i. cell_level (?col (column_name side ''price'' i), ?col (column_name side ''qty'' i))) [0..<nat depth] =
      map (\<lambda>i. cell_level (level_cell fst (levels_of (rows ! k)) i, level_cell snd (levels_of (rows ! k)) i)) [0..<nat depth]"
    by (intro map_cong) simp_all
  then show ?thesis by (simp only: read_levels_def takeWhile_levels)
qed

lemma getter_types:
  assumes "(f, pick) \<in> set (zip (build_schema depth) (map snd (getters depth)))"
  shows "cell_fits f (pick row)"
proof -
  have fits: "list_all2 (\<lambda>f pick. cell_fits f (pick row)) (level_fields side depth) (map snd (side_getters side levels_of depth))"
    for side levels_of
  proof -
    have "list_all2 (\<lambda>f pick. cell_fits f (pick row))
        (concat (map (\<lambda>i. [\<lparr>sf_name = column_name side ''price'' i, sf_type = decimal_type, sf_nullable = True\<rparr>,
           \<lparr>sf_name = column_name side ''qty'' i, sf_type = decimal_type, sf_nullable = True\<rparr>]) xs))
        (map snd (concat (map (\<lambda>i. [(column_name side ''price'' i, \<lambda>row. level_cell fst (levels_of row) i),
           (column_name side ''qty'' i, \<lambda>row. level_cell snd (levels_of row) i)]) xs)))" for xs
      by (induction xs) (simp_all add: level_cell_def)
    then show ?thesis by (simp add: level_fields_def side_getters_def)
  qed
  have "list_all2 (\<lambda>f pick. cell_fits f (pick row)) (build_schema depth) (map snd (getters depth))"
    unfolding build_schema_def getters_def map_append
    by (intro list_all2_appendI fits) (simp add: opt_cell_def split: option.split)
  with assms show ?thesis by (auto simp: list_all2_iff)
qed

text \<open>The reference table, before \<open>pa.array\<close>: the column of every getter.\<close>

definition cell_columns :: "snapshot_row list \<Rightarrow> int \<Rightarrow> cell list list" where
  "cell_columns rows depth = map (\<lambda>pick. map pick rows) (map snd (getters depth))"

lemma cell_columns_fit:
  "list_all2 (\<lambda>f column. length column = length rows \<and> list_all (cell_fits f) column) (build_schema depth)
     (cell_columns rows depth)"
proof (rule list_all2_all_nthI)
  have len: "length (build_schema depth) = length (map snd (getters depth))"
    using arg_cong [OF names_of(1), of length] by simp
  then show "length (build_schema depth) = length (cell_columns rows depth)" by (simp add: cell_columns_def)
  fix i assume i: "i < length (build_schema depth)"
  then have "(build_schema depth ! i, map snd (getters depth) ! i) \<in> set (zip (build_schema depth) (map snd (getters depth)))"
    using len by (auto simp: in_set_zip)
  from getter_types [OF this] i len
  show "length (cell_columns rows depth ! i) = length rows \<and> list_all (cell_fits (build_schema depth ! i)) (cell_columns rows depth ! i)"
    by (simp add: list_all_iff cell_columns_def)
qed

lemma cell_columns_read:
  "map (\<lambda>k. read_row (row_exchange (rows ! k)) (row_symbol (rows ! k)) depth (cell_columns rows depth) k) [0..<length rows] =
     map (cut_row depth) rows"
proof (rule nth_equalityI)
  let ?table = "map (\<lambda>pick. map pick rows) (map snd (getters depth))"
  have row: "read_row (row_exchange (rows ! k)) (row_symbol (rows ! k)) depth ?table k = cut_row depth (rows ! k)"
    if k: "k < length rows" for k
  proof -
    note col = getter_column [OF _ k, of _ _ depth]
    have sub: "set (side_getters ''ask'' row_asks depth) \<subseteq> set (getters depth)"
      "set (side_getters ''bid'' row_bids depth) \<subseteq> set (getters depth)" by (auto simp: getters_def)
    have fixed: "table_column depth ?table k ''ts_exchange_ms'' = opt_cell (row_ts_exchange_ms (rows ! k))"
      "table_column depth ?table k ''ts_local_ns'' = Int_Cell (row_ts_local_ns (rows ! k))"
      "table_column depth ?table k ''ts_wall_ns'' = Int_Cell (row_ts_wall_ns (rows ! k))"
      "table_column depth ?table k ''last_applied_id'' = Int_Cell (row_last_applied_id (rows ! k))"
      using col [of "''ts_exchange_ms''" "opt_cell \<circ> row_ts_exchange_ms"]
        col [of "''ts_local_ns''" "Int_Cell \<circ> row_ts_local_ns"]
        col [of "''ts_wall_ns''" "Int_Cell \<circ> row_ts_wall_ns"]
        col [of "''last_applied_id''" "Int_Cell \<circ> row_last_applied_id"]
      by (simp_all add: getters_def del: map_map)
    have "cell_int (opt_cell x) = x" for x by (cases x) (simp_all add: opt_cell_def)
    then show ?thesis
      using read_levels_getters [OF k sub(1)] read_levels_getters [OF k sub(2)] fixed
      by (simp add: read_row_def cut_row_def Let_def del: map_map)
  qed
  fix i assume "i < length (map (\<lambda>k. read_row (row_exchange (rows ! k)) (row_symbol (rows ! k)) depth (cell_columns rows depth) k)
      [0..<length rows])"
  then show "map (\<lambda>k. read_row (row_exchange (rows ! k)) (row_symbol (rows ! k)) depth (cell_columns rows depth) k) [0..<length rows] ! i =
      map (cut_row depth) rows ! i"
    by (simp add: row cell_columns_def del: map_map)
qed simp

section \<open>What an array can hold\<close>

text \<open>
  The documented ranges: 64-bit integers, and decimals of 18 digits of which 8 are behind the point. A
  value outside makes \<open>pa.array\<close> raise; a value inside is kept exactly.
\<close>

fun holds :: "arrow_type \<Rightarrow> cell \<Rightarrow> bool" where
  "holds t Null = True"
| "holds Int64 (Int_Cell i) = (- (2 ^ 63) \<le> i \<and> i < 2 ^ 63)"
| "holds (Decimal128 digits scale) (Dec_Cell q) =
     (snd (quotient_of (q * 10 ^ scale)) = 1 \<and> \<bar>q * 10 ^ scale\<bar> < 10 ^ digits)"
| "holds _ _ = False"

definition row_holds :: "int \<Rightarrow> snapshot_row \<Rightarrow> bool" where
  "row_holds depth row \<longleftrightarrow> list_all2 (\<lambda>f c. holds (sf_type f) (snd c)) (build_schema depth) (row_cells row depth)"

lemma map_result_each:
  assumes "\<And>x. x \<in> set xs \<Longrightarrow> \<exists>y. f x = Inr y"
  shows "\<exists>ys. map_result f xs = Inr ys"
proof (cases "map_result f xs")
  case (Inl err)
  from map_result_error [OF this] assms show ?thesis by force
qed simp

lemma getter_holds:
  assumes "(f, pick) \<in> set (zip (build_schema depth) (map snd (getters depth)))" and "row_holds depth row"
  shows "holds (sf_type f) (pick row)"
proof -
  have "list_all2 (\<lambda>f c. holds (sf_type f) c) (build_schema depth) (map snd (row_cells row depth))"
    using assms(2) by (simp add: row_holds_def list_all2_map2)
  then have "list_all2 (\<lambda>f pick. holds (sf_type f) (pick row)) (build_schema depth) (map snd (getters depth))"
    by (simp add: row_cells_getters list_all2_map2 split_beta)
  with assms(1) show ?thesis by (auto simp: list_all2_iff)
qed

lemma table_columns:
  assumes "column_wise pa_array rows depth = Inr table"
    and "\<And>t cells arr. pa_array t cells = Inr arr \<Longrightarrow> to_pylist arr = cells"
  shows "map to_pylist table = cell_columns rows depth"
proof -
  have len: "length (map snd (getters depth)) = length (build_schema depth)"
    using arg_cong [OF names_of(1), of length] by simp
  have "map_result (\<lambda>(f, pick). pa_array (sf_type f) (map pick rows)) xs = Inr table \<Longrightarrow>
      map to_pylist table = map (\<lambda>pick. map pick rows) (map snd xs)" for xs :: "(schema_field \<times> (snapshot_row \<Rightarrow> cell)) list" and table
    by (induction xs arbitrary: table) (auto simp: assms(2) split: sum.splits)
  from this [OF assms(1) [unfolded column_wise_def]] len show ?thesis
    by (simp only: map_snd_zip cell_columns_def)
qed

text \<open>
  C30: a table loses nothing but the levels beyond its depth. Let \<open>pa.array\<close> keep the cells of every
  array it makes, and make one of all cells the type can hold, as documented. Then the builder fails only with an exception
  that \<open>pa.array\<close> raises on a column of the rows, and never when the ids and times of the rows are 64-bit and
  the levels within the depth have at most 8 decimal places and 18 digits. When it succeeds, every column has
  one cell for every row, of the type of its field, null only where the field allows it; and a reader that
  takes the columns by name and the exchange and symbol from the path gets every row back in its place, prices
  and quantities exact, each side cut to the depth.
\<close>

theorem table_roundtrip:
  assumes keeps: "\<forall>t cells arr. pa_array t cells = Inr arr \<longrightarrow> to_pylist arr = cells"
    and makes: "\<forall>t cells. list_all (holds t) cells \<longrightarrow> (\<exists>arr. pa_array t cells = Inr arr)"
  shows "(\<forall>err. rows_to_table pa_array rows depth (build_schema depth) = Inl err \<longrightarrow>
      \<not> list_all (row_holds depth) rows \<and>
      (\<exists>i < length (build_schema depth). pa_array (sf_type (build_schema depth ! i)) (cell_columns rows depth ! i) = Inl err)) \<and>
    (\<forall>table. rows_to_table pa_array rows depth (build_schema depth) = Inr table \<longrightarrow>
      list_all2 (\<lambda>f arr. length (to_pylist arr) = length rows \<and> list_all (cell_fits f) (to_pylist arr)) (build_schema depth) table \<and>
      map (\<lambda>k. read_row (row_exchange (rows ! k)) (row_symbol (rows ! k)) depth (map to_pylist table) k) [0..<length rows] =
        map (cut_row depth) rows)"
proof (intro conjI allI impI)
  fix err assume "rows_to_table pa_array rows depth (build_schema depth) = Inl err"
  then have fails: "column_wise pa_array rows depth = Inl err" by (simp only: table_is_column_wise)
  from map_result_error [OF this [unfolded column_wise_def]] obtain f pick
    where f: "(f, pick) \<in> set (zip (build_schema depth) (map snd (getters depth)))" "pa_array (sf_type f) (map pick rows) = Inl err"
    by auto
  then obtain i where "i < length (build_schema depth)" "i < length (getters depth)" "f = build_schema depth ! i" "pick = snd (getters depth ! i)"
    by (auto simp: in_set_zip)
  with f(2) show "\<exists>i < length (build_schema depth). pa_array (sf_type (build_schema depth ! i)) (cell_columns rows depth ! i) = Inl err"
    by (intro exI [of _ i]) (simp add: cell_columns_def)
  show "\<not> list_all (row_holds depth) rows"
  proof
    assume "list_all (row_holds depth) rows"
    then have "list_all (holds (sf_type f)) (map pick rows)" using getter_holds [OF f(1)] by (simp add: list_all_iff)
    with makes f(2) show False by force
  qed
next
  fix table assume "rows_to_table pa_array rows depth (build_schema depth) = Inr table"
  then have "column_wise pa_array rows depth = Inr table" by (simp only: table_is_column_wise)
  with keeps have table: "map to_pylist table = cell_columns rows depth" by (blast intro: table_columns)
  from cell_columns_fit [of rows depth]
  show "list_all2 (\<lambda>f arr. length (to_pylist arr) = length rows \<and> list_all (cell_fits f) (to_pylist arr)) (build_schema depth) table"
    by (simp flip: table add: list_all2_map2)
  show "map (\<lambda>k. read_row (row_exchange (rows ! k)) (row_symbol (rows ! k)) depth (map to_pylist table) k) [0..<length rows] =
      map (cut_row depth) rows"
    unfolding table by (rule cell_columns_read)
qed

text \<open>Arrays that raise outside the documented ranges, a row that fits and one whose price has too many digits.\<close>

definition strict_arrays :: "arrow_type \<Rightarrow> cell list \<Rightarrow> cell list result" where
  "strict_arrays t cells = (if list_all (holds t) cells then Inr cells else Inl ValueError)"

definition fine_row :: "decimal \<Rightarrow> snapshot_row" where
  "fine_row price = \<lparr>row_exchange = ''okx'', row_symbol = ''BTC-USDT'', row_ts_exchange_ms = None, row_ts_local_ns = 5,
     row_ts_wall_ns = 6, row_last_applied_id = 7, row_bids = [(price, 2), (99, 1)], row_asks = []\<rparr>"

lemma table_roundtrip_witness:
  "(\<exists>table. rows_to_table strict_arrays [fine_row (1001 / 10)] 1 (build_schema 1) = Inr table \<and>
      map (\<lambda>k. read_row ''okx'' ''BTC-USDT'' 1 table k) [0..<1] = [(fine_row (1001 / 10))\<lparr>row_bids := [(1001 / 10, 2)]\<rparr>]) \<and>
   rows_to_table strict_arrays [fine_row 100000000000] 1 (build_schema 1) = Inl ValueError"
proof
  have keeps: "\<forall>t cells arr. strict_arrays t cells = Inr arr \<longrightarrow> id arr = cells"
    by (simp add: strict_arrays_def)
  have makes: "\<forall>t cells. list_all (holds t) cells \<longrightarrow> (\<exists>arr. strict_arrays t cells = Inr arr)"
    by (simp add: strict_arrays_def)
  note facts = table_roundtrip [of strict_arrays id "[fine_row (1001 / 10)]" 1, OF keeps makes]
  have "row_holds 1 (fine_row (1001 / 10))" by code_simp
  then obtain table where table: "rows_to_table strict_arrays [fine_row (1001 / 10)] 1 (build_schema 1) = Inr table"
    using facts by (cases "rows_to_table strict_arrays [fine_row (1001 / 10)] 1 (build_schema 1)") auto
  with facts have "map (\<lambda>k. read_row ''okx'' ''BTC-USDT'' 1 table k) [0..<1] = [(fine_row (1001 / 10))\<lparr>row_bids := [(1001 / 10, 2)]\<rparr>]"
    by (simp add: fine_row_def cut_row_def)
  with table show "\<exists>table. rows_to_table strict_arrays [fine_row (1001 / 10)] 1 (build_schema 1) = Inr table \<and>
      map (\<lambda>k. read_row ''okx'' ''BTC-USDT'' 1 table k) [0..<1] = [(fine_row (1001 / 10))\<lparr>row_bids := [(1001 / 10, 2)]\<rparr>]"
    by (intro exI [of _ table] conjI)
  show "rows_to_table strict_arrays [fine_row 100000000000] 1 (build_schema 1) = Inl ValueError"
    unfolding table_is_column_wise
    by (simp add: column_wise_def build_schema_def level_fields_def getters_def side_getters_def fine_row_def
        strict_arrays_def level_cell_def decimal_type_def opt_cell_def)
qed

end
