(* ===== verification/Sink.thy ===== *)
theory Sink
  imports HourKey ParquetTable FeedBase "HOL-Library.Multiset"
begin

text \<open>
  The Parquet sink: \<open>_RotatingWriter\<close> and \<open>ParquetSink\<close> of \<^verbatim>\<open>sinks/parquet_sink.py\<close>.

  The disk maps paths to files. A file is the list of the tables written to it and whether it is
  sealed, that is whether \<open>ParquetWriter.close\<close> has written the footer without which it cannot be
  read. \<open>pa.array\<close> is the parameter of \<open>rows_to_table\<close> and may raise; operations of the file system
  succeed, and only the sink touches its files. Every reading of the clock is an own value: an
  operation consumes them from an arbitrary sequence.
\<close>

section \<open>Files and clock readings\<close>

record 'a parquet_file =
  fl_tables :: "'a list list"
  fl_sealed :: bool

type_synonym 'a disk = "path \<Rightarrow> 'a parquet_file option"

definition create_file :: "path \<Rightarrow> 'a disk \<Rightarrow> 'a disk" where
  "create_file p d = d(p \<mapsto> \<lparr>fl_tables = [], fl_sealed = False\<rparr>)"

definition append_table :: "path \<Rightarrow> 'a list \<Rightarrow> 'a disk \<Rightarrow> 'a disk" where
  "append_table p table d =
     (case d p of None \<Rightarrow> d | Some f \<Rightarrow> d(p \<mapsto> f\<lparr>fl_tables := fl_tables f @ [table]\<rparr>))"

definition seal_file :: "path \<Rightarrow> 'a disk \<Rightarrow> 'a disk" where
  "seal_file p d = (case d p of None \<Rightarrow> d | Some f \<Rightarrow> d(p \<mapsto> f\<lparr>fl_sealed := True\<rparr>))"

definition replace_file :: "path \<Rightarrow> path \<Rightarrow> 'a disk \<Rightarrow> 'a disk result" where
  "replace_file source target d =
     (case d source of None \<Rightarrow> Inl OSError | Some f \<Rightarrow> Inr ((d(source := None))(target \<mapsto> f)))"

type_synonym readings = "nat \<Rightarrow> seconds"

definition later :: "readings \<Rightarrow> readings" where
  "later clock = (\<lambda>n. clock (Suc n))"

section \<open>The rotating writer\<close>

record rotating_writer =
  rw_base_dir :: path
  rw_exchange :: string
  rw_symbol :: string
  rw_schema :: "schema_field list"
  rw_depth_levels :: int
  rw_checkpoint_interval :: seconds
  rw_writer :: "path option"
  rw_tmp_path :: "path option"
  rw_final_path :: "path option"
  rw_hour_key :: "string option"
  rw_sequence :: nat
  rw_opened_at :: seconds

definition new_rotating_writer ::
  "path \<Rightarrow> string \<Rightarrow> string \<Rightarrow> schema_field list \<Rightarrow> int \<Rightarrow> seconds \<Rightarrow> rotating_writer" where
  "new_rotating_writer base_dir exch name schema depth_levels checkpoint_interval =
     \<lparr>rw_base_dir = base_dir, rw_exchange = exch, rw_symbol = name, rw_schema = schema,
      rw_depth_levels = depth_levels, rw_checkpoint_interval = checkpoint_interval,
      rw_writer = None, rw_tmp_path = None, rw_final_path = None, rw_hour_key = None,
      rw_sequence = 0, rw_opened_at = 0\<rparr>"

text \<open>\<open>_finalize\<close>: the footer, then the rename. It is also \<open>close\<close>.\<close>

definition finalize_writer :: "'a disk \<Rightarrow> rotating_writer \<Rightarrow> unit result \<times> 'a disk \<times> rotating_writer" where
  "finalize_writer d w =
     (case rw_writer w of
        None \<Rightarrow> (Inr (), d, w)
      | Some p \<Rightarrow>
          (let d1 = seal_file p d
           in case (rw_tmp_path w, rw_final_path w) of
                (Some tmp, Some final) \<Rightarrow>
                  (case replace_file tmp final d1 of
                     Inl err \<Rightarrow> (Inl err, d1, w)
                   | Inr d2 \<Rightarrow> (Inr (), d2, w\<lparr>rw_writer := None, rw_tmp_path := None, rw_final_path := None\<rparr>))
              | _ \<Rightarrow> (Inl AssertionError, d1, w)))"

definition open_writer ::
  "string \<Rightarrow> seconds \<Rightarrow> 'a disk \<Rightarrow> rotating_writer \<Rightarrow> unit result \<times> 'a disk \<times> rotating_writer" where
  "open_writer hour_key now d w =
     (case partition_dir (rw_base_dir w) (rw_exchange w) (rw_symbol w) hour_key of
        Inl err \<Rightarrow> (Inl err, d, w)
      | Inr directory \<Rightarrow>
          (let i = (if Some hour_key \<noteq> rw_hour_key w then 0 else rw_sequence w);
               filename = part_name i;
               tmp = path_join directory (filename @ ''.tmp'')
           in (Inr (), create_file tmp d,
               w\<lparr>rw_hour_key := Some hour_key, rw_sequence := i + 1,
                 rw_final_path := Some (path_join directory filename), rw_tmp_path := Some tmp,
                 rw_writer := Some tmp, rw_opened_at := now\<rparr>)))"

definition needs_rotation :: "string \<Rightarrow> seconds \<Rightarrow> rotating_writer \<Rightarrow> bool" where
  "needs_rotation hour_key now w \<longleftrightarrow>
     rw_writer w = None \<or> Some hour_key \<noteq> rw_hour_key w \<or> rw_checkpoint_interval w \<le> now - rw_opened_at w"

definition rotate ::
  "string \<Rightarrow> seconds \<Rightarrow> 'a disk \<Rightarrow> rotating_writer \<Rightarrow> unit result \<times> 'a disk \<times> rotating_writer" where
  "rotate hour_key now d w =
     (if needs_rotation hour_key now w
      then (case finalize_writer d w of
              (Inl err, d1, w1) \<Rightarrow> (Inl err, d1, w1)
            | (Inr _, d1, w1) \<Rightarrow> open_writer hour_key now d1 w1)
      else (Inr (), d, w))"

type_synonym 'a arrays = "arrow_type \<Rightarrow> cell list \<Rightarrow> 'a result"

definition write_batch ::
  "'a arrays \<Rightarrow> seconds \<Rightarrow> snapshot_row list \<Rightarrow> 'a disk \<Rightarrow> rotating_writer \<Rightarrow>
     unit result \<times> 'a disk \<times> rotating_writer" where
  "write_batch pa_array now rows d w =
     (case rows of
        [] \<Rightarrow> (Inr (), d, w)
      | row # _ \<Rightarrow>
          (case hour_key_for (row_ts_wall_ns row) of
             Inl err \<Rightarrow> (Inl err, d, w)
           | Inr hour_key \<Rightarrow>
               (case rotate hour_key now d w of
                  (Inl err, d1, w1) \<Rightarrow> (Inl err, d1, w1)
                | (Inr _, d1, w1) \<Rightarrow>
                    (case rw_writer w1 of
                       None \<Rightarrow> (Inl AssertionError, d1, w1)
                     | Some p \<Rightarrow>
                         (case rows_to_table pa_array rows (rw_depth_levels w1) (rw_schema w1) of
                            Inl err \<Rightarrow> (Inl err, d1, w1)
                          | Inr table \<Rightarrow> (Inr (), append_table p table d1, w1))))))"

section \<open>The sink\<close>

record parquet_sink =
  ps_queue :: row_queue
  ps_output_dir :: path
  ps_depth_levels :: int
  ps_batch_size :: int
  ps_flush_interval :: seconds
  ps_checkpoint_interval :: seconds
  ps_stall_timeout :: seconds
  ps_schema :: "schema_field list"
  ps_writers :: "((string \<times> string) \<times> rotating_writer) list"
  ps_stats :: counters
  ps_buffer :: "snapshot_row list"
  ps_last_flush :: seconds
  ps_last_progress_at :: seconds

definition new_sink ::
  "row_queue \<Rightarrow> path \<Rightarrow> int \<Rightarrow> int \<Rightarrow> seconds \<Rightarrow> seconds \<Rightarrow> seconds \<Rightarrow> parquet_sink" where
  "new_sink q output_dir depth_levels batch_size flush_interval checkpoint_interval stall_timeout =
     \<lparr>ps_queue = q, ps_output_dir = output_dir, ps_depth_levels = depth_levels, ps_batch_size = batch_size,
      ps_flush_interval = flush_interval, ps_checkpoint_interval = checkpoint_interval,
      ps_stall_timeout = stall_timeout, ps_schema = build_schema depth_levels, ps_writers = [], ps_stats = [],
      ps_buffer = [], ps_last_flush = 0, ps_last_progress_at = 0\<rparr>"

text \<open>The defaults of the module, with which the application builds its sink.\<close>

definition default_sink :: "row_queue \<Rightarrow> path \<Rightarrow> int \<Rightarrow> parquet_sink" where
  "default_sink q output_dir depth_levels = new_sink q output_dir depth_levels 500 5 300 60"

record sink_stats =
  ss_counters :: counters
  ss_queue_depth :: nat
  ss_rows_dropped :: nat

definition sink_get_stats :: "parquet_sink \<Rightarrow> sink_stats" where
  "sink_get_stats s =
     \<lparr>ss_counters = ps_stats s, ss_queue_depth = qsize (ps_queue s), ss_rows_dropped = rq_rows_dropped (ps_queue s)\<rparr>"

type_synonym group_key = "string \<times> string \<times> string"
type_synonym row_groups = "(group_key \<times> snapshot_row list) list"

fun group_rows :: "row_groups \<Rightarrow> snapshot_row list \<Rightarrow> row_groups result" where
  "group_rows groups [] = Inr groups"
| "group_rows groups (row # rows) =
     (case hour_key_for (row_ts_wall_ns row) of
        Inl err \<Rightarrow> Inl err
      | Inr hour_key \<Rightarrow>
          (let key = (row_exchange row, row_symbol row, hour_key);
               old = (case map_of groups key of None \<Rightarrow> [] | Some xs \<Rightarrow> xs)
           in group_rows (AList.update key (old @ [row]) groups) rows))"

definition bump_by :: "string \<Rightarrow> nat \<Rightarrow> counters \<Rightarrow> counters" where
  "bump_by k n c = AList.update k (count_of k c + n) c"

definition writer_for :: "string \<Rightarrow> string \<Rightarrow> parquet_sink \<Rightarrow> rotating_writer" where
  "writer_for exch name s =
     (case map_of (ps_writers s) (exch, name) of
        Some w \<Rightarrow> w
      | None \<Rightarrow> new_rotating_writer (ps_output_dir s) exch name (ps_schema s) (ps_depth_levels s) (ps_checkpoint_interval s))"

fun write_group ::
  "'a arrays \<Rightarrow> seconds \<Rightarrow> group_key \<times> snapshot_row list \<Rightarrow> 'a disk \<Rightarrow> parquet_sink \<Rightarrow>
     unit result \<times> 'a disk \<times> parquet_sink" where
  "write_group pa_array now ((exch, name, _), rows) d s =
     (case write_batch pa_array now rows d (writer_for exch name s) of
        (res, d1, w1) \<Rightarrow>
          (let s1 = s\<lparr>ps_writers := AList.update (exch, name) w1 (ps_writers s)\<rparr>
           in case res of
                Inl err \<Rightarrow> (Inl err, d1, s1)
              | Inr _ \<Rightarrow> (Inr (), d1, s1\<lparr>ps_stats := bump_by ''rows_written'' (length rows) (ps_stats s1)\<rparr>)))"

fun write_groups ::
  "'a arrays \<Rightarrow> readings \<Rightarrow> row_groups \<Rightarrow> 'a disk \<Rightarrow> parquet_sink \<Rightarrow>
     unit result \<times> readings \<times> 'a disk \<times> parquet_sink" where
  "write_groups pa_array clock [] d s = (Inr (), clock, d, s)"
| "write_groups pa_array clock (g # gs) d s =
     (case write_group pa_array (clock 0) g d s of
        (Inl err, d1, s1) \<Rightarrow> (Inl err, later clock, d1, s1)
      | (Inr _, d1, s1) \<Rightarrow> write_groups pa_array (later clock) gs d1 s1)"

definition flush ::
  "'a arrays \<Rightarrow> readings \<Rightarrow> snapshot_row list \<Rightarrow> 'a disk \<Rightarrow> parquet_sink \<Rightarrow>
     unit result \<times> readings \<times> 'a disk \<times> parquet_sink" where
  "flush pa_array clock rows d s =
     (case group_rows [] rows of
        Inl err \<Rightarrow> (Inl err, clock, d, s)
      | Inr groups \<Rightarrow>
          (case write_groups pa_array clock groups d s of
             (Inl err, clock1, d1, s1) \<Rightarrow> (Inl err, clock1, d1, s1)
           | (Inr _, clock1, d1, s1) \<Rightarrow>
               (Inr (), clock1, d1, s1\<lparr>ps_stats := bump_by ''batches_flushed'' 1 (ps_stats s1)\<rparr>)))"

text \<open>The flush of the buffer and its reset, which a flush that raises does not reach.\<close>

definition flush_buffer ::
  "'a arrays \<Rightarrow> readings \<Rightarrow> 'a disk \<Rightarrow> parquet_sink \<Rightarrow> unit result \<times> readings \<times> 'a disk \<times> parquet_sink" where
  "flush_buffer pa_array clock d s =
     (case flush pa_array clock (ps_buffer s) d s of
        (Inl err, clock1, d1, s1) \<Rightarrow> (Inl err, clock1, d1, s1)
      | (Inr _, clock1, d1, s1) \<Rightarrow> (Inr (), clock1, d1, s1\<lparr>ps_buffer := []\<rparr>))"

section \<open>The consumer and the watchdog\<close>

text \<open>The top of the loop of \<open>_consume\<close>: it ends at \<open>wait_for\<close>, with the timeout it is given.\<close>

definition consume_top ::
  "'a arrays \<Rightarrow> readings \<Rightarrow> 'a disk \<Rightarrow> parquet_sink \<Rightarrow> seconds result \<times> readings \<times> 'a disk \<times> parquet_sink" where
  "consume_top pa_array clock d s =
     (let remaining = ps_flush_interval s - (clock 0 - ps_last_flush s)
      in if remaining \<le> 0
         then (case (if ps_buffer s \<noteq> [] then flush_buffer pa_array (later clock) d s else (Inr (), later clock, d, s)) of
                 (Inl err, clock1, d1, s1) \<Rightarrow> (Inl err, clock1, d1, s1)
               | (Inr _, clock1, d1, s1) \<Rightarrow>
                   (Inr (ps_flush_interval s1), later clock1, d1, s1\<lparr>ps_last_flush := clock1 0\<rparr>))
         else (Inr remaining, later clock, d, s))"

text \<open>What follows the wait: the flush of a full or an old buffer.\<close>

definition flush_due :: "seconds \<Rightarrow> parquet_sink \<Rightarrow> bool" where
  "flush_due now s \<longleftrightarrow>
     ps_batch_size s \<le> int (length (ps_buffer s)) \<or>
     (ps_buffer s \<noteq> [] \<and> ps_flush_interval s \<le> now - ps_last_flush s)"

definition consume_bottom ::
  "'a arrays \<Rightarrow> readings \<Rightarrow> 'a disk \<Rightarrow> parquet_sink \<Rightarrow> unit result \<times> readings \<times> 'a disk \<times> parquet_sink" where
  "consume_bottom pa_array clock d s =
     (let now = clock 0
      in if flush_due now s
         then (case flush_buffer pa_array (later clock) d s of
                 (Inl err, clock1, d1, s1) \<Rightarrow> (Inl err, clock1, d1, s1)
               | (Inr _, clock1, d1, s1) \<Rightarrow>
                   (Inr (), clock1, d1, s1\<lparr>ps_last_flush := now, ps_last_progress_at := now\<rparr>))
         else (Inr (), later clock, d, s))"

definition take_row :: "readings \<Rightarrow> parquet_sink \<Rightarrow> (readings \<times> parquet_sink) option" where
  "take_row clock s =
     (case RowQueue.get (ps_queue s) of
        None \<Rightarrow> None
      | Some (row, q) \<Rightarrow>
          Some (later clock, s\<lparr>ps_queue := q, ps_buffer := ps_buffer s @ [row], ps_last_progress_at := clock 0\<rparr>))"

definition watchdog_interval :: "parquet_sink \<Rightarrow> seconds" where
  "watchdog_interval s = max (ps_stall_timeout s / 4) 1"

definition watchdog_check :: "seconds \<Rightarrow> parquet_sink \<Rightarrow> unit result" where
  "watchdog_check now s =
     (if ps_stall_timeout s \<le> now - ps_last_progress_at s \<and> 0 < qsize (ps_queue s)
      then Inl RuntimeError else Inr ())"

section \<open>\<open>run\<close>\<close>

text \<open>
  \<open>run\<close> ends cancelled, with the group that the \<open>TaskGroup\<close> makes of a task's exception, or with what
  its own \<open>finally\<close> raises.
\<close>

datatype sink_end = Cancelled | Exception_Group py_exc | Raised py_exc

datatype consumer = Not_Started | Waits seconds | Gone

record 'a sink_run =
  sr_disk :: "'a disk"
  sr_sink :: parquet_sink
  sr_consumer :: consumer
  sr_end :: "sink_end option"

definition start_run :: "readings \<Rightarrow> 'a disk \<Rightarrow> parquet_sink \<Rightarrow> 'a sink_run" where
  "start_run clock d s =
     \<lparr>sr_disk = d, sr_sink = s\<lparr>ps_buffer := [], ps_last_flush := clock 0, ps_last_progress_at := clock 1\<rparr>,
      sr_consumer = Not_Started, sr_end = None\<rparr>"

fun close_writers ::
  "'a disk \<Rightarrow> ((string \<times> string) \<times> rotating_writer) list \<Rightarrow>
     unit result \<times> 'a disk \<times> ((string \<times> string) \<times> rotating_writer) list" where
  "close_writers d [] = (Inr (), d, [])"
| "close_writers d ((key, w) # ws) =
     (case finalize_writer d w of
        (Inl err, d1, w1) \<Rightarrow> (Inl err, d1, (key, w1) # ws)
      | (Inr _, d1, w1) \<Rightarrow> (case close_writers d1 ws of (res, d2, ws2) \<Rightarrow> (res, d2, (key, w1) # ws2)))"

text \<open>The \<open>finally\<close> of \<open>run\<close>.\<close>

definition finish_sink :: "'a arrays \<Rightarrow> readings \<Rightarrow> sink_end \<Rightarrow> 'a disk \<Rightarrow> parquet_sink \<Rightarrow> 'a sink_run" where
  "finish_sink pa_array clock why d s =
     (case (if ps_buffer s \<noteq> [] then flush_buffer pa_array clock d s else (Inr (), clock, d, s)) of
        (Inl err, _, d1, s1) \<Rightarrow> \<lparr>sr_disk = d1, sr_sink = s1, sr_consumer = Gone, sr_end = Some (Raised err)\<rparr>
      | (Inr _, _, d1, s1) \<Rightarrow>
          (case close_writers d1 (ps_writers s1) of
             (res, d2, ws) \<Rightarrow>
               \<lparr>sr_disk = d2, sr_sink = s1\<lparr>ps_writers := ws\<rparr>, sr_consumer = Gone,
                sr_end = Some (case res of Inl err \<Rightarrow> Raised err | Inr _ \<Rightarrow> why)\<rparr>))"

text \<open>The consumer goes on to its next wait, or its exception ends \<open>run\<close>.\<close>

definition goes_on ::
  "'a arrays \<Rightarrow> seconds result \<times> readings \<times> 'a disk \<times> parquet_sink \<Rightarrow> 'a sink_run" where
  "goes_on pa_array x =
     (case x of
        (Inl err, clock, d, s) \<Rightarrow> finish_sink pa_array clock (Exception_Group err) d s
      | (Inr timeout, clock, d, s) \<Rightarrow>
          \<lparr>sr_disk = d, sr_sink = s, sr_consumer = Waits timeout, sr_end = None\<rparr>)"

definition next_turn ::
  "'a arrays \<Rightarrow> readings \<Rightarrow> 'a disk \<Rightarrow> parquet_sink \<Rightarrow> 'a sink_run" where
  "next_turn pa_array clock d s =
     (case consume_bottom pa_array clock d s of
        (Inl err, clock1, d1, s1) \<Rightarrow> goes_on pa_array (Inl err, clock1, d1, s1)
      | (Inr _, clock1, d1, s1) \<Rightarrow> goes_on pa_array (consume_top pa_array clock1 d1 s1))"

text \<open>What happens to a running sink.\<close>

datatype sink_event =
    Feed_Puts snapshot_row
  | Consumer_Starts readings
  | Row_Comes readings
  | Wait_Times_Out readings
  | Watchdog_Wakes readings
  | Sink_Cancelled readings

fun sink_next :: "'a arrays \<Rightarrow> sink_event \<Rightarrow> 'a sink_run \<Rightarrow> 'a sink_run option" where
  "sink_next pa_array (Feed_Puts row) r =
     Some (r\<lparr>sr_sink := (sr_sink r)\<lparr>ps_queue := snd (put (ps_queue (sr_sink r)) row)\<rparr>\<rparr>)"
| "sink_next pa_array (Consumer_Starts clock) r =
     (if sr_end r = None \<and> sr_consumer r = Not_Started
      then Some (goes_on pa_array (consume_top pa_array clock (sr_disk r) (sr_sink r))) else None)"
| "sink_next pa_array (Row_Comes clock) r =
     (case (sr_end r, sr_consumer r, take_row clock (sr_sink r)) of
        (None, Waits timeout, Some (clock1, s)) \<Rightarrow> Some (next_turn pa_array clock1 (sr_disk r) s)
      | _ \<Rightarrow> None)"
| "sink_next pa_array (Wait_Times_Out clock) r =
     (case (sr_end r, sr_consumer r) of
        (None, Waits timeout) \<Rightarrow> Some (next_turn pa_array clock (sr_disk r) (sr_sink r))
      | _ \<Rightarrow> None)"
| "sink_next pa_array (Watchdog_Wakes clock) r =
     (if sr_end r = None
      then Some (case watchdog_check (clock 0) (sr_sink r) of
                   Inl err \<Rightarrow> finish_sink pa_array (later clock) (Exception_Group err) (sr_disk r) (sr_sink r)
                 | Inr _ \<Rightarrow> r)
      else None)"
| "sink_next pa_array (Sink_Cancelled clock) r =
     (if sr_end r = None
      then Some (finish_sink pa_array clock Cancelled (sr_disk r) (sr_sink r)) else None)"

text \<open>A run of events, with the rows the consumer takes.\<close>

definition taken_by :: "sink_event \<Rightarrow> 'a sink_run \<Rightarrow> snapshot_row list" where
  "taken_by ev r = (case ev of Row_Comes _ \<Rightarrow> take 1 (rq_items (ps_queue (sr_sink r))) | _ \<Rightarrow> [])"

fun sink_exec :: "'a arrays \<Rightarrow> sink_event list \<Rightarrow> 'a sink_run \<Rightarrow> (snapshot_row list \<times> 'a sink_run) option" where
  "sink_exec pa_array [] r = Some ([], r)"
| "sink_exec pa_array (ev # evs) r =
     (case sink_next pa_array ev r of
        None \<Rightarrow> None
      | Some r1 \<Rightarrow> map_option (\<lambda>(got, r2). (taken_by ev r @ got, r2)) (sink_exec pa_array evs r1))"

end
