(* ===== verification/SinkProps.thy ===== *)
theory SinkProps
  imports Sink
begin

text \<open>
  What the Parquet sink guarantees. The proofs carry, for every file, the batches of rows it was
  written from (a function \<open>B\<close> from paths): the invariant \<open>sink_ok\<close> says that each file holds the tables
  of its batches, that the files of a pair of exchange and symbol are numbered below the counter of
  its writer, and that they belong to hours up to the one the writer is at.
\<close>

section \<open>Hours, directories and names\<close>

definition valid_hour :: "int \<Rightarrow> bool" where
  "valid_hour h \<longleftrightarrow> 0 \<le> h + 24 * epoch_day \<and> h < 24 * (days_of_9999_years - epoch_day)"

definition key_of :: "int \<Rightarrow> string" where
  "key_of h = hour_text (nat (h + 24 * epoch_day))"

definition row_hour :: "snapshot_row \<Rightarrow> int" where
  "row_hour row = hour_number (row_ts_wall_ns row)"

lemma hour_key_for_iff: "hour_key_for ts = Inr k \<longleftrightarrow> valid_hour (hour_number ts) \<and> k = key_of (hour_number ts)"
  by (auto simp: hour_key_for_def valid_hour_def key_of_def Let_def)

lemma key_of_eq: "valid_hour h \<Longrightarrow> valid_hour h' \<Longrightarrow> key_of h = key_of h' \<longleftrightarrow> h = h'"
  by (auto simp: key_of_def valid_hour_def dest!: hour_text_inj)

lemma hour_has_time:
  assumes "valid_hour h"
  shows "hour_key_for (h * 3600000000000) = Inr (key_of h)"
proof -
  have "h * 3600000000000 = (h * 3600000000) * 1000" by simp
  then have "round_half_even (h * 3600000000000) 1000 = h * 3600000000"
    by (simp only: round_half_even_def Let_def mod_mult_self2_is_0 nonzero_mult_div_cancel_right) simp
  then have "hour_number (h * 3600000000000) = h" by (simp add: hour_number_def)
  with assms show ?thesis by (simp add: hour_key_for_iff)
qed

definition pdir :: "path \<Rightarrow> string \<Rightarrow> string \<Rightarrow> int \<Rightarrow> path" where
  "pdir base exch name h = projr (partition_dir base exch name (key_of h))"

lemma partition_dir_at: "valid_hour h \<Longrightarrow> partition_dir base exch name (key_of h) = Inr (pdir base exch name h)"
  using partition_dir_total [OF hour_has_time, of h base exch name] by (auto simp: pdir_def)

lemma pdir_eq:
  assumes "valid_hour h" "valid_hour h'" "names_plain exch name" "names_plain exch' name'"
  shows "pdir base exch name h = pdir base exch' name' h' \<longleftrightarrow> exch = exch' \<and> name = name' \<and> h = h'"
  using partition_dir_inj [OF partition_dir_at [OF assms(1)] partition_dir_at [OF assms(2)]
      hour_has_time [OF assms(1)] hour_has_time [OF assms(2)] assms(3,4), of base]
    key_of_eq [OF assms(1,2)] by simp

definition final_path :: "path \<Rightarrow> string \<Rightarrow> string \<Rightarrow> int \<Rightarrow> nat \<Rightarrow> path" where
  "final_path base exch name h i = pdir base exch name h @ [part_name i]"

definition tmp_path :: "path \<Rightarrow> string \<Rightarrow> string \<Rightarrow> int \<Rightarrow> nat \<Rightarrow> path" where
  "tmp_path base exch name h i = pdir base exch name h @ [part_name i @ ''.tmp'']"

lemma paths_eq:
  assumes "valid_hour h" "valid_hour h'" "names_plain exch name" "names_plain exch' name'"
  shows "final_path base exch name h i = final_path base exch' name' h' j \<longleftrightarrow>
      exch = exch' \<and> name = name' \<and> h = h' \<and> i = j"
    and "tmp_path base exch name h i = tmp_path base exch' name' h' j \<longleftrightarrow>
      exch = exch' \<and> name = name' \<and> h = h' \<and> i = j"
  using pdir_eq [OF assms, of base] by (auto simp: final_path_def tmp_path_def)

lemma final_not_tmp [simp]:
  "final_path base exch name h i \<noteq> tmp_path base' exch' name' h' j"
  "tmp_path base' exch' name' h' j \<noteq> final_path base exch name h i"
  using part_name_not_tmp by (metis final_path_def last_snoc tmp_path_def)+

section \<open>The invariant\<close>

type_synonym batches = "path \<Rightarrow> snapshot_row list list"
type_synonym pair_writers = "string \<times> string \<Rightarrow> rotating_writer option"

definition rows_at :: "string \<Rightarrow> string \<Rightarrow> int \<Rightarrow> snapshot_row list \<Rightarrow> bool" where
  "rows_at exch name h rows \<longleftrightarrow>
     list_all (\<lambda>row. row_exchange row = exch \<and> row_symbol row = name \<and> row_hour row = h) rows"

definition holds_batches :: "'a arrays \<Rightarrow> int \<Rightarrow> 'a parquet_file \<Rightarrow> snapshot_row list list \<Rightarrow> bool" where
  "holds_batches pa depth f bs \<longleftrightarrow>
     map Inr (fl_tables f) = map (\<lambda>rows. rows_to_table pa rows depth (build_schema depth)) bs"

text \<open>The writer of a pair, at hour \<open>h\<close>: closed, or open with its file.\<close>

definition closed_writer :: "rotating_writer \<Rightarrow> bool" where
  "closed_writer w \<longleftrightarrow> rw_writer w = None \<and> rw_tmp_path w = None \<and> rw_final_path w = None"

definition open_at :: "'a disk \<Rightarrow> path \<Rightarrow> string \<Rightarrow> string \<Rightarrow> int \<Rightarrow> nat \<Rightarrow> rotating_writer \<Rightarrow> bool" where
  "open_at d base exch name h i w \<longleftrightarrow>
     rw_sequence w = Suc i \<and> rw_writer w = Some (tmp_path base exch name h i) \<and>
     rw_tmp_path w = Some (tmp_path base exch name h i) \<and> rw_final_path w = Some (final_path base exch name h i) \<and>
     (\<exists>f. d (tmp_path base exch name h i) = Some f) \<and> d (final_path base exch name h i) = None"

definition writer_fits :: "path \<Rightarrow> int \<Rightarrow> string \<Rightarrow> string \<Rightarrow> rotating_writer \<Rightarrow> bool" where
  "writer_fits base depth exch name w \<longleftrightarrow>
     rw_base_dir w = base \<and> rw_exchange w = exch \<and> rw_symbol w = name \<and>
     rw_schema w = build_schema depth \<and> rw_depth_levels w = depth \<and> names_plain exch name"

definition writer_ok :: "'a disk \<Rightarrow> path \<Rightarrow> int \<Rightarrow> string \<Rightarrow> string \<Rightarrow> rotating_writer \<Rightarrow> bool" where
  "writer_ok d base depth exch name w \<longleftrightarrow>
     writer_fits base depth exch name w \<and>
     (\<exists>h. valid_hour h \<and> rw_hour_key w = Some (key_of h) \<and>
        (closed_writer w \<or> (\<exists>i. open_at d base exch name h i w)))"

text \<open>Where a file belongs: to a pair, an hour no later than its writer's and a number below the counter.\<close>

definition file_place ::
  "path \<Rightarrow> pair_writers \<Rightarrow> path \<Rightarrow> 'a parquet_file \<Rightarrow> snapshot_row list list \<Rightarrow> bool" where
  "file_place base W p f bs \<longleftrightarrow>
     (\<exists>exch name w h hw i. W (exch, name) = Some w \<and> valid_hour h \<and> valid_hour hw \<and>
        rw_hour_key w = Some (key_of hw) \<and> h \<le> hw \<and> (h = hw \<longrightarrow> i < rw_sequence w) \<and>
        rows_at exch name h (concat bs) \<and>
        (p = final_path base exch name h i \<and> fl_sealed f \<or>
         p = tmp_path base exch name h i \<and> rw_writer w = Some p))"

definition sink_ok :: "'a arrays \<Rightarrow> path \<Rightarrow> int \<Rightarrow> 'a disk \<Rightarrow> pair_writers \<Rightarrow> batches \<Rightarrow> bool" where
  "sink_ok pa base depth d W B \<longleftrightarrow>
     finite (dom d) \<and> (\<forall>p. d p = None \<longrightarrow> B p = []) \<and>
     (\<forall>exch name w. W (exch, name) = Some w \<longrightarrow> writer_ok d base depth exch name w) \<and>
     (\<forall>p f. d p = Some f \<longrightarrow> holds_batches pa depth f (B p) \<and> file_place base W p f (B p))"

text \<open>All rows on the disk.\<close>

definition bag :: "'a disk \<Rightarrow> batches \<Rightarrow> snapshot_row multiset" where
  "bag d B = (\<Sum>p\<in>dom d. mset (concat (B p)))"

section \<open>The steps of a writer keep the invariant\<close>

lemma sink_ok_writer:
  assumes "sink_ok pa base depth d W B" and "W (exch, name) = Some w"
  shows "writer_ok d base depth exch name w"
  using assms by (auto simp: sink_ok_def)

lemma names_of_writer: "writer_ok d base depth exch name w \<Longrightarrow> names_plain exch name"
  by (simp add: writer_ok_def writer_fits_def)

lemma open_at_other:
  assumes "open_at d base exch name h i w" "valid_hour h" "names_plain exch name"
    and "valid_hour h'" "names_plain exch' name'" "(exch, name) \<noteq> (exch', name')"
    and "\<And>p. p \<noteq> tmp_path base exch' name' h' i' \<Longrightarrow> p \<noteq> final_path base exch' name' h' i' \<Longrightarrow> d' p = d p"
  shows "open_at d' base exch name h i w"
proof -
  have "tmp_path base exch name h i \<noteq> tmp_path base exch' name' h' i'"
    "final_path base exch name h i \<noteq> final_path base exch' name' h' i'"
    using assms(6) paths_eq [OF assms(2,4,3,5), of base i i'] by auto
  then show ?thesis using assms(1,7) by (simp add: open_at_def)
qed

lemma writer_ok_other:
  assumes "writer_ok d base depth exch name w" "valid_hour h'" "names_plain exch' name'" "(exch, name) \<noteq> (exch', name')"
    and "\<And>p. p \<noteq> tmp_path base exch' name' h' i' \<Longrightarrow> p \<noteq> final_path base exch' name' h' i' \<Longrightarrow> d' p = d p"
  shows "writer_ok d' base depth exch name w"
proof -
  obtain h where h: "valid_hour h" "rw_hour_key w = Some (key_of h)"
      "closed_writer w \<or> (\<exists>i. open_at d base exch name h i w)"
    and fits: "writer_fits base depth exch name w"
    using assms(1) by (auto simp: writer_ok_def)
  have "open_at d' base exch name h i w" if "open_at d base exch name h i w" for i
    using open_at_other [OF that h(1) names_of_writer [OF assms(1)] assms(2,3,4), of i' d'] assms(5) by blast
  with h(3) have "closed_writer w \<or> (\<exists>i. open_at d' base exch name h i w)" by blast
  with h(1,2) fits show ?thesis by (auto simp: writer_ok_def)
qed

lemma bag_move:
  assumes "finite (dom d)" "d t = Some x" "d f = None" "t \<noteq> f"
  shows "bag (d(t := None, f \<mapsto> y)) (B(f := B t, t := [])) = bag d B"
proof -
  have dom: "dom (d(t := None, f \<mapsto> y)) = insert f (dom d - {t})" using assms(4) by auto
  have "bag (d(t := None, f \<mapsto> y)) (B(f := B t, t := [])) =
      mset (concat (B t)) + (\<Sum>p\<in>dom d - {t}. mset (concat ((B(f := B t, t := [])) p)))"
    unfolding bag_def dom using assms by (subst sum.insert) (auto simp: domIff)
  also have "(\<Sum>p\<in>dom d - {t}. mset (concat ((B(f := B t, t := [])) p))) = (\<Sum>p\<in>dom d - {t}. mset (concat (B p)))"
    using assms by (intro sum.cong) auto
  also have "mset (concat (B t)) + \<dots> = bag d B"
    unfolding bag_def using assms(1,2) by (simp add: sum.remove [of "dom d" t] domI)
  finally show ?thesis .
qed

lemma finalize_closed: "closed_writer w \<Longrightarrow> finalize_writer d w = (Inr (), d, w)"
  by (simp add: closed_writer_def finalize_writer_def)

lemma finalize_open:
  assumes "open_at d base exch name h i w" "d (tmp_path base exch name h i) = Some x"
  shows "finalize_writer d w =
    (Inr (), d(tmp_path base exch name h i := None, final_path base exch name h i \<mapsto> x\<lparr>fl_sealed := True\<rparr>),
     w\<lparr>rw_writer := None, rw_tmp_path := None, rw_final_path := None\<rparr>)"
  using assms by (simp add: open_at_def finalize_writer_def seal_file_def replace_file_def Let_def)

lemma file_place_other:
  assumes "file_place base W p f bs" and "W (exch, name) = Some w"
    and "rw_hour_key w' = rw_hour_key w" "rw_sequence w' = rw_sequence w"
    and "rw_writer w \<noteq> Some p"
  shows "file_place base (W((exch, name) \<mapsto> w')) p f bs"
  using assms unfolding file_place_def by (smt (verit) fun_upd_apply option.inject prod.inject)

lemma finalize_ok:
  assumes ok: "sink_ok pa base depth d W B" and w: "W (exch, name) = Some w"
  shows "\<exists>d1 w1 B1. finalize_writer d w = (Inr (), d1, w1) \<and> sink_ok pa base depth d1 (W((exch, name) \<mapsto> w1)) B1 \<and>
    bag d1 B1 = bag d B \<and> closed_writer w1 \<and> rw_hour_key w1 = rw_hour_key w \<and> rw_sequence w1 = rw_sequence w"
proof -
  note wok = sink_ok_writer [OF ok w]
  obtain h where h: "valid_hour h" "rw_hour_key w = Some (key_of h)"
      "closed_writer w \<or> (\<exists>i. open_at d base exch name h i w)"
    and fits: "writer_fits base depth exch name w"
    using wok by (auto simp: writer_ok_def)
  show ?thesis
  proof (cases "closed_writer w")
    case True
    moreover have "W((exch, name) \<mapsto> w) = W" using w by auto
    ultimately show ?thesis using ok by (intro exI [of _ d] exI [of _ w] exI [of _ B]) (simp add: finalize_closed)
  next
    case False
    then obtain i where i: "open_at d base exch name h i w" using h(3) by blast
    let ?t = "tmp_path base exch name h i" and ?f = "final_path base exch name h i"
    obtain x where x: "d ?t = Some x" and nf: "d ?f = None" and seq: "rw_sequence w = Suc i" and wr: "rw_writer w = Some ?t"
      using i by (auto simp: open_at_def)
    let ?w = "w\<lparr>rw_writer := None, rw_tmp_path := None, rw_final_path := None\<rparr>"
    let ?x = "x\<lparr>fl_sealed := True\<rparr>" and ?B = "B(?f := B ?t, ?t := [])"
    let ?d = "d(?t := None, ?f \<mapsto> ?x)" and ?W = "W((exch, name) \<mapsto> ?w)"
    note plain = names_of_writer [OF wok]
    have fin: "finite (dom d)" and none: "\<And>p. d p = None \<Longrightarrow> B p = []"
      and files: "\<And>p f. d p = Some f \<Longrightarrow> holds_batches pa depth f (B p) \<and> file_place base W p f (B p)"
      using ok by (auto simp: sink_ok_def)
    have rows: "rows_at exch name h (concat (B ?t))"
    proof -
      obtain e n w' h' i' where "W (e, n) = Some w'" "valid_hour h'" "rows_at e n h' (concat (B ?t))"
          "?t = tmp_path base e n h' i'"
        using files [OF x] by (auto simp: file_place_def)
      moreover from this have "names_plain e n" using names_of_writer [OF sink_ok_writer [OF ok]] by blast
      ultimately show ?thesis using paths_eq(2) [OF h(1) _ plain, of h' e n base i i'] by auto
    qed
    have writers: "writer_ok ?d base depth e n w'" if "?W (e, n) = Some w'" for e n w'
    proof (cases "(e, n) = (exch, name)")
      case True
      then have "w' = ?w" using that by simp
      moreover have "writer_fits base depth exch name ?w" using fits by (simp add: writer_fits_def)
      ultimately show ?thesis using True h by (auto simp: writer_ok_def closed_writer_def)
    next
      case False
      with that have "W (e, n) = Some w'" by (auto split: if_splits)
      from writer_ok_other [OF sink_ok_writer [OF ok this] h(1) plain False, of i ?d] show ?thesis by auto
    qed
    have place: "holds_batches pa depth f (?B p) \<and> file_place base ?W p f (?B p)" if "?d p = Some f" for p f
    proof (cases "p = ?f")
      case True
      then have "f = ?x" using that by simp
      moreover have "holds_batches pa depth ?x (B ?t)" using files [OF x] by (simp add: holds_batches_def)
      moreover have "file_place base ?W ?f ?x (B ?t)"
        unfolding file_place_def using h rows seq
        by (intro exI [of _ exch] exI [of _ name] exI [of _ ?w] exI [of _ h] exI [of _ i]) simp
      ultimately show ?thesis using True by simp
    next
      case False
      with that have p: "d p = Some f" "p \<noteq> ?t" by (auto split: if_splits)
      with files [OF p(1)] False
      have old: "holds_batches pa depth f (?B p)" "file_place base W p f (?B p)" by simp_all
      have "rw_writer w \<noteq> Some p" using wr p(2) by simp
      with old file_place_other [OF old(2) w, of ?w] show ?thesis by simp
    qed
    have "finite (dom ?d)" "\<And>p. ?d p = None \<Longrightarrow> ?B p = []" using fin none by (auto split: if_splits)
    with writers place have "sink_ok pa base depth ?d ?W ?B" unfolding sink_ok_def by blast
    moreover have "bag ?d ?B = bag d B" by (rule bag_move [OF fin x nf]) simp
    moreover have "closed_writer ?w" by (simp add: closed_writer_def)
    ultimately show ?thesis
      using finalize_open [OF i x] by (intro exI [of _ ?d] exI [of _ ?w] exI [of _ ?B]) simp
  qed
qed

text \<open>A writer that is at an hour no later than \<open>h\<close>, or the new one of a pair that has none.\<close>

definition ahead :: "pair_writers \<Rightarrow> string \<Rightarrow> string \<Rightarrow> rotating_writer \<Rightarrow> int \<Rightarrow> bool" where
  "ahead W exch name w h \<longleftrightarrow>
     (case W (exch, name) of
        None \<Rightarrow> rw_hour_key w = None \<and> closed_writer w
      | Some w0 \<Rightarrow> w0 = w \<and> (\<exists>hw. valid_hour hw \<and> rw_hour_key w = Some (key_of hw) \<and> hw \<le> h))"

lemma next_number_fresh:
  assumes ok: "sink_ok pa base depth d W B" and "ahead W exch name w h" and "closed_writer w"
    and h: "valid_hour h" and plain: "names_plain exch name"
    and i: "i = (if Some (key_of h) \<noteq> rw_hour_key w then 0 else rw_sequence w)"
  shows "d (tmp_path base exch name h i) = None" "d (final_path base exch name h i) = None"
proof -
  have False if f: "d p = Some f" and p: "p \<in> {tmp_path base exch name h i, final_path base exch name h i}" for p f
  proof -
    have "file_place base W p f (B p)" using ok f by (auto simp: sink_ok_def)
    then obtain e n w' h' hw i' where W: "W (e, n) = Some w'" and v: "valid_hour h'" "valid_hour hw"
        and key: "rw_hour_key w' = Some (key_of hw)" "h' \<le> hw" "h' = hw \<longrightarrow> i' < rw_sequence w'"
        and place: "p = final_path base e n h' i' \<or> p = tmp_path base e n h' i' \<and> rw_writer w' = Some p"
      unfolding file_place_def by blast
    have plain': "names_plain e n" by (rule names_of_writer [OF sink_ok_writer [OF ok W]])
    have same: "exch = e \<and> name = n \<and> h = h' \<and> i = i'"
      using p place paths_eq [OF h v(1) plain plain', of base i i'] by auto
    with W assms(2) have w': "w' = w" and hw: "hw \<le> h"
      using key_of_eq v key by (auto simp: ahead_def)
    have "p = final_path base e n h' i'" using place assms(3) w' by (auto simp: closed_writer_def)
    moreover have "h' = hw" using same key(2) hw by simp
    ultimately show False using key i same w' by simp
  qed
  then show "d (tmp_path base exch name h i) = None" "d (final_path base exch name h i) = None" by fastforce+
qed

lemma bag_create: "finite (dom d) \<Longrightarrow> d t = None \<Longrightarrow> B t = [] \<Longrightarrow> bag (d(t \<mapsto> x)) B = bag d B"
  by (simp add: bag_def domIff)

lemma open_ok:
  assumes ok: "sink_ok pa base depth d W B" and ahead: "ahead W exch name w h" and closed: "closed_writer w"
    and h: "valid_hour h" and fits: "writer_fits base depth exch name w"
  shows "\<exists>d1 w1. open_writer (key_of h) now d w = (Inr (), d1, w1) \<and>
    sink_ok pa base depth d1 (W((exch, name) \<mapsto> w1)) B \<and> bag d1 B = bag d B \<and>
    rw_hour_key w1 = Some (key_of h) \<and> (\<exists>i. open_at d1 base exch name h i w1)"
proof -
  have plain: "names_plain exch name" using fits by (simp add: writer_fits_def)
  define i where i: "i = (if Some (key_of h) \<noteq> rw_hour_key w then 0 else rw_sequence w)"
  let ?t = "tmp_path base exch name h i" and ?f = "final_path base exch name h i"
  note fresh = next_number_fresh [OF ok ahead closed h plain i]
  let ?w = "w\<lparr>rw_hour_key := Some (key_of h), rw_sequence := i + 1, rw_final_path := Some ?f,
      rw_tmp_path := Some ?t, rw_writer := Some ?t, rw_opened_at := now\<rparr>"
  let ?x = "\<lparr>fl_tables = [], fl_sealed = False\<rparr>"
  let ?d = "d(?t \<mapsto> ?x)" and ?W = "W((exch, name) \<mapsto> ?w)"
  have opens: "open_writer (key_of h) now d w = (Inr (), ?d, ?w)"
    using fits partition_dir_at [OF h, of base exch name]
    by (simp add: open_writer_def writer_fits_def i [symmetric] part_name_plain create_file_def Let_def
        final_path_def tmp_path_def)
  have fin: "finite (dom d)" and none: "\<And>p. d p = None \<Longrightarrow> B p = []"
    and files: "\<And>p f. d p = Some f \<Longrightarrow> holds_batches pa depth f (B p) \<and> file_place base W p f (B p)"
    using ok by (auto simp: sink_ok_def)
  have isopen: "open_at ?d base exch name h i ?w" using fresh by (simp add: open_at_def)
  have writers: "writer_ok ?d base depth e n w'" if "?W (e, n) = Some w'" for e n w'
  proof (cases "(e, n) = (exch, name)")
    case True
    then have "w' = ?w" using that by simp
    moreover have "writer_fits base depth exch name ?w" using fits by (simp add: writer_fits_def)
    ultimately show ?thesis using True h isopen unfolding writer_ok_def by (intro conjI exI [of _ h]) auto
  next
    case False
    with that have "W (e, n) = Some w'" by (auto split: if_splits)
    from writer_ok_other [OF sink_ok_writer [OF ok this] h plain False, of i ?d] show ?thesis by auto
  qed
  have place: "holds_batches pa depth f (B p) \<and> file_place base ?W p f (B p)" if f: "?d p = Some f" for p f
  proof (cases "p = ?t")
    case True
    then have "f = ?x" "B p = []" using f none [OF fresh(1)] by auto
    moreover have "file_place base ?W ?t ?x []"
      unfolding file_place_def using h
      by (intro exI [of _ exch] exI [of _ name] exI [of _ ?w] exI [of _ h] exI [of _ i]) (simp add: rows_at_def)
    ultimately show ?thesis using True by (simp add: holds_batches_def)
  next
    case False
    with f have p: "d p = Some f" by simp
    from files [OF p] obtain e n w' h' hw i' where W: "W (e, n) = Some w'" and v: "valid_hour h'" "valid_hour hw"
        and key: "rw_hour_key w' = Some (key_of hw)" "h' \<le> hw" "h' = hw \<longrightarrow> i' < rw_sequence w'"
        and rows: "rows_at e n h' (concat (B p))"
        and where_p: "p = final_path base e n h' i' \<and> fl_sealed f \<or> p = tmp_path base e n h' i' \<and> rw_writer w' = Some p"
      unfolding file_place_def by blast
    have "file_place base ?W p f (B p)"
    proof (cases "(e, n) = (exch, name)")
      case True
      with W ahead have w': "w' = w" and hw: "hw \<le> h"
        using key_of_eq v key by (auto simp: ahead_def)
      have final: "p = final_path base exch name h' i' \<and> fl_sealed f"
        using where_p closed w' True by (auto simp: closed_writer_def)
      have "i' < i + 1" if "h' = h"
        using that key hw w' by (simp add: i)
      then show ?thesis
        unfolding file_place_def using True v(1) h rows final key(2) hw
        by (intro exI [of _ exch] exI [of _ name] exI [of _ ?w] exI [of _ h'] exI [of _ h] exI [of _ i']) auto
    next
      case False
      then have "?W (e, n) = Some w'" using W by auto
      then show ?thesis unfolding file_place_def using v key rows where_p by blast
    qed
    with files [OF p] show ?thesis by blast
  qed
  have "finite (dom ?d)" "\<And>p. ?d p = None \<Longrightarrow> B p = []" using fin none by (auto split: if_splits)
  with writers place have "sink_ok pa base depth ?d ?W B" unfolding sink_ok_def by blast
  moreover have "bag ?d B = bag d B" by (simp add: bag_create fin fresh none)
  ultimately show ?thesis using opens isopen by (intro exI [of _ ?d] exI [of _ ?w]) auto
qed

lemma bag_append:
  assumes "finite (dom d)" "d t = Some x"
  shows "bag (d(t \<mapsto> y)) (B(t := B t @ [rows])) = bag d B + mset rows"
proof -
  have dom: "dom (d(t \<mapsto> y)) = insert t (dom d - {t})" "dom d = insert t (dom d - {t})" using assms(2) by auto
  have "bag (d(t \<mapsto> y)) (B(t := B t @ [rows])) = mset (concat (B t)) + mset rows + (\<Sum>p\<in>dom d - {t}. mset (concat (B p)))"
    unfolding bag_def dom(1) using assms(1) by (simp add: sum.insert_remove)
  moreover have "mset (concat (B t)) + (\<Sum>p\<in>dom d - {t}. mset (concat (B p))) = bag d B"
    unfolding bag_def using assms by (simp add: sum.remove [of "dom d" t] domI)
  ultimately show ?thesis by (simp add: ac_simps)
qed

lemma append_ok:
  assumes ok: "sink_ok pa base depth d W B" and w: "W (exch, name) = Some w"
    and h: "valid_hour h" "rw_hour_key w = Some (key_of h)" and i: "open_at d base exch name h i w"
    and rows: "rows_at exch name h rows" and table: "rows_to_table pa rows depth (build_schema depth) = Inr table"
  shows "\<exists>B1. sink_ok pa base depth (append_table (tmp_path base exch name h i) table d) W B1 \<and>
    bag (append_table (tmp_path base exch name h i) table d) B1 = bag d B + mset rows"
proof -
  let ?t = "tmp_path base exch name h i"
  obtain x where x: "d ?t = Some x" using i by (auto simp: open_at_def)
  let ?x = "x\<lparr>fl_tables := fl_tables x @ [table]\<rparr>" and ?B = "B(?t := B ?t @ [rows])"
  let ?d = "d(?t \<mapsto> ?x)"
  have d: "append_table ?t table d = ?d" by (simp add: append_table_def x)
  have plain: "names_plain exch name" by (rule names_of_writer [OF sink_ok_writer [OF ok w]])
  have fin: "finite (dom d)" and none: "\<And>p. d p = None \<Longrightarrow> B p = []"
    and files: "\<And>p f. d p = Some f \<Longrightarrow> holds_batches pa depth f (B p) \<and> file_place base W p f (B p)"
    using ok by (auto simp: sink_ok_def)
  have writers: "writer_ok ?d base depth e n w'" if W: "W (e, n) = Some w'" for e n w'
  proof (cases "(e, n) = (exch, name)")
    case True
    then have "w' = w" "writer_fits base depth exch name w"
      using W w sink_ok_writer [OF ok w] by (auto simp: writer_ok_def)
    moreover have "open_at ?d base exch name h i w" using i by (simp add: open_at_def)
    ultimately show ?thesis using True h unfolding writer_ok_def by auto
  next
    case False
    from writer_ok_other [OF sink_ok_writer [OF ok W] h(1) plain False, of i ?d] show ?thesis by auto
  qed
  have place: "holds_batches pa depth f (?B p) \<and> file_place base W p f (?B p)" if f: "?d p = Some f" for p f
  proof (cases "p = ?t")
    case True
    obtain e n w' h' hw i' where W: "W (e, n) = Some w'" and v: "valid_hour h'"
        and old: "rows_at e n h' (concat (B ?t))" "?t = tmp_path base e n h' i'"
      using files [OF x] unfolding file_place_def by auto
    have "e = exch \<and> n = name \<and> h' = h"
      using old(2) paths_eq(2) [OF h(1) v plain names_of_writer [OF sink_ok_writer [OF ok W]], of base i i'] by simp
    with old(1) rows have "rows_at exch name h (concat (?B ?t))" by (simp add: rows_at_def)
    then have "file_place base W ?t ?x (?B ?t)"
      unfolding file_place_def using w h i
      by (intro exI [of _ exch] exI [of _ name] exI [of _ w] exI [of _ h] exI [of _ i]) (simp add: open_at_def)
    moreover have "holds_batches pa depth ?x (?B ?t)" using files [OF x] table by (simp add: holds_batches_def)
    moreover have "f = ?x" using f True by simp
    ultimately show ?thesis using True by simp
  next
    case False
    with f files show ?thesis by simp
  qed
  have "finite (dom ?d)" "\<And>p. ?d p = None \<Longrightarrow> ?B p = []" using fin none by (auto split: if_splits)
  with writers place have "sink_ok pa base depth ?d W ?B" unfolding sink_ok_def by blast
  with bag_append [OF fin x, of ?x B rows] d show ?thesis by (intro exI [of _ ?B]) simp
qed

lemma rotate_ok:
  assumes ok: "sink_ok pa base depth d W B" and ahead: "ahead W exch name w h"
    and h: "valid_hour h" and fits: "writer_fits base depth exch name w"
  shows "\<exists>d1 w1 B1 i. rotate (key_of h) now d w = (Inr (), d1, w1) \<and>
    sink_ok pa base depth d1 (W((exch, name) \<mapsto> w1)) B1 \<and> bag d1 B1 = bag d B \<and>
    rw_hour_key w1 = Some (key_of h) \<and> open_at d1 base exch name h i w1"
proof (cases "W (exch, name)")
  case None
  with ahead have closed: "closed_writer w" by (simp add: ahead_def)
  then have rot: "rotate (key_of h) now d w = open_writer (key_of h) now d w"
    by (simp add: rotate_def needs_rotation_def finalize_closed) (simp add: closed_writer_def)
  from open_ok [OF ok ahead closed h fits, of now] rot show ?thesis by metis
next
  case (Some w0)
  then have w: "W (exch, name) = Some w" using ahead by (simp add: ahead_def)
  obtain hw where hw: "valid_hour hw" "rw_hour_key w = Some (key_of hw)"
      "closed_writer w \<or> (\<exists>i. open_at d base exch name hw i w)"
    using sink_ok_writer [OF ok w] unfolding writer_ok_def by blast
  moreover have "hw \<le> h" using ahead Some hw(1,2) key_of_eq by (auto simp: ahead_def)
  ultimately have hw: "valid_hour hw" "rw_hour_key w = Some (key_of hw)" "hw \<le> h"
      "closed_writer w \<or> (\<exists>i. open_at d base exch name hw i w)" by blast+
  show ?thesis
  proof (cases "needs_rotation (key_of h) now w")
    case True
    from finalize_ok [OF ok w] obtain d1 w1 B1
      where fin: "finalize_writer d w = (Inr (), d1, w1)" "sink_ok pa base depth d1 (W((exch, name) \<mapsto> w1)) B1"
        "bag d1 B1 = bag d B" "closed_writer w1" "rw_hour_key w1 = rw_hour_key w" by blast
    have ahead1: "ahead (W((exch, name) \<mapsto> w1)) exch name w1 h" using hw fin(5) by (auto simp: ahead_def)
    have fits1: "writer_fits base depth exch name w1"
      using sink_ok_writer [OF fin(2), of exch name w1] by (simp add: writer_ok_def)
    have "rotate (key_of h) now d w = open_writer (key_of h) now d1 w1" using True fin(1) by (simp add: rotate_def)
    with open_ok [OF fin(2) ahead1 fin(4) h fits1, of now] fin(3) show ?thesis by (metis fun_upd_upd)
  next
    case False
    then have "rotate (key_of h) now d w = (Inr (), d, w)" by (simp add: rotate_def)
    moreover have "hw = h" "\<not> closed_writer w"
      using False hw(2) key_of_eq [OF h hw(1)] by (auto simp: needs_rotation_def closed_writer_def)
    moreover have "W((exch, name) \<mapsto> w) = W" using w by auto
    ultimately show ?thesis using ok hw by auto
  qed
qed

lemma write_batch_ok:
  assumes ok: "sink_ok pa base depth d W B" and ahead: "ahead W exch name w h"
    and h: "valid_hour h" and fits: "writer_fits base depth exch name w"
    and rows: "rows \<noteq> []" "rows_at exch name h rows"
    and done_ok: "write_batch pa now rows d w = (Inr (), d1, w1)"
  shows "\<exists>B1. sink_ok pa base depth d1 (W((exch, name) \<mapsto> w1)) B1 \<and> bag d1 B1 = bag d B + mset rows \<and>
    rw_hour_key w1 = Some (key_of h)"
proof -
  obtain row rest where r: "rows = row # rest" using rows(1) by (cases rows) auto
  have key: "hour_key_for (row_ts_wall_ns row) = Inr (key_of h)"
    using rows(2) h r by (simp add: rows_at_def row_hour_def hour_key_for_iff)
  from rotate_ok [OF ok ahead h fits, of now] obtain d2 w2 B2 i
    where rot: "rotate (key_of h) now d w = (Inr (), d2, w2)" "sink_ok pa base depth d2 (W((exch, name) \<mapsto> w2)) B2"
      "bag d2 B2 = bag d B" "rw_hour_key w2 = Some (key_of h)" "open_at d2 base exch name h i w2" by blast
  have fits2: "rw_depth_levels w2 = depth" "rw_schema w2 = build_schema depth"
    using sink_ok_writer [OF rot(2), of exch name w2] by (auto simp: writer_ok_def writer_fits_def)
  obtain table where table: "rows_to_table pa rows depth (build_schema depth) = Inr table"
      and d1: "d1 = append_table (tmp_path base exch name h i) table d2" and w1: "w1 = w2"
    using done_ok key rot(1,5) fits2 r by (auto simp: write_batch_def open_at_def split: sum.splits)
  show ?thesis
    using append_ok [OF rot(2) _ h rot(4,5) rows(2) table] rot(3,4) unfolding d1 w1 by auto
qed

end
