(* ===== verification/SinkRun.thy ===== *)
theory SinkRun
  imports SinkProps
begin

text \<open>
  From the steps of a writer to whole runs of the sink: the groups of a flush are written in an
  order in which the hours of a pair go up, so the invariant \<open>sink_ok\<close> is kept by every flush, and the
  rows taken from the queue are those in the files and in the buffer (\<open>flow_ok\<close>).
\<close>

section \<open>Groups\<close>

abbreviation same_pair :: "snapshot_row \<Rightarrow> snapshot_row \<Rightarrow> bool" where
  "same_pair x y \<equiv> row_exchange x = row_exchange y \<and> row_symbol x = row_symbol y"

definition hours_up :: "snapshot_row list \<Rightarrow> bool" where
  "hours_up rows \<longleftrightarrow> sorted_wrt (\<lambda>x y. same_pair x y \<longrightarrow> row_hour x \<le> row_hour y) rows"

fun group_hour :: "group_key \<times> snapshot_row list \<Rightarrow> int" where
  "group_hour (key, rows) = row_hour (hd rows)"

fun group_pair :: "group_key \<times> snapshot_row list \<Rightarrow> string \<times> string" where
  "group_pair ((exch, name, key), rows) = (exch, name)"

fun group_ok :: "group_key \<times> snapshot_row list \<Rightarrow> bool" where
  "group_ok ((exch, name, key), rows) \<longleftrightarrow>
     rows \<noteq> [] \<and> valid_hour (row_hour (hd rows)) \<and> key = key_of (row_hour (hd rows)) \<and>
     rows_at exch name (row_hour (hd rows)) rows"

definition groups_up :: "row_groups \<Rightarrow> bool" where
  "groups_up gs \<longleftrightarrow> sorted_wrt (\<lambda>g g'. group_pair g = group_pair g' \<longrightarrow> group_hour g < group_hour g') gs"

lemma update_absent: "map_of xs k = None \<Longrightarrow> AList.update k v xs = xs @ [(k, v)]"
  by (induction xs) (auto split: if_splits)

lemma update_present:
  assumes "map_of xs k = Some u"
  obtains ys zs where "xs = ys @ (k, u) # zs" "AList.update k v xs = ys @ (k, v) # zs"
  using assms
proof (induction xs arbitrary: thesis)
  case (Cons x xs)
  obtain k' u' where x: "x = (k', u')" by fastforce
  show ?case
  proof (cases "k = k'")
    case True
    with Cons.prems x show ?thesis by (intro Cons.prems(1) [of "[]" xs]) auto
  next
    case False
    with Cons.prems(2) x have "map_of xs k = Some u" by simp
    from Cons.IH [OF _ this] obtain ys zs where "xs = ys @ (k, u) # zs" "AList.update k v xs = ys @ (k, v) # zs" .
    with False x show ?thesis by (intro Cons.prems(1) [of "x # ys" zs]) simp_all
  qed
qed simp

text \<open>One more row: into its group, or as the last group.\<close>

lemma add_row_ok:
  assumes "list_all group_ok gs" "groups_up gs" and v: "valid_hour (row_hour row)"
    and up: "\<forall>g\<in>set gs. group_pair g = (row_exchange row, row_symbol row) \<longrightarrow> group_hour g \<le> row_hour row"
    and key: "key = (row_exchange row, row_symbol row, key_of (row_hour row))"
    and gs1: "gs1 = AList.update key ((case map_of gs key of None \<Rightarrow> [] | Some xs \<Rightarrow> xs) @ [row]) gs"
  shows "list_all group_ok gs1 \<and> groups_up gs1 \<and>
    mset (concat (map snd gs1)) = mset (concat (map snd gs)) + {#row#} \<and>
    (\<forall>g\<in>set gs1. group_pair g = (row_exchange row, row_symbol row) \<longrightarrow> group_hour g \<le> row_hour row) \<and>
    (\<forall>g\<in>set gs1. \<exists>g'\<in>insert (key, [row]) (set gs). group_pair g = group_pair g' \<and> group_hour g = group_hour g')"
proof (cases "map_of gs key")
  case None
  then have eq: "gs1 = gs @ [(key, [row])]" using gs1 by (simp add: update_absent)
  have "group_hour g < row_hour row" if g: "g \<in> set gs" "group_pair g = (row_exchange row, row_symbol row)" for g
  proof -
    obtain e n k rows where gk: "g = ((e, n, k), rows)" by (metis prod_cases3 surj_pair)
    have ok: "group_ok g" using assms(1) g(1) by (simp add: list_all_iff)
    have "k \<noteq> key_of (row_hour row)"
      using None g gk key by (force simp: map_of_eq_None_iff)
    then have "group_hour g \<noteq> row_hour row" using ok gk by auto
    with up g show ?thesis by force
  qed
  with assms(1,2) v show ?thesis
    unfolding eq key by (auto simp: groups_up_def sorted_wrt_append rows_at_def less_imp_le)
next
  case (Some old)
  from update_present [OF this, of "old @ [row]"] obtain ys zs
    where eq: "gs = ys @ (key, old) # zs" "AList.update key (old @ [row]) gs = ys @ (key, old @ [row]) # zs" .
  have gs1': "gs1 = ys @ (key, old @ [row]) # zs" using eq(2) gs1 Some by simp
  have ok: "group_ok (key, old)" using assms(1) eq(1) by simp
  then have old: "old \<noteq> []" "rows_at (row_exchange row) (row_symbol row) (row_hour (hd old)) old"
    "valid_hour (row_hour (hd old))" "key_of (row_hour (hd old)) = key_of (row_hour row)" by (simp_all add: key)
  then have h: "row_hour (hd old) = row_hour row" using key_of_eq v by blast
  have hour: "group_hour (key, old @ [row]) = group_hour (key, old)" using old(1) by simp
  have pair: "group_pair (key, xs) = (row_exchange row, row_symbol row)" for xs by (simp add: key)
  have "group_ok (key, old @ [row])" using old h by (simp add: key rows_at_def)
  moreover have "groups_up gs1"
    using assms(2) hour unfolding eq(1) gs1' by (auto simp: groups_up_def sorted_wrt_append key)
  moreover have "mset (concat (map snd gs1)) = mset (concat (map snd gs)) + {#row#}"
    unfolding eq(1) gs1' by simp
  ultimately show ?thesis
    using assms(1) up h hour old(1) unfolding eq(1) gs1' by (auto simp: key)
qed

lemma group_rows_ok:
  assumes "group_rows gs rows = Inr gs1" and "list_all group_ok gs" "groups_up gs" "hours_up rows"
    and "\<forall>g\<in>set gs. \<forall>row\<in>set rows. group_pair g = (row_exchange row, row_symbol row) \<longrightarrow> group_hour g \<le> row_hour row"
  shows "list_all group_ok gs1 \<and> groups_up gs1 \<and>
    mset (concat (map snd gs1)) = mset (concat (map snd gs)) + mset rows \<and>
    (\<forall>g\<in>set gs1. (\<exists>g'\<in>set gs. group_pair g = group_pair g' \<and> group_hour g = group_hour g') \<or>
       (\<exists>row\<in>set rows. group_pair g = (row_exchange row, row_symbol row) \<and> group_hour g = row_hour row))"
  using assms
proof (induction gs rows rule: group_rows.induct)
  case (2 gs row rows)
  define key where key: "key = (row_exchange row, row_symbol row, key_of (row_hour row))"
  define gs2 where gs2: "gs2 = AList.update key ((case map_of gs key of None \<Rightarrow> [] | Some xs \<Rightarrow> xs) @ [row]) gs"
  have hk: "hour_key_for (row_ts_wall_ns row) = Inr (key_of (row_hour row))" and v: "valid_hour (row_hour row)"
    using "2.prems"(1) by (auto simp: hour_key_for_iff row_hour_def split: sum.splits)
  have rest: "group_rows gs2 rows = Inr gs1" using "2.prems"(1) hk by (simp add: gs2 key Let_def)
  have up: "\<forall>g\<in>set gs. group_pair g = (row_exchange row, row_symbol row) \<longrightarrow> group_hour g \<le> row_hour row"
    using "2.prems"(5) by simp
  note one = add_row_ok [OF "2.prems"(2,3) v up key gs2]
  have rows: "hours_up rows" "\<And>r. r \<in> set rows \<Longrightarrow> same_pair row r \<Longrightarrow> row_hour row \<le> row_hour r"
    using "2.prems"(4) by (auto simp: hours_up_def)
  have up2: "\<forall>g\<in>set gs2. \<forall>r\<in>set rows. group_pair g = (row_exchange r, row_symbol r) \<longrightarrow> group_hour g \<le> row_hour r"
  proof (intro ballI impI)
    fix g r assume g: "g \<in> set gs2" and r: "r \<in> set rows" and pair: "group_pair g = (row_exchange r, row_symbol r)"
    from one g obtain g' where g': "g' \<in> insert (key, [row]) (set gs)" "group_pair g = group_pair g'" "group_hour g = group_hour g'"
      by blast
    show "group_hour g \<le> row_hour r"
      using g' pair r rows(2) [OF r] "2.prems"(5) by (auto simp: key)
  qed
  from "2.IH" [OF hk, of key "case map_of gs key of None \<Rightarrow> [] | Some xs \<Rightarrow> xs"] rest one rows(1) up2
  have IH: "list_all group_ok gs1 \<and> groups_up gs1 \<and>
      mset (concat (map snd gs1)) = mset (concat (map snd gs2)) + mset rows \<and>
      (\<forall>g\<in>set gs1. (\<exists>g'\<in>set gs2. group_pair g = group_pair g' \<and> group_hour g = group_hour g') \<or>
         (\<exists>row\<in>set rows. group_pair g = (row_exchange row, row_symbol row) \<and> group_hour g = row_hour row))"
    by (simp add: key gs2)
  have "(\<exists>g'\<in>set gs. group_pair g = group_pair g' \<and> group_hour g = group_hour g') \<or>
      (\<exists>row\<in>set (row # rows). group_pair g = (row_exchange row, row_symbol row) \<and> group_hour g = row_hour row)"
    if g: "g \<in> set gs1" for g
  proof -
    from IH g consider g2 where "g2 \<in> set gs2" "group_pair g = group_pair g2" "group_hour g = group_hour g2"
      | r where "r \<in> set rows" "group_pair g = (row_exchange r, row_symbol r)" "group_hour g = row_hour r" by blast
    then show ?thesis
    proof cases
      case 1
      with one obtain g' where "g' \<in> insert (key, [row]) (set gs)" "group_pair g = group_pair g'" "group_hour g = group_hour g'"
        by metis
      then show ?thesis by (auto simp: key)
    qed auto
  qed
  with IH one show ?case by simp
qed auto

lemma group_rows_error: "group_rows gs rows = Inl err \<Longrightarrow> \<exists>row\<in>set rows. hour_key_for (row_ts_wall_ns row) = Inl err"
  by (induction gs rows rule: group_rows.induct) (auto simp: Let_def split: sum.splits)

section \<open>Flushes\<close>

text \<open>No file of a pair belongs to an hour after \<open>h\<close>.\<close>

definition not_behind :: "pair_writers \<Rightarrow> string \<times> string \<Rightarrow> int \<Rightarrow> bool" where
  "not_behind W pair h \<longleftrightarrow>
     (\<forall>w hw. W pair = Some w \<longrightarrow> valid_hour hw \<longrightarrow> rw_hour_key w = Some (key_of hw) \<longrightarrow> hw \<le> h)"

definition sink_wf :: "'a arrays \<Rightarrow> 'a disk \<Rightarrow> parquet_sink \<Rightarrow> batches \<Rightarrow> bool" where
  "sink_wf pa d s B \<longleftrightarrow>
     sink_ok pa (ps_output_dir s) (ps_depth_levels s) d (map_of (ps_writers s)) B \<and>
     distinct_keys (ps_writers s) \<and> ps_schema s = build_schema (ps_depth_levels s)"

definition pa_fails :: "'a arrays \<Rightarrow> py_exc \<Rightarrow> bool" where
  "pa_fails pa err \<longleftrightarrow> (\<exists>t cells. pa t cells = Inl err)"

lemma table_error: "rows_to_table pa rows depth (build_schema depth) = Inl err \<Longrightarrow> pa_fails pa err"
  by (auto simp: table_is_column_wise column_wise_def pa_fails_def dest!: map_result_error)

lemma writer_for_ahead:
  assumes wf: "sink_wf pa d s B" and plain: "names_plain exch name" and h: "valid_hour h"
    and nb: "not_behind (map_of (ps_writers s)) (exch, name) h"
  shows "ahead (map_of (ps_writers s)) exch name (writer_for exch name s) h \<and>
    writer_fits (ps_output_dir s) (ps_depth_levels s) exch name (writer_for exch name s)"
proof (cases "map_of (ps_writers s) (exch, name)")
  case None
  with wf plain show ?thesis
    by (simp add: writer_for_def ahead_def closed_writer_def writer_fits_def new_rotating_writer_def sink_wf_def)
next
  case (Some w)
  moreover from this have "writer_ok d (ps_output_dir s) (ps_depth_levels s) exch name w"
    using wf sink_ok_writer unfolding sink_wf_def by blast
  ultimately show ?thesis
    using nb by (auto simp: writer_for_def ahead_def not_behind_def writer_ok_def)
qed

lemma write_batch_error:
  assumes ok: "sink_ok pa base depth d W B" and ahead: "ahead W exch name w h"
    and h: "valid_hour h" and fits: "writer_fits base depth exch name w"
    and rows: "rows_at exch name h rows"
    and failed: "write_batch pa now rows d w = (Inl err, d1, w1)"
  shows "pa_fails pa err"
proof -
  obtain row rest where r: "rows = row # rest" using failed by (cases rows) (auto simp: write_batch_def)
  have key: "hour_key_for (row_ts_wall_ns row) = Inr (key_of h)"
    using rows h r by (simp add: rows_at_def row_hour_def hour_key_for_iff)
  from rotate_ok [OF ok ahead h fits, of now] obtain d2 w2 B2 i
    where rot: "rotate (key_of h) now d w = (Inr (), d2, w2)" "sink_ok pa base depth d2 (W((exch, name) \<mapsto> w2)) B2"
      "open_at d2 base exch name h i w2" by blast
  have "rw_depth_levels w2 = depth" "rw_schema w2 = build_schema depth"
    using sink_ok_writer [OF rot(2), of exch name w2] by (auto simp: writer_ok_def writer_fits_def)
  with failed key rot(1,3) r have "rows_to_table pa rows depth (build_schema depth) = Inl err"
    by (auto simp: write_batch_def open_at_def split: sum.splits)
  then show ?thesis by (rule table_error)
qed

lemma write_group_ok:
  assumes wf: "sink_wf pa d s B" and g: "group_ok g" "names_plain (fst (group_pair g)) (snd (group_pair g))"
    and nb: "not_behind (map_of (ps_writers s)) (group_pair g) (group_hour g)"
    and res: "write_group pa now g d s = (r, d1, s1)"
  shows "(case r of
      Inl err \<Rightarrow> pa_fails pa err
    | Inr _ \<Rightarrow> \<exists>B1 w1. sink_wf pa d1 s1 B1 \<and> bag d1 B1 = bag d B + mset (snd g) \<and>
        map_of (ps_writers s1) = (map_of (ps_writers s))(group_pair g \<mapsto> w1) \<and>
        rw_hour_key w1 = Some (key_of (group_hour g)) \<and> ps_buffer s1 = ps_buffer s)"
proof -
  obtain exch name k rows where gk: "g = ((exch, name, k), rows)" by (metis prod_cases3 surj_pair)
  let ?h = "row_hour (hd rows)" and ?w = "writer_for exch name s"
  have h: "valid_hour ?h" "rows \<noteq> []" "rows_at exch name ?h rows" using g(1) gk by auto
  have ok: "sink_ok pa (ps_output_dir s) (ps_depth_levels s) d (map_of (ps_writers s)) B"
    and dk: "distinct_keys (ps_writers s)" using wf by (auto simp: sink_wf_def)
  have a: "ahead (map_of (ps_writers s)) exch name ?w ?h" "writer_fits (ps_output_dir s) (ps_depth_levels s) exch name ?w"
    using writer_for_ahead [OF wf _ h(1)] g(2) nb gk by auto
  obtain r2 d2 w2 where wb: "write_batch pa now rows d ?w = (r2, d2, w2)" by (metis prod_cases3)
  show ?thesis
  proof (cases r2)
    case (Inl err)
    with write_batch_error [OF ok a(1) h(1) a(2) h(3)] wb res gk show ?thesis by (auto simp: Let_def)
  next
    case (Inr u)
    with wb have "write_batch pa now rows d ?w = (Inr (), d2, w2)" by simp
    from write_batch_ok [OF ok a(1) h(1) a(2) h(2,3) this] obtain B1
      where B1: "sink_ok pa (ps_output_dir s) (ps_depth_levels s) d2 ((map_of (ps_writers s))((exch, name) \<mapsto> w2)) B1"
        "bag d2 B1 = bag d B + mset rows" "rw_hour_key w2 = Some (key_of ?h)" by blast
    have s1: "s1 = s\<lparr>ps_writers := AList.update (exch, name) w2 (ps_writers s),
        ps_stats := bump_by ''rows_written'' (length rows) (ps_stats s)\<rparr>" "r = Inr ()" "d1 = d2"
      using res wb Inr gk by (auto simp: Let_def)
    have "sink_wf pa d1 s1 B1" using B1(1) wf dk by (simp add: sink_wf_def s1 distinct_update)
    with B1(2,3) s1 gk show ?thesis by auto
  qed
qed

lemma write_groups_ok:
  assumes "sink_wf pa d s B" "list_all group_ok gs" "groups_up gs"
    and "\<forall>g\<in>set gs. names_plain (fst (group_pair g)) (snd (group_pair g)) \<and>
      not_behind (map_of (ps_writers s)) (group_pair g) (group_hour g)"
    and "write_groups pa clock gs d s = (r, clock1, d1, s1)"
  shows "(case r of
      Inl err \<Rightarrow> pa_fails pa err
    | Inr _ \<Rightarrow> \<exists>B1. sink_wf pa d1 s1 B1 \<and> bag d1 B1 = bag d B + mset (concat (map snd gs)) \<and>
        ps_buffer s1 = ps_buffer s \<and>
        (\<forall>pair h. not_behind (map_of (ps_writers s)) pair h \<longrightarrow>
           (\<forall>g\<in>set gs. group_pair g = pair \<longrightarrow> group_hour g \<le> h) \<longrightarrow>
           not_behind (map_of (ps_writers s1)) pair h))"
  using assms
proof (induction gs arbitrary: d s B clock)
  case (Cons g gs)
  let ?W = "map_of (ps_writers s)"
  obtain r2 d2 s2 where one: "write_group pa (clock 0) g d s = (r2, d2, s2)" by (metis prod_cases3)
  have g: "group_ok g" "names_plain (fst (group_pair g)) (snd (group_pair g))" "not_behind ?W (group_pair g) (group_hour g)"
    using Cons.prems(2,4) by auto
  note step = write_group_ok [OF Cons.prems(1) g one]
  show ?case
  proof (cases r2)
    case (Inl err)
    with step one Cons.prems(5) show ?thesis by auto
  next
    case (Inr u)
    with step obtain B2 w2 where B2: "sink_wf pa d2 s2 B2" "bag d2 B2 = bag d B + mset (snd g)"
        "map_of (ps_writers s2) = ?W(group_pair g \<mapsto> w2)" "rw_hour_key w2 = Some (key_of (group_hour g))"
        "ps_buffer s2 = ps_buffer s" by auto
    have v: "valid_hour (group_hour g)" using g(1) by (cases g) auto
    have nb: "not_behind (map_of (ps_writers s2)) pair h"
      if "not_behind ?W pair h" "group_pair g = pair \<longrightarrow> group_hour g \<le> h" for pair h
      using that B2(4) key_of_eq v by (auto simp: not_behind_def B2(3))
    have later: "\<forall>g'\<in>set gs. names_plain (fst (group_pair g')) (snd (group_pair g')) \<and>
        not_behind (map_of (ps_writers s2)) (group_pair g') (group_hour g')"
    proof
      fix g' assume g': "g' \<in> set gs"
      then have "group_pair g = group_pair g' \<longrightarrow> group_hour g \<le> group_hour g'"
        using Cons.prems(3) by (auto simp: groups_up_def)
      with g' Cons.prems(4) nb show "names_plain (fst (group_pair g')) (snd (group_pair g')) \<and>
          not_behind (map_of (ps_writers s2)) (group_pair g') (group_hour g')" by simp
    qed
    have rest: "write_groups pa (\<lambda>n. clock (Suc n)) gs d2 s2 = (r, clock1, d1, s1)"
      using Cons.prems(5) one Inr by (simp add: later_def)
    have "list_all group_ok gs" "groups_up gs" using Cons.prems(2,3) by (auto simp: groups_up_def)
    from Cons.IH [OF B2(1) this later rest] show ?thesis
      using B2(2,5) nb by (auto split: sum.splits simp: add.assoc)
  qed
qed auto

abbreviation pair_of :: "snapshot_row \<Rightarrow> string \<times> string" where
  "pair_of row \<equiv> (row_exchange row, row_symbol row)"

text \<open>
  The invariant of a running sink: \<open>M\<close> are the rows taken so far, all of them in a file or in the
  buffer, and \<open>F\<close> those that will be taken.
\<close>

definition flow_ok ::
  "'a arrays \<Rightarrow> 'a disk \<Rightarrow> parquet_sink \<Rightarrow> batches \<Rightarrow> snapshot_row multiset \<Rightarrow> snapshot_row list \<Rightarrow> bool" where
  "flow_ok pa d s B M F \<longleftrightarrow>
     sink_wf pa d s B \<and> bag d B + mset (ps_buffer s) = M \<and> hours_up (ps_buffer s @ F) \<and>
     (\<forall>row\<in>set (ps_buffer s @ F). names_plain (row_exchange row) (row_symbol row) \<and>
        not_behind (map_of (ps_writers s)) (pair_of row) (row_hour row))"

definition row_fails :: "snapshot_row multiset \<Rightarrow> py_exc \<Rightarrow> bool" where
  "row_fails M err \<longleftrightarrow> (\<exists>row\<in>#M. hour_key_for (row_ts_wall_ns row) = Inl err)"

lemma flush_buffer_ok:
  assumes flow: "flow_ok pa d s B M F" and res: "flush_buffer pa clock d s = (r, clock1, d1, s1)"
  shows "(case r of
      Inl err \<Rightarrow> pa_fails pa err \<or> row_fails M err
    | Inr _ \<Rightarrow> ps_buffer s1 = [] \<and> (\<exists>B1. flow_ok pa d1 s1 B1 M F))"
proof -
  have wf: "sink_wf pa d s B" and M: "bag d B + mset (ps_buffer s) = M" and up: "hours_up (ps_buffer s @ F)"
    and rows: "\<forall>row\<in>set (ps_buffer s @ F). names_plain (row_exchange row) (row_symbol row) \<and>
      not_behind (map_of (ps_writers s)) (pair_of row) (row_hour row)"
    using flow unfolding flow_ok_def by blast+
  show ?thesis
  proof (cases "group_rows [] (ps_buffer s)")
    case (Inl err)
    from group_rows_error [OF this] M have "row_fails M err" by (auto simp: row_fails_def)
    with res Inl show ?thesis by (auto simp: flush_buffer_def flush_def)
  next
    case (Inr gs)
    have "hours_up (ps_buffer s)" using up by (simp add: hours_up_def sorted_wrt_append)
    with group_rows_ok [OF Inr] have gs: "list_all group_ok gs" "groups_up gs"
        "mset (concat (map snd gs)) = mset (ps_buffer s)"
        "\<forall>g\<in>set gs. \<exists>row\<in>set (ps_buffer s). group_pair g = pair_of row \<and> group_hour g = row_hour row"
      by (auto simp: groups_up_def)
    have ready: "\<forall>g\<in>set gs. names_plain (fst (group_pair g)) (snd (group_pair g)) \<and>
        not_behind (map_of (ps_writers s)) (group_pair g) (group_hour g)"
      using gs(4) rows by fastforce
    obtain r2 clock2 d2 s2 where w: "write_groups pa clock gs d s = (r2, clock2, d2, s2)" by (metis prod_cases4)
    note step = write_groups_ok [OF wf gs(1,2) ready w]
    show ?thesis
    proof (cases r2)
      case (Inl err)
      with step w res Inr show ?thesis by (auto simp: flush_buffer_def flush_def)
    next
      case (Inr u)
      with step obtain B1 where B1: "sink_wf pa d2 s2 B1" "bag d2 B1 = bag d B + mset (ps_buffer s)"
          "\<And>pair h. not_behind (map_of (ps_writers s)) pair h \<Longrightarrow>
             \<forall>g\<in>set gs. group_pair g = pair \<longrightarrow> group_hour g \<le> h \<Longrightarrow> not_behind (map_of (ps_writers s2)) pair h"
        using gs(3) by auto
      have s1: "r = Inr ()" "d1 = d2" "ps_buffer s1 = []" "ps_writers s1 = ps_writers s2"
          "ps_output_dir s1 = ps_output_dir s2" "ps_depth_levels s1 = ps_depth_levels s2" "ps_schema s1 = ps_schema s2"
        using res w Inr \<open>group_rows [] (ps_buffer s) = Inr gs\<close> by (auto simp: flush_buffer_def flush_def)
      have "not_behind (map_of (ps_writers s2)) (pair_of row) (row_hour row)" if row: "row \<in> set F" for row
      proof (rule B1(3))
        show "not_behind (map_of (ps_writers s)) (pair_of row) (row_hour row)" using rows row by simp
        show "\<forall>g\<in>set gs. group_pair g = pair_of row \<longrightarrow> group_hour g \<le> row_hour row"
        proof (intro ballI impI)
          fix g assume "g \<in> set gs" and pair: "group_pair g = pair_of row"
          with gs(4) obtain x where x: "x \<in> set (ps_buffer s)" "group_pair g = pair_of x" "group_hour g = row_hour x" by blast
          with up row pair show "group_hour g \<le> row_hour row" by (auto simp: hours_up_def sorted_wrt_append)
        qed
      qed
      then have "flow_ok pa d1 s1 B1 M F"
        using B1(1,2) M up rows s1 by (auto simp: flow_ok_def sink_wf_def hours_up_def sorted_wrt_append)
      with s1 show ?thesis by auto
    qed
  qed
qed

lemma flow_ok_update [simp]:
  "flow_ok pa d (s\<lparr>ps_last_flush := x\<rparr>) B M F = flow_ok pa d s B M F"
  "flow_ok pa d (s\<lparr>ps_last_progress_at := x\<rparr>) B M F = flow_ok pa d s B M F"
  "flow_ok pa d (s\<lparr>ps_queue := q\<rparr>) B M F = flow_ok pa d s B M F"
  by (simp_all add: flow_ok_def sink_wf_def)

section \<open>The end of a run\<close>

definition clean :: "'a arrays \<Rightarrow> 'a disk \<Rightarrow> parquet_sink \<Rightarrow> batches \<Rightarrow> snapshot_row multiset \<Rightarrow> bool" where
  "clean pa d s B M \<longleftrightarrow>
     sink_wf pa d s B \<and> ps_buffer s = [] \<and> bag d B = M \<and> list_all (\<lambda>(_, w). closed_writer w) (ps_writers s)"

lemma close_writers_ok:
  assumes "sink_ok pa base depth d W B" "\<forall>(k, w)\<in>set ws. W k = Some w" "distinct_keys ws"
  shows "\<exists>d1 ws1 B1. close_writers d ws = (Inr (), d1, ws1) \<and> sink_ok pa base depth d1 (W ++ map_of ws1) B1 \<and>
    bag d1 B1 = bag d B \<and> map fst ws1 = map fst ws \<and> list_all (\<lambda>(_, w). closed_writer w) ws1"
  using assms
proof (induction ws arbitrary: d W B)
  case Nil
  then show ?case by auto
next
  case (Cons kw ws)
  obtain exch name w where kw: "kw = ((exch, name), w)" by (metis surj_pair)
  have "W (exch, name) = Some w" using Cons.prems(2) kw by simp
  from finalize_ok [OF Cons.prems(1) this] obtain d1 w1 B1
    where one: "finalize_writer d w = (Inr (), d1, w1)" "sink_ok pa base depth d1 (W((exch, name) \<mapsto> w1)) B1"
      "bag d1 B1 = bag d B" "closed_writer w1" by blast
  have fresh: "(exch, name) \<notin> fst ` set ws" using Cons.prems(3) kw by auto
  then have "\<forall>(k, v)\<in>set ws. (W((exch, name) \<mapsto> w1)) k = Some v"
    using Cons.prems(2) by (force split: if_splits)
  moreover have "distinct_keys ws" using Cons.prems(3) by simp
  ultimately obtain d2 ws2 B2
    where rest: "close_writers d1 ws = (Inr (), d2, ws2)" "sink_ok pa base depth d2 (W((exch, name) \<mapsto> w1) ++ map_of ws2) B2"
      "bag d2 B2 = bag d1 B1" "map fst ws2 = map fst ws" "list_all (\<lambda>(_, w). closed_writer w) ws2"
    using Cons.IH [OF one(2)] by blast
  have "(exch, name) \<notin> dom (map_of ws2)" using fresh rest(4) by (metis dom_map_of_conv_image_fst list.set_map)
  then have "W ++ map_of (((exch, name), w1) # ws2) = W((exch, name) \<mapsto> w1) ++ map_of ws2"
    by (simp add: map_add_upd_left)
  with one rest kw show ?case by auto
qed

definition run_ok :: "'a arrays \<Rightarrow> 'a sink_run \<Rightarrow> snapshot_row multiset \<Rightarrow> snapshot_row list \<Rightarrow> bool" where
  "run_ok pa r M F \<longleftrightarrow>
     (sr_end r = None \<and> (\<exists>B. flow_ok pa (sr_disk r) (sr_sink r) B M F)) \<or>
     (sr_end r \<in> {Some Cancelled, Some (Exception_Group RuntimeError)} \<and> (\<exists>B. clean pa (sr_disk r) (sr_sink r) B M)) \<or>
     (sr_end r \<noteq> None \<and> sr_end r \<noteq> Some Cancelled \<and> (\<exists>err. pa_fails pa err \<or> row_fails M err))"

lemma finish_failed:
  assumes "pa_fails pa err \<or> row_fails M err"
  shows "run_ok pa (finish_sink pa clock (Exception_Group err') d s) M F"
proof -
  have "sr_end (finish_sink pa clock (Exception_Group err') d s) \<noteq> None \<and>
      sr_end (finish_sink pa clock (Exception_Group err') d s) \<noteq> Some Cancelled"
    by (auto simp: finish_sink_def split: prod.splits sum.splits if_splits)
  with assms show ?thesis unfolding run_ok_def by blast
qed

lemma finish_ok:
  assumes flow: "flow_ok pa d s B M F" and why: "why \<in> {Cancelled, Exception_Group RuntimeError}"
  shows "run_ok pa (finish_sink pa clock why d s) M F"
proof -
  obtain r clock1 d1 s1 where f: "(if ps_buffer s \<noteq> [] then flush_buffer pa clock d s else (Inr (), clock, d, s)) = (r, clock1, d1, s1)"
    by (metis prod_cases4)
  have step: "(case r of Inl err \<Rightarrow> pa_fails pa err \<or> row_fails M err
      | Inr _ \<Rightarrow> ps_buffer s1 = [] \<and> (\<exists>B1. flow_ok pa d1 s1 B1 M F))"
  proof (cases "ps_buffer s = []")
    case True
    with f flow show ?thesis by auto
  next
    case False
    with flush_buffer_ok [OF flow, of clock r clock1 d1 s1] f show ?thesis by simp
  qed
  show ?thesis
  proof (cases r)
    case (Inl err)
    with step f show ?thesis unfolding run_ok_def finish_sink_def by auto
  next
    case (Inr u)
    with step obtain B1 where B1: "ps_buffer s1 = []" "flow_ok pa d1 s1 B1 M F" by auto
    then have ok: "sink_ok pa (ps_output_dir s1) (ps_depth_levels s1) d1 (map_of (ps_writers s1)) B1"
        and dk: "distinct_keys (ps_writers s1)" and sch: "ps_schema s1 = build_schema (ps_depth_levels s1)" and M: "bag d1 B1 = M"
      by (auto simp: flow_ok_def sink_wf_def)
    have "\<forall>(k, w)\<in>set (ps_writers s1). map_of (ps_writers s1) k = Some w" using dk by auto
    from close_writers_ok [OF ok this dk] obtain d2 ws2 B2
      where c: "close_writers d1 (ps_writers s1) = (Inr (), d2, ws2)"
        "sink_ok pa (ps_output_dir s1) (ps_depth_levels s1) d2 (map_of (ps_writers s1) ++ map_of ws2) B2"
        "bag d2 B2 = bag d1 B1" "map fst ws2 = map fst (ps_writers s1)" "list_all (\<lambda>(_, w). closed_writer w) ws2" by blast
    have "map_of (ps_writers s1) ++ map_of ws2 = map_of ws2"
    proof
      fix k show "(map_of (ps_writers s1) ++ map_of ws2) k = map_of ws2 k"
      proof (cases "k \<in> fst ` set ws2")
        case True
        then have "map_of ws2 k \<noteq> None" by (simp add: map_of_eq_None_iff)
        then show ?thesis by (auto simp: map_add_def split: option.split)
      next
        case False
        then have "map_of ws2 k = None" "map_of (ps_writers s1) k = None"
          using c(4) by (metis list.set_map map_of_eq_None_iff)+
        then show ?thesis by (simp add: map_add_def)
      qed
    qed
    with c dk sch B1(1) M have "clean pa d2 (s1\<lparr>ps_writers := ws2\<rparr>) B2 M"
      by (simp add: clean_def sink_wf_def)
    with why c(1) f Inr show ?thesis unfolding run_ok_def finish_sink_def by auto
  qed
qed

section \<open>The steps of a run\<close>

lemma goes_on_ok:
  assumes "case x of (Inl err, clock, d, s) \<Rightarrow> pa_fails pa err \<or> row_fails M err
    | (Inr _, clock, d, s) \<Rightarrow> \<exists>B. flow_ok pa d s B M F"
  shows "run_ok pa (goes_on pa x) M F"
proof -
  obtain r clock d s where x: "x = (r, clock, d, s)" by (metis prod_cases4)
  show ?thesis
  proof (cases r)
    case (Inl err)
    with assms x have "pa_fails pa err \<or> row_fails M err" by simp
    from finish_failed [OF this] show ?thesis by (simp add: goes_on_def x Inl)
  next
    case (Inr timeout)
    with assms x show ?thesis by (auto simp: goes_on_def run_ok_def)
  qed
qed

lemma consume_top_ok:
  assumes flow: "flow_ok pa d s B M F"
  shows "case consume_top pa clock d s of
      (Inl err, clock, d, s) \<Rightarrow> pa_fails pa err \<or> row_fails M err
    | (Inr _, clock, d, s) \<Rightarrow> \<exists>B. flow_ok pa d s B M F"
proof -
  obtain r clock1 d1 s1 where f: "flush_buffer pa (later clock) d s = (r, clock1, d1, s1)" by (metis prod_cases4)
  note step = flush_buffer_ok [OF flow f]
  show ?thesis
    using flow step f by (cases r) (auto simp: consume_top_def Let_def)
qed

lemma next_turn_ok:
  assumes flow: "flow_ok pa d s B M F"
  shows "run_ok pa (next_turn pa clock d s) M F"
proof (cases "flush_due (clock 0) s")
  case True
  obtain r clock1 d1 s1 where f: "flush_buffer pa (later clock) d s = (r, clock1, d1, s1)" by (metis prod_cases4)
  note step = flush_buffer_ok [OF flow f]
  show ?thesis
  proof (cases r)
    case (Inl err)
    with True f step show ?thesis by (simp add: next_turn_def consume_bottom_def goes_on_ok)
  next
    case (Inr u)
    with step obtain B1 where "flow_ok pa d1 s1 B1 M F" by auto
    then have "flow_ok pa d1 (s1\<lparr>ps_last_flush := clock 0, ps_last_progress_at := clock 0\<rparr>) B1 M F"
      by simp
    from goes_on_ok [OF consume_top_ok [OF this]] True f Inr show ?thesis
      by (simp add: next_turn_def consume_bottom_def Let_def)
  qed
next
  case False
  with goes_on_ok [OF consume_top_ok [OF flow]] show ?thesis by (simp add: next_turn_def consume_bottom_def)
qed

lemma take_row_parts:
  assumes "take_row clock s = Some (clock1, s1)"
  obtains row where "take 1 (rq_items (ps_queue s)) = [row]" "ps_buffer s1 = ps_buffer s @ [row]"
    "ps_output_dir s1 = ps_output_dir s" "ps_depth_levels s1 = ps_depth_levels s" "ps_schema s1 = ps_schema s"
    "ps_writers s1 = ps_writers s"
  using assms by (auto simp: take_row_def RowQueue.get_def get_nowait_def split: list.splits option.splits)

lemma sink_next_ok:
  assumes ok: "run_ok pa r M (taken_by ev r @ F)" and step: "sink_next pa ev r = Some r1"
  shows "run_ok pa r1 (M + mset (taken_by ev r)) F"
proof (cases "sr_end r = None")
  case False
  then obtain row where "ev = Feed_Puts row"
    using step by (cases ev) (auto split: option.splits consumer.splits prod.splits)
  with step ok False show ?thesis
    by (auto simp: run_ok_def taken_by_def clean_def sink_wf_def)
next
  case True
  with ok obtain B where flow: "flow_ok pa (sr_disk r) (sr_sink r) B M (taken_by ev r @ F)" by (auto simp: run_ok_def)
  show ?thesis
  proof (cases ev)
    case (Feed_Puts row)
    with flow True step show ?thesis
      by (auto simp: run_ok_def taken_by_def intro!: exI [of _ B])
  next
    case (Consumer_Starts clock)
    with flow step show ?thesis by (auto simp: taken_by_def intro: goes_on_ok [OF consume_top_ok] split: if_splits)
  next
    case (Row_Comes clock)
    with step obtain clock1 s1 where t: "take_row clock (sr_sink r) = Some (clock1, s1)"
        and r1: "r1 = next_turn pa clock1 (sr_disk r) s1"
      by (auto split: option.splits consumer.splits prod.splits)
    from take_row_parts [OF t] obtain row where row: "take 1 (rq_items (ps_queue (sr_sink r))) = [row]"
        "ps_buffer s1 = ps_buffer (sr_sink r) @ [row]" and same: "ps_output_dir s1 = ps_output_dir (sr_sink r)"
        "ps_depth_levels s1 = ps_depth_levels (sr_sink r)" "ps_schema s1 = ps_schema (sr_sink r)"
        "ps_writers s1 = ps_writers (sr_sink r)" .
    have taken: "taken_by ev r = [row]" using row(1) Row_Comes by (simp add: taken_by_def)
    have "flow_ok pa (sr_disk r) s1 B (M + mset (taken_by ev r)) F"
      using flow unfolding taken by (auto simp: flow_ok_def sink_wf_def row(2) same)
    then show ?thesis unfolding r1 by (rule next_turn_ok)
  next
    case (Wait_Times_Out clock)
    with flow step show ?thesis
      by (auto simp: taken_by_def intro: next_turn_ok split: option.splits consumer.splits)
  next
    case (Watchdog_Wakes clock)
    have "err = RuntimeError" if "watchdog_check now s = Inl err" for now s err
      using that by (auto simp: watchdog_check_def split: if_splits)
    with Watchdog_Wakes flow step True ok show ?thesis
      by (auto simp: taken_by_def split: sum.splits if_splits intro!: finish_ok)
  next
    case (Sink_Cancelled clock)
    with flow step show ?thesis by (auto simp: taken_by_def intro!: finish_ok split: if_splits)
  qed
qed

lemma sink_exec_ok:
  assumes "run_ok pa r M (got @ F)" "sink_exec pa evs r = Some (got, r1)"
  shows "run_ok pa r1 (M + mset got) F"
  using assms
proof (induction evs arbitrary: r M got)
  case (Cons ev evs)
  then obtain r2 got2 where step: "sink_next pa ev r = Some r2" "sink_exec pa evs r2 = Some (got2, r1)"
      and got: "got = taken_by ev r @ got2" by (auto split: option.splits)
  have "run_ok pa r2 (M + mset (taken_by ev r)) (got2 @ F)"
    using sink_next_ok [OF _ step(1), of M "got2 @ F"] Cons.prems(1) got by simp
  from Cons.IH [OF this step(2)] got show ?case by (simp add: add.assoc)
qed simp

end
