(* ===== verification/SinkSafety.thy ===== *)
theory SinkSafety
  imports SinkRun
begin

text \<open>
  What holds of every run of the sink, whatever it is given and whatever fails: no partial file
  under a final name, and a consumer that never waits with an expired timeout.
\<close>

section \<open>No partial file\<close>

definition is_tmp :: "path \<Rightarrow> bool" where
  "is_tmp p \<longleftrightarrow> (\<exists>dir name. p = dir @ [name @ ''.tmp''])"

definition no_partial :: "'a disk \<Rightarrow> bool" where
  "no_partial d \<longleftrightarrow> (\<forall>p f. d p = Some f \<longrightarrow> \<not> fl_sealed f \<longrightarrow> is_tmp p)"

definition tmp_writer :: "rotating_writer \<Rightarrow> bool" where
  "tmp_writer w \<longleftrightarrow> rw_tmp_path w = rw_writer w \<and> (\<forall>p. rw_writer w = Some p \<longrightarrow> is_tmp p)"

lemma finalize_tmp:
  assumes "no_partial d" "tmp_writer w" "finalize_writer d w = (r, d1, w1)"
  shows "no_partial d1 \<and> tmp_writer w1"
  using assms
  by (auto simp: finalize_writer_def tmp_writer_def no_partial_def seal_file_def replace_file_def Let_def
      split: option.splits if_splits)

lemma open_tmp:
  assumes "no_partial d" "tmp_writer w" "open_writer key now d w = (r, d1, w1)"
  shows "no_partial d1 \<and> tmp_writer w1"
proof -
  have "is_tmp (path_join dir (part_name i @ ''.tmp''))" for dir i
    unfolding part_name_plain is_tmp_def by blast
  with assms show ?thesis
    by (auto simp: open_writer_def tmp_writer_def no_partial_def create_file_def Let_def
        split: sum.splits if_splits)
qed

lemma rotate_tmp:
  assumes "no_partial d" "tmp_writer w" "rotate key now d w = (r, d1, w1)"
  shows "no_partial d1 \<and> tmp_writer w1"
  using assms finalize_tmp open_tmp
  by (auto simp: rotate_def split: if_splits prod.splits sum.splits) blast+

lemma write_batch_tmp:
  assumes "no_partial d" "tmp_writer w" "write_batch pa now rows d w = (r, d1, w1)"
  shows "no_partial d1 \<and> tmp_writer w1"
proof -
  have "no_partial (append_table p table d)" if "no_partial d" for p and table :: "'a list" and d
    using that by (auto simp: no_partial_def append_table_def split: option.splits)
  then show ?thesis
    using assms rotate_tmp [OF assms(1,2)]
    by (auto simp: write_batch_def split: list.splits sum.splits prod.splits option.splits)
qed

definition tmp_safe :: "'a disk \<Rightarrow> parquet_sink \<Rightarrow> bool" where
  "tmp_safe d s \<longleftrightarrow> no_partial d \<and> (\<forall>w\<in>snd ` set (ps_writers s). tmp_writer w)"

lemma tmp_safe_update [simp]:
  "tmp_safe d (s\<lparr>ps_stats := x\<rparr>) = tmp_safe d s" "tmp_safe d (s\<lparr>ps_buffer := rows\<rparr>) = tmp_safe d s"
  "tmp_safe d (s\<lparr>ps_last_flush := t\<rparr>) = tmp_safe d s" "tmp_safe d (s\<lparr>ps_last_progress_at := t\<rparr>) = tmp_safe d s"
  "tmp_safe d (s\<lparr>ps_queue := q\<rparr>) = tmp_safe d s"
  by (simp_all add: tmp_safe_def)

lemma write_group_tmp:
  assumes "tmp_safe d s" "write_group pa now g d s = (r, d1, s1)"
  shows "tmp_safe d1 s1"
proof -
  obtain exch name k rows where g: "g = ((exch, name, k), rows)" by (metis prod_cases3 surj_pair)
  obtain r2 d2 w2 where wb: "write_batch pa now rows d (writer_for exch name s) = (r2, d2, w2)" by (metis prod_cases3)
  have "tmp_writer (writer_for exch name s)"
    using assms(1) by (force simp: tmp_safe_def writer_for_def new_rotating_writer_def tmp_writer_def
        split: option.split dest: map_of_SomeD)
  from write_batch_tmp [OF _ this wb] assms(1) have "no_partial d2" "tmp_writer w2" by (auto simp: tmp_safe_def)
  then have "tmp_safe d2 (s\<lparr>ps_writers := AList.update (exch, name) w2 (ps_writers s)\<rparr>)"
    using assms(1) set_update_subset [of "(exch, name)" w2 "ps_writers s"] by (fastforce simp: tmp_safe_def)
  with assms(2) wb g show ?thesis by (auto simp: Let_def split: sum.splits)
qed

lemma write_groups_tmp:
  "tmp_safe d s \<Longrightarrow> write_groups pa clock gs d s = (r, clock1, d1, s1) \<Longrightarrow> tmp_safe d1 s1"
  by (induction gs arbitrary: d s clock) (auto split: prod.splits sum.splits dest: write_group_tmp)

lemma flush_buffer_tmp:
  "tmp_safe d s \<Longrightarrow> flush_buffer pa clock d s = (r, clock1, d1, s1) \<Longrightarrow> tmp_safe d1 s1"
  by (auto simp: flush_buffer_def flush_def split: prod.splits sum.splits dest: write_groups_tmp)

lemma consume_top_tmp:
  "tmp_safe d s \<Longrightarrow> consume_top pa clock d s = (r, clock1, d1, s1) \<Longrightarrow> tmp_safe d1 s1"
  by (auto simp: consume_top_def Let_def split: prod.splits sum.splits if_splits dest: flush_buffer_tmp)

lemma consume_bottom_tmp:
  "tmp_safe d s \<Longrightarrow> consume_bottom pa clock d s = (r, clock1, d1, s1) \<Longrightarrow> tmp_safe d1 s1"
  by (auto simp: consume_bottom_def Let_def split: prod.splits sum.splits if_splits dest: flush_buffer_tmp)

lemma close_writers_tmp:
  "no_partial d \<Longrightarrow> \<forall>w\<in>snd ` set ws. tmp_writer w \<Longrightarrow> close_writers d ws = (r, d1, ws1) \<Longrightarrow>
     no_partial d1 \<and> (\<forall>w\<in>snd ` set ws1. tmp_writer w)"
proof (induction ws arbitrary: d r d1 ws1)
  case (Cons kw ws)
  obtain k w where kw: "kw = (k, w)" by fastforce
  obtain r2 d2 w2 where f: "finalize_writer d w = (r2, d2, w2)" by (metis prod_cases3)
  have one: "no_partial d2" "tmp_writer w2" using finalize_tmp [OF Cons.prems(1) _ f] Cons.prems(2) kw by auto
  obtain r3 d3 ws3 where rest: "close_writers d2 ws = (r3, d3, ws3)" by (metis prod_cases3)
  from Cons.IH [OF one(1) _ this] Cons.prems(2)
  have "no_partial d3 \<and> (\<forall>w\<in>snd ` set ws3. tmp_writer w)" by auto
  with Cons.prems kw f one rest show ?case by (cases r2) auto
qed simp

lemma finish_tmp: "tmp_safe d s \<Longrightarrow> tmp_safe (sr_disk (finish_sink pa clock why d s)) (sr_sink (finish_sink pa clock why d s))"
proof -
  assume safe: "tmp_safe d s"
  obtain r clock1 d1 s1 where f: "(if ps_buffer s \<noteq> [] then flush_buffer pa clock d s else (Inr (), clock, d, s)) = (r, clock1, d1, s1)"
    by (metis prod_cases4)
  have safe1: "tmp_safe d1 s1" using f safe flush_buffer_tmp by (auto split: if_splits)
  obtain r2 d2 ws where c: "close_writers d1 (ps_writers s1) = (r2, d2, ws)" by (metis prod_cases3)
  have "no_partial d2 \<and> (\<forall>w\<in>snd ` set ws. tmp_writer w)"
    using close_writers_tmp [OF _ _ c] safe1 by (auto simp: tmp_safe_def)
  with safe1 c f show ?thesis by (cases r) (auto simp: finish_sink_def tmp_safe_def)
qed

abbreviation safe_run :: "'a sink_run \<Rightarrow> bool" where
  "safe_run r \<equiv> tmp_safe (sr_disk r) (sr_sink r)"

lemma goes_on_tmp: "tmp_safe d s \<Longrightarrow> safe_run (goes_on pa (r, clock, d, s))"
  by (cases r) (simp_all add: goes_on_def finish_tmp)

lemma next_turn_tmp:
  assumes "tmp_safe d s"
  shows "safe_run (next_turn pa clock d s)"
proof -
  obtain r clock1 d1 s1 where b: "consume_bottom pa clock d s = (r, clock1, d1, s1)" by (metis prod_cases4)
  note safe = consume_bottom_tmp [OF assms b]
  obtain r2 clock2 d2 s2 where t: "consume_top pa clock1 d1 s1 = (r2, clock2, d2, s2)" by (metis prod_cases4)
  show ?thesis
    using goes_on_tmp [OF safe] goes_on_tmp [OF consume_top_tmp [OF safe t]] b t
    by (cases r) (simp_all add: next_turn_def)
qed

lemma sink_next_tmp:
  assumes "safe_run r" "sink_next pa ev r = Some r1"
  shows "safe_run r1"
proof (cases ev)
  case (Consumer_Starts clock)
  obtain r2 clock2 d2 s2 where "consume_top pa clock (sr_disk r) (sr_sink r) = (r2, clock2, d2, s2)" by (metis prod_cases4)
  with Consumer_Starts assms goes_on_tmp consume_top_tmp show ?thesis by (auto split: if_splits) blast
next
  case (Row_Comes clock)
  have "tmp_safe (sr_disk r) s1" if "take_row clock (sr_sink r) = Some (clock1, s1)" for clock1 s1
    using that assms(1) by (auto simp: take_row_def split: option.splits)
  with Row_Comes assms next_turn_tmp show ?thesis
    by (auto split: option.splits consumer.splits prod.splits)
qed (use assms next_turn_tmp finish_tmp in \<open>auto split: if_splits option.splits consumer.splits sum.splits\<close>)

lemma sink_exec_tmp: "safe_run r \<Longrightarrow> sink_exec pa evs r = Some (got, r1) \<Longrightarrow> safe_run r1"
  by (induction evs arbitrary: r got) (auto split: option.splits dest: sink_next_tmp)

section \<open>The consumer always waits with time left\<close>

definition same_settings :: "parquet_sink \<Rightarrow> parquet_sink \<Rightarrow> bool" where
  "same_settings s s1 \<longleftrightarrow>
     ps_queue s1 = ps_queue s \<and> ps_output_dir s1 = ps_output_dir s \<and> ps_depth_levels s1 = ps_depth_levels s \<and>
     ps_batch_size s1 = ps_batch_size s \<and> ps_flush_interval s1 = ps_flush_interval s \<and>
     ps_stall_timeout s1 = ps_stall_timeout s \<and> ps_last_progress_at s1 = ps_last_progress_at s \<and>
     ps_last_flush s1 = ps_last_flush s"

lemma write_group_keeps:
  assumes "write_group pa now g d s = (r, d1, s1)"
  shows "same_settings s s1 \<and> ps_buffer s1 = ps_buffer s"
proof -
  obtain exch name k rows where "g = ((exch, name, k), rows)" by (metis prod_cases3 surj_pair)
  with assms show ?thesis by (auto simp: same_settings_def Let_def split: prod.splits sum.splits)
qed

lemma write_groups_keeps:
  "write_groups pa clock gs d s = (r, clock1, d1, s1) \<Longrightarrow> same_settings s s1 \<and> ps_buffer s1 = ps_buffer s"
proof (induction gs arbitrary: d s clock)
  case (Cons g gs)
  obtain r2 d2 s2 where one: "write_group pa (clock 0) g d s = (r2, d2, s2)" by (metis prod_cases3)
  note k = write_group_keeps [OF one]
  show ?case
  proof (cases r2)
    case (Inl err)
    with Cons.prems one k show ?thesis by simp
  next
    case (Inr u)
    with Cons.prems one have "write_groups pa (later clock) gs d2 s2 = (r, clock1, d1, s1)" by simp
    from Cons.IH [OF this] k show ?thesis by (simp add: same_settings_def)
  qed
qed (simp add: same_settings_def)

lemma flush_buffer_keeps:
  assumes "flush_buffer pa clock d s = (r, clock1, d1, s1)"
  shows "same_settings s s1 \<and> ps_buffer s1 = (if isl r then ps_buffer s else [])"
proof (cases "group_rows [] (ps_buffer s)")
  case (Inl err)
  with assms show ?thesis by (auto simp: flush_buffer_def flush_def same_settings_def)
next
  case (Inr gs)
  obtain r2 clock2 d2 s2 where w: "write_groups pa clock gs d s = (r2, clock2, d2, s2)" by (metis prod_cases4)
  note k = write_groups_keeps [OF w]
  show ?thesis
    using assms w Inr k by (cases r2) (auto simp: flush_buffer_def flush_def same_settings_def)
qed

definition roomy :: "int \<Rightarrow> parquet_sink \<Rightarrow> bool" where
  "roomy batch s \<longleftrightarrow> ps_batch_size s = batch \<and> 0 < batch \<and> 0 < ps_flush_interval s \<and> int (length (ps_buffer s)) < batch"

definition calm :: "int \<Rightarrow> 'a sink_run \<Rightarrow> bool" where
  "calm batch r \<longleftrightarrow>
     (sr_end r = None \<longrightarrow> roomy batch (sr_sink r) \<and> (\<forall>timeout. sr_consumer r = Waits timeout \<longrightarrow> 0 < timeout))"

lemma finish_ends: "sr_end (finish_sink pa clock why d s) \<noteq> None"
  by (auto simp: finish_sink_def split: prod.splits sum.splits)

lemma goes_on_calm:
  assumes "roomy batch s"
  shows "calm batch (goes_on pa (consume_top pa clock d s))"
proof (cases "0 < ps_flush_interval s - (clock 0 - ps_last_flush s)")
  case True
  with assms show ?thesis by (simp add: goes_on_def consume_top_def calm_def)
next
  case False
  obtain r clock1 d1 s1 where f: "flush_buffer pa (later clock) d s = (r, clock1, d1, s1)" by (metis prod_cases4)
  note k = flush_buffer_keeps [OF f]
  show ?thesis
  proof (cases "ps_buffer s = []")
    case True
    with False assms show ?thesis by (simp add: goes_on_def consume_top_def calm_def roomy_def)
  next
    case buffered: False
    show ?thesis
    proof (cases r)
      case (Inl err)
      with False buffered f show ?thesis by (simp add: goes_on_def consume_top_def calm_def finish_ends)
    next
      case (Inr u)
      with False buffered f k assms show ?thesis
        by (simp add: goes_on_def consume_top_def calm_def roomy_def same_settings_def)
    qed
  qed
qed

lemma next_turn_calm:
  assumes "ps_batch_size s = batch" "0 < batch" "0 < ps_flush_interval s"
  shows "calm batch (next_turn pa clock d s)"
proof (cases "flush_due (clock 0) s")
  case True
  obtain r clock1 d1 s1 where f: "flush_buffer pa (later clock) d s = (r, clock1, d1, s1)" by (metis prod_cases4)
  note k = flush_buffer_keeps [OF f]
  show ?thesis
  proof (cases r)
    case (Inl err)
    with True f show ?thesis by (simp add: next_turn_def consume_bottom_def goes_on_def calm_def finish_ends)
  next
    case (Inr u)
    have "roomy batch (s1\<lparr>ps_last_flush := clock 0, ps_last_progress_at := clock 0\<rparr>)"
      using assms k Inr by (simp add: roomy_def same_settings_def)
    from goes_on_calm [OF this] True f Inr show ?thesis by (simp add: next_turn_def consume_bottom_def Let_def)
  qed
next
  case False
  then have "roomy batch s" using assms by (simp add: roomy_def flush_due_def)
  from goes_on_calm [OF this] False show ?thesis by (simp add: next_turn_def consume_bottom_def)
qed

lemma sink_next_calm:
  assumes "calm batch r" "sink_next pa ev r = Some r1"
  shows "calm batch r1"
proof (cases "sr_end r = None")
  case True
  with assms(1) have roomy: "roomy batch (sr_sink r)" by (simp add: calm_def)
  show ?thesis
  proof (cases ev)
    case (Feed_Puts row)
    with assms show ?thesis by (auto simp: calm_def roomy_def)
  next
    case (Consumer_Starts clock)
    with assms roomy goes_on_calm show ?thesis by (auto split: if_splits)
  next
    case (Row_Comes clock)
    have "ps_batch_size s1 = batch \<and> 0 < batch \<and> 0 < ps_flush_interval s1"
      if "take_row clock (sr_sink r) = Some (clock1, s1)" for clock1 s1
      using that roomy by (auto simp: take_row_def roomy_def split: option.splits)
    with Row_Comes assms show ?thesis
      by (auto split: option.splits consumer.splits prod.splits intro!: next_turn_calm)
  next
    case (Wait_Times_Out clock)
    with assms roomy show ?thesis
      by (auto simp: roomy_def split: option.splits consumer.splits intro!: next_turn_calm)
  next
    case (Watchdog_Wakes clock)
    with assms True show ?thesis by (auto simp: calm_def finish_ends split: sum.splits)
  next
    case (Sink_Cancelled clock)
    with assms True show ?thesis by (auto simp: calm_def finish_ends)
  qed
next
  case False
  then obtain row where "ev = Feed_Puts row"
    using assms(2) by (cases ev) (auto split: option.splits consumer.splits prod.splits)
  with assms False show ?thesis by (auto simp: calm_def)
qed

lemma sink_exec_calm: "calm batch r \<Longrightarrow> sink_exec pa evs r = Some (got, r1) \<Longrightarrow> calm batch r1"
  by (induction evs arbitrary: r got) (auto split: option.splits dest: sink_next_calm)

section \<open>The settings stay\<close>

abbreviation same_place :: "parquet_sink \<Rightarrow> parquet_sink \<Rightarrow> bool" where
  "same_place s s1 \<equiv> ps_output_dir s1 = ps_output_dir s \<and> ps_depth_levels s1 = ps_depth_levels s"

text \<open>Only a row that is taken changes the queue.\<close>

abbreviation same_home :: "parquet_sink \<Rightarrow> parquet_sink \<Rightarrow> bool" where
  "same_home s s1 \<equiv> same_place s s1 \<and> ps_queue s1 = ps_queue s"

lemma flush_buffer_place: "flush_buffer pa clock d s = (r, clock1, d1, s1) \<Longrightarrow> same_home s s1"
  using flush_buffer_keeps [of pa clock d s r clock1 d1 s1] by (simp add: same_settings_def)

lemma finish_place [simp]:
  "ps_output_dir (sr_sink (finish_sink pa clock why d s)) = ps_output_dir s"
  "ps_depth_levels (sr_sink (finish_sink pa clock why d s)) = ps_depth_levels s"
  "ps_queue (sr_sink (finish_sink pa clock why d s)) = ps_queue s"
  by (auto simp: finish_sink_def split: prod.splits sum.splits if_splits dest: flush_buffer_place)

lemma goes_on_place [simp]:
  "ps_output_dir (sr_sink (goes_on pa (consume_top pa clock d s))) = ps_output_dir s"
  "ps_depth_levels (sr_sink (goes_on pa (consume_top pa clock d s))) = ps_depth_levels s"
  "ps_queue (sr_sink (goes_on pa (consume_top pa clock d s))) = ps_queue s"
proof -
  obtain r clock1 d1 s1 where t: "consume_top pa clock d s = (r, clock1, d1, s1)" by (metis prod_cases4)
  then have "same_home s s1"
    by (auto simp: consume_top_def Let_def split: prod.splits sum.splits if_splits dest: flush_buffer_place)
  with t have "same_home s (sr_sink (goes_on pa (consume_top pa clock d s)))" by (cases r) (simp_all add: goes_on_def)
  then show "ps_output_dir (sr_sink (goes_on pa (consume_top pa clock d s))) = ps_output_dir s"
    "ps_depth_levels (sr_sink (goes_on pa (consume_top pa clock d s))) = ps_depth_levels s"
    "ps_queue (sr_sink (goes_on pa (consume_top pa clock d s))) = ps_queue s" by blast+
qed

lemma next_turn_place [simp]:
  "ps_output_dir (sr_sink (next_turn pa clock d s)) = ps_output_dir s"
  "ps_depth_levels (sr_sink (next_turn pa clock d s)) = ps_depth_levels s"
  "ps_queue (sr_sink (next_turn pa clock d s)) = ps_queue s"
proof -
  obtain r clock1 d1 s1 where b: "consume_bottom pa clock d s = (r, clock1, d1, s1)" by (metis prod_cases4)
  then have "same_home s s1"
    by (auto simp: consume_bottom_def Let_def split: prod.splits sum.splits if_splits dest: flush_buffer_place)
  with b have "same_home s (sr_sink (next_turn pa clock d s))"
    by (cases r) (simp_all add: next_turn_def goes_on_def [of _ "(Inl _, _)"])
  then show "ps_output_dir (sr_sink (next_turn pa clock d s)) = ps_output_dir s"
    "ps_depth_levels (sr_sink (next_turn pa clock d s)) = ps_depth_levels s"
    "ps_queue (sr_sink (next_turn pa clock d s)) = ps_queue s" by blast+
qed

lemma sink_next_place: "sink_next pa ev r = Some r1 \<Longrightarrow> same_place (sr_sink r) (sr_sink r1)"
proof (cases ev)
  case (Row_Comes clock)
  assume next_one: "sink_next pa ev r = Some r1"
  have "same_place (sr_sink r) s1" if "take_row clock (sr_sink r) = Some (clock1, s1)" for clock1 s1
    using that by (auto simp: take_row_def split: option.splits)
  with next_one Row_Comes show ?thesis
    by (auto split: option.splits consumer.splits prod.splits)
qed (auto split: if_splits option.splits consumer.splits sum.splits)

lemma sink_next_queue:
  assumes "sink_next pa ev r = Some r1" and "\<forall>row. ev \<noteq> Feed_Puts row"
  shows "ps_queue (sr_sink r1) = ps_queue (sr_sink r) \<and> taken_by ev r = [] \<or>
    (\<exists>row. RowQueue.get (ps_queue (sr_sink r)) = Some (row, ps_queue (sr_sink r1)) \<and> taken_by ev r = [row])"
proof (cases ev)
  case (Row_Comes clock)
  with assms(1) obtain clock1 s1 where t: "take_row clock (sr_sink r) = Some (clock1, s1)"
      "r1 = next_turn pa clock1 (sr_disk r) s1"
    by (auto split: option.splits consumer.splits prod.splits)
  then obtain row where "RowQueue.get (ps_queue (sr_sink r)) = Some (row, ps_queue (sr_sink r1))"
    by (auto simp: take_row_def split: option.splits)
  moreover from this have "taken_by ev r = [row]"
    by (auto simp: taken_by_def Row_Comes RowQueue.get_def get_nowait_def split: list.splits)
  ultimately show ?thesis by blast
qed (use assms in \<open>auto simp: taken_by_def split: if_splits option.splits consumer.splits sum.splits\<close>)

lemma sink_exec_settings: "sink_exec pa evs r = Some (got, r1) \<Longrightarrow> same_place (sr_sink r) (sr_sink r1)"
proof (induction evs arbitrary: r got)
  case (Cons ev evs)
  then obtain r2 got2 where "sink_next pa ev r = Some r2" "sink_exec pa evs r2 = Some (got2, r1)"
    by (auto split: option.splits)
  with Cons.IH sink_next_place show ?case by metis
qed simp

end
