(* ===== verification/SinkClaims.thy ===== *)
theory SinkClaims
  imports SinkSafety
begin

text \<open>
  The properties of the Parquet sink: what a run keeps, what it never does, and two ways in which
  the code loses or repeats rows.
\<close>

section \<open>Every row is kept\<close>

lemma clean_files:
  assumes clean: "clean pa d s B M" and same: "ps_output_dir s = dir" "ps_depth_levels s = depth"
  shows "finite (dom d) \<and> (\<Sum>p\<in>dom d. mset (concat (B p))) = M \<and>
    (\<forall>p f. d p = Some f \<longrightarrow> fl_sealed f \<and>
      map Inr (fl_tables f) = map (\<lambda>rows. rows_to_table pa rows depth (build_schema depth)) (B p) \<and>
      (\<exists>directory i. p = directory @ [part_name i] \<and>
        (\<forall>row\<in>set (concat (B p)). \<exists>key. hour_key_for (row_ts_wall_ns row) = Inr key \<and>
          partition_dir dir (row_exchange row) (row_symbol row) key = Inr directory)))"
proof -
  have ok: "sink_ok pa dir depth d (map_of (ps_writers s)) B" and bag: "bag d B = M"
    and closed: "\<And>k w. map_of (ps_writers s) k = Some w \<Longrightarrow> rw_writer w = None"
    using clean same
    by (auto simp: clean_def sink_wf_def list_all_iff closed_writer_def dest: map_of_SomeD)
  have "fl_sealed f \<and> map Inr (fl_tables f) = map (\<lambda>rows. rows_to_table pa rows depth (build_schema depth)) (B p) \<and>
      (\<exists>directory i. p = directory @ [part_name i] \<and>
        (\<forall>row\<in>set (concat (B p)). \<exists>key. hour_key_for (row_ts_wall_ns row) = Inr key \<and>
          partition_dir dir (row_exchange row) (row_symbol row) key = Inr directory))"
    if f: "d p = Some f" for p f
  proof -
    have holds: "holds_batches pa depth f (B p)" and place: "file_place dir (map_of (ps_writers s)) p f (B p)"
      using ok f by (auto simp: sink_ok_def)
    obtain e n h i where p: "p = final_path dir e n h i" "fl_sealed f" "valid_hour h" "rows_at e n h (concat (B p))"
      using place closed unfolding file_place_def by (metis option.distinct(1))
    have "\<exists>key. hour_key_for (row_ts_wall_ns row) = Inr key \<and>
        partition_dir dir (row_exchange row) (row_symbol row) key = Inr (pdir dir e n h)" if "row \<in> set (concat (B p))" for row
    proof -
      have "row_exchange row = e" "row_symbol row = n" "row_hour row = h"
        using p(4) that by (auto simp: rows_at_def list_all_iff)
      then show ?thesis using p(3) partition_dir_at [OF p(3), of dir e n]
        by (intro exI [of _ "key_of h"]) (simp add: hour_key_for_iff row_hour_def)
    qed
    with holds p(1,2) show ?thesis unfolding holds_batches_def final_path_def by blast
  qed
  with ok bag show ?thesis unfolding sink_ok_def bag_def by blast
qed

lemma exec_from_empty:
  assumes "sink_exec pa evs (start_run clock Map.empty (new_sink q dir depth batch_size flush_interval checkpoint stall)) =
      Some (got, r)"
    and "sorted_wrt (\<lambda>x y. pair_of x = pair_of y \<longrightarrow> row_ts_wall_ns x \<le> row_ts_wall_ns y) got"
    and "\<forall>row\<in>set got. names_plain (row_exchange row) (row_symbol row)"
  shows "run_ok pa r (mset got) []"
proof -
  let ?s = "new_sink q dir depth batch_size flush_interval checkpoint stall"
  have up: "hours_up got"
    using assms(2) unfolding hours_up_def row_hour_def
    by (rule sorted_wrt_mono_rel [rotated]) (auto intro: hour_number_mono)
  have "sink_wf pa Map.empty ?s (\<lambda>_. [])" by (simp add: sink_wf_def sink_ok_def new_sink_def)
  then have "run_ok pa (start_run clock Map.empty ?s) {#} (got @ [])"
    using up assms(3)
    by (auto simp: run_ok_def start_run_def flow_ok_def sink_wf_def bag_def new_sink_def not_behind_def
        intro!: exI [of _ "\<lambda>_. []"])
  from sink_exec_ok [OF this assms(1)] show ?thesis by simp
qed

text \<open>
  C31: a graceful shutdown loses nothing and repeats nothing. A sink that starts on an empty disk,
  takes rows whose exchanges and symbols have names without a slash and whose wall-clock times do not go
  back within a pair of exchange and symbol, and is cancelled, ends with every row it has taken in exactly one table of exactly one file: each file is
  sealed, has a final name \<open>part-NNNN.parquet\<close>, holds the tables \<open>rows_to_table\<close> makes of its batches,
  and lies in the partition directory of the exchange, symbol, date and hour of each of its rows.
  Rotations at the hour and at checkpoints, flushes by size and by age, several pairs and several
  hours in one buffer are all covered, and so is a \<open>pa.array\<close> that may fail: the run has then
  not ended cancelled.
\<close>

theorem sink_keeps_every_row:
  assumes "sink_exec pa evs (start_run clock Map.empty (new_sink q dir depth batch_size flush_interval checkpoint stall)) =
      Some (got, r)"
    and "sr_end r = Some Cancelled"
    and "sorted_wrt (\<lambda>x y. pair_of x = pair_of y \<longrightarrow> row_ts_wall_ns x \<le> row_ts_wall_ns y) got"
    and "\<forall>row\<in>set got. names_plain (row_exchange row) (row_symbol row)"
  shows "\<exists>batches. finite (dom (sr_disk r)) \<and> (\<Sum>p\<in>dom (sr_disk r). mset (concat (batches p))) = mset got \<and>
    (\<forall>p f. sr_disk r p = Some f \<longrightarrow> fl_sealed f \<and>
      map Inr (fl_tables f) = map (\<lambda>rows. rows_to_table pa rows depth (build_schema depth)) (batches p) \<and>
      (\<exists>directory i. p = directory @ [part_name i] \<and>
        (\<forall>row\<in>set (concat (batches p)). \<exists>key. hour_key_for (row_ts_wall_ns row) = Inr key \<and>
          partition_dir dir (row_exchange row) (row_symbol row) key = Inr directory)))"
proof -
  obtain B where clean: "clean pa (sr_disk r) (sr_sink r) B (mset got)"
    using exec_from_empty [OF assms(1,3,4)] assms(2) by (auto simp: run_ok_def)
  have same: "ps_output_dir (sr_sink r) = dir" "ps_depth_levels (sr_sink r) = depth"
    using sink_exec_settings [OF assms(1)] by (auto simp: start_run_def new_sink_def)
  from clean_files [OF clean same] show ?thesis by blast
qed

text \<open>A run to evaluate: two rows of one pair, an hour apart, each flushed alone.\<close>

definition row_at :: "string \<Rightarrow> int \<Rightarrow> snapshot_row" where
  "row_at name ts = \<lparr>row_exchange = ''okx'', row_symbol = name, row_ts_exchange_ms = None,
     row_ts_local_ns = 0, row_ts_wall_ns = ts, row_last_applied_id = 0, row_bids = [], row_asks = []\<rparr>"

definition plain_arrays :: "cell list arrays" where
  "plain_arrays t cells = Inr cells"

definition sample_sink :: "int \<Rightarrow> parquet_sink" where
  "sample_sink batch_size = new_sink (new_row_queue 0) [''data''] 1 batch_size 5 300 60"

abbreviation still :: readings where
  "still \<equiv> \<lambda>_. 0"

definition sample_table :: "snapshot_row list \<Rightarrow> cell list list" where
  "sample_table rows = projr (rows_to_table plain_arrays rows 1 (build_schema 1))"

lemma sample_tables: "rows_to_table plain_arrays rows 1 (build_schema 1) = Inr (sample_table rows)"
  using table_exists [of rows 1] by (auto simp: sample_table_def plain_arrays_def [abs_def])

lemma row_at_simps [simp]:
  "row_exchange (row_at name ts) = ''okx''" "row_symbol (row_at name ts) = name" "row_ts_wall_ns (row_at name ts) = ts"
  by (simp_all add: row_at_def)

lemma sample_date: "civil_date 719162 = (1970, Suc 0, Suc 0)"
  by (simp add: civil_date_def year_day_def month_lengths_def is_leap_def Let_def)

lemma sample_digits: "nat_str 1970 = ''1970''" "nat_str 0 = ''0''" "nat_str (Suc 0) = ''1''"
  by (simp_all add: nat_str.simps digit_char_def)

lemma sample_pads: "zero_pad 2 (Suc 0) = ''01''" "zero_pad 2 0 = ''00''" "zero_pad 4 0 = ''0000''"
  by (simp_all add: zero_pad_def sample_digits numeral_eq_Suc)

lemma sample_hours: "hour_key_for 0 = Inr ''1970-01-01/00''" "hour_key_for 3600000000000 = Inr ''1970-01-01/01''"
  by (simp_all add: hour_key_for_def hour_number_def round_half_even_def epoch_day_def days_of_9999_years_def Let_def
    hour_text_def sample_date sample_digits sample_pads)

lemma sample_part: "part_name 0 = ''part-0000.parquet''"
  by (simp add: part_name_def sample_pads)

lemma sample_dirs:
  "partition_dir [''data''] ''okx'' ''A'' ''1970-01-01/00'' =
     Inr [''data'', ''exchange=okx'', ''symbol=A'', ''date=1970-01-01'', ''hour=00'']"
  "partition_dir [''data''] ''okx'' ''A'' ''1970-01-01/01'' =
     Inr [''data'', ''exchange=okx'', ''symbol=A'', ''date=1970-01-01'', ''hour=01'']"
  "partition_dir [''data''] ''okx'' ''B'' ''1970-01-01/00'' =
     Inr [''data'', ''exchange=okx'', ''symbol=B'', ''date=1970-01-01'', ''hour=00'']"
  by (simp_all add: partition_dir_def path_join_def)

lemmas sink_eval =
  start_run_def new_sink_def new_row_queue_def goes_on_def consume_top_def later_def put_def put_nowait_def
  take_row_def RowQueue.get_def get_nowait_def next_turn_def consume_bottom_def flush_due_def flush_buffer_def
  flush_def writer_for_def new_rotating_writer_def write_batch_def rotate_def needs_rotation_def
  finalize_writer_def open_writer_def Let_def append_table_def create_file_def seal_file_def
  replace_file_def finish_sink_def taken_by_def

lemmas sample_eval = sample_sink_def sample_tables sample_hours sample_dirs sample_part path_join_def

lemma sample_sink_run:
  "\<exists>r. sink_exec plain_arrays
     [Consumer_Starts still, Feed_Puts (row_at ''A'' 0), Feed_Puts (row_at ''A'' 3600000000000),
      Row_Comes still, Row_Comes still, Sink_Cancelled still]
     (start_run still Map.empty (sample_sink 1)) = Some ([row_at ''A'' 0, row_at ''A'' 3600000000000], r) \<and>
   sr_end r = Some Cancelled"
  by (simp add: sink_eval sample_eval)

lemma sink_keeps_every_row_witness:
  "\<exists>(r :: cell list sink_run) batches. sr_end r = Some Cancelled \<and>
     (\<Sum>p\<in>dom (sr_disk r). mset (concat (batches p))) = {#row_at ''A'' 0, row_at ''A'' 3600000000000#} \<and>
     (\<forall>p f. sr_disk r p = Some f \<longrightarrow> fl_sealed f)"
proof -
  obtain r where r: "sink_exec plain_arrays
      [Consumer_Starts still, Feed_Puts (row_at ''A'' 0), Feed_Puts (row_at ''A'' 3600000000000),
       Row_Comes still, Row_Comes still, Sink_Cancelled still]
      (start_run still Map.empty (sample_sink 1)) = Some ([row_at ''A'' 0, row_at ''A'' 3600000000000], r)"
    and e: "sr_end r = Some Cancelled" using sample_sink_run by blast
  from sink_keeps_every_row [OF r [unfolded sample_sink_def] e] obtain batches
    where "(\<Sum>p\<in>dom (sr_disk r). mset (concat (batches p))) = {#row_at ''A'' 0, row_at ''A'' 3600000000000#}"
      "\<forall>p f. sr_disk r p = Some f \<longrightarrow> fl_sealed f" by (auto simp: names_plain_def)
  with e show ?thesis by (intro exI [of _ r] exI [of _ batches] conjI)
qed

text \<open>
  The sink fails only of its data. Where \<open>pa.array\<close> accepts every cell and every time lies in the
  years 1 to 9999, a run that starts on an empty disk and takes rows whose times do not go back
  within a pair is still going, or was cancelled, or was ended by its watchdog: no rotation, rename,
  assertion or counter raises, however flushes, checkpoints and hours fall.
\<close>

theorem sink_never_fails:
  assumes "sink_exec pa evs (start_run clock Map.empty (new_sink q dir depth batch_size flush_interval checkpoint stall)) =
      Some (got, r)"
    and "sorted_wrt (\<lambda>x y. pair_of x = pair_of y \<longrightarrow> row_ts_wall_ns x \<le> row_ts_wall_ns y) got"
    and "\<forall>row\<in>set got. names_plain (row_exchange row) (row_symbol row)"
    and "\<forall>row\<in>set got. isl (hour_key_for (row_ts_wall_ns row)) = False"
    and "\<forall>t cells. isl (pa t cells) = False"
  shows "sr_end r \<in> {None, Some Cancelled, Some (Exception_Group RuntimeError)}"
proof -
  have "run_ok pa r (mset got) []" by (rule exec_from_empty [OF assms(1,2,3)])
  moreover have "\<not> pa_fails pa err" for err
    using assms(5) by (auto simp: pa_fails_def) (metis sum.disc(1))
  moreover have "\<not> row_fails (mset got) err" for err
    using assms(4) by (auto simp: row_fails_def)
  ultimately show ?thesis by (auto simp: run_ok_def)
qed

lemma sink_never_fails_witness:
  "\<exists>got r. sink_exec plain_arrays
     [Consumer_Starts still, Feed_Puts (row_at ''A'' 0), Feed_Puts (row_at ''A'' 3600000000000),
      Row_Comes still, Row_Comes still, Sink_Cancelled still]
     (start_run still Map.empty (sample_sink 1)) = Some (got, r) \<and> length got = 2 \<and>
   sr_end r \<in> {None, Some Cancelled, Some (Exception_Group RuntimeError)}"
proof -
  obtain r where r: "sink_exec plain_arrays
      [Consumer_Starts still, Feed_Puts (row_at ''A'' 0), Feed_Puts (row_at ''A'' 3600000000000),
       Row_Comes still, Row_Comes still, Sink_Cancelled still]
      (start_run still Map.empty (sample_sink 1)) = Some ([row_at ''A'' 0, row_at ''A'' 3600000000000], r)"
    using sample_sink_run by blast
  have "sr_end r \<in> {None, Some Cancelled, Some (Exception_Group RuntimeError)}"
    by (rule sink_never_fails [OF r [unfolded sample_sink_def]])
      (simp_all add: names_plain_def sample_hours plain_arrays_def)
  with r show ?thesis by auto
qed

section \<open>What never happens\<close>

text \<open>
  C32: a crash can only leave an orphaned \<open>.tmp\<close>. At every moment of every run, whatever the rows, the
  clock, the batch sizes and the exceptions, a file without a footer has a name that ends in \<open>.tmp\<close>:
  no partially written file is ever at a final name.
\<close>

theorem final_names_complete:
  assumes "sink_exec pa evs (start_run clock d (new_sink q dir depth batch_size flush_interval checkpoint stall)) =
      Some (got, r)"
    and "\<forall>p f. d p = Some f \<longrightarrow> \<not> fl_sealed f \<longrightarrow> is_tmp p"
    and "sr_disk r p = Some f" "\<not> fl_sealed f"
  shows "\<exists>directory name. p = directory @ [name @ ''.tmp'']"
proof -
  have "safe_run (start_run clock d (new_sink q dir depth batch_size flush_interval checkpoint stall))"
    using assms(2) by (simp add: start_run_def tmp_safe_def no_partial_def new_sink_def)
  from sink_exec_tmp [OF this assms(1)] assms(3,4) show ?thesis
    by (auto simp: tmp_safe_def no_partial_def is_tmp_def)
qed

lemma final_names_complete_witness:
  "\<exists>got r p f. sink_exec plain_arrays [Consumer_Starts still, Feed_Puts (row_at ''A'' 0), Row_Comes still]
     (start_run still Map.empty (sample_sink 1)) = Some (got, r) \<and> sr_disk r p = Some f \<and> \<not> fl_sealed f \<and>
     (\<exists>directory name. p = directory @ [name @ ''.tmp''])"
proof -
  let ?p = "[''data'', ''exchange=okx'', ''symbol=A'', ''date=1970-01-01'', ''hour=00'', ''part-0000.parquet.tmp'']"
  have "\<exists>got r f. sink_exec plain_arrays [Consumer_Starts still, Feed_Puts (row_at ''A'' 0), Row_Comes still]
     (start_run still Map.empty (sample_sink 1)) = Some (got, r) \<and> sr_disk r ?p = Some f \<and> \<not> fl_sealed f"
    by (simp add: sink_eval sample_eval)
  then obtain got r f where r: "sink_exec plain_arrays [Consumer_Starts still, Feed_Puts (row_at ''A'' 0), Row_Comes still]
     (start_run still Map.empty (sample_sink 1)) = Some (got, r)" "sr_disk r ?p = Some f" "\<not> fl_sealed f" by blast
  have "\<exists>directory name. ?p = directory @ [name @ ''.tmp'']"
    by (rule final_names_complete [OF r(1) [unfolded sample_sink_def] _ r(2,3)]) simp
  with r show ?thesis by blast
qed

text \<open>
  The consumer is never starved and its buffer never grows. In every run with positive settings,
  whenever the consumer waits, the timeout it has given to \<open>wait_for\<close> is positive, so that a row in
  the queue can be taken, and fewer than \<open>batch_size\<close> rows are in the buffer: whatever the clock does,
  the loop does not hang with an expired interval.
\<close>

theorem consumer_never_starves:
  assumes "sink_exec pa evs (start_run clock d (new_sink q dir depth batch_size flush_interval checkpoint stall)) =
      Some (got, r)"
    and "0 < batch_size" "0 < flush_interval"
    and "sr_end r = None" "sr_consumer r = Waits timeout"
  shows "0 < timeout \<and> int (length (ps_buffer (sr_sink r))) < batch_size \<and>
    (0 < qsize (ps_queue (sr_sink r)) \<longrightarrow> sink_next pa (Row_Comes now) r \<noteq> None)"
proof -
  have "calm batch_size (start_run clock d (new_sink q dir depth batch_size flush_interval checkpoint stall))"
    using assms(2,3) by (simp add: start_run_def calm_def roomy_def new_sink_def)
  from sink_exec_calm [OF this assms(1)] assms(4,5) show ?thesis
    by (auto simp: calm_def roomy_def qsize_def take_row_def RowQueue.get_def get_nowait_def split: list.splits)
qed

lemma consumer_never_starves_witness:
  "\<exists>r. sink_exec plain_arrays [Consumer_Starts (\<lambda>_. 7)] (start_run still Map.empty (sample_sink 1)) = Some ([], r) \<and>
     sr_consumer r = Waits 5 \<and> (0::seconds) < 5 \<and> int (length (ps_buffer (sr_sink r))) < 1"
proof -
  obtain r where r: "sink_exec plain_arrays [Consumer_Starts (\<lambda>_. 7)] (start_run still Map.empty (sample_sink 1)) = Some ([], r)"
      "sr_end r = None" "sr_consumer r = Waits 5"
    by (simp add: sink_eval sample_sink_def)
  with consumer_never_starves [OF r(1) [unfolded sample_sink_def] _ _ r(2,3)] show ?thesis by auto
qed

section \<open>Two ways to lose or repeat rows\<close>

text \<open>The first row of a sink that has no writers yet: waiting in the buffer, or in its first file.\<close>

definition first_pending :: "'a disk \<Rightarrow> path \<Rightarrow> int \<Rightarrow> snapshot_row \<Rightarrow> 'a disk \<Rightarrow> parquet_sink \<Rightarrow> bool" where
  "first_pending d0 dir depth row d s \<longleftrightarrow>
     d = d0 \<and> ps_buffer s = [row] \<and> ps_writers s = [] \<and> ps_output_dir s = dir \<and>
     ps_depth_levels s = depth \<and> ps_schema s = build_schema depth"

definition first_written :: "'a disk \<Rightarrow> path \<Rightarrow> 'a list \<Rightarrow> 'a disk \<Rightarrow> parquet_sink \<Rightarrow> bool" where
  "first_written d0 directory table d s \<longleftrightarrow>
     d = d0(directory @ [part_name 0 @ ''.tmp''] \<mapsto> \<lparr>fl_tables = [table], fl_sealed = False\<rparr>) \<and> ps_buffer s = [] \<and>
     (\<exists>k w. ps_writers s = [(k, w)] \<and> rw_writer w = Some (directory @ [part_name 0 @ ''.tmp'']) \<and>
        rw_tmp_path w = rw_writer w \<and> rw_final_path w = Some (directory @ [part_name 0]))"

lemma flush_first:
  assumes "first_pending d0 dir depth row d s"
    and "hour_key_for (row_ts_wall_ns row) = Inr key"
    and "partition_dir dir (row_exchange row) (row_symbol row) key = Inr directory"
    and "rows_to_table pa [row] depth (build_schema depth) = Inr table"
  shows "\<exists>clock1 d1 s1. flush_buffer pa clock d s = (Inr (), clock1, d1, s1) \<and> first_written d0 directory table d1 s1"
  using assms
  by (simp add: first_pending_def first_written_def flush_buffer_def flush_def writer_for_def new_rotating_writer_def
      write_batch_def rotate_def needs_rotation_def finalize_writer_def open_writer_def Let_def part_name_plain
      append_table_def create_file_def)

lemma next_turn_first:
  assumes pend: "first_pending d0 dir depth row d s"
    and key: "hour_key_for (row_ts_wall_ns row) = Inr key"
      "partition_dir dir (row_exchange row) (row_symbol row) key = Inr directory"
      "rows_to_table pa [row] depth (build_schema depth) = Inr table"
  shows "sr_end (next_turn pa clock d s) = None \<and>
    (first_pending d0 dir depth row (sr_disk (next_turn pa clock d s)) (sr_sink (next_turn pa clock d s)) \<or>
     first_written d0 directory table (sr_disk (next_turn pa clock d s)) (sr_sink (next_turn pa clock d s)))"
proof (cases "flush_due (clock 0) s")
  case True
  obtain clock1 d1 s1 where f: "flush_buffer pa (later clock) d s = (Inr (), clock1, d1, s1)"
      and w: "first_written d0 directory table d1 s1" using flush_first [OF pend key] by blast
  then have "ps_buffer s1 = []" by (simp add: first_written_def)
  with True f w show ?thesis
    by (simp add: next_turn_def consume_bottom_def goes_on_def consume_top_def Let_def first_written_def)
next
  case False
  obtain clock1 d1 s1 where f: "flush_buffer pa (later (later clock)) d s = (Inr (), clock1, d1, s1)"
      and w: "first_written d0 directory table d1 s1" using flush_first [OF pend key] by blast
  have "ps_buffer s \<noteq> []" using pend by (simp add: first_pending_def)
  with False f w pend show ?thesis
    by (simp add: next_turn_def consume_bottom_def goes_on_def consume_top_def Let_def)
      (simp add: first_written_def)
qed

lemma finish_written:
  assumes "first_written d0 directory table d s"
  shows "sr_end (finish_sink pa clock why d s) = Some why \<and>
    sr_disk (finish_sink pa clock why d s) (directory @ [part_name 0]) = Some \<lparr>fl_tables = [table], fl_sealed = True\<rparr>"
proof -
  obtain k w where "ps_writers s = [(k, w)]" "rw_writer w = Some (directory @ [part_name 0 @ ''.tmp''])"
      "rw_tmp_path w = rw_writer w" "rw_final_path w = Some (directory @ [part_name 0])" "ps_buffer s = []"
      "d = d0(directory @ [part_name 0 @ ''.tmp''] \<mapsto> \<lparr>fl_tables = [table], fl_sealed = False\<rparr>)"
    using assms by (auto simp: first_written_def)
  then show ?thesis by (simp add: finish_sink_def finalize_writer_def seal_file_def replace_file_def Let_def)
qed

lemma finish_first:
  assumes "first_pending d0 dir depth row d s \<or> first_written d0 directory table d s"
    and key: "hour_key_for (row_ts_wall_ns row) = Inr key"
      "partition_dir dir (row_exchange row) (row_symbol row) key = Inr directory"
      "rows_to_table pa [row] depth (build_schema depth) = Inr table"
  shows "sr_end (finish_sink pa clock why d s) = Some why \<and>
    sr_disk (finish_sink pa clock why d s) (directory @ [part_name 0]) = Some \<lparr>fl_tables = [table], fl_sealed = True\<rparr>"
proof (cases "first_written d0 directory table d s")
  case True
  then show ?thesis by (rule finish_written)
next
  case False
  with assms(1) have pend: "first_pending d0 dir depth row d s" by simp
  obtain clock1 d1 s1 where f: "flush_buffer pa clock d s = (Inr (), clock1, d1, s1)"
      and w: "first_written d0 directory table d1 s1" using flush_first [OF pend key] by blast
  have "ps_buffer s \<noteq> []" "ps_buffer s1 = []" using pend w by (auto simp: first_pending_def first_written_def)
  with f have "finish_sink pa clock why d s = finish_sink pa clock1 why d1 s1" by (simp add: finish_sink_def)
  with finish_written [OF w] show ?thesis by simp
qed

text \<open>
  C33: a restart within an hour overwrites the first file of that hour. A sink that starts on
  \<^emph>\<open>any\<close> disk numbers its files from zero: after it has taken a single row and shut down gracefully,
  \<open>part-0000.parquet\<close> of the row's directory holds the table of that row alone, whatever sealed file
  was there, and however much it held. The writer never looks at what exists, and
  \<open>Path.replace\<close> replaces. So an earlier process, or an earlier life of this one, loses the data of its
  first checkpoint of the hour, which it had finalized.
\<close>

theorem restart_overwrites:
  assumes "sink_exec pa [Consumer_Starts c1, Feed_Puts row, Row_Comes c2, Sink_Cancelled c3]
      (start_run c0 d (new_sink (new_row_queue maxsize) dir depth batch_size flush_interval checkpoint stall)) = Some (got, r)"
    and "hour_key_for (row_ts_wall_ns row) = Inr key"
    and "partition_dir dir (row_exchange row) (row_symbol row) key = Inr directory"
    and "rows_to_table pa [row] depth (build_schema depth) = Inr table"
  shows "sr_end r = Some Cancelled \<and> sr_disk r (directory @ [part_name 0]) = Some \<lparr>fl_tables = [table], fl_sealed = True\<rparr>"
proof -
  let ?s = "new_sink (new_row_queue maxsize) dir depth batch_size flush_interval checkpoint stall"
  obtain r1 where r1: "sink_next pa (Consumer_Starts c1) (start_run c0 d ?s) = Some r1"
      and after: "sr_end r1 = None" "\<exists>timeout. sr_consumer r1 = Waits timeout" "sr_disk r1 = d"
        "ps_queue (sr_sink r1) = new_row_queue maxsize" "ps_buffer (sr_sink r1) = []" "ps_writers (sr_sink r1) = []"
        "ps_output_dir (sr_sink r1) = dir" "ps_depth_levels (sr_sink r1) = depth" "ps_schema (sr_sink r1) = build_schema depth"
    by (simp add: start_run_def new_sink_def goes_on_def consume_top_def Let_def)
  define s2 where "s2 = (sr_sink r1)\<lparr>ps_queue := new_row_queue maxsize, ps_buffer := [row], ps_last_progress_at := c2 0\<rparr>"
  have pend: "first_pending d dir depth row d s2" using after by (simp add: first_pending_def s2_def)
  define r3 where "r3 = next_turn pa (later c2) d s2"
  from after(2) obtain timeout where w: "sr_consumer r1 = Waits timeout" ..
  have "sink_next pa (Row_Comes c2) (r1\<lparr>sr_sink := (sr_sink r1)\<lparr>ps_queue := snd (put (ps_queue (sr_sink r1)) row)\<rparr>\<rparr>) = Some r3"
    using after(1,3-5) w
    by (simp add: take_row_def RowQueue.get_def get_nowait_def put_def put_nowait_def new_row_queue_def r3_def s2_def)
  then have "r = finish_sink pa c3 Cancelled (sr_disk r3) (sr_sink r3)"
    using assms(1) r1 by (auto split: option.splits if_splits)
  then show ?thesis
    using finish_first [OF _ assms(2-4)] next_turn_first [OF pend assms(2-4), of "later c2"] unfolding r3_def by blast
qed

lemma restart_overwrites_witness:
  "\<exists>got r p. sink_exec plain_arrays [Consumer_Starts still, Feed_Puts (row_at ''A'' 0), Row_Comes still, Sink_Cancelled still]
      (start_run still [p \<mapsto> \<lparr>fl_tables = [[], [], []], fl_sealed = True\<rparr>] (sample_sink 1)) = Some (got, r) \<and>
     sr_end r = Some Cancelled \<and> sr_disk r p = Some \<lparr>fl_tables = [sample_table [row_at ''A'' 0]], fl_sealed = True\<rparr>"
proof -
  let ?dir = "[''data'', ''exchange=okx'', ''symbol=A'', ''date=1970-01-01'', ''hour=00'']"
  let ?old = "[?dir @ [part_name 0] \<mapsto> \<lparr>fl_tables = [[], [], []], fl_sealed = True\<rparr>]"
  have "\<exists>got r. sink_exec plain_arrays [Consumer_Starts still, Feed_Puts (row_at ''A'' 0), Row_Comes still, Sink_Cancelled still]
      (start_run still ?old (sample_sink 1)) = Some (got, r)"
    by (simp add: sink_eval sample_eval)
  then obtain got r where r: "sink_exec plain_arrays [Consumer_Starts still, Feed_Puts (row_at ''A'' 0), Row_Comes still, Sink_Cancelled still]
      (start_run still ?old (sample_sink 1)) = Some (got, r)" by blast
  have "sr_end r = Some Cancelled \<and> sr_disk r (?dir @ [part_name 0]) =
      Some \<lparr>fl_tables = [sample_table [row_at ''A'' 0]], fl_sealed = True\<rparr>"
    by (rule restart_overwrites [OF r [unfolded sample_sink_def], where key = "''1970-01-01/00''"])
      (simp_all add: sample_hours sample_dirs sample_tables)
  with r show ?thesis by blast
qed

text \<open>A buffer of a good row and a refused one, after the good row was written \<open>n\<close> times.\<close>

definition half_written ::
  "path \<Rightarrow> int \<Rightarrow> snapshot_row \<Rightarrow> snapshot_row \<Rightarrow> string \<Rightarrow> string \<Rightarrow> path \<Rightarrow> path \<Rightarrow> 'a list \<Rightarrow> seconds \<Rightarrow> nat \<Rightarrow>
     'a disk \<Rightarrow> parquet_sink \<Rightarrow> bool" where
  "half_written dir depth row poison key key' directory directory' table now n d s \<longleftrightarrow>
     d = [directory @ [part_name 0 @ ''.tmp''] \<mapsto> \<lparr>fl_tables = replicate n table, fl_sealed = False\<rparr>,
          directory' @ [part_name 0 @ ''.tmp''] \<mapsto> \<lparr>fl_tables = [], fl_sealed = False\<rparr>] \<and>
     ps_buffer s = [row, poison] \<and> count_of ''rows_written'' (ps_stats s) = n \<and>
     (\<exists>w w'. ps_writers s = [(pair_of row, w), (pair_of poison, w')] \<and>
        rw_writer w = Some (directory @ [part_name 0 @ ''.tmp'']) \<and> rw_hour_key w = Some key \<and>
        rw_writer w' = Some (directory' @ [part_name 0 @ ''.tmp'']) \<and> rw_hour_key w' = Some key' \<and>
        rw_opened_at w = now \<and> rw_opened_at w' = now \<and> 0 < rw_checkpoint_interval w \<and> 0 < rw_checkpoint_interval w' \<and>
        rw_depth_levels w = depth \<and> rw_depth_levels w' = depth \<and>
        rw_schema w = build_schema depth \<and> rw_schema w' = build_schema depth)"

lemma two_groups:
  assumes "pair_of row \<noteq> pair_of poison"
    and "hour_key_for (row_ts_wall_ns row) = Inr key" "hour_key_for (row_ts_wall_ns poison) = Inr key'"
  shows "group_rows [] [row, poison] =
    Inr [((row_exchange row, row_symbol row, key), [row]), ((row_exchange poison, row_symbol poison, key'), [poison])]"
  using assms by auto

lemma count_of_bump_by [simp]: "count_of k (bump_by k n c) = count_of k c + n"
  by (simp add: bump_by_def count_of_def)

lemma write_fresh:
  assumes "hour_key_for (row_ts_wall_ns row) = Inr key"
    and "partition_dir dir exch name key = Inr directory"
  shows "\<exists>w. write_batch pa now [row] d (new_rotating_writer dir exch name (build_schema depth) depth checkpoint) =
      (case rows_to_table pa [row] depth (build_schema depth) of
         Inl err \<Rightarrow> (Inl err, d(directory @ [part_name 0 @ ''.tmp''] \<mapsto> \<lparr>fl_tables = [], fl_sealed = False\<rparr>), w)
       | Inr table \<Rightarrow> (Inr (), d(directory @ [part_name 0 @ ''.tmp''] \<mapsto> \<lparr>fl_tables = [table], fl_sealed = False\<rparr>), w)) \<and>
    rw_writer w = Some (directory @ [part_name 0 @ ''.tmp'']) \<and> rw_hour_key w = Some key \<and> rw_opened_at w = now \<and>
    rw_checkpoint_interval w = checkpoint \<and> rw_depth_levels w = depth \<and> rw_schema w = build_schema depth"
  using assms
  by (simp add: new_rotating_writer_def write_batch_def rotate_def needs_rotation_def finalize_writer_def
      open_writer_def Let_def part_name_plain append_table_def create_file_def split: sum.split)

lemma flush_half:
  assumes pair: "pair_of row \<noteq> pair_of poison" "directory \<noteq> directory'"
    and keys: "hour_key_for (row_ts_wall_ns row) = Inr key" "hour_key_for (row_ts_wall_ns poison) = Inr key'"
    and dirs: "partition_dir dir (row_exchange row) (row_symbol row) key = Inr directory"
      "partition_dir dir (row_exchange poison) (row_symbol poison) key' = Inr directory'"
    and tables: "rows_to_table pa [row] depth (build_schema depth) = Inr table"
      "rows_to_table pa [poison] depth (build_schema depth) = Inl err"
    and s: "ps_writers s = []" "ps_buffer s = [row, poison]" "ps_output_dir s = dir" "ps_depth_levels s = depth"
      "ps_schema s = build_schema depth" "0 < ps_checkpoint_interval s" "count_of ''rows_written'' (ps_stats s) = 0"
  shows "\<exists>d1 s1. flush_buffer pa (\<lambda>_. now) Map.empty s = (Inl err, (\<lambda>_. now), d1, s1) \<and>
    half_written dir depth row poison key key' directory directory' table now 1 d1 s1"
proof -
  let ?t = "directory @ [part_name 0 @ ''.tmp'']"
  from write_fresh [OF keys(1) dirs(1), of pa now Map.empty depth "ps_checkpoint_interval s"] tables(1) obtain w
    where w: "write_batch pa now [row] Map.empty (new_rotating_writer dir (row_exchange row) (row_symbol row)
        (build_schema depth) depth (ps_checkpoint_interval s)) = (Inr (), [?t \<mapsto> \<lparr>fl_tables = [table], fl_sealed = False\<rparr>], w)"
      "rw_writer w = Some ?t" "rw_hour_key w = Some key" "rw_opened_at w = now"
      "rw_checkpoint_interval w = ps_checkpoint_interval s" "rw_depth_levels w = depth" "rw_schema w = build_schema depth"
    by auto
  from write_fresh [OF keys(2) dirs(2), of pa now "[?t \<mapsto> \<lparr>fl_tables = [table], fl_sealed = False\<rparr>]" depth
      "ps_checkpoint_interval s"] tables(2) obtain w'
    where w': "write_batch pa now [poison] [?t \<mapsto> \<lparr>fl_tables = [table], fl_sealed = False\<rparr>]
        (new_rotating_writer dir (row_exchange poison) (row_symbol poison) (build_schema depth) depth (ps_checkpoint_interval s)) =
        (Inl err, [?t \<mapsto> \<lparr>fl_tables = [table], fl_sealed = False\<rparr>,
           directory' @ [part_name 0 @ ''.tmp''] \<mapsto> \<lparr>fl_tables = [], fl_sealed = False\<rparr>], w')"
      "rw_writer w' = Some (directory' @ [part_name 0 @ ''.tmp''])" "rw_hour_key w' = Some key'" "rw_opened_at w' = now"
      "rw_checkpoint_interval w' = ps_checkpoint_interval s" "rw_depth_levels w' = depth" "rw_schema w' = build_schema depth"
    by auto
  define s1 where "s1 = s\<lparr>ps_writers := [(pair_of row, w)], ps_stats := bump_by ''rows_written'' 1 (ps_stats s)\<rparr>"
  define s2 where "s2 = s1\<lparr>ps_writers := [(pair_of row, w), (pair_of poison, w')]\<rparr>"
  have "writer_for (row_exchange poison) (row_symbol poison) s1 =
      new_rotating_writer dir (row_exchange poison) (row_symbol poison) (build_schema depth) depth (ps_checkpoint_interval s)"
    using pair(1) s by (auto simp: writer_for_def s1_def)
  moreover have "AList.update (pair_of poison) w' (ps_writers s1) = [(pair_of row, w), (pair_of poison, w')]"
    using pair(1) by (auto simp: s1_def)
  ultimately have second: "write_group pa now ((row_exchange poison, row_symbol poison, key'), [poison])
      [?t \<mapsto> \<lparr>fl_tables = [table], fl_sealed = False\<rparr>] s1 = (Inl err, [?t \<mapsto> \<lparr>fl_tables = [table], fl_sealed = False\<rparr>,
           directory' @ [part_name 0 @ ''.tmp''] \<mapsto> \<lparr>fl_tables = [], fl_sealed = False\<rparr>], s2)"
    using w'(1) by (simp add: Let_def s2_def)
  have first: "write_group pa now ((row_exchange row, row_symbol row, key), [row]) Map.empty s =
      (Inr (), [?t \<mapsto> \<lparr>fl_tables = [table], fl_sealed = False\<rparr>], s1)"
    using s w(1) by (simp add: writer_for_def Let_def s1_def)
  have "flush_buffer pa (\<lambda>_. now) Map.empty s = (Inl err, (\<lambda>_. now), [?t \<mapsto> \<lparr>fl_tables = [table], fl_sealed = False\<rparr>,
           directory' @ [part_name 0 @ ''.tmp''] \<mapsto> \<lparr>fl_tables = [], fl_sealed = False\<rparr>], s2)"
    using s(2) by (simp add: flush_buffer_def flush_def two_groups [OF pair(1) keys] first second later_def
        del: group_rows.simps write_group.simps)
  moreover have "half_written dir depth row poison key key' directory directory' table now 1 [?t \<mapsto> \<lparr>fl_tables = [table], fl_sealed = False\<rparr>,
           directory' @ [part_name 0 @ ''.tmp''] \<mapsto> \<lparr>fl_tables = [], fl_sealed = False\<rparr>] s2"
    using s w w' by (simp add: half_written_def s2_def s1_def)
  ultimately show ?thesis by blast
qed

lemma flush_half_again:
  assumes pair: "pair_of row \<noteq> pair_of poison" "directory \<noteq> directory'"
    and keys: "hour_key_for (row_ts_wall_ns row) = Inr key" "hour_key_for (row_ts_wall_ns poison) = Inr key'"
    and tables: "rows_to_table pa [row] depth (build_schema depth) = Inr table"
      "rows_to_table pa [poison] depth (build_schema depth) = Inl err"
    and half: "half_written dir depth row poison key key' directory directory' table now 1 d s"
  shows "\<exists>d1 s1. flush_buffer pa (\<lambda>_. now) d s = (Inl err, (\<lambda>_. now), d1, s1) \<and>
    half_written dir depth row poison key key' directory directory' table now 2 d1 s1"
proof -
  obtain w w' where ws: "ps_writers s = [(pair_of row, w), (pair_of poison, w')]"
      "rw_writer w = Some (directory @ [part_name 0 @ ''.tmp''])" "rw_hour_key w = Some key"
      "rw_writer w' = Some (directory' @ [part_name 0 @ ''.tmp''])" "rw_hour_key w' = Some key'"
      "rw_opened_at w = now" "rw_opened_at w' = now" "0 < rw_checkpoint_interval w" "0 < rw_checkpoint_interval w'"
      "rw_depth_levels w = depth" "rw_depth_levels w' = depth"
      "rw_schema w = build_schema depth" "rw_schema w' = build_schema depth"
    and s: "d = [directory @ [part_name 0 @ ''.tmp''] \<mapsto> \<lparr>fl_tables = [table], fl_sealed = False\<rparr>,
          directory' @ [part_name 0 @ ''.tmp''] \<mapsto> \<lparr>fl_tables = [], fl_sealed = False\<rparr>]"
      "ps_buffer s = [row, poison]" "count_of ''rows_written'' (ps_stats s) = 1"
    using half by (auto simp: half_written_def)
  have rot: "\<not> needs_rotation key now w" "\<not> needs_rotation key' now w'"
    using ws by (simp_all add: needs_rotation_def)
  let ?t = "directory @ [part_name 0 @ ''.tmp'']" and ?t' = "directory' @ [part_name 0 @ ''.tmp'']"
  let ?ws = "[(pair_of row, w), (pair_of poison, w')]"
  let ?d = "[?t \<mapsto> \<lparr>fl_tables = [table, table], fl_sealed = False\<rparr>, ?t' \<mapsto> \<lparr>fl_tables = [], fl_sealed = False\<rparr>]"
  define s1 where "s1 = s\<lparr>ps_writers := ?ws, ps_stats := bump_by ''rows_written'' 1 (ps_stats s)\<rparr>"
  have same: "AList.update (pair_of row) w ?ws = ?ws" "AList.update (pair_of poison) w' ?ws = ?ws"
    using pair(1) by auto
  have writers: "writer_for (row_exchange row) (row_symbol row) s = w"
    "writer_for (row_exchange poison) (row_symbol poison) s1 = w'"
    using pair(1) ws(1) by (auto simp: writer_for_def s1_def)
  have "d(?t \<mapsto> \<lparr>fl_tables = [table, table], fl_sealed = False\<rparr>) = ?d" using pair(2) s(1) by auto
  then have "append_table ?t table d = ?d" using pair(2) s(1) by (simp add: append_table_def)
  then have first: "write_group pa now ((row_exchange row, row_symbol row, key), [row]) d s = (Inr (), ?d, s1)"
    using ws keys(1) tables(1) rot(1) same(1) by (simp add: writers write_batch_def rotate_def s1_def Let_def)
  have "ps_writers s1 = ?ws" "s1\<lparr>ps_writers := ?ws\<rparr> = s1" by (simp_all add: s1_def)
  then have second: "write_group pa now ((row_exchange poison, row_symbol poison, key'), [poison]) ?d s1 = (Inl err, ?d, s1)"
    using ws keys(2) tables(2) rot(2) same(2) by (simp add: writers write_batch_def rotate_def Let_def del: update.simps)
  have "flush_buffer pa (\<lambda>_. now) d s = (Inl err, (\<lambda>_. now), ?d, s1)"
    using s(2) by (simp add: flush_buffer_def flush_def two_groups [OF pair(1) keys] first second later_def
        del: group_rows.simps write_group.simps)
  moreover have "half_written dir depth row poison key key' directory directory' table now 2 ?d s1"
    using s ws by (simp add: half_written_def s1_def numeral_2_eq_2)
  ultimately show ?thesis by blast
qed

text \<open>
  C34: a flush that fails is repeated, and then nothing is finalized. A buffer of two rows of
  different pairs, the first accepted and the second refused by \<open>pa.array\<close>: \<open>_flush\<close> raises in
  \<open>_consume\<close>, the buffer is not reset, and the \<open>finally\<close> of \<open>run\<close> flushes it again. The table of the
  first row is then in its file twice and counted twice, the exception of the second flush replaces
  the first and skips the closing of the writers, and no file of the run is sealed: every row since
  the last rotation is left in \<open>.tmp\<close> files without a footer.
\<close>

theorem failed_flush_repeats:
  fixes pa :: "'a arrays"
  assumes "sink_exec pa [Consumer_Starts c, Feed_Puts row, Feed_Puts poison, Row_Comes c, Row_Comes c]
      (start_run c Map.empty (new_sink (new_row_queue 0) dir depth 2 flush_interval checkpoint stall)) = Some (got, r)"
    and "c = (\<lambda>_. now)" "0 < flush_interval" "0 < checkpoint"
    and "hour_key_for (row_ts_wall_ns row) = Inr key" "hour_key_for (row_ts_wall_ns poison) = Inr key'"
    and "pair_of row \<noteq> pair_of poison"
    and "names_plain (row_exchange row) (row_symbol row)" "names_plain (row_exchange poison) (row_symbol poison)"
    and "partition_dir dir (row_exchange row) (row_symbol row) key = Inr directory"
    and "rows_to_table pa [row] depth (build_schema depth) = Inr table"
    and "rows_to_table pa [poison] depth (build_schema depth) = Inl err"
  shows "sr_end r = Some (Raised err) \<and>
    sr_disk r (directory @ [part_name 0 @ ''.tmp'']) = Some \<lparr>fl_tables = [table, table], fl_sealed = False\<rparr> \<and>
    count_of ''rows_written'' (ps_stats (sr_sink r)) = 2 \<and>
    (\<forall>p f. sr_disk r p = Some f \<longrightarrow> \<not> fl_sealed f)"
proof -
  obtain directory' where d': "partition_dir dir (row_exchange poison) (row_symbol poison) key' = Inr directory'"
    using partition_dir_total [OF assms(6)] by blast
  have ne: "directory \<noteq> directory'"
    using partition_dir_inj [OF assms(10) d' assms(5,6,8,9)] assms(7) by auto
  define s where "s = (new_sink (new_row_queue 0) dir depth 2 flush_interval checkpoint stall)
      \<lparr>ps_buffer := [row, poison], ps_last_flush := now, ps_last_progress_at := now\<rparr>"
  obtain d1 s1 where one: "flush_buffer pa c Map.empty s = (Inl err, c, d1, s1)"
      "half_written dir depth row poison key key' directory directory' table now 1 d1 s1"
    using flush_half [OF assms(7) ne assms(5,6) assms(10) d' assms(11,12), of s now] assms(2,4)
    by (auto simp: s_def new_sink_def count_of_def)
  obtain d2 s2 where two: "flush_buffer pa c d1 s1 = (Inl err, c, d2, s2)"
      "half_written dir depth row poison key key' directory directory' table now 2 d2 s2"
    using flush_half_again [OF assms(7) ne assms(5,6) assms(11,12) one(2)] assms(2) by blast
  have "flush_due now s" "ps_buffer s1 \<noteq> []"
    using one(2) by (auto simp: flush_due_def s_def new_sink_def half_written_def)
  then have last_turn: "next_turn pa c Map.empty s = \<lparr>sr_disk = d2, sr_sink = s2, sr_consumer = Gone, sr_end = Some (Raised err)\<rparr>"
    using one(1) two(1) assms(2) by (simp add: next_turn_def consume_bottom_def goes_on_def finish_sink_def later_def Let_def)
  let ?new = "new_sink (new_row_queue 0) dir depth 2 flush_interval checkpoint stall"
  define q where "q rows = (new_row_queue 0)\<lparr>rq_items := rows\<rparr>" for rows
  define run_at where "run_at rows b = \<lparr>sr_disk = (Map.empty :: 'a disk), sr_sink = ?new\<lparr>ps_queue := q rows, ps_buffer := b, ps_last_flush := now,
      ps_last_progress_at := now\<rparr>, sr_consumer = Waits flush_interval, sr_end = None\<rparr>" for rows b
  have start: "sink_next pa (Consumer_Starts c) (start_run c Map.empty ?new) = Some (run_at [] [])"
    using assms(3) by (simp add: assms(2) start_run_def new_sink_def goes_on_def consume_top_def Let_def run_at_def q_def new_row_queue_def)
  have puts: "sink_next pa (Feed_Puts x) (run_at rows b) = Some (run_at (rows @ [x]) b)" for x rows b
    by (simp add: run_at_def q_def put_def put_nowait_def new_row_queue_def)
  have first: "sink_next pa (Row_Comes c) (run_at [row, poison] []) = Some (run_at [poison] [row])"
    using assms(3)
    by (simp add: run_at_def q_def take_row_def RowQueue.get_def get_nowait_def next_turn_def consume_bottom_def flush_due_def
        goes_on_def consume_top_def Let_def assms(2) new_sink_def later_def)
  have second: "sink_next pa (Row_Comes c) (run_at [poison] [row]) = Some (next_turn pa c Map.empty s)"
    by (simp add: run_at_def q_def take_row_def RowQueue.get_def get_nowait_def assms(2) new_sink_def later_def s_def
        new_row_queue_def)
  have "r = next_turn pa c Map.empty s"
    using assms(1) by (simp add: start puts first second del: sink_next.simps)
  then show ?thesis
    using last_turn two(2) ne by (auto simp: half_written_def numeral_2_eq_2 split: if_splits)
qed

definition picky_arrays :: "cell list arrays" where
  "picky_arrays t cells = (if Int_Cell 13 \<in> set cells then Inl ValueError else Inr cells)"

lemma sample_time_13: "hour_key_for 13 = Inr ''1970-01-01/00''"
  by (simp add: hour_key_for_def hour_number_def round_half_even_def epoch_day_def days_of_9999_years_def Let_def
    hour_text_def sample_date sample_digits sample_pads)

lemma picky_tables:
  "\<exists>table. rows_to_table picky_arrays [row_at ''A'' 0] 0 (build_schema 0) = Inr table"
  "rows_to_table picky_arrays [row_at ''B'' 13] 0 (build_schema 0) = Inl ValueError"
  unfolding table_is_column_wise
  by (simp_all add: column_wise_def getters_def side_getters_def build_schema_def level_fields_def
      picky_arrays_def row_at_def opt_cell_def)

lemma failed_flush_repeats_witness:
  "\<exists>got r. sink_exec picky_arrays [Consumer_Starts still, Feed_Puts (row_at ''A'' 0), Feed_Puts (row_at ''B'' 13),
      Row_Comes still, Row_Comes still]
      (start_run still Map.empty (new_sink (new_row_queue 0) [''data''] 0 2 5 300 60)) = Some (got, r) \<and>
     sr_end r = Some (Raised ValueError) \<and> count_of ''rows_written'' (ps_stats (sr_sink r)) = 2 \<and>
     (\<forall>p f. sr_disk r p = Some f \<longrightarrow> \<not> fl_sealed f)"
proof -
  obtain table where table: "rows_to_table picky_arrays [row_at ''A'' 0] 0 (build_schema 0) = Inr table"
    using picky_tables(1) by blast
  have "\<exists>got r. sink_exec picky_arrays [Consumer_Starts still, Feed_Puts (row_at ''A'' 0), Feed_Puts (row_at ''B'' 13),
      Row_Comes still, Row_Comes still]
      (start_run still Map.empty (new_sink (new_row_queue 0) [''data''] 0 2 5 300 60)) = Some (got, r)"
    by (simp add: sink_eval sample_eval sample_time_13 table picky_tables(2))
  then obtain got r where r: "sink_exec picky_arrays [Consumer_Starts still, Feed_Puts (row_at ''A'' 0), Feed_Puts (row_at ''B'' 13),
      Row_Comes still, Row_Comes still]
      (start_run still Map.empty (new_sink (new_row_queue 0) [''data''] 0 2 5 300 60)) = Some (got, r)" by blast
  note claim = failed_flush_repeats [OF r refl, where key = "''1970-01-01/00''" and key' = "''1970-01-01/00''"
      and directory = "[''data'', ''exchange=okx'', ''symbol=A'', ''date=1970-01-01'', ''hour=00'']" and table = table
      and err = ValueError]
  have "sr_end r = Some (Raised ValueError) \<and> count_of ''rows_written'' (ps_stats (sr_sink r)) = 2 \<and>
     (\<forall>p f. sr_disk r p = Some f \<longrightarrow> \<not> fl_sealed f)"
    using claim by (simp add: sample_hours sample_time_13 sample_dirs names_plain_def table picky_tables(2))
  with r show ?thesis by blast
qed

end
