(* ===== verification/Config.thy ===== *)
theory Config
  imports PyJson
begin

text \<open>
  \<^verbatim>\<open>config.py\<close>: the configuration and its loading. The text of the file and the YAML parser are
  parameters. A YAML document is taken as a value of \<open>json\<close>: mappings have string keys, and values
  that only YAML has (dates, bytes) are left out. The values of the fields are not checked by the
  code, so they stay \<open>json\<close>; \<open>parquet_dir\<close> goes through \<open>Path\<close>, which takes a string.
\<close>

section \<open>The configuration\<close>

datatype overflow_policy = DROP_OLDEST | COALESCE

record exchange_config =
  ec_name :: json
  ec_symbols :: "json list"
  ec_ws_url :: json
  ec_rest_snapshot_url :: json

record book_config =
  bk_depth_levels :: json

record output_config =
  out_parquet_dir :: string
  out_queue_maxsize :: json
  out_overflow_policy :: overflow_policy

record metrics_config =
  mc_prometheus_port :: json

record logging_config =
  lc_level :: json
  lc_format :: json

record app_config =
  cfg_exchanges :: "exchange_config list"
  cfg_book :: book_config
  cfg_output :: output_config
  cfg_metrics :: metrics_config
  cfg_logging :: logging_config

section \<open>Python's mappings and comparisons\<close>

text \<open>\<open>v.get(key, default)\<close>.\<close>

fun get_default :: "json \<Rightarrow> string \<Rightarrow> json \<Rightarrow> json result" where
  "get_default (JDict d) k v = Inr (case map_of d k of None \<Rightarrow> v | Some x \<Rightarrow> x)"
| "get_default _ k v = Inl AttributeError"

text \<open>The keyword arguments \<open>**v\<close> of a dataclass with the given fields.\<close>

fun kwargs_for :: "string list \<Rightarrow> json \<Rightarrow> (string \<times> json) list result" where
  "kwargs_for names (JDict d) = (if set (map fst d) \<subseteq> set names then Inr d else Inl TypeError)"
| "kwargs_for names _ = Inl TypeError"

definition field_of :: "(string \<times> json) list \<Rightarrow> string \<Rightarrow> json \<Rightarrow> json" where
  "field_of d k v = (case map_of d k of None \<Rightarrow> v | Some x \<Rightarrow> x)"

text \<open>\<open>v <= 0\<close>.\<close>

fun at_most_zero :: "json \<Rightarrow> bool result" where
  "at_most_zero (JInt i) = Inr (i \<le> 0)"
| "at_most_zero (JBool b) = Inr (\<not> b)"
| "at_most_zero (JFloat (Finite q)) = Inr (q \<le> 0)"
| "at_most_zero (JFloat (Infinite neg)) = Inr neg"
| "at_most_zero (JFloat Not_A_Number) = Inr False"
| "at_most_zero _ = Inl TypeError"

fun path_of :: "json \<Rightarrow> string result" where
  "path_of (JStr s) = Inr s"
| "path_of _ = Inl TypeError"

section \<open>Loading\<close>

definition parse_exchange :: "json \<Rightarrow> exchange_config result" where
  "parse_exchange raw =
     bind_result (get_key raw ''name'') (\<lambda>name.
     bind_result (bind_result (get_key raw ''symbols'') iterate) (\<lambda>symbol_list.
     bind_result (get_key raw ''ws_url'') (\<lambda>ws_url.
     bind_result (get_default raw ''rest_snapshot_url'' JNull) (\<lambda>rest.
       Inr \<lparr>ec_name = name, ec_symbols = symbol_list, ec_ws_url = ws_url, ec_rest_snapshot_url = rest\<rparr>))))"

definition overflow_policy_of :: "json \<Rightarrow> overflow_policy result" where
  "overflow_policy_of v =
     (if v = JStr ''drop_oldest'' then Inr DROP_OLDEST
      else if v = JStr ''coalesce'' then Inr COALESCE else Inl ValueError)"

definition parse_output :: "json \<Rightarrow> output_config result" where
  "parse_output raw =
     bind_result (get_default raw ''overflow_policy'' (JStr ''drop_oldest'')) (\<lambda>policy_str.
     bind_result (reraise [ValueError] ConfigError (overflow_policy_of policy_str)) (\<lambda>policy.
       if policy = COALESCE then Inl ConfigError
       else bind_result (bind_result (get_key raw ''parquet_dir'') path_of) (\<lambda>dir.
            bind_result (get_default raw ''queue_maxsize'' (JInt 10000)) (\<lambda>maxsize.
              Inr \<lparr>out_parquet_dir = dir, out_queue_maxsize = maxsize, out_overflow_policy = policy\<rparr>))))"

definition parse_book :: "json \<Rightarrow> book_config result" where
  "parse_book raw =
     bind_result (kwargs_for [''depth_levels''] raw) (\<lambda>d. Inr \<lparr>bk_depth_levels = field_of d ''depth_levels'' (JInt 20)\<rparr>)"

definition parse_metrics :: "json \<Rightarrow> metrics_config result" where
  "parse_metrics raw =
     bind_result (kwargs_for [''prometheus_port''] raw)
       (\<lambda>d. Inr \<lparr>mc_prometheus_port = field_of d ''prometheus_port'' (JInt 9100)\<rparr>)"

definition parse_logging :: "json \<Rightarrow> logging_config result" where
  "parse_logging raw =
     bind_result (kwargs_for [''level'', ''format''] raw)
       (\<lambda>d. Inr \<lparr>lc_level = field_of d ''level'' (JStr ''INFO''), lc_format = field_of d ''format'' (JStr ''json'')\<rparr>)"

text \<open>The body of the second \<open>try\<close>.\<close>

definition parse_sections :: "json \<Rightarrow> app_config result" where
  "parse_sections raw =
     bind_result (bind_result (get_key raw ''exchanges'') (\<lambda>v. bind_result (iterate v) (map_result parse_exchange))) (\<lambda>exchanges.
     bind_result (bind_result (get_default raw ''book'' (JDict [])) parse_book) (\<lambda>book.
     bind_result (bind_result (get_key raw ''output'') parse_output) (\<lambda>output.
     bind_result (bind_result (get_default raw ''metrics'' (JDict [])) parse_metrics) (\<lambda>metrics.
     bind_result (bind_result (get_default raw ''logging'' (JDict [])) parse_logging) (\<lambda>logging.
       Inr \<lparr>cfg_exchanges = exchanges, cfg_book = book, cfg_output = output, cfg_metrics = metrics,
            cfg_logging = logging\<rparr>)))))"

definition check_config :: "app_config \<Rightarrow> app_config result" where
  "check_config cfg =
     (if cfg_exchanges cfg = [] then Inl ConfigError
      else if \<not> list_all (\<lambda>e. ec_symbols e \<noteq> []) (cfg_exchanges cfg) then Inl ConfigError
      else bind_result (at_most_zero (bk_depth_levels (cfg_book cfg)))
             (\<lambda>bad. if bad then Inl ConfigError else Inr cfg))"

definition load_config :: "string result \<Rightarrow> (string \<Rightarrow> json result) \<Rightarrow> app_config result" where
  "load_config text_of_file yaml_safe_load =
     bind_result (reraise [FileNotFoundError] ConfigError text_of_file) (\<lambda>text.
     bind_result (reraise [YAMLError] ConfigError (yaml_safe_load text)) (\<lambda>raw.
       if \<not> is_dict raw then Inl ConfigError
       else bind_result (reraise [KeyError, TypeError] ConfigError (parse_sections raw)) check_config))"

section \<open>Properties\<close>

lemma keywords_error: "kwargs_for names v = Inl err \<Longrightarrow> err = TypeError"
  by (cases v) (auto split: if_splits)

lemma path_of_error: "path_of v = Inl err \<Longrightarrow> err = TypeError"
  by (cases v) auto

lemma get_default_error: "get_default v k x = Inl err \<Longrightarrow> err = AttributeError \<and> \<not> is_dict v"
  by (cases v) auto

lemma get_default_after_key: "get_key v k = Inr x \<Longrightarrow> get_default v k' y \<noteq> Inl err"
  by (cases v) auto

lemma parse_exchange_error: "parse_exchange v = Inl err \<Longrightarrow> err \<in> {KeyError, TypeError}"
  by (auto simp: parse_exchange_def bind_result_error dest: get_key_error iterate_error get_default_after_key)

lemma parse_output_error:
  "parse_output v = Inl err \<Longrightarrow> err \<in> {KeyError, TypeError, ConfigError} \<or> err = AttributeError \<and> \<not> is_dict v"
  by (auto simp: parse_output_def bind_result_error overflow_policy_of_def
      dest: get_key_error path_of_error get_default_error split: if_splits)

lemma parse_sections_error:
  assumes "parse_sections (JDict d) = Inl err"
  shows "err \<in> {KeyError, TypeError, ConfigError} \<or>
    err = AttributeError \<and> (\<exists>v. map_of d ''output'' = Some v \<and> \<not> is_dict v)"
proof -
  have parts: "parse_book v = Inl e \<Longrightarrow> e = TypeError" "parse_metrics v = Inl e \<Longrightarrow> e = TypeError"
    "parse_logging v = Inl e \<Longrightarrow> e = TypeError" for v e
    by (auto simp: parse_book_def parse_metrics_def parse_logging_def bind_result_error dest: keywords_error)
  have exchanges: "map_result parse_exchange vs = Inl e \<Longrightarrow> e = KeyError \<or> e = TypeError" for vs e
    by (auto dest!: map_result_error parse_exchange_error)
  show ?thesis
    using assms unfolding parse_sections_def bind_result_error
    by (auto dest: get_key_error iterate_error parse_output_error parts exchanges split: option.splits)
qed

lemma parse_sections_policy: "parse_sections v = Inr cfg \<Longrightarrow> out_overflow_policy (cfg_output cfg) = DROP_OLDEST"
  by (auto simp: parse_sections_def bind_result_ok parse_output_def overflow_policy_of_def split: if_splits)

lemma check_config_accepts:
  "check_config cfg = Inr cfg' \<longleftrightarrow>
     cfg' = cfg \<and> cfg_exchanges cfg \<noteq> [] \<and> list_all (\<lambda>e. ec_symbols e \<noteq> []) (cfg_exchanges cfg) \<and>
     at_most_zero (bk_depth_levels (cfg_book cfg)) = Inr False"
  by (cases "at_most_zero (bk_depth_levels (cfg_book cfg))") (auto simp: check_config_def)

definition bad_config :: "app_config \<Rightarrow> bool" where
  "bad_config cfg \<longleftrightarrow>
     cfg_exchanges cfg = [] \<or> list_ex (\<lambda>e. ec_symbols e = []) (cfg_exchanges cfg) \<or>
     at_most_zero (bk_depth_levels (cfg_book cfg)) = Inr True"

lemma check_config_rejects:
  "check_config cfg = Inl err \<longleftrightarrow>
     err = ConfigError \<and> bad_config cfg \<or>
     err = TypeError \<and> \<not> bad_config cfg \<and> at_most_zero (bk_depth_levels (cfg_book cfg)) = Inl TypeError"
proof -
  have depth: "at_most_zero v = Inl e \<Longrightarrow> e = TypeError" for v e
    by (induction v rule: at_most_zero.induct) auto
  have "list_ex (\<lambda>e. ec_symbols e = []) es \<longleftrightarrow> \<not> list_all (\<lambda>e. ec_symbols e \<noteq> []) es" for es
    by (auto simp: list_ex_iff list_all_iff)
  then show ?thesis
    by (cases "at_most_zero (bk_depth_levels (cfg_book cfg))") (auto simp: check_config_def bad_config_def dest: depth)
qed

text \<open>The body of the second \<open>try\<close> with its handler, and the checks after it.\<close>

lemma sections_rejected:
  "bind_result (reraise [KeyError, TypeError] ConfigError (parse_sections (JDict d))) check_config = Inl err \<longleftrightarrow>
     err = ConfigError \<and> (parse_sections (JDict d) \<in> {Inl KeyError, Inl TypeError, Inl ConfigError} \<or>
       (\<exists>cfg. parse_sections (JDict d) = Inr cfg \<and> bad_config cfg)) \<or>
     err = AttributeError \<and> parse_sections (JDict d) = Inl AttributeError \<and>
       (\<exists>v. map_of d ''output'' = Some v \<and> \<not> is_dict v) \<or>
     err = TypeError \<and> (\<exists>cfg. parse_sections (JDict d) = Inr cfg \<and> \<not> bad_config cfg \<and>
       at_most_zero (bk_depth_levels (cfg_book cfg)) = Inl TypeError)"
proof (cases "parse_sections (JDict d)")
  case (Inl e)
  with parse_sections_error [OF Inl] show ?thesis by auto
next
  case (Inr cfg)
  then show ?thesis by (simp add: check_config_rejects)
qed

text \<open>
  C24: what loading a configuration gives, on every input. It succeeds exactly if the file can be read, is
  YAML of a mapping, its sections parse, there is an exchange, every exchange has symbols, and
  the depth is a number above zero (or a NaN); the overflow policy then is the one the queue implements. A missing file, malformed YAML, a
  root that is no mapping, a section with a missing key or a wrong type, an unknown policy and a failed check are
  each a \<open>ConfigError\<close>. All other failures are these: another error of reading or of
  the YAML parser goes through, an \<open>output\<close> section that is no mapping raises \<open>AttributeError\<close>, and a
  \<open>depth_levels\<close> that is no number raises \<open>TypeError\<close>.
\<close>

theorem load_config_outcome:
  "(load_config text_of_file yaml_safe_load = Inr cfg \<longleftrightarrow>
      (\<exists>text d. text_of_file = Inr text \<and> yaml_safe_load text = Inr (JDict d) \<and> parse_sections (JDict d) = Inr cfg) \<and>
      cfg_exchanges cfg \<noteq> [] \<and> list_all (\<lambda>e. ec_symbols e \<noteq> []) (cfg_exchanges cfg) \<and>
      at_most_zero (bk_depth_levels (cfg_book cfg)) = Inr False \<and> out_overflow_policy (cfg_output cfg) = DROP_OLDEST) \<and>
   (load_config text_of_file yaml_safe_load = Inl err \<longleftrightarrow>
      text_of_file = Inl err \<and> err \<noteq> FileNotFoundError \<or>
      text_of_file = Inl FileNotFoundError \<and> err = ConfigError \<or>
      (\<exists>text. text_of_file = Inr text \<and>
        (yaml_safe_load text = Inl err \<and> err \<noteq> YAMLError \<or>
         yaml_safe_load text = Inl YAMLError \<and> err = ConfigError \<or>
         (\<exists>raw. yaml_safe_load text = Inr raw \<and> \<not> is_dict raw \<and> err = ConfigError) \<or>
         (\<exists>d. yaml_safe_load text = Inr (JDict d) \<and>
            (err = ConfigError \<and> (parse_sections (JDict d) \<in> {Inl KeyError, Inl TypeError, Inl ConfigError} \<or>
               (\<exists>c. parse_sections (JDict d) = Inr c \<and> bad_config c)) \<or>
             err = AttributeError \<and> parse_sections (JDict d) = Inl AttributeError \<and>
               (\<exists>v. map_of d ''output'' = Some v \<and> \<not> is_dict v) \<or>
             err = TypeError \<and> (\<exists>c. parse_sections (JDict d) = Inr c \<and> \<not> bad_config c \<and>
               at_most_zero (bk_depth_levels (cfg_book c)) = Inl TypeError))))))"
proof -
  consider e where "text_of_file = Inl e" | content e where "text_of_file = Inr content" "yaml_safe_load content = Inl e"
    | content raw where "text_of_file = Inr content" "yaml_safe_load content = Inr raw" "\<not> is_dict raw"
    | content d where "text_of_file = Inr content" "yaml_safe_load content = Inr (JDict d)"
  proof (cases text_of_file)
    case (Inr content)
    show thesis
    proof (cases "yaml_safe_load content")
      case raw: (Inr raw)
      show thesis using that(3,4) [OF Inr] raw by (cases raw) simp_all
    qed (use that(2) [OF Inr] in blast)
  qed (use that(1) in blast)
  then show ?thesis
  proof cases
    case (4 content d)
    then have load: "load_config text_of_file yaml_safe_load =
        bind_result (reraise [KeyError, TypeError] ConfigError (parse_sections (JDict d))) check_config"
      by (simp add: load_config_def)
    have accepted: "load_config text_of_file yaml_safe_load = Inr cfg \<longleftrightarrow>
        parse_sections (JDict d) = Inr cfg \<and> cfg_exchanges cfg \<noteq> [] \<and>
        list_all (\<lambda>e. ec_symbols e \<noteq> []) (cfg_exchanges cfg) \<and> at_most_zero (bk_depth_levels (cfg_book cfg)) = Inr False"
      unfolding load by (cases "parse_sections (JDict d)") (auto simp: check_config_accepts)
    have rejected: "load_config text_of_file yaml_safe_load = Inl err \<longleftrightarrow>
        err = ConfigError \<and> (parse_sections (JDict d) \<in> {Inl KeyError, Inl TypeError, Inl ConfigError} \<or>
          (\<exists>c. parse_sections (JDict d) = Inr c \<and> bad_config c)) \<or>
        err = AttributeError \<and> parse_sections (JDict d) = Inl AttributeError \<and>
          (\<exists>v. map_of d ''output'' = Some v \<and> \<not> is_dict v) \<or>
        err = TypeError \<and> (\<exists>c. parse_sections (JDict d) = Inr c \<and> \<not> bad_config c \<and>
          at_most_zero (bk_depth_levels (cfg_book c)) = Inl TypeError)"
      unfolding load by (rule sections_rejected)
    have "(\<exists>text d. text_of_file = Inr text \<and> yaml_safe_load text = Inr (JDict d) \<and> parse_sections (JDict d) = Inr cfg) \<longleftrightarrow>
        parse_sections (JDict d) = Inr cfg"
      by (simp add: 4)
    with accepted parse_sections_policy [of "JDict d" cfg]
    have "load_config text_of_file yaml_safe_load = Inr cfg \<longleftrightarrow>
      (\<exists>text d. text_of_file = Inr text \<and> yaml_safe_load text = Inr (JDict d) \<and> parse_sections (JDict d) = Inr cfg) \<and>
      cfg_exchanges cfg \<noteq> [] \<and> list_all (\<lambda>e. ec_symbols e \<noteq> []) (cfg_exchanges cfg) \<and>
      at_most_zero (bk_depth_levels (cfg_book cfg)) = Inr False \<and> out_overflow_policy (cfg_output cfg) = DROP_OLDEST"
      by blast
    then show ?thesis unfolding rejected by (simp add: 4)
  qed (auto simp: load_config_def)
qed

text \<open>The configuration of the repository loads, with its values in place.\<close>

definition default_yaml :: json where
  "default_yaml = JDict
    [(''exchanges'', JList
        [JDict [(''name'', JStr ''binance''), (''symbols'', JList [JStr ''BTCUSDT'']), (''ws_url'', JStr ''wss''),
                (''rest_snapshot_url'', JStr ''https'')],
         JDict [(''name'', JStr ''okx''), (''symbols'', JList [JStr ''BTC-USDT'']), (''ws_url'', JStr ''wss'')]]),
     (''book'', JDict [(''depth_levels'', JInt 20)]),
     (''output'', JDict [(''parquet_dir'', JStr ''./data''), (''queue_maxsize'', JInt 10000),
                         (''overflow_policy'', JStr ''drop_oldest'')]),
     (''metrics'', JDict [(''prometheus_port'', JInt 9100)]),
     (''logging'', JDict [(''level'', JStr ''INFO''), (''format'', JStr ''json'')])]"

lemma default_yaml_loads:
  "\<exists>cfg. load_config (Inr text) (\<lambda>_. Inr default_yaml) = Inr cfg \<and>
     map ec_name (cfg_exchanges cfg) = [JStr ''binance'', JStr ''okx''] \<and> bk_depth_levels (cfg_book cfg) = JInt 20"
  by (simp add: load_config_def default_yaml_def parse_sections_def parse_exchange_def parse_book_def parse_output_def
      parse_metrics_def parse_logging_def overflow_policy_of_def check_config_def field_of_def)

text \<open>A string of symbols is taken for its characters.\<close>

lemma symbols_of_string:
  "parse_exchange (JDict [(''name'', n), (''symbols'', JStr s), (''ws_url'', u)]) =
     Inr \<lparr>ec_name = n, ec_symbols = map (\<lambda>c. JStr [c]) s, ec_ws_url = u, ec_rest_snapshot_url = JNull\<rparr>"
  by (simp add: parse_exchange_def)

end
