(* ===== verification/ClientRows.thy ===== *)
theory ClientRows
  imports BinanceProps OkxProps
begin

text \<open>
  Whose rows a client puts: a step of a client leaves the shared queue alone or puts one row of its own
  exchange and symbol there, and never changes its symbol.
\<close>

definition own_row :: "string \<Rightarrow> string \<Rightarrow> snapshot_row \<Rightarrow> bool" where
  "own_row exch name row \<longleftrightarrow> row_exchange row = exch \<and> row_symbol row = name"

definition adds_own :: "string \<Rightarrow> string \<Rightarrow> row_queue option \<Rightarrow> row_queue option \<Rightarrow> bool" where
  "adds_own exch name queue queue' \<longleftrightarrow>
     queue' = queue \<or> (\<exists>q row. queue = Some q \<and> own_row exch name row \<and> queue' = Some (snd (put q row)))"

lemma put_rows: "set (rq_items (snd (put q row))) \<subseteq> insert row (set (rq_items q))"
  by (auto simp: put_def put_nowait_def get_nowait_def Let_def split: sum.splits list.splits if_splits)

lemma adds_own_refl [simp]: "adds_own exch name queue queue"
  by (simp add: adds_own_def)

lemma offer_row_adds:
  assumes "offer_row queue (build_snapshot_row e \<lparr>exchange = exch, symbol = name\<rparr> lns wns ems) = (out, queue')"
  shows "adds_own exch name queue queue'"
proof (cases queue)
  case None
  with assms show ?thesis by (simp add: offer_row_def)
next
  case (Some q)
  show ?thesis
  proof (cases "build_snapshot_row e \<lparr>exchange = exch, symbol = name\<rparr> lns wns ems")
    case (Inl err)
    with assms Some show ?thesis by (auto simp: offer_row_def)
  next
    case (Inr row)
    then have "own_row exch name row"
      by (auto simp: build_snapshot_row_def own_row_def split: option.splits prod.splits)
    moreover have "queue' = Some (snd (put q row))"
      using assms Some Inr by (auto simp: offer_row_def split: prod.splits sum.splits)
    ultimately show ?thesis using Some by (auto simp: adds_own_def)
  qed
qed

section \<open>The Binance client\<close>

definition binance_adds :: "binance_client \<Rightarrow> binance_client \<Rightarrow> bool" where
  "binance_adds c c' \<longleftrightarrow> bc_symbol c' = bc_symbol c \<and> adds_own ''binance'' (bc_symbol c) (bc_queue c) (bc_queue c')"

lemma offer_adds: "offer c lns wns ems = (out, c') \<Longrightarrow> binance_adds c c'"
  by (auto simp: offer_def binance_instrument_def binance_adds_def split: prod.splits dest: offer_row_adds)

lemma same_symbol [simp]:
  "bc_symbol (on_disconnected c why now) = bc_symbol c" "bc_symbol (finish_run c err) = bc_symbol c"
  "bc_symbol (give_up c) = bc_symbol c" "bc_symbol (fetch c now a k) = bc_symbol c"
  "bc_symbol (attempt_resync c now a) = bc_symbol c"
proof -
  show fin: "bc_symbol (finish_run c err) = bc_symbol c" for c err
    by (simp add: finish_run_def split: worker.splits)
  then show "bc_symbol (on_disconnected c why now) = bc_symbol c"
    by (simp add: on_disconnected_def Let_def split: prod.splits phase.splits)
  show up: "bc_symbol (give_up c) = bc_symbol c" for c
    by (simp add: give_up_def Let_def split: option.splits)
  then show f: "bc_symbol (fetch c now a k) = bc_symbol c" for c k
    by (simp add: fetch_def issue_get_def Let_def split: prod.splits sum.splits)
  show "bc_symbol (attempt_resync c now a) = bc_symbol c"
    by (simp add: attempt_resync_def up f)
qed

lemma apply_diff_adds: "apply_diff c diff lns wns ems = (out, c') \<Longrightarrow> binance_adds c c'"
proof -
  assume done_ok: "apply_diff c diff lns wns ems = (out, c')"
  obtain res e where res: "apply_event (bc_engine c) diff = (res, e)" by fastforce
  have "binance_adds c c2" if "offer (c\<lparr>bc_engine := e\<rparr>) lns wns ems = (out, c2)" for c2
    using offer_adds [OF that] by (simp add: binance_adds_def)
  with done_ok res show ?thesis
    by (cases "status res") (auto simp: apply_diff_def Let_def binance_adds_def)
qed

lemma read_message_adds: "read_message c frame lns wns = (out, c') \<Longrightarrow> binance_adds c c'"
proof -
  let ?c1 = "bump_stat ''messages_received'' (c\<lparr>bc_connection := message_received (bc_connection c)\<rparr>)"
  have same: "binance_adds ?c1 c2 \<Longrightarrow> binance_adds c c2" for c2 by (simp add: binance_adds_def)
  assume "read_message c frame lns wns = (out, c')"
  then have "binance_adds ?c1 c'"
    by (auto simp: read_message_def Let_def split: sum.splits option.splits prod.splits if_splits dest: apply_diff_adds)
      (simp_all add: binance_adds_def)
  then show ?thesis by (rule same)
qed

lemma on_snapshot_adds: "binance_adds c (on_snapshot c now a s lns wns)"
proof -
  have "binance_adds c c2" if "offer (bump_stat ''resync_completed'' (c\<lparr>bc_engine := e\<rparr>)) lns wns None = (out, c2)" for e out c2
    using offer_adds [OF that] by (simp add: binance_adds_def)
  then show ?thesis
    by (auto simp: on_snapshot_def Let_def binance_adds_def
        split: sum.splits prod.splits apply_status.splits outcome.splits)
qed

lemma binance_step_adds:
  assumes "binance_step c ev c'" and "\<forall>row. ev \<noteq> Sink_Takes row \<and> ev \<noteq> Other_Puts row"
  shows "binance_adds c c'"
  using assms
proof cases
  case (get_returns a k now rsp lns wns)
  then show ?thesis
    using on_snapshot_adds [of c now a]
    by (auto simp: on_response_def split: if_splits sum.splits option.splits) (simp_all add: binance_adds_def)
next
  case (message_raises ws frame lns wns err c1 now)
  with read_message_adds [OF this(4)] show ?thesis by (simp add: binance_adds_def)
qed (auto dest: read_message_adds simp: binance_adds_def on_connected_def begin_attempt_def worker_wakes_def issue_get_def Let_def)

section \<open>The OKX client\<close>

definition okx_adds :: "okx_client \<Rightarrow> okx_client \<Rightarrow> bool" where
  "okx_adds c c' \<longleftrightarrow> oc_symbol c' = oc_symbol c \<and> adds_own ''okx'' (oc_symbol c) (oc_queue c) (oc_queue c')"

lemma okx_adds_same: "oc_symbol c' = oc_symbol c \<Longrightarrow> oc_queue c' = oc_queue c \<Longrightarrow> okx_adds c c'"
  by (simp add: okx_adds_def)

lemma okx_adds_from:
  "okx_adds c1 c' \<Longrightarrow> oc_symbol c1 = oc_symbol c \<Longrightarrow> oc_queue c1 = oc_queue c \<Longrightarrow> okx_adds c c'"
  by (simp add: okx_adds_def)

lemma okx_offer_adds: "okx_offer c lns wns ems = (out, c') \<Longrightarrow> okx_adds c c'"
  by (auto simp: okx_offer_def okx_instrument_def okx_adds_def split: prod.splits dest: offer_row_adds)

lemma okx_same [simp]:
  "oc_symbol (okx_bump k c) = oc_symbol c" "oc_queue (okx_bump k c) = oc_queue c"
  "oc_symbol (send_op c ws op) = oc_symbol c" "oc_queue (send_op c ws op) = oc_queue c"
  "oc_symbol (okx_finish c err) = oc_symbol c" "oc_queue (okx_finish c err) = oc_queue c"
  "oc_symbol (open_round c now) = oc_symbol c" "oc_queue (open_round c now) = oc_queue c"
  by (simp_all add: okx_bump_def send_op_def okx_finish_def open_round_def split: okx_worker.splits)

lemma on_left_same [simp]:
  "oc_symbol (on_left c err now) = oc_symbol c" "oc_queue (on_left c err now) = oc_queue c"
proof -
  define c1 where "c1 = (if err = ServiceNoticeReconnect then c
    else case cause_of err of Watchdog_Trip \<Rightarrow> okx_bump ''watchdog_tripped'' c | Lost \<Rightarrow> okx_bump ''ws_disconnected'' c)"
  have "oc_symbol c1 = oc_symbol c" "oc_queue c1 = oc_queue c" by (simp_all add: c1_def split: cause.split)
  then show "oc_symbol (on_left c err now) = oc_symbol c" "oc_queue (on_left c err now) = oc_queue c"
    by (simp_all add: on_left_def flip: c1_def) (simp_all add: Let_def split: prod.splits phase.splits)
qed

lemma okx_same_loop [simp]:
  "oc_symbol (begin_round c now) = oc_symbol c" "oc_queue (begin_round c now) = oc_queue c"
  "oc_symbol (send_resubscribe c now) = oc_symbol c" "oc_queue (send_resubscribe c now) = oc_queue c"
  by (simp_all add: begin_round_def send_resubscribe_def Let_def
      split: prod.splits sum.splits option.splits)

lemma okx_same_worker [simp]:
  "oc_symbol (resync_wakes c now) = oc_symbol c" "oc_queue (resync_wakes c now) = oc_queue c"
  by (simp_all add: resync_wakes_def request_resubscribe_def Let_def split: prod.splits sum.splits)

lemma okx_apply_adds: "okx_apply c diff lns wns ems = (out, c') \<Longrightarrow> okx_adds c c'"
proof -
  assume done_ok: "okx_apply c diff lns wns ems = (out, c')"
  obtain res e where res: "apply_event (oc_engine c) diff = (res, e)" by fastforce
  have "okx_adds c c2" if "okx_offer (c\<lparr>oc_engine := e\<rparr>) lns wns ems = (out, c2)" for c2
    using okx_offer_adds [OF that] by (simp add: okx_adds_def)
  with done_ok res show ?thesis
    by (cases "status res") (auto simp: okx_apply_def Let_def intro!: okx_adds_same)
qed

lemma okx_skip_adds: "okx_skip c = (out, c') \<Longrightarrow> okx_adds c c'"
  by (auto simp: okx_skip_def intro: okx_adds_same)

lemma resync_result_adds:
  assumes "handle_resync_result c res ems lns wns = (out, c')"
  shows "okx_adds c c'"
proof (cases "status res = APPLIED")
  case True
  then have "okx_offer (okx_bump ''resync_completed'' (c\<lparr>oc_snapshot_retry_count := 0\<rparr>)) lns wns ems = (out, c')"
    using assms by (simp add: handle_resync_result_def)
  from okx_adds_from [OF okx_offer_adds [OF this]] show ?thesis by simp
next
  case False
  with assms show ?thesis
    by (auto simp: handle_resync_result_def okx_give_up_def Let_def intro!: okx_adds_same split: if_splits option.splits)
qed

lemma snapshot_push_adds: "handle_snapshot_push c data lns wns = (out, c') \<Longrightarrow> okx_adds c c'"
proof -
  have "okx_adds c c2" if "handle_resync_result (c\<lparr>oc_engine := e\<rparr>) res ems lns wns = (out, c2)" for e res ems out c2
    using okx_adds_from [OF resync_result_adds [OF that]] by simp
  then show "handle_snapshot_push c data lns wns = (out, c') \<Longrightarrow> okx_adds c c'"
    by (auto simp: handle_snapshot_push_def intro: okx_skip_adds okx_adds_same
        split: sum.splits option.splits prod.splits if_splits)
qed

lemma update_push_adds: "handle_update_push c data lns wns = (out, c') \<Longrightarrow> okx_adds c c'"
  by (auto simp: handle_update_push_def intro: okx_skip_adds okx_apply_adds okx_adds_same
      split: sum.splits option.splits prod.splits if_splits)

lemma channel_push_adds: "handle_channel_push c envelope lns wns lns' wns' = (out, c') \<Longrightarrow> okx_adds c c'"
  by (auto simp: handle_channel_push_def intro: okx_skip_adds snapshot_push_adds update_push_adds okx_adds_same
      split: sum.splits if_splits)

lemma control_adds: "handle_control_message c envelope = (out, c') \<Longrightarrow> okx_adds c c'"
  by (auto simp: handle_control_message_def intro: okx_skip_adds okx_adds_same split: sum.splits if_splits)

lemma okx_read_adds:
  assumes "okx_read c txt lns wns lns' wns' = (out, c')"
  shows "okx_adds c c'"
proof -
  let ?c1 = "okx_bump ''messages_received'' (c\<lparr>oc_connection := message_received (oc_connection c)\<rparr>)"
  have "okx_adds ?c1 c'"
    using assms
    by (auto simp: okx_read_def Let_def intro: okx_skip_adds control_adds channel_push_adds okx_adds_same
        split: okx_text.splits sum.splits bool.splits if_splits)
  from okx_adds_from [OF this] show ?thesis by simp
qed

lemma okx_next_adds:
  assumes "okx_next c ev = Some c'" and "\<forall>row. ev \<noteq> Row_Taken row \<and> ev \<noteq> Row_Put row"
  shows "okx_adds c c'"
proof (cases ev)
  case (Frame_Comes m lns wns lns' wns')
  with assms(1) obtain ws where after: "after_read (okx_read (c\<lparr>oc_phase := OP_Reading ws\<rparr>) m lns wns lns' wns') = Some c'"
    by (auto split: option.splits)
  obtain out c2 where read: "okx_read (c\<lparr>oc_phase := OP_Reading ws\<rparr>) m lns wns lns' wns' = (out, c2)" by fastforce
  from okx_adds_from [OF okx_read_adds [OF read]] have "okx_adds c c2" by simp
  with after read show ?thesis by (cases out) (auto simp: after_read_def okx_adds_def)
qed (use assms in \<open>auto simp: on_socket_def on_subscribed_def intro!: okx_adds_same
    split: if_splits okx_phase.splits okx_worker.splits option.splits\<close>)

end
