(* ===== verification/App.thy ===== *)
theory App
  imports SinkClaims ClientRows Config Supervisor
begin

text \<open>
  The application of \<^verbatim>\<open>app.py\<close>: what \<open>_run_pipeline\<close> builds from a configuration, the factories of
  the feeds, and the composition of supervisor, clients, queue and sink as one step relation over the
  steps of its parts. The clients and the sink share one queue, which lives in the sink here; a client
  gets it for each of its steps. Log calls are left out; a signal is the event
  \<open>Shutdown_Signal\<close>. The metrics server, the heartbeat task and the signal handlers are in \<open>Process\<close>.
\<close>

section \<open>Clients\<close>

datatype feed_client = Binance_Feed binance_client | Okx_Feed okx_client

fun engine_of :: "feed_client \<Rightarrow> book_engine" where
  "engine_of (Binance_Feed c) = bc_engine c"
| "engine_of (Okx_Feed c) = oc_engine c"

text \<open>The exception with which \<open>run\<close> has ended.\<close>

fun run_error :: "feed_client \<Rightarrow> py_exc option" where
  "run_error (Binance_Feed c) = (case bc_phase c of Run_Over err \<Rightarrow> Some err | _ \<Rightarrow> None)"
| "run_error (Okx_Feed c) = (case oc_phase c of OP_Over err \<Rightarrow> Some err | _ \<Rightarrow> None)"

definition first_symbol :: "exchange_config \<Rightarrow> json result" where
  "first_symbol e = (case ec_symbols e of [] \<Rightarrow> Inl IndexError | v # _ \<Rightarrow> Inr v)"

text \<open>
  A client with the defaults of its module and a random source of its own. \<open>None\<close> if the symbol is
  no string, which the clients put into their rows as it is.
\<close>

definition client_for :: "exchange_config \<Rightarrow> string \<Rightarrow> book_engine \<Rightarrow> row_queue \<Rightarrow> rng \<Rightarrow> seconds \<Rightarrow> feed_client result" where
  "client_for e name engine q r now =
     (if ec_name e = JStr ''binance''
      then Inr (Binance_Feed (new_binance_client name engine binance_snapshot_retry_limit binance_http_retry_limit
             (int default_max_consecutive_reconnect_failures) default_backoff_policy r (Some q) now))
      else if ec_name e = JStr ''okx''
      then Inr (Okx_Feed (new_okx_client name engine okx_snapshot_retry_limit
             (int default_max_consecutive_reconnect_failures) default_backoff_policy r
             (default_resubscribe_bucket now) (default_connection_bucket now) (Some q)))
      else Inl ValueError)"

definition build_client ::
  "exchange_config \<Rightarrow> book_engine \<Rightarrow> row_queue \<Rightarrow> rng \<Rightarrow> seconds \<Rightarrow> feed_client result option" where
  "build_client e engine q r now =
     (case first_symbol e of
        Inl err \<Rightarrow> Some (Inl err)
      | Inr (JStr name) \<Rightarrow> Some (client_for e name engine q r now)
      | Inr _ \<Rightarrow> None)"

text \<open>\<open>_CurrentFeedClient\<close>: the cell that the factory sets, and its \<open>get_stats\<close>.\<close>

type_synonym current_client = "feed_client option"

datatype client_stats = No_Client_Yet | Client_Stats feed_stats

fun current_stats :: "current_client \<Rightarrow> client_stats" where
  "current_stats None = No_Client_Yet"
| "current_stats (Some (Binance_Feed c)) = Client_Stats (binance_get_stats c)"
| "current_stats (Some (Okx_Feed c)) = Client_Stats (okx_get_stats c)"

section \<open>The pipeline\<close>

text \<open>
  What \<open>_run_pipeline\<close> makes for one exchange, with two facts about its coroutine: whether it is
  inside \<open>run\<close> of the current client, and whether a cancellation is still to be thrown into it. The
  engine is shared by the successive clients of a slot; the current client carries it.
\<close>

record feed_slot =
  sl_exchange :: exchange_config
  sl_engine :: book_engine
  sl_current :: current_client
  sl_in_run :: bool
  sl_cancel :: bool

definition slot_engine :: "feed_slot \<Rightarrow> book_engine" where
  "slot_engine sl = (case sl_current sl of None \<Rightarrow> sl_engine sl | Some c \<Rightarrow> engine_of c)"

definition slot_named :: "string \<Rightarrow> feed_slot \<Rightarrow> bool" where
  "slot_named name sl \<longleftrightarrow> ec_name (sl_exchange sl) = JStr name"

text \<open>The slot whose factory the supervisor calls: the last one added under the name.\<close>

definition factory_slot :: "feed_slot list \<Rightarrow> string \<Rightarrow> nat option" where
  "factory_slot slots name =
     (case rev (filter (\<lambda>i. slot_named name (slots ! i)) [0..<length slots]) of [] \<Rightarrow> None | i # _ \<Rightarrow> Some i)"

record 'a pipeline =
  pl_slots :: "feed_slot list"
  pl_supervisor :: supervisor
  pl_sink :: "'a sink_run"
  pl_sink_cancel :: bool

abbreviation pl_queue :: "'a pipeline \<Rightarrow> row_queue" where
  "pl_queue pl \<equiv> ps_queue (sr_sink (pl_sink pl))"

section \<open>Building it\<close>

definition new_slot :: "int \<Rightarrow> exchange_config \<Rightarrow> feed_slot" where
  "new_slot depth e =
     \<lparr>sl_exchange = e, sl_engine = new_engine depth, sl_current = None, sl_in_run = False, sl_cancel = False\<rparr>"

text \<open>The loop over the exchanges, as far as the supervisor sees it; \<open>None\<close> if a name is no string.\<close>

fun add_feeds :: "exchange_config list \<Rightarrow> supervisor \<Rightarrow> supervisor result option" where
  "add_feeds [] s = Some (Inr s)"
| "add_feeds (e # es) s =
     (case ec_name e of
        JStr name \<Rightarrow>
          (case first_symbol e of Inl err \<Rightarrow> Some (Inl err) | Inr _ \<Rightarrow> add_feeds es (add_feed name s))
      | _ \<Rightarrow> None)"

fun int_value :: "json \<Rightarrow> int option" where
  "int_value (JInt i) = Some i"
| "int_value (JBool b) = Some (if b then 1 else 0)"
| "int_value _ = None"

text \<open>
  The pipeline when \<open>supervisor.run\<close> first waits. The sizes are integers; other values of the
  configuration are outside the model.
\<close>

definition start_pipeline :: "app_config \<Rightarrow> rng \<Rightarrow> readings \<Rightarrow> 'a disk \<Rightarrow> 'a pipeline result option" where
  "start_pipeline cfg r clock d =
     (case (int_value (out_queue_maxsize (cfg_output cfg)), int_value (bk_depth_levels (cfg_book cfg)),
            add_feeds (cfg_exchanges cfg)
              (set_sink (new_supervisor default_backoff_policy r default_max_restarts default_restart_window))) of
        (Some maxsize, Some depth, Some added) \<Rightarrow>
          Some (bind_result added (\<lambda>s. bind_result (run_start s) (\<lambda>s1.
            Inr \<lparr>pl_slots = map (new_slot depth) (cfg_exchanges cfg), pl_supervisor = s1,
                 pl_sink = start_run clock d (default_sink (new_row_queue maxsize) [out_parquet_dir (cfg_output cfg)] depth),
                 pl_sink_cancel = False\<rparr>)))
      | _ \<Rightarrow> None)"

section \<open>Steps\<close>

datatype pipe_event =
    Factory_Called string rng seconds
  | Factory_Raises string seconds
  | Run_Raises string seconds
  | Run_Is_Cancelled string
  | Idle_Is_Cancelled string
  | Restart_Due string
  | Binance_Moves nat binance_event
  | Okx_Moves nat okx_event
  | Sink_Moves sink_event
  | Sink_Returns
  | Shutdown_Signal
  | Shutdown_Begins

definition put_slot :: "nat \<Rightarrow> feed_slot \<Rightarrow> 'a pipeline \<Rightarrow> 'a pipeline" where
  "put_slot i sl pl = pl\<lparr>pl_slots := (pl_slots pl)[i := sl]\<rparr>"

definition put_queue :: "row_queue option \<Rightarrow> 'a pipeline \<Rightarrow> 'a pipeline" where
  "put_queue queue pl =
     (case queue of
        None \<Rightarrow> pl
      | Some q \<Rightarrow> pl\<lparr>pl_sink := (pl_sink pl)\<lparr>sr_sink := (sr_sink (pl_sink pl))\<lparr>ps_queue := q\<rparr>\<rparr>\<rparr>)"

text \<open>\<open>supervisor.run\<close> after the shutdown event: every task that is not done is cancelled.\<close>

definition ask_cancel :: "supervisor \<Rightarrow> feed_slot list \<Rightarrow> nat \<Rightarrow> feed_slot" where
  "ask_cancel s slots i =
     (let sl = slots ! i
      in case ec_name (sl_exchange sl) of
           JStr name \<Rightarrow>
             (if factory_slot slots name = Some i \<and>
                 (case feed s name of Some entry \<Rightarrow> pred_option (\<lambda>t. \<not> task_done t) (fe_task entry) \<and> fe_task entry \<noteq> None
                    | None \<Rightarrow> False)
              then sl\<lparr>sl_cancel := True\<rparr> else sl)
         | _ \<Rightarrow> sl)"

definition cancel_tasks :: "'a pipeline \<Rightarrow> 'a pipeline" where
  "cancel_tasks pl =
     pl\<lparr>pl_slots := map (ask_cancel (pl_supervisor pl) (pl_slots pl)) [0..<length (pl_slots pl)],
        pl_sink_cancel := True\<rparr>"

fun binance_own :: "binance_event \<Rightarrow> bool" where
  "binance_own (Sink_Takes row) = False"
| "binance_own (Other_Puts row) = False"
| "binance_own _ = True"

fun okx_own :: "okx_event \<Rightarrow> bool" where
  "okx_own (Row_Taken row) = False"
| "okx_own (Row_Put row) = False"
| "okx_own _ = True"

text \<open>
  \<open>at_slot pl name i sl\<close>: the slot behind the factory that the supervisor has under a name.
\<close>

definition at_slot :: "'a pipeline \<Rightarrow> string \<Rightarrow> nat \<Rightarrow> feed_slot \<Rightarrow> bool" where
  "at_slot pl name i sl \<longleftrightarrow> factory_slot (pl_slots pl) name = Some i \<and> pl_slots pl ! i = sl"

definition awaits_factory :: "supervisor \<Rightarrow> string \<Rightarrow> bool" where
  "awaits_factory s name \<longleftrightarrow> (case feed s name of Some entry \<Rightarrow> fe_task entry = Some In_Factory | None \<Rightarrow> False)"

inductive pipe_step :: "'a arrays \<Rightarrow> 'a pipeline \<Rightarrow> pipe_event \<Rightarrow> 'a pipeline \<Rightarrow> bool" for pa where
  factory_called:
    "at_slot pl name i sl \<Longrightarrow> awaits_factory (pl_supervisor pl) name \<Longrightarrow> \<not> sl_in_run sl \<Longrightarrow> \<not> sl_cancel sl \<Longrightarrow>
     build_client (sl_exchange sl) (slot_engine sl) (pl_queue pl) r now = Some (Inr c) \<Longrightarrow>
     pipe_step pa pl (Factory_Called name r now) (put_slot i (sl\<lparr>sl_current := Some c, sl_in_run := True\<rparr>) pl)"
| factory_raises:
    "at_slot pl name i sl \<Longrightarrow> \<not> sl_in_run sl \<Longrightarrow> \<not> sl_cancel sl \<Longrightarrow>
     build_client (sl_exchange sl) (slot_engine sl) (pl_queue pl) r now = Some (Inl err) \<Longrightarrow>
     sup_step (pl_supervisor pl) (Feed_Crashes name now) s \<Longrightarrow>
     pipe_step pa pl (Factory_Raises name now) (pl\<lparr>pl_supervisor := s\<rparr>)"
| run_raises:
    "at_slot pl name i sl \<Longrightarrow> sl_in_run sl \<Longrightarrow> sl_current sl = Some c \<Longrightarrow> run_error c = Some err \<Longrightarrow>
     err \<noteq> CancelledError \<Longrightarrow> sup_step (pl_supervisor pl) (Feed_Crashes name now) s \<Longrightarrow>
     pipe_step pa pl (Run_Raises name now) ((put_slot i (sl\<lparr>sl_in_run := False\<rparr>) pl)\<lparr>pl_supervisor := s\<rparr>)"
| run_is_cancelled:
    "at_slot pl name i sl \<Longrightarrow> sl_in_run sl \<Longrightarrow> sl_current sl = Some c \<Longrightarrow> run_error c = Some CancelledError \<Longrightarrow>
     sup_step (pl_supervisor pl) (Feed_Cancelled name) s \<Longrightarrow>
     pipe_step pa pl (Run_Is_Cancelled name) ((put_slot i (sl\<lparr>sl_in_run := False\<rparr>) pl)\<lparr>pl_supervisor := s\<rparr>)"
| idle_is_cancelled:
    "at_slot pl name i sl \<Longrightarrow> \<not> sl_in_run sl \<Longrightarrow> sl_cancel sl \<Longrightarrow>
     sup_step (pl_supervisor pl) (Feed_Cancelled name) s \<Longrightarrow>
     pipe_step pa pl (Idle_Is_Cancelled name) ((put_slot i (sl\<lparr>sl_cancel := False\<rparr>) pl)\<lparr>pl_supervisor := s\<rparr>)"
| restart_due:
    "at_slot pl name i sl \<Longrightarrow> \<not> sl_cancel sl \<Longrightarrow> sup_step (pl_supervisor pl) (Sleep_Over name) s \<Longrightarrow>
     pipe_step pa pl (Restart_Due name) (pl\<lparr>pl_supervisor := s\<rparr>)"
| binance_moves:
    "i < length (pl_slots pl) \<Longrightarrow> pl_slots pl ! i = sl \<Longrightarrow> sl_in_run sl \<Longrightarrow> sl_current sl = Some (Binance_Feed c) \<Longrightarrow>
     binance_own ev \<Longrightarrow> (ev = Cancel_Run \<longrightarrow> sl_cancel sl) \<Longrightarrow>
     binance_step (c\<lparr>bc_queue := Some (pl_queue pl)\<rparr>) ev c' \<Longrightarrow>
     pipe_step pa pl (Binance_Moves i ev)
       (put_queue (bc_queue c') (put_slot i (sl\<lparr>sl_current := Some (Binance_Feed c'),
          sl_cancel := sl_cancel sl \<and> ev \<noteq> Cancel_Run\<rparr>) pl))"
| okx_moves:
    "i < length (pl_slots pl) \<Longrightarrow> pl_slots pl ! i = sl \<Longrightarrow> sl_in_run sl \<Longrightarrow> sl_current sl = Some (Okx_Feed c) \<Longrightarrow>
     okx_own ev \<Longrightarrow> (ev = Run_Cancelled \<longrightarrow> sl_cancel sl) \<Longrightarrow>
     okx_next (c\<lparr>oc_queue := Some (pl_queue pl)\<rparr>) ev = Some c' \<Longrightarrow>
     pipe_step pa pl (Okx_Moves i ev)
       (put_queue (oc_queue c') (put_slot i (sl\<lparr>sl_current := Some (Okx_Feed c'),
          sl_cancel := sl_cancel sl \<and> ev \<noteq> Run_Cancelled\<rparr>) pl))"
| sink_moves:
    "(\<forall>row. ev \<noteq> Feed_Puts row) \<Longrightarrow> (\<forall>clock. ev = Sink.Sink_Cancelled clock \<longrightarrow> pl_sink_cancel pl) \<Longrightarrow>
     sink_next pa ev (pl_sink pl) = Some r \<Longrightarrow>
     pipe_step pa pl (Sink_Moves ev) (pl\<lparr>pl_sink := r\<rparr>)"
| sink_returns:
    "sr_end (pl_sink pl) = Some e \<Longrightarrow>
     sup_step (pl_supervisor pl)
       (case e of Cancelled \<Rightarrow> Supervisor.Sink_Cancelled | Exception_Group err \<Rightarrow> Sink_Ends (Some err) | Raised err \<Rightarrow> Sink_Ends (Some err)) s \<Longrightarrow>
     pipe_step pa pl Sink_Returns (pl\<lparr>pl_supervisor := s\<rparr>)"
| shutdown_signal:
    "sup_step (pl_supervisor pl) Shutdown_Requested s \<Longrightarrow>
     pipe_step pa pl Shutdown_Signal (pl\<lparr>pl_supervisor := s\<rparr>)"
| shutdown_begins:
    "sup_step (pl_supervisor pl) Cancel_All s \<Longrightarrow>
     pipe_step pa pl Shutdown_Begins ((cancel_tasks pl)\<lparr>pl_supervisor := s\<rparr>)"

inductive_cases pipe_stepE: "pipe_step pa pl ev pl'"

text \<open>A run, with the rows that the sink takes from the queue.\<close>

fun rows_taken :: "pipe_event \<Rightarrow> 'a pipeline \<Rightarrow> snapshot_row list" where
  "rows_taken (Sink_Moves ev) pl = taken_by ev (pl_sink pl)"
| "rows_taken _ pl = []"

inductive pipe_run :: "'a arrays \<Rightarrow> 'a pipeline \<Rightarrow> pipe_event list \<Rightarrow> snapshot_row list \<Rightarrow> 'a pipeline \<Rightarrow> bool"
  for pa pl where
  start: "pipe_run pa pl [] [] pl"
| snoc: "pipe_run pa pl evs got pl1 \<Longrightarrow> pipe_step pa pl1 ev pl2 \<Longrightarrow>
    pipe_run pa pl (evs @ [ev]) (got @ rows_taken ev pl1) pl2"

section \<open>The heartbeat\<close>

text \<open>The fields \<open>_supervisor_heartbeat_worker\<close> logs; a name without a feed raises \<open>KeyError\<close>.\<close>

record heartbeat =
  hb_feed_states :: "(string \<times> feed_state) list"
  hb_restart_counts :: "(string \<times> nat) list"
  hb_queue_depth :: nat
  hb_rows_dropped :: nat
  hb_rows_written :: nat
  hb_batches_flushed :: nat

definition heartbeat_fields :: "supervisor \<Rightarrow> parquet_sink \<Rightarrow> string list \<Rightarrow> heartbeat result" where
  "heartbeat_fields s sink names =
     bind_result (map_result (\<lambda>name. bind_result (get_feed_state s name) (\<lambda>st. Inr (name, st))) names) (\<lambda>states.
     bind_result (map_result (\<lambda>name. bind_result (get_restart_count s name) (\<lambda>n. Inr (name, n))) names) (\<lambda>counts.
       let stats = sink_get_stats sink
       in Inr \<lparr>hb_feed_states = dict_of [] states, hb_restart_counts = dict_of [] counts,
               hb_queue_depth = ss_queue_depth stats, hb_rows_dropped = ss_rows_dropped stats,
               hb_rows_written = count_of ''rows_written'' (ss_counters stats),
               hb_batches_flushed = count_of ''batches_flushed'' (ss_counters stats)\<rparr>))"

end
