(* ===== verification/CutSnapshot.thy ===== *)
theory CutSnapshot
  imports BinanceProps EngineProps
begin

text \<open>
  The REST snapshot of \<^verbatim>\<open>feeds/binance.py\<close> is requested with a \<open>limit\<close>, and the exchange documents that
  the response holds at most so many levels of each side, the best ones. Here is that contract
  (\<open>limit_snapshot\<close>); what follows for a range of prices that the responses reach over: what the
  engine then holds and what a row of the client shows; and how the levels of a live book run out.
\<close>

section \<open>The documented response\<close>

text \<open>At most \<open>limit\<close> levels of a side, all true, and a level is missing only if there are \<open>limit\<close> better ones.\<close>

definition side_limit ::
  "int \<Rightarrow> (decimal \<Rightarrow> decimal \<Rightarrow> bool) \<Rightarrow> price_level list \<Rightarrow> (decimal \<rightharpoonup> decimal) \<Rightarrow> bool" where
  "side_limit limit better levels full \<longleftrightarrow>
     distinct_keys levels \<and> int (length levels) \<le> limit \<and> (\<forall>(p, q) \<in> set levels. full p = Some q) \<and>
     (\<forall>p \<in> dom full - fst ` set levels. int (length levels) = limit \<and> (\<forall>p' \<in> fst ` set levels. better p' p))"

definition limit_snapshot :: "int \<Rightarrow> (int \<Rightarrow> book) \<Rightarrow> snapshot_event \<Rightarrow> bool" where
  "limit_snapshot limit hist s \<longleftrightarrow>
     side_limit limit (>) (sn_bids s) (fst (hist (last_update_id s))) \<and>
     side_limit limit (<) (sn_asks s) (snd (hist (last_update_id s)))"

text \<open>
  A range of prices: a lowest bid and a highest ask, or none. A response reaches over it when it shows a
  bid no higher than the lowest and an ask no lower than the highest, or has a side in full, being short
  of the limit. Any finite number of responses reaches over the range of their worst levels.
\<close>

type_synonym price_range = "decimal option \<times> decimal option"

definition whole :: price_range where
  "whole = (None, None)"

definition bid_in :: "price_range \<Rightarrow> decimal \<Rightarrow> bool" where
  "bid_in rng p \<longleftrightarrow> (case fst rng of None \<Rightarrow> True | Some lo \<Rightarrow> lo \<le> p)"

definition ask_in :: "price_range \<Rightarrow> decimal \<Rightarrow> bool" where
  "ask_in rng p \<longleftrightarrow> (case snd rng of None \<Rightarrow> True | Some hi \<Rightarrow> p \<le> hi)"

definition reaches :: "int \<Rightarrow> price_range \<Rightarrow> snapshot_event \<Rightarrow> bool" where
  "reaches limit rng s \<longleftrightarrow>
     (int (length (sn_bids s)) < limit \<or> (\<exists>lo. fst rng = Some lo \<and> list_ex (\<lambda>l. fst l \<le> lo) (sn_bids s))) \<and>
     (int (length (sn_asks s)) < limit \<or> (\<exists>hi. snd rng = Some hi \<and> list_ex (\<lambda>l. hi \<le> fst l) (sn_asks s)))"

definition depth_response :: "int \<Rightarrow> price_range \<Rightarrow> (int \<Rightarrow> book) \<Rightarrow> snapshot_event \<Rightarrow> bool" where
  "depth_response limit rng hist s \<longleftrightarrow> limit_snapshot limit hist s \<and> reaches limit rng s"

section \<open>Books known within a range\<close>

text \<open>A side with true levels only, and with all of them where \<open>win\<close> holds.\<close>

definition side_cut :: "(decimal \<Rightarrow> bool) \<Rightarrow> (decimal \<rightharpoonup> decimal) \<Rightarrow> (decimal \<rightharpoonup> decimal) \<Rightarrow> bool" where
  "side_cut win m full \<longleftrightarrow> (\<forall>p q. m p = Some q \<longrightarrow> full p = Some q) \<and> (\<forall>p. win p \<longrightarrow> m p = full p)"

definition book_cut :: "price_range \<Rightarrow> (int \<Rightarrow> book) \<Rightarrow> int \<Rightarrow> book \<Rightarrow> bool" where
  "book_cut rng hist t b \<longleftrightarrow>
     side_cut (bid_in rng) (fst b) (fst (hist t)) \<and> side_cut (ask_in rng) (snd b) (snd (hist t))"

definition cut_snapshot :: "price_range \<Rightarrow> (int \<Rightarrow> book) \<Rightarrow> snapshot_event \<Rightarrow> bool" where
  "cut_snapshot rng hist s \<longleftrightarrow> book_cut rng hist (last_update_id s) (snapshot_book s)"

lemma side_cutI: "(\<And>p q. m p = Some q \<Longrightarrow> full p = Some q) \<Longrightarrow> (\<And>p. win p \<Longrightarrow> m p = full p) \<Longrightarrow> side_cut win m full"
  unfolding side_cut_def by blast

lemma side_cut_true: "side_cut win m full \<Longrightarrow> m p = Some q \<Longrightarrow> full p = Some q"
  unfolding side_cut_def by blast

lemma side_cut_whole: "side_cut win m full \<Longrightarrow> win p \<Longrightarrow> m p = full p"
  unfolding side_cut_def by blast

lemma side_cut_overlay:
  assumes "side_cut win m full"
  shows "side_cut win (overlay m levels) (overlay full levels)"
proof (rule side_cutI)
  fix p q assume "overlay m levels p = Some q"
  then show "overlay full levels p = Some q"
    by (cases "map_of (rev levels) p") (auto simp: overlay_def side_cut_true [OF assms])
next
  fix p assume "win p"
  from side_cut_whole [OF assms this] show "overlay m levels p = overlay full levels p"
    by (cases "map_of (rev levels) p") (simp_all add: overlay_def)
qed

lemma book_cut_step:
  "book_cut rng hist t b \<Longrightarrow> hist t' = book_step (hist t) event \<Longrightarrow> book_cut rng hist t' (book_step b event)"
  by (simp add: book_cut_def book_step_def side_cut_overlay)

interpretation cut: book_source "book_cut rng hist" "faithful_event hist" "cut_snapshot rng hist" for rng hist
proof unfold_locales
  fix event b t s
  show "faithful_event hist event \<Longrightarrow> book_cut rng hist (prev_id event) b \<Longrightarrow>
      book_cut rng hist (final_id event) (book_step b event)"
    by (erule book_cut_step) (simp add: faithful_event_def)
  show "faithful_event hist event \<Longrightarrow> prev_id event \<le> t \<Longrightarrow> t < final_id event \<Longrightarrow> book_cut rng hist t b \<Longrightarrow>
      book_cut rng hist (final_id event) (book_step b event)"
    by (erule book_cut_step) (simp add: faithful_event_def)
qed (simp add: cut_snapshot_def)

text \<open>The documented response is one, for any range it reaches over.\<close>

lemma side_limit_cut:
  assumes "side_limit limit better levels full" and "\<And>p'. \<not> better p' p'"
    and "int (length levels) < limit \<or> (\<exists>p0 \<in> fst ` set levels. \<forall>p. win p \<longrightarrow> \<not> better p0 p)"
  shows "side_cut win (map_of (rev levels)) full"
proof (rule side_cutI)
  show true: "full p = Some q" if "map_of (rev levels) p = Some q" for p q
    using assms(1) map_of_SomeD [OF that] by (auto simp: side_limit_def)
  fix p assume "win p"
  show "map_of (rev levels) p = full p"
  proof (cases "map_of (rev levels) p")
    case None
    then have "p \<notin> fst ` set levels" by (simp add: map_of_eq_None_iff)
    moreover have "p \<notin> dom full - fst ` set levels"
    proof
      assume "p \<in> dom full - fst ` set levels"
      then have "int (length levels) = limit" "\<forall>p' \<in> fst ` set levels. better p' p"
        using assms(1) by (auto simp: side_limit_def)
      with assms(3) \<open>win p\<close> show False by auto
    qed
    ultimately show ?thesis using None by auto
  qed (use true in simp)
qed

lemma depth_response_cut:
  assumes "depth_response limit rng hist s"
  shows "cut_snapshot rng hist s"
proof -
  have lim: "side_limit limit (>) (sn_bids s) (fst (hist (last_update_id s)))"
    "side_limit limit (<) (sn_asks s) (snd (hist (last_update_id s)))" and reach: "reaches limit rng s"
    using assms by (simp_all add: depth_response_def limit_snapshot_def)
  have bids: "side_cut (bid_in rng) (map_of (rev (sn_bids s))) (fst (hist (last_update_id s)))"
    by (rule side_limit_cut [OF lim(1)])
      (use reach in \<open>fastforce simp: reaches_def bid_in_def list_ex_iff\<close>)+
  have asks: "side_cut (ask_in rng) (map_of (rev (sn_asks s))) (snd (hist (last_update_id s)))"
    by (rule side_limit_cut [OF lim(2)])
      (use reach in \<open>fastforce simp: reaches_def ask_in_def list_ex_iff\<close>)+
  show ?thesis using bids asks by (simp add: cut_snapshot_def book_cut_def snapshot_book_def)
qed

lemma faithful_cut: "faithful_snapshot hist s \<Longrightarrow> cut_snapshot rng hist s"
  by (simp add: faithful_snapshot_def cut_snapshot_def book_cut_def side_cut_def)

section \<open>Rows\<close>

text \<open>
  What a row then says: its levels are levels of the exchange's book at its id, in order, and a level
  of that book within the range is missing only if all levels shown are better.
\<close>

definition row_cut_true :: "price_range \<Rightarrow> (int \<Rightarrow> book) \<Rightarrow> snapshot_row \<Rightarrow> bool" where
  "row_cut_true rng hist row \<longleftrightarrow>
     (let (bids, asks) = hist (row_last_applied_id row)
      in sorted_wrt (>) (map fst (row_bids row)) \<and> sorted_wrt (<) (map fst (row_asks row)) \<and>
         (\<forall>(p, q) \<in> set (row_bids row). bids p = Some q) \<and> (\<forall>(p, q) \<in> set (row_asks row). asks p = Some q) \<and>
         (\<forall>p \<in> dom bids - fst ` set (row_bids row). bid_in rng p \<longrightarrow> (\<forall>p' \<in> fst ` set (row_bids row). p < p')) \<and>
         (\<forall>p \<in> dom asks - fst ` set (row_asks row). ask_in rng p \<longrightarrow> (\<forall>p' \<in> fst ` set (row_asks row). p' < p)))"

definition row_within :: "price_range \<Rightarrow> snapshot_row \<Rightarrow> bool" where
  "row_within rng row \<longleftrightarrow>
     list_all (\<lambda>l. bid_in rng (fst l)) (row_bids row) \<and> list_all (\<lambda>l. ask_in rng (fst l)) (row_asks row)"

text \<open>Such a row with all its levels within the range is as true as with whole snapshots.\<close>

lemma within_side:
  assumes "\<forall>p \<in> D. win p \<longrightarrow> (\<forall>p' \<in> S. R p' p)" and "\<And>p p'. \<not> win p \<Longrightarrow> win p' \<Longrightarrow> R p' p" and "\<forall>p' \<in> S. win p'"
  shows "\<forall>p \<in> D. \<forall>p' \<in> S. R p' p"
  using assms by blast

lemma within_true:
  assumes "row_cut_true rng hist row" and "row_within rng row"
  shows "row_true hist row"
proof -
  obtain bids asks where h: "hist (row_last_applied_id row) = (bids, asks)" by fastforce
  have w: "\<forall>p' \<in> fst ` set (row_bids row). bid_in rng p'" "\<forall>p' \<in> fst ` set (row_asks row). ask_in rng p'"
    using assms(2) by (auto simp: row_within_def list_all_iff)
  have "\<forall>p \<in> dom bids - fst ` set (row_bids row). \<forall>p' \<in> fst ` set (row_bids row). p < p'"
    by (rule within_side [where win = "bid_in rng"])
      (use assms(1) h w in \<open>auto simp: row_cut_true_def bid_in_def split: option.splits\<close>)
  moreover have "\<forall>p \<in> dom asks - fst ` set (row_asks row). \<forall>p' \<in> fst ` set (row_asks row). p' < p"
    by (rule within_side [where win = "ask_in rng" and R = "(<)"])
      (use assms(1) h w in \<open>auto simp: row_cut_true_def ask_in_def split: option.splits\<close>)
  ultimately show ?thesis using assms(1) h by (simp add: row_cut_true_def row_true_def)
qed

lemma row_cut_whole: "row_cut_true whole hist row \<longleftrightarrow> row_true hist row"
  by (simp add: row_cut_true_def row_true_def whole_def bid_in_def ask_in_def)

lemma side_cut_row:
  assumes "side_cut win m full" and "\<forall>(p, q) \<in> set levels. m p = Some q"
    and "\<forall>p \<in> dom m - fst ` set levels. \<forall>p' \<in> fst ` set levels. R p' p"
  shows "\<forall>(p, q) \<in> set levels. full p = Some q"
    and "\<forall>p \<in> dom full - fst ` set levels. win p \<longrightarrow> (\<forall>p' \<in> fst ` set levels. R p' p)"
proof -
  show "\<forall>(p, q) \<in> set levels. full p = Some q"
    using assms(2) by (auto intro: side_cut_true [OF assms(1)])
  show "\<forall>p \<in> dom full - fst ` set levels. win p \<longrightarrow> (\<forall>p' \<in> fst ` set levels. R p' p)"
  proof (intro ballI impI)
    fix p p' assume p: "p \<in> dom full - fst ` set levels" "win p" and p': "p' \<in> fst ` set levels"
    with side_cut_whole [OF assms(1) p(2)] have "p \<in> dom m - fst ` set levels" by (simp add: dom_def)
    with assms(3) p' show "R p' p" by blast
  qed
qed

lemma engine_row_true:
  assumes "engine_wf e" and "build_snapshot_row e instr lns wns ems = Inr row"
  shows "row_true (\<lambda>_. engine_book e) row" and "be_last_applied_id e = Some (row_last_applied_id row)"
    and "be_state e = LIVE"
proof -
  show last: "be_last_applied_id e = Some (row_last_applied_id row)"
    using assms(2) by (auto simp: build_snapshot_row_def split: option.splits prod.splits)
  then show "be_state e = LIVE" using assms(1) by (auto simp: engine_wf_def split: if_splits)
  with last have "replica (\<lambda>_. engine_book e) e" by (simp add: replica_def)
  then show "row_true (\<lambda>_. engine_book e) row" using assms by (rule replica_row_true)
qed

lemma tracks_row_cut:
  assumes "tracks (book_cut rng hist) e" and "engine_wf e" and "build_snapshot_row e instr lns wns ems = Inr row"
  shows "row_cut_true rng hist row"
proof -
  note r = engine_row_true [OF assms(2,3)]
  let ?h = "hist (row_last_applied_id row)"
  have cut: "side_cut (bid_in rng) (fst (engine_book e)) (fst ?h)" "side_cut (ask_in rng) (snd (engine_book e)) (snd ?h)"
    using assms(1) r(2,3) by (auto simp: tracks_def book_cut_def)
  obtain bids asks where h: "?h = (bids, asks)" by fastforce
  obtain ebids easks where eb: "engine_book e = (ebids, easks)" by fastforce
  have row: "sorted_wrt (>) (map fst (row_bids row))" "sorted_wrt (<) (map fst (row_asks row))"
    "\<forall>(p, q) \<in> set (row_bids row). ebids p = Some q" "\<forall>(p, q) \<in> set (row_asks row). easks p = Some q"
    "\<forall>p \<in> dom ebids - fst ` set (row_bids row). \<forall>p' \<in> fst ` set (row_bids row). p < p'"
    "\<forall>p \<in> dom easks - fst ` set (row_asks row). \<forall>p' \<in> fst ` set (row_asks row). p' < p"
    using r(1) unfolding row_true_def eb Let_def prod.case by blast+
  from cut have c: "side_cut (bid_in rng) ebids bids" "side_cut (ask_in rng) easks asks" unfolding h eb fst_conv snd_conv .
  note b = side_cut_row [OF c(1) row(3), of "\<lambda>x y. y < x", OF row(5)]
  note a = side_cut_row [OF c(2) row(4,6)]
  show ?thesis unfolding row_cut_true_def h Let_def prod.case by (intro conjI row(1,2) b a)
qed

section \<open>The client fed with such snapshots\<close>

definition cut_good :: "price_range \<Rightarrow> (int \<Rightarrow> book) \<Rightarrow> book_engine \<Rightarrow> bool" where
  "cut_good rng hist e \<longleftrightarrow>
     engine_wf e \<and> tracks (book_cut rng hist) e \<and> list_all (faithful_event hist) (be_buffer e)"

definition own_row_cut :: "string \<Rightarrow> string \<Rightarrow> price_range \<Rightarrow> (int \<Rightarrow> book) \<Rightarrow> snapshot_row \<Rightarrow> bool" where
  "own_row_cut exch name rng hist row \<longleftrightarrow>
     (row_exchange row = exch \<and> row_symbol row = name \<longrightarrow> row_cut_true rng hist row)"

lemma own_row_cut_whole: "own_row_cut exch name whole hist = own_row_true exch name hist"
  by (simp add: own_row_cut_def own_row_true_def row_cut_whole fun_eq_iff)

interpretation cut_feed: true_feed "cut_good rng hist" "faithful_event hist" "cut_snapshot rng hist"
    "own_row_cut exch name rng hist" for rng hist exch name
proof unfold_locales
  fix e event s res e' instr lns wns ems row
  show "cut_good rng hist e \<Longrightarrow> engine_wf e" by (simp add: cut_good_def)
  show "cut_good rng hist e \<Longrightarrow> faithful_event hist event \<Longrightarrow> cut_good rng hist (snd (apply_event e event))"
    using cut.exec_tracks [of rng hist e "Apply_Event event"] by (simp add: cut_good_def apply_event_wf)
  show "cut_good rng hist e \<Longrightarrow> cut_snapshot rng hist s \<Longrightarrow> load_snapshot e s = Inr (res, e') \<Longrightarrow> cut_good rng hist e'"
    using cut.load_snapshot_tracks [of e s res e' rng hist] by (auto simp: cut_good_def intro: load_snapshot_wf)
  show "cut_good rng hist (invalidate e)"
    by (simp add: cut_good_def invalidate_wf tracks_def) (simp add: invalidate_def)
  show "cut_good rng hist e \<Longrightarrow> build_snapshot_row e instr lns wns ems = Inr row \<Longrightarrow> own_row_cut exch name rng hist row"
    unfolding cut_good_def own_row_cut_def by (blast intro: tracks_row_cut)
qed

lemma fresh_cut: "cut_good rng hist (new_engine depth)"
  by (simp add: cut_good_def tracks_def new_engine_wf) (simp add: new_engine_def)

lemma binance_carries_mono:
  assumes "binance_carries a b row_ok ev" and "\<And>s. b s \<Longrightarrow> b' s"
  shows "binance_carries a b' row_ok ev"
proof (cases ev)
  case (Get_Returns rsp lns wns now)
  with assms show ?thesis
    by (cases "bind_result (json_loads (rsp_body rsp)) parse_snapshot")
      (auto simp: response_carries_def intro: option.pred_mono_strong)
qed (use assms(1) in simp_all)

section \<open>The requests\<close>

text \<open>Every depth request of a client carries its symbol and its limit.\<close>

definition request_of :: "binance_client \<Rightarrow> string \<times> int" where
  "request_of c = (bc_symbol c, bc_depth_limit c)"

definition asks_so :: "string \<times> int \<Rightarrow> binance_client \<Rightarrow> bool" where
  "asks_so req c \<longleftrightarrow> request_of c = req \<and> set (bc_requested c) \<subseteq> {req}"

lemma asks_so_upd [simp]:
  "asks_so req (c\<lparr>bc_engine := e\<rparr>) = asks_so req c" "asks_so req (c\<lparr>bc_bucket := b\<rparr>) = asks_so req c"
  "asks_so req (c\<lparr>bc_worker := w\<rparr>) = asks_so req c" "asks_so req (c\<lparr>bc_queue := q\<rparr>) = asks_so req c"
  "asks_so req (c\<lparr>bc_resync_needed := r\<rparr>) = asks_so req c" "asks_so req (c\<lparr>bc_buffered := n\<rparr>) = asks_so req c"
  "asks_so req (c\<lparr>bc_connection := cm\<rparr>) = asks_so req c" "asks_so req (c\<lparr>bc_current_ws := ws\<rparr>) = asks_so req c"
  "asks_so req (c\<lparr>bc_phase := ph\<rparr>) = asks_so req c" "asks_so req (c\<lparr>bc_closed := cl\<rparr>) = asks_so req c"
  "asks_so req (c\<lparr>bc_stats := st\<rparr>) = asks_so req c" "asks_so req (bump_stat k c) = asks_so req c"
  by (simp_all add: asks_so_def request_of_def bump_stat_def)

lemma asks_so_issue: "asks_so req c \<Longrightarrow> asks_so req (issue_get c now a k)"
  by (auto simp: asks_so_def request_of_def issue_get_def)

lemma asks_so_offer [simp]: "asks_so req (snd (offer c lns wns ems)) = asks_so req c"
  by (simp add: offer_def split: prod.splits)

lemma asks_so_give_up [simp]: "asks_so req (give_up c) = asks_so req c"
  by (simp add: give_up_def Let_def split: option.splits)

lemma asks_so_fetch: "asks_so req c \<Longrightarrow> asks_so req (fetch c now a k)"
  by (auto simp: fetch_def Let_def asks_so_issue split: prod.splits sum.splits)

lemma asks_so_attempt: "asks_so req c \<Longrightarrow> asks_so req (attempt_resync c now a)"
  by (simp add: attempt_resync_def asks_so_fetch)

lemma asks_so_finish [simp]: "asks_so req (finish_run c err) = asks_so req c"
  by (simp add: finish_run_def split: worker.splits)

lemma asks_so_disconnected [simp]: "asks_so req (on_disconnected c why now) = asks_so req c"
  by (simp add: on_disconnected_def Let_def split: prod.splits phase.splits)

lemma asks_so_apply [simp]: "asks_so req (snd (apply_diff c diff lns wns ems)) = asks_so req c"
  by (simp add: apply_diff_def Let_def split: prod.splits apply_status.splits)

lemma asks_so_message [simp]: "asks_so req (snd (read_message c frame lns wns)) = asks_so req c"
  by (simp add: read_message_def Let_def split: sum.splits prod.splits option.splits)

lemma asks_so_snapshot:
  assumes "asks_so req c"
  shows "asks_so req (on_snapshot c now a s lns wns)"
proof (cases "load_snapshot (bc_engine c) s")
  case (Inr l)
  obtain res e where l: "l = (res, e)" by fastforce
  obtain o2 c2 where o: "offer (bump_stat ''resync_completed'' (c\<lparr>bc_engine := e\<rparr>)) lns wns None = (o2, c2)" by fastforce
  then have "asks_so req c2"
    using asks_so_offer [of req "bump_stat ''resync_completed'' (c\<lparr>bc_engine := e\<rparr>)" lns wns None] assms by simp
  with Inr l o assms show ?thesis
    by (auto simp: on_snapshot_def Let_def asks_so_attempt split: apply_status.splits outcome.splits)
qed (use assms in \<open>simp add: on_snapshot_def\<close>)

lemma binance_step_asks:
  assumes "binance_step c ev c'" and "asks_so req c"
  shows "asks_so req c'"
  using assms(1)
proof (cases rule: binance_step.cases)
  case (message ws frame lns wns)
  with assms(2) asks_so_message [of req c frame lns wns] show ?thesis by simp
next
  case (message_raises ws frame lns wns err c1 now)
  with assms(2) asks_so_message [of req c frame lns wns] show ?thesis by simp
next
  case (get_returns a k now rsp lns wns)
  from get_returns(3) show ?thesis
    by (cases rule: on_response_cases) (use assms(2) asks_so_snapshot in auto)
next
  case (wakes now)
  with assms(2) show ?thesis by (simp add: worker_wakes_def Let_def asks_so_attempt)
qed (use assms(2) in \<open>simp_all add: on_connected_def begin_attempt_def asks_so_issue asks_so_fetch\<close>)

lemma binance_run_asks: "binance_run c evs c' \<Longrightarrow> asks_so req c \<Longrightarrow> asks_so req c'"
  by (induction rule: binance_run.induct) (auto intro: binance_step_asks)

lemma fresh_asks: "asks_so (name, default_depth_limit) (fresh_binance name depth sl hl mf policy r maxsize t0)"
  by (simp add: asks_so_def request_of_def new_binance_client_def)

section \<open>The levels beyond the limit\<close>

text \<open>The bids of the exchange that the snapshot leaves out.\<close>

definition hidden_bids :: "(int \<Rightarrow> book) \<Rightarrow> snapshot_event \<Rightarrow> decimal set" where
  "hidden_bids hist s = dom (fst (hist (last_update_id s))) - fst ` set (sn_bids s)"

lemma overlay_hidden:
  assumes "m = full |` (- H)" and "fst ` set levels \<inter> H = {}"
  shows "overlay m levels = overlay full levels |` (- H)"
proof
  fix p
  show "overlay m levels p = (overlay full levels |` (- H)) p"
  proof (cases "p \<in> H")
    case True
    then have "p \<notin> fst ` set (rev levels)" using assms(2) by auto
    then have "map_of (rev levels) p = None" by (simp only: map_of_eq_None_iff not_False_eq_True)
    with True show ?thesis by (simp add: overlay_def assms(1))
  next
    case False
    then show ?thesis by (simp add: overlay_def assms(1) split: option.split)
  qed
qed

lemma hidden_kept:
  assumes "list_all (faithful_event hist) events" and "chained t events"
    and "list_all (\<lambda>event. fst ` set (ev_bids event) \<inter> H = {}) events"
    and "fst b = fst (hist t) |` (- H)" and "H \<subseteq> dom (fst (hist t))"
  shows "fst (foldl book_step b events) = fst (hist (end_id t events)) |` (- H) \<and> H \<subseteq> dom (fst (hist (end_id t events)))"
  using assms
proof (induction events arbitrary: t b)
  case (Cons event events)
  let ?t = "final_id event"
  have hist: "hist ?t = book_step (hist t) event"
    using Cons.prems(1,2) by (auto simp: faithful_event_def)
  have mention: "fst ` set (ev_bids event) \<inter> H = {}" using Cons.prems(3) by simp
  have side: "fst (book_step b event) = fst (hist ?t) |` (- H)"
    using overlay_hidden [OF Cons.prems(4) mention] by (simp add: hist book_step_def)
  have "map_of (rev (ev_bids event)) p = None" if "p \<in> H" for p
    using mention that unfolding map_of_eq_None_iff by auto
  then have "H \<subseteq> dom (fst (hist ?t))"
    using Cons.prems(5) by (auto simp: hist book_step_def overlay_def dom_def subset_eq)
  with Cons.IH [of ?t "book_step b event"] Cons.prems side show ?case by (cases events) (simp_all add: end_id_def)
qed (simp add: end_id_def)

lemma snapshot_hides:
  assumes "limit_snapshot limit hist s"
  shows "fst (snapshot_book s) = fst (hist (last_update_id s)) |` (- hidden_bids hist s)"
proof
  fix p
  have shown: "\<forall>(p, q) \<in> set (sn_bids s). fst (hist (last_update_id s)) p = Some q"
    using assms by (simp add: limit_snapshot_def side_limit_def)
  show "fst (snapshot_book s) p = (fst (hist (last_update_id s)) |` (- hidden_bids hist s)) p"
  proof (cases "map_of (rev (sn_bids s)) p")
    case None
    then have "p \<notin> fst ` set (sn_bids s)" by (simp add: map_of_eq_None_iff)
    with None show ?thesis by (auto simp: snapshot_book_def hidden_bids_def restrict_map_def)
  next
    case (Some q)
    from map_of_SomeD [OF this] have "(p, q) \<in> set (sn_bids s)" by simp
    moreover from this have "p \<notin> hidden_bids hist s" by (auto simp: hidden_bids_def rev_image_eqI)
    ultimately show ?thesis using Some shown by (auto simp: snapshot_book_def)
  qed
qed

lemma events_applied:
  assumes "be_state e = LIVE" and "be_last_applied_id e = Some t" and "chained t events"
  shows "be_state (engine_run e (map Apply_Event events)) = LIVE \<and>
    be_last_applied_id (engine_run e (map Apply_Event events)) = Some (end_id t events) \<and>
    engine_book (engine_run e (map Apply_Event events)) = foldl book_step (engine_book e) events"
  using assms
proof (induction events arbitrary: e t)
  case (Cons event events)
  let ?e = "snd (apply_event e event)"
  have step: "be_state ?e = LIVE" "be_last_applied_id ?e = Some (final_id event)" "engine_book ?e = book_step (engine_book e) event"
    using Cons.prems by (simp_all add: apply_event_def apply_live_chained)
  from Cons.IH [OF step(1,2)] Cons.prems(3) step(3) show ?case by (simp add: engine_run_def end_id_def)
qed (simp add: engine_run_def end_id_def)

lemma live_row_bids:
  assumes "engine_wf e" and "be_state e = LIVE" and "be_last_applied_id e = Some t"
  obtains row where "build_snapshot_row e instr lns wns ems = Inr row" "row_last_applied_id row = t"
    "\<And>p. p \<in> fst ` set (row_bids row) \<Longrightarrow> p \<in> dom (fst (engine_book e))"
proof -
  obtain row where row: "build_snapshot_row e instr lns wns ems = Inr row"
    by (rule build_row_live [OF assms(1,2)])
  note r = engine_row_true [OF assms(1) row]
  have bids: "\<forall>(p, q) \<in> set (row_bids row). fst (engine_book e) p = Some q"
    using r(1) unfolding row_true_def by (simp split: prod.splits)
  show thesis
  proof (rule that [OF row])
    show "row_last_applied_id row = t" using r(2) assms(3) by simp
    show "\<And>p. p \<in> fst ` set (row_bids row) \<Longrightarrow> p \<in> dom (fst (engine_book e))" using bids by fastforce
  qed
qed

section \<open>Properties\<close>


text \<open>
  C11: the bids beyond the limit stay invisible. Let the engine load a snapshot with the best \<open>limit\<close>
  bids of the exchange and then apply any chained events of the exchange that mention none of the bids the snapshot left out. The
  engine ends live at the id of the last event, the exchange still has all of these bids, and the engine's bid
  side is that of the exchange without them; the row it builds shows none of them. So when the
  exchange is down to bids beyond the limit, the live engine builds rows without any bid.
\<close>

theorem snapshot_limit_exhausted:
  assumes "engine_wf e" and "be_state e \<noteq> LIVE" and "be_buffer e = []" and "limit_snapshot limit hist s"
    and "list_all (faithful_event hist) events" and "chained (last_update_id s) events"
    and "list_all (\<lambda>event. fst ` set (ev_bids event) \<inter> hidden_bids hist s = {}) events"
    and "e' = engine_run e (Load_Snapshot s # map Apply_Event events)" and "t = end_id (last_update_id s) events"
  shows "be_state e' = LIVE \<and> be_last_applied_id e' = Some t \<and> hidden_bids hist s \<subseteq> dom (fst (hist t)) \<and>
    fst (engine_book e') = fst (hist t) |` (- hidden_bids hist s) \<and>
    (\<exists>row. build_snapshot_row e' instr lns wns ems = Inr row \<and> row_last_applied_id row = t \<and>
       fst ` set (row_bids row) \<inter> hidden_bids hist s = {} \<and>
       (dom (fst (hist t)) \<subseteq> hidden_bids hist s \<longrightarrow> row_bids row = []))"
proof -
  obtain res e1 where load: "load_snapshot e s = Inr (res, e1)" and e1: "be_state e1 = LIVE"
    "be_last_applied_id e1 = Some (last_update_id s)" "engine_book e1 = snapshot_book s"
    using assms(2,3) by (simp add: load_snapshot_def survivors_def engine_book_def snapshot_book_def)
  have wf: "engine_wf e1" using load_snapshot_wf [OF assms(1) load] .
  have e': "e' = engine_run e1 (map Apply_Event events)" using load by (simp add: assms(8) engine_run_def)
  have live: "be_state e' = LIVE" "be_last_applied_id e' = Some t" "engine_book e' = foldl book_step (snapshot_book s) events"
    unfolding e' using events_applied [OF e1(1,2) assms(6)] e1(3) assms(9) by simp_all
  have "hidden_bids hist s \<subseteq> dom (fst (hist (last_update_id s)))" by (auto simp: hidden_bids_def)
  note kept = hidden_kept [OF assms(5-7) snapshot_hides [OF assms(4)] this, folded assms(9) live(3)]
  obtain row where row: "build_snapshot_row e' instr lns wns ems = Inr row" "row_last_applied_id row = t"
    "\<And>p. p \<in> fst ` set (row_bids row) \<Longrightarrow> p \<in> dom (fst (engine_book e'))"
    using live_row_bids [of e' t] live(1,2) engine_run_wf_from [OF wf] e' by metis
  have shown: "p \<in> dom (fst (hist t)) - hidden_bids hist s" if "p \<in> fst ` set (row_bids row)" for p
    using row(3) [OF that] kept by auto
  have "fst ` set (row_bids row) \<inter> hidden_bids hist s = {}" using shown by blast
  moreover have "row_bids row = []" if "dom (fst (hist t)) \<subseteq> hidden_bids hist s"
    using shown that by (cases "row_bids row") auto
  ultimately show ?thesis using live kept row(1,2) by blast
qed

section \<open>Witnesses\<close>

text \<open>An exchange with one bid at the id of the response, and a second one later.\<close>

definition demo_hist :: "int \<Rightarrow> book" where
  "demo_hist = (\<lambda>t. if t \<le> 7 then ([100 \<mapsto> 2], Map.empty) else ([100 \<mapsto> 2, 99 \<mapsto> 1], Map.empty))"

lemma demo_depth: "depth_response default_depth_limit whole demo_hist demo_snapshot"
  by (auto simp: depth_response_def limit_snapshot_def side_limit_def reaches_def default_depth_limit_def demo_hist_def
      demo_snapshot_def split: if_splits)


text \<open>Three bids, a limit of two, and an event that removes the two best.\<close>

definition falling_hist :: "int \<Rightarrow> book" where
  "falling_hist = (\<lambda>t. if t \<le> 7 then ([100 \<mapsto> 1, 99 \<mapsto> 1, 98 \<mapsto> 3], Map.empty) else ([98 \<mapsto> 3], Map.empty))"

definition falling_snapshot :: snapshot_event where
  "falling_snapshot = \<lparr>last_update_id = 7, sn_bids = [(100, 1), (99, 1)], sn_asks = []\<rparr>"

definition falling_event :: diff_event where
  "falling_event = \<lparr>prev_id = 7, final_id = 8, ev_bids = [(100, 0), (99, 0)], ev_asks = []\<rparr>"

lemma falling_facts:
  "limit_snapshot 2 falling_hist falling_snapshot" "faithful_event falling_hist falling_event"
  "hidden_bids falling_hist falling_snapshot = {98}"
proof -
  show "limit_snapshot 2 falling_hist falling_snapshot"
    by (auto simp: limit_snapshot_def side_limit_def falling_hist_def falling_snapshot_def split: if_splits)
  have "overlay [100 \<mapsto> 1, 99 \<mapsto> 1, 98 \<mapsto> 3] [(100, 0), (99, 0)] = [98 \<mapsto> (3 :: decimal)]"
    by (auto simp: overlay_Cons fun_eq_iff)
  then show "faithful_event falling_hist falling_event"
    by (auto simp: faithful_event_def falling_hist_def falling_event_def book_step_def)
  show "hidden_bids falling_hist falling_snapshot = {98}"
    by (auto simp: hidden_bids_def falling_hist_def falling_snapshot_def split: if_splits)
qed

lemma falling_bids: "fst (falling_hist 8) 98 = Some 3" "dom (fst (falling_hist 8)) \<subseteq> {98}"
  by (simp_all add: falling_hist_def)

lemma snapshot_limit_exhausted_witness:
  "fst (falling_hist 8) 98 = Some 3 \<and>
   be_state (engine_run (new_engine 20) [Load_Snapshot falling_snapshot, Apply_Event falling_event]) = LIVE \<and>
   (\<exists>row. build_snapshot_row (engine_run (new_engine 20) [Load_Snapshot falling_snapshot, Apply_Event falling_event])
        \<lparr>exchange = ''binance'', symbol = ''BTCUSDT''\<rparr> 1 2 None = Inr row \<and> row_last_applied_id row = 8 \<and> row_bids row = [])"
proof -
  have "be_state (new_engine 20) \<noteq> LIVE" "be_buffer (new_engine 20) = []" by (simp_all add: new_engine_def)
  moreover have "list_all (faithful_event falling_hist) [falling_event]" using falling_facts(2) by simp
  moreover have "chained (last_update_id falling_snapshot) [falling_event]"
    by (simp add: falling_snapshot_def falling_event_def)
  moreover have "list_all (\<lambda>event. fst ` set (ev_bids event) \<inter> hidden_bids falling_hist falling_snapshot = {}) [falling_event]"
    by (simp add: falling_facts(3) falling_event_def)
  moreover have "8 = end_id (last_update_id falling_snapshot) [falling_event]" by (simp add: end_id_def falling_event_def)
  moreover have "engine_run (new_engine 20) [Load_Snapshot falling_snapshot, Apply_Event falling_event] =
      engine_run (new_engine 20) (Load_Snapshot falling_snapshot # map Apply_Event [falling_event])" by simp
  ultimately show ?thesis
    using snapshot_limit_exhausted [OF new_engine_wf, of 20 2 falling_hist falling_snapshot "[falling_event]" _ 8
        "\<lparr>exchange = ''binance'', symbol = ''BTCUSDT''\<rparr>" 1 2 None] falling_facts(1,3) falling_bids
    by blast
qed

end
