(* ===== verification/AppProps.thy ===== *)
theory AppProps
  imports App CutSnapshot
begin

text \<open>
  What the composition inherits from its parts: supervisor and sink run as they do alone, and every
  row that reaches a file is true, across restarts of the feeds.
\<close>

section \<open>The parts run as they do alone\<close>

fun feed_crash :: "string \<Rightarrow> pipe_event \<Rightarrow> seconds list" where
  "feed_crash name (Factory_Raises n now) = (if n = name then [now] else [])"
| "feed_crash name (Run_Raises n now) = (if n = name then [now] else [])"
| "feed_crash name _ = []"

definition feed_crashes :: "string \<Rightarrow> pipe_event list \<Rightarrow> seconds list" where
  "feed_crashes name evs = concat (map (feed_crash name) evs)"

lemma put_simps [simp]:
  "pl_supervisor (put_slot i sl pl) = pl_supervisor pl" "pl_sink (put_slot i sl pl) = pl_sink pl"
  "pl_sink_cancel (put_slot i sl pl) = pl_sink_cancel pl" "pl_slots (put_slot i sl pl) = (pl_slots pl)[i := sl]"
  "pl_supervisor (put_queue queue pl) = pl_supervisor pl" "pl_slots (put_queue queue pl) = pl_slots pl"
  "pl_sink_cancel (put_queue queue pl) = pl_sink_cancel pl"
  "pl_supervisor (cancel_tasks pl) = pl_supervisor pl" "pl_sink (cancel_tasks pl) = pl_sink pl"
  "length (pl_slots (cancel_tasks pl)) = length (pl_slots pl)"
  "pl_sink (put_queue queue (put_slot i sl pl)) = pl_sink (put_queue queue pl)"
  by (simp_all add: put_slot_def put_queue_def cancel_tasks_def split: option.splits)

lemma step_supervisor:
  assumes "pipe_step pa pl ev pl'"
  shows "pl_supervisor pl' = pl_supervisor pl \<and> (\<forall>name. feed_crash name ev = []) \<or>
    (\<exists>sev. sup_step (pl_supervisor pl) sev (pl_supervisor pl') \<and> (\<forall>name. crash_times name [sev] = feed_crash name ev))"
  using assms
proof cases
  case (sink_returns e s)
  then show ?thesis by (cases e) fastforce+
qed fastforce+

lemma run_supervisor:
  assumes "pipe_run pa pl evs got pl'"
  shows "\<exists>sevs. sup_run (pl_supervisor pl) sevs (pl_supervisor pl') \<and>
    (\<forall>name. crash_times name sevs = feed_crashes name evs)"
  using assms
proof induction
  case start
  show ?case by (intro exI [of _ "[]"]) (simp add: sup_run.start feed_crashes_def)
next
  case (snoc evs got pl1 ev pl2)
  then obtain sevs where s: "sup_run (pl_supervisor pl) sevs (pl_supervisor pl1)"
    "\<forall>name. crash_times name sevs = feed_crashes name evs" by blast
  from step_supervisor [OF snoc.hyps(2)] show ?case
  proof
    assume "\<exists>sev. sup_step (pl_supervisor pl1) sev (pl_supervisor pl2) \<and> (\<forall>name. crash_times name [sev] = feed_crash name ev)"
    then obtain sev where "sup_step (pl_supervisor pl1) sev (pl_supervisor pl2)" "\<forall>name. crash_times name [sev] = feed_crash name ev"
      by blast
    with s show ?thesis
      by (intro exI [of _ "sevs @ [sev]"]) (simp add: sup_run.snoc crash_times_snoc feed_crashes_def)
  qed (use s in \<open>auto simp: feed_crashes_def\<close>)
qed

lemma sink_exec_snoc:
  assumes "sink_exec pa evs r = Some (got, r1)" and "sink_next pa ev r1 = Some r2"
  shows "sink_exec pa (evs @ [ev]) r = Some (got @ taken_by ev r1, r2)"
  using assms by (induction evs arbitrary: r got) (auto split: option.splits)

text \<open>A step of a client is for the sink nothing or one row put.\<close>

lemma put_queue_adds:
  assumes "adds_own exch name (Some (pl_queue pl)) queue"
  shows "pl_sink (put_queue queue pl) = pl_sink pl \<or>
    (\<exists>row. own_row exch name row \<and> sink_next pa (Feed_Puts row) (pl_sink pl) = Some (pl_sink (put_queue queue pl)))"
  using assms by (auto simp: adds_own_def put_queue_def)

lemma binance_move_adds:
  assumes "binance_step (c\<lparr>bc_queue := Some q\<rparr>) ev c'" and "binance_own ev"
  shows "adds_own ''binance'' (bc_symbol c) (Some q) (bc_queue c')" "bc_symbol c' = bc_symbol c"
proof -
  have "\<forall>row. ev \<noteq> Sink_Takes row \<and> ev \<noteq> Other_Puts row" using assms(2) by auto
  from binance_step_adds [OF assms(1) this]
  show "adds_own ''binance'' (bc_symbol c) (Some q) (bc_queue c')" "bc_symbol c' = bc_symbol c"
    by (simp_all add: binance_adds_def)
qed

lemma okx_move_adds:
  assumes "okx_next (c\<lparr>oc_queue := Some q\<rparr>) ev = Some c'" and "okx_own ev"
  shows "adds_own ''okx'' (oc_symbol c) (Some q) (oc_queue c')" "oc_symbol c' = oc_symbol c"
proof -
  have "\<forall>row. ev \<noteq> Row_Taken row \<and> ev \<noteq> Row_Put row" using assms(2) by auto
  from okx_next_adds [OF assms(1) this]
  show "adds_own ''okx'' (oc_symbol c) (Some q) (oc_queue c')" "oc_symbol c' = oc_symbol c"
    by (simp_all add: okx_adds_def)
qed

lemma step_sink:
  assumes "pipe_step pa pl ev pl'"
  shows "pl_sink pl' = pl_sink pl \<and> rows_taken ev pl = [] \<or>
    (\<exists>sev. sink_next pa sev (pl_sink pl) = Some (pl_sink pl') \<and> rows_taken ev pl = taken_by sev (pl_sink pl))"
  using assms
proof cases
  case (binance_moves i sl c ev c')
  from put_queue_adds [OF binance_move_adds(1) [OF binance_moves(9,7)], of pa]
  show ?thesis unfolding binance_moves(1,2) by (auto simp: taken_by_def simp del: sink_next.simps intro: exI [of _ "Feed_Puts _"])
next
  case (okx_moves i sl c ev c')
  from put_queue_adds [OF okx_move_adds(1) [OF okx_moves(9,7)], of pa]
  show ?thesis unfolding okx_moves(1,2) by (auto simp: taken_by_def simp del: sink_next.simps intro: exI [of _ "Feed_Puts _"])
qed auto

section \<open>Every row is true\<close>

text \<open>
  The histories of the exchanges' books, by exchange and symbol, and the range of prices that the depth
  responses for a Binance symbol reach over. OKX pushes its books whole.
\<close>

type_synonym histories = "string \<Rightarrow> string \<Rightarrow> int \<Rightarrow> book"

type_synonym ranges = "string \<Rightarrow> price_range"

definition range_of :: "ranges \<Rightarrow> string \<Rightarrow> string \<Rightarrow> price_range" where
  "range_of R exch name = (if exch = ''binance'' then R name else whole)"

lemma range_of_simps [simp]: "range_of R ''binance'' name = R name" "range_of R ''okx'' name = whole"
  by (simp_all add: range_of_def)

definition listed :: "exchange_config list \<Rightarrow> string \<Rightarrow> string \<Rightarrow> bool" where
  "listed es exch name \<longleftrightarrow> (\<exists>e\<in>set es. ec_name e = JStr exch \<and> first_symbol e = Inr (JStr name))"

definition true_row :: "histories \<Rightarrow> ranges \<Rightarrow> exchange_config list \<Rightarrow> snapshot_row \<Rightarrow> bool" where
  "true_row H R es row \<longleftrightarrow>
     listed es (row_exchange row) (row_symbol row) \<and>
     row_cut_true (range_of R (row_exchange row) (row_symbol row)) (H (row_exchange row) (row_symbol row)) row"

definition true_queue :: "histories \<Rightarrow> ranges \<Rightarrow> exchange_config list \<Rightarrow> row_queue \<Rightarrow> bool" where
  "true_queue H R es q \<longleftrightarrow> queue_wf q \<and> list_all (true_row H R es) (rq_items q)"

text \<open>The client of a slot is of its exchange and symbol, and keeps the invariant of its module.\<close>

fun client_ok :: "histories \<Rightarrow> ranges \<Rightarrow> exchange_config \<Rightarrow> feed_client \<Rightarrow> bool" where
  "client_ok H R e (Binance_Feed c) \<longleftrightarrow>
     ec_name e = JStr ''binance'' \<and> first_symbol e = Inr (JStr (bc_symbol c)) \<and>
     binance_ok (cut_good (R (bc_symbol c)) (H ''binance'' (bc_symbol c))) (\<lambda>_. True) (c\<lparr>bc_queue := None\<rparr>)"
| "client_ok H R e (Okx_Feed c) \<longleftrightarrow>
     ec_name e = JStr ''okx'' \<and> first_symbol e = Inr (JStr (oc_symbol c)) \<and>
     okx_ok (replica_good (H ''okx'' (oc_symbol c))) (\<lambda>_. True) (c\<lparr>oc_queue := None\<rparr>)"

definition slot_ok :: "histories \<Rightarrow> ranges \<Rightarrow> feed_slot \<Rightarrow> bool" where
  "slot_ok H R sl \<longleftrightarrow>
     (case sl_current sl of
        None \<Rightarrow> \<exists>depth. sl_engine sl = new_engine depth
      | Some c \<Rightarrow> client_ok H R (sl_exchange sl) c)"

definition pipe_ok :: "histories \<Rightarrow> ranges \<Rightarrow> 'a pipeline \<Rightarrow> bool" where
  "pipe_ok H R pl \<longleftrightarrow> true_queue H R (map sl_exchange (pl_slots pl)) (pl_queue pl) \<and> list_all (slot_ok H R) (pl_slots pl)"

text \<open>What the exchanges send to the client of a slot is theirs; the configuration says whose.\<close>

fun pipe_carries :: "histories \<Rightarrow> ranges \<Rightarrow> exchange_config list \<Rightarrow> pipe_event \<Rightarrow> bool" where
  "pipe_carries H R es (Binance_Moves i ev) \<longleftrightarrow>
     (\<forall>name. first_symbol (es ! i) = Inr (JStr name) \<longrightarrow>
        binance_carries (faithful_event (H ''binance'' name)) (depth_response default_depth_limit (R name) (H ''binance'' name)) (\<lambda>_. True) ev)"
| "pipe_carries H R es (Okx_Moves i ev) \<longleftrightarrow>
     (\<forall>name. first_symbol (es ! i) = Inr (JStr name) \<longrightarrow>
        okx_carries (faithful_event (H ''okx'' name)) (faithful_snapshot (H ''okx'' name)) (\<lambda>_. True) ev)"
| "pipe_carries H R es _ \<longleftrightarrow> True"

lemma binance_queue_apart:
  "binance_ok good row_ok (c\<lparr>bc_queue := queue\<rparr>) \<longleftrightarrow>
     binance_ok good (\<lambda>_. True) (c\<lparr>bc_queue := None\<rparr>) \<and> queue_ok row_ok queue"
  by (auto simp: binance_ok_def not_forgotten_def queue_ok_def)

lemma okx_queue_apart:
  "okx_ok good row_ok (c\<lparr>oc_queue := queue\<rparr>) \<longleftrightarrow>
     okx_ok good (\<lambda>_. True) (c\<lparr>oc_queue := None\<rparr>) \<and> queue_ok row_ok queue"
  by (auto simp: okx_ok_def queue_ok_def)

lemma own_carries:
  "binance_own ev \<Longrightarrow> binance_carries a b (\<lambda>_. True) ev \<Longrightarrow> binance_carries a b row_ok ev"
  "okx_own ev' \<Longrightarrow> okx_carries a b (\<lambda>_. True) ev' \<Longrightarrow> okx_carries a b row_ok ev'"
  by (cases ev; simp) (cases ev'; simp)

text \<open>A true queue is good for any client, and a client's own true rows keep it true.\<close>

lemma true_queue_ok: "true_queue H R es q \<Longrightarrow> queue_ok (own_row_cut exch name (range_of R exch name) (H exch name)) (Some q)"
  by (auto simp: true_queue_def queue_ok_def own_row_cut_def true_row_def list_all_iff)

lemma true_queue_adds:
  assumes "true_queue H R es q" and "adds_own exch name (Some q) queue" and "listed es exch name"
    and "queue_ok (own_row_cut exch name (range_of R exch name) (H exch name)) queue"
  shows "\<exists>q'. queue = Some q' \<and> true_queue H R es q'"
proof -
  consider "queue = Some q" | row where "own_row exch name row" "queue = Some (snd (put q row))"
    using assms(2) by (auto simp: adds_own_def)
  then show ?thesis
  proof cases
    case (2 row)
    have "true_row H R es r" if r: "r \<in> set (rq_items (snd (put q row)))" for r
    proof (cases "r = row")
      case True
      with r 2 assms(3,4) show ?thesis by (auto simp: queue_ok_def list_all_iff own_row_cut_def own_row_def true_row_def)
    next
      case False
      with r put_rows [of q row] assms(1) show ?thesis by (auto simp: true_queue_def list_all_iff)
    qed
    with 2 assms(4) show ?thesis by (auto simp: true_queue_def queue_ok_def list_all_iff)
  qed (use assms(1) in simp)
qed

lemma binance_move_ok:
  assumes "true_queue H R es q" and "e \<in> set es" and "client_ok H R e (Binance_Feed c)"
    and "binance_step (c\<lparr>bc_queue := Some q\<rparr>) ev c'" and "binance_own ev"
    and "\<forall>name. first_symbol e = Inr (JStr name) \<longrightarrow>
      binance_carries (faithful_event (H ''binance'' name)) (depth_response default_depth_limit (R name) (H ''binance'' name)) (\<lambda>_. True) ev"
  shows "client_ok H R e (Binance_Feed c')" and "\<exists>q'. bc_queue c' = Some q' \<and> true_queue H R es q'"
proof -
  let ?h = "H ''binance'' (bc_symbol c)" and ?r = "R (bc_symbol c)" and ?own = "own_row_cut ''binance'' (bc_symbol c) (R (bc_symbol c)) (H ''binance'' (bc_symbol c))"
  have e: "ec_name e = JStr ''binance''" "first_symbol e = Inr (JStr (bc_symbol c))"
    and inv: "binance_ok (cut_good ?r ?h) ?own (c\<lparr>bc_queue := Some q\<rparr>)"
    using assms(1,3) true_queue_ok [of H R es q "''binance''"] by (simp_all add: binance_queue_apart [where c = c and queue = "Some q"])
  have "binance_carries (faithful_event ?h) (cut_snapshot ?r ?h) ?own ev"
    using own_carries(1) [OF assms(5)] assms(6) e(2) by (blast intro: binance_carries_mono depth_response_cut)
  from cut_feed.binance_step_keeps [OF assms(4) inv this]
  have inv': "binance_ok (cut_good ?r ?h) (\<lambda>_. True) (c'\<lparr>bc_queue := None\<rparr>)" and q': "queue_ok ?own (bc_queue c')"
    using binance_queue_apart [where good = "cut_good ?r ?h" and row_ok = ?own and c = c' and queue = "bc_queue c'"] by simp_all
  show "client_ok H R e (Binance_Feed c')"
    using inv' e binance_move_adds(2) [OF assms(4,5)] by simp
  show "\<exists>q'. bc_queue c' = Some q' \<and> true_queue H R es q'"
    by (rule true_queue_adds [OF assms(1) binance_move_adds(1) [OF assms(4,5)]])
      (use e assms(2) q' in \<open>auto simp: listed_def\<close>)
qed

lemma okx_move_ok:
  assumes "true_queue H R es q" and "e \<in> set es" and "client_ok H R e (Okx_Feed c)"
    and "okx_next (c\<lparr>oc_queue := Some q\<rparr>) ev = Some c'" and "okx_own ev"
    and "\<forall>name. first_symbol e = Inr (JStr name) \<longrightarrow>
      okx_carries (faithful_event (H ''okx'' name)) (faithful_snapshot (H ''okx'' name)) (\<lambda>_. True) ev"
  shows "client_ok H R e (Okx_Feed c')" and "\<exists>q'. oc_queue c' = Some q' \<and> true_queue H R es q'"
proof -
  let ?h = "H ''okx'' (oc_symbol c)" and ?own = "own_row_true ''okx'' (oc_symbol c) (H ''okx'' (oc_symbol c))"
  have e: "ec_name e = JStr ''okx''" "first_symbol e = Inr (JStr (oc_symbol c))"
    and inv: "okx_ok (replica_good ?h) ?own (c\<lparr>oc_queue := Some q\<rparr>)"
    using assms(1,3) true_queue_ok [of H R es q "''okx''"] by (simp_all add: own_row_cut_whole okx_queue_apart [where c = c and queue = "Some q"])
  have "okx_carries (faithful_event ?h) (faithful_snapshot ?h) ?own ev"
    using own_carries(2) [OF assms(5)] assms(6) e(2) by blast
  from shared.okx_step_keeps [OF assms(4) inv this]
  have inv': "okx_ok (replica_good ?h) (\<lambda>_. True) (c'\<lparr>oc_queue := None\<rparr>)" and q': "queue_ok ?own (oc_queue c')"
    using okx_queue_apart [where good = "replica_good ?h" and row_ok = ?own and c = c' and queue = "oc_queue c'"] by simp_all
  show "client_ok H R e (Okx_Feed c')"
    using inv' e okx_move_adds(2) [OF assms(4,5)] by simp
  show "\<exists>q'. oc_queue c' = Some q' \<and> true_queue H R es q'"
    by (rule true_queue_adds [OF assms(1) okx_move_adds(1) [OF assms(4,5)]])
      (use e assms(2) q' in \<open>auto simp: listed_def own_row_cut_whole\<close>)
qed

text \<open>A restart keeps the engine of the slot, and the new client starts from it.\<close>

lemma slot_engine_good:
  assumes "slot_ok H R sl" and "first_symbol (sl_exchange sl) = Inr (JStr name)"
  shows "ec_name (sl_exchange sl) = JStr ''binance'' \<Longrightarrow> cut_good (R name) (H ''binance'' name) (slot_engine sl)"
    and "ec_name (sl_exchange sl) = JStr ''okx'' \<Longrightarrow> replica_good (H ''okx'' name) (slot_engine sl)"
proof -
  have none: "cut_good (R name) (H ''binance'' name) (slot_engine sl)" "replica_good (H ''okx'' name) (slot_engine sl)"
    if "sl_current sl = None"
    using assms(1) that by (auto simp: slot_ok_def slot_engine_def fresh_cut fresh_good)
  have some: "client_ok H R (sl_exchange sl) c \<and> slot_engine sl = (case c of Binance_Feed c \<Rightarrow> bc_engine c | Okx_Feed c \<Rightarrow> oc_engine c)"
    if "sl_current sl = Some c" for c
    using assms(1) that by (cases c) (simp_all add: slot_ok_def slot_engine_def)
  show "ec_name (sl_exchange sl) = JStr ''binance'' \<Longrightarrow> cut_good (R name) (H ''binance'' name) (slot_engine sl)"
    and "ec_name (sl_exchange sl) = JStr ''okx'' \<Longrightarrow> replica_good (H ''okx'' name) (slot_engine sl)"
    using none some assms(2)
    by (cases "sl_current sl"; fastforce simp: binance_ok_def okx_ok_def split: feed_client.splits)+
qed

lemma build_client_ok:
  assumes "slot_ok H R sl" and "build_client (sl_exchange sl) (slot_engine sl) q r now = Some (Inr c)"
  shows "client_ok H R (sl_exchange sl) c"
proof -
  obtain name where name: "first_symbol (sl_exchange sl) = Inr (JStr name)"
      "client_for (sl_exchange sl) name (slot_engine sl) q r now = Inr c"
    using assms(2) by (auto simp: build_client_def split: sum.splits json.splits)
  note good = slot_engine_good [OF assms(1) name(1)]
  consider "ec_name (sl_exchange sl) = JStr ''binance''" | "ec_name (sl_exchange sl) = JStr ''okx''"
    using name(2) by (auto simp: client_for_def split: if_splits)
  then show ?thesis
  proof cases
    case 1
    with good(1) have "cut_good (R name) (H ''binance'' name) (slot_engine sl)" by simp
    from cut_feed.new_binance_ok [OF this, of "''binance''" name None] 1 name show ?thesis
      by (auto simp: client_for_def queue_ok_def new_binance_client_def binance_ok_def not_forgotten_def)
  next
    case 2
    with good(2) have "replica_good (H ''okx'' name) (slot_engine sl)" by simp
    with 2 name show ?thesis
      by (auto simp: client_for_def queue_ok_def new_okx_client_def okx_ok_def)
  qed
qed

lemma slots_put:
  "list_all P xs \<Longrightarrow> P x \<Longrightarrow> list_all P (xs[i := x])"
  by (auto simp: list_all_iff dest: set_update_subset_insert [THEN subsetD])

lemma put_queue_true:
  "\<exists>q'. queue = Some q' \<and> true_queue H R es q' \<Longrightarrow> true_queue H R es (pl_queue (put_queue queue pl))"
  by (auto simp: put_queue_def)

lemma true_queue_get:
  assumes "true_queue H R es q" and "RowQueue.get q = Some (row, q')"
  shows "true_row H R es row \<and> true_queue H R es q'"
  using queue_ok_get [of "true_row H R es" q row q'] assms by (auto simp: true_queue_def queue_ok_def)

lemma sink_next_true:
  assumes "sink_next pa ev r = Some r1" and "\<forall>row. ev \<noteq> Feed_Puts row" and "true_queue H R es (ps_queue (sr_sink r))"
  shows "true_queue H R es (ps_queue (sr_sink r1)) \<and> list_all (true_row H R es) (taken_by ev r)"
  using sink_next_queue [OF assms(1,2)] true_queue_get [OF assms(3)] assms(3) by auto

lemma factory_slot_at:
  assumes "at_slot pl name i sl"
  shows "i < length (pl_slots pl)" "pl_slots pl ! i = sl" "slot_named name sl"
proof -
  have "i \<in> set (rev (filter (\<lambda>i. slot_named name (pl_slots pl ! i)) [0..<length (pl_slots pl)]))"
    using assms by (cases "rev (filter (\<lambda>i. slot_named name (pl_slots pl ! i)) [0..<length (pl_slots pl)])")
      (simp_all add: at_slot_def factory_slot_def)
  then show "i < length (pl_slots pl)" "pl_slots pl ! i = sl" "slot_named name sl"
    using assms by (auto simp: at_slot_def)
qed

lemma at_slot_ok: "pipe_ok H R pl \<Longrightarrow> at_slot pl name i sl \<Longrightarrow> slot_ok H R sl"
  using factory_slot_at [of pl name i sl] by (auto simp: pipe_ok_def list_all_length)

lemma slot_ok_flags [simp]:
  "slot_ok H R (sl\<lparr>sl_in_run := b\<rparr>) = slot_ok H R sl" "slot_ok H R (sl\<lparr>sl_cancel := b\<rparr>) = slot_ok H R sl"
  by (simp_all add: slot_ok_def split: option.split)

lemma ask_cancel_flags: "\<exists>b. ask_cancel s slots i = (slots ! i)\<lparr>sl_cancel := b\<rparr>"
proof -
  have "\<exists>b. slots ! i = (slots ! i)\<lparr>sl_cancel := b\<rparr>" by (rule exI [of _ "sl_cancel (slots ! i)"]) simp
  then show ?thesis by (auto simp: ask_cancel_def Let_def split: json.splits)
qed

lemma pipe_step_ok:
  assumes "pipe_step pa pl ev pl'" and "pipe_ok H R pl" and "pipe_carries H R (map sl_exchange (pl_slots pl)) ev"
  shows "pipe_ok H R pl' \<and> map sl_exchange (pl_slots pl') = map sl_exchange (pl_slots pl)"
proof -
  let ?es = "map sl_exchange (pl_slots pl)"
  have q: "true_queue H R ?es (pl_queue pl)" and slots: "list_all (slot_ok H R) (pl_slots pl)"
    using assms(2) by (simp_all add: pipe_ok_def)
  have put_ok: "list_all (slot_ok H R) ((pl_slots pl)[i := sl']) \<and>
      map sl_exchange ((pl_slots pl)[i := sl']) = map sl_exchange (pl_slots pl)"
    if "slot_ok H R sl'" "i < length (pl_slots pl)" "sl_exchange sl' = sl_exchange (pl_slots pl ! i)" for i sl'
    using slots_put [OF slots that(1)] that(2,3) by (simp add: map_update) (metis list_update_id map_update)
  from assms(1) show ?thesis
  proof cases
    case (factory_called name i sl r now c)
    note at = factory_slot_at [OF factory_called(3)]
    have "slot_ok H R (sl\<lparr>sl_current := Some c, sl_in_run := True\<rparr>)"
      using build_client_ok [OF at_slot_ok [OF assms(2) factory_called(3)] factory_called(7)] by (simp add: slot_ok_def)
    from put_ok [OF this at(1)] at(2) q show ?thesis by (simp add: factory_called pipe_ok_def)
  next
    case (run_raises name i sl c err now s)
    note at = factory_slot_at [OF run_raises(3)]
    have "slot_ok H R (sl\<lparr>sl_in_run := False\<rparr>)" using at_slot_ok [OF assms(2) run_raises(3)] by simp
    from put_ok [OF this at(1)] at(2) q show ?thesis by (simp add: run_raises(2) pipe_ok_def)
  next
    case (run_is_cancelled name i sl c s)
    note at = factory_slot_at [OF run_is_cancelled(3)]
    have "slot_ok H R (sl\<lparr>sl_in_run := False\<rparr>)" using at_slot_ok [OF assms(2) run_is_cancelled(3)] by simp
    from put_ok [OF this at(1)] at(2) q show ?thesis by (simp add: run_is_cancelled(2) pipe_ok_def)
  next
    case (idle_is_cancelled name i sl s)
    note at = factory_slot_at [OF idle_is_cancelled(3)]
    have "slot_ok H R (sl\<lparr>sl_cancel := False\<rparr>)" using at_slot_ok [OF assms(2) idle_is_cancelled(3)] by simp
    from put_ok [OF this at(1)] at(2) q show ?thesis by (simp add: idle_is_cancelled(2) pipe_ok_def)
  next
    case (binance_moves i sl c ev c')
    have "client_ok H R (sl_exchange sl) (Binance_Feed c)"
      using slots binance_moves(3,4,6) by (auto simp: list_all_length slot_ok_def)
    moreover have "sl_exchange sl \<in> set ?es" using binance_moves(3,4) by (auto intro!: imageI nth_mem)
    moreover have "\<forall>name. first_symbol (sl_exchange sl) = Inr (JStr name) \<longrightarrow>
        binance_carries (faithful_event (H ''binance'' name)) (depth_response default_depth_limit (R name) (H ''binance'' name)) (\<lambda>_. True) ev"
      using assms(3) binance_moves(1,3,4) by auto
    ultimately have "client_ok H R (sl_exchange sl) (Binance_Feed c')" "\<exists>q'. bc_queue c' = Some q' \<and> true_queue H R ?es q'"
      using binance_move_ok [OF q _ _ binance_moves(9,7)] by blast+
    moreover from this(1) have "slot_ok H R (sl\<lparr>sl_current := Some (Binance_Feed c'), sl_cancel := sl_cancel sl \<and> ev \<noteq> Cancel_Run\<rparr>)"
      by (simp add: slot_ok_def)
    ultimately show ?thesis
      using put_ok [of "sl\<lparr>sl_current := Some (Binance_Feed c'), sl_cancel := sl_cancel sl \<and> ev \<noteq> Cancel_Run\<rparr>" i]
        binance_moves(3,4) put_queue_true by (simp add: binance_moves(2) pipe_ok_def)
  next
    case (okx_moves i sl c ev c')
    have "client_ok H R (sl_exchange sl) (Okx_Feed c)"
      using slots okx_moves(3,4,6) by (auto simp: list_all_length slot_ok_def)
    moreover have "sl_exchange sl \<in> set ?es" using okx_moves(3,4) by (auto intro!: imageI nth_mem)
    moreover have "\<forall>name. first_symbol (sl_exchange sl) = Inr (JStr name) \<longrightarrow>
        okx_carries (faithful_event (H ''okx'' name)) (faithful_snapshot (H ''okx'' name)) (\<lambda>_. True) ev"
      using assms(3) okx_moves(1,3,4) by auto
    ultimately have "client_ok H R (sl_exchange sl) (Okx_Feed c')" "\<exists>q'. oc_queue c' = Some q' \<and> true_queue H R ?es q'"
      using okx_move_ok [OF q _ _ okx_moves(9,7)] by blast+
    moreover from this(1) have "slot_ok H R (sl\<lparr>sl_current := Some (Okx_Feed c'), sl_cancel := sl_cancel sl \<and> ev \<noteq> Run_Cancelled\<rparr>)"
      by (simp add: slot_ok_def)
    ultimately show ?thesis
      using put_ok [of "sl\<lparr>sl_current := Some (Okx_Feed c'), sl_cancel := sl_cancel sl \<and> ev \<noteq> Run_Cancelled\<rparr>" i]
        okx_moves(3,4) put_queue_true by (simp add: okx_moves(2) pipe_ok_def)
  next
    case (sink_moves ev r)
    with sink_next_true [OF sink_moves(5,3) q] slots show ?thesis by (simp add: pipe_ok_def)
  next
    case (shutdown_begins s)
    have "slot_ok H R (ask_cancel (pl_supervisor pl) (pl_slots pl) i) \<and>
        sl_exchange (ask_cancel (pl_supervisor pl) (pl_slots pl) i) = sl_exchange (pl_slots pl ! i)" if "i < length (pl_slots pl)" for i
      using ask_cancel_flags [of "pl_supervisor pl" "pl_slots pl" i] slots that by (auto simp: list_all_length)
    moreover from this have "map sl_exchange (map (ask_cancel (pl_supervisor pl) (pl_slots pl)) [0..<length (pl_slots pl)]) = ?es"
      by (auto intro: nth_equalityI)
    ultimately show ?thesis
      using q by (auto simp: shutdown_begins(2) pipe_ok_def cancel_tasks_def list_all_length simp del: map_map)
  qed (use q slots in \<open>simp_all add: pipe_ok_def\<close>)
qed

text \<open>The configuration of a slot never changes, so neither does the slot behind a name.\<close>

lemma step_exchanges:
  assumes "pipe_step pa pl ev pl'"
  shows "map sl_exchange (pl_slots pl') = map sl_exchange (pl_slots pl)"
proof -
  have put_ex: "map sl_exchange ((pl_slots pl)[i := sl']) = map sl_exchange (pl_slots pl)"
    if "i < length (pl_slots pl)" "sl_exchange sl' = sl_exchange (pl_slots pl ! i)" for i sl'
    using that by (simp add: map_update) (metis list_update_id map_update)
  have ask: "map sl_exchange (map (ask_cancel s (pl_slots pl)) [0..<length (pl_slots pl)]) = map sl_exchange (pl_slots pl)" for s
  proof (rule nth_equalityI)
    fix j assume "j < length (map sl_exchange (map (ask_cancel s (pl_slots pl)) [0..<length (pl_slots pl)]))"
    then show "map sl_exchange (map (ask_cancel s (pl_slots pl)) [0..<length (pl_slots pl)]) ! j = map sl_exchange (pl_slots pl) ! j"
      using ask_cancel_flags [of s "pl_slots pl" j] by auto
  qed simp
  from assms show ?thesis
    by cases (simp_all add: put_ex factory_slot_at ask cancel_tasks_def del: map_map)
qed

lemma factory_slot_cong:
  assumes "map sl_exchange xs = map sl_exchange ys"
  shows "factory_slot xs name = factory_slot ys name"
proof -
  have len: "length xs = length ys" using assms by (rule map_eq_imp_length_eq)
  have "slot_named name (xs ! i) = slot_named name (ys ! i)" if "i < length ys" for i
    using assms that len by (metis nth_map slot_named_def)
  then have "filter (\<lambda>i. slot_named name (xs ! i)) [0..<length xs] = filter (\<lambda>i. slot_named name (ys ! i)) [0..<length ys]"
    using len by (auto intro: filter_cong)
  then show ?thesis by (simp add: factory_slot_def)
qed

lemma rows_taken_true:
  assumes "pipe_step pa pl ev pl'" and "pipe_ok H R pl"
  shows "list_all (true_row H R (map sl_exchange (pl_slots pl))) (rows_taken ev pl)"
  using assms
proof cases
  case (sink_moves ev r)
  with sink_next_true [OF sink_moves(5,3)] assms(2) show ?thesis by (simp add: pipe_ok_def)
qed simp_all

lemma run_all_ok:
  assumes "pipe_run pa pl evs got pl'" and "pipe_ok H R pl" and "es = map sl_exchange (pl_slots pl)"
    and "list_all (pipe_carries H R es) evs"
  shows "pipe_ok H R pl' \<and> map sl_exchange (pl_slots pl') = es \<and> list_all (true_row H R es) got"
  using assms
proof induction
  case (snoc evs got pl1 ev pl2)
  then have "pipe_ok H R pl1" "map sl_exchange (pl_slots pl1) = es" "list_all (true_row H R es) got" "pipe_carries H R es ev"
    by simp_all
  with pipe_step_ok [OF snoc.hyps(2), of H] rows_taken_true [OF snoc.hyps(2), of H] show ?case by simp
qed simp

lemma run_sink:
  assumes "pipe_run pa pl evs got pl'"
  shows "\<exists>sevs. sink_exec pa sevs (pl_sink pl) = Some (got, pl_sink pl')"
  using assms
proof induction
  case start
  show ?case by (intro exI [of _ "[]"]) simp
next
  case (snoc evs got pl1 ev pl2)
  then obtain sevs where sevs: "sink_exec pa sevs (pl_sink pl) = Some (got, pl_sink pl1)" by blast
  from step_sink [OF snoc.hyps(2)] show ?case
  proof
    assume "\<exists>sev. sink_next pa sev (pl_sink pl1) = Some (pl_sink pl2) \<and> rows_taken ev pl1 = taken_by sev (pl_sink pl1)"
    then obtain sev where "sink_next pa sev (pl_sink pl1) = Some (pl_sink pl2)" "rows_taken ev pl1 = taken_by sev (pl_sink pl1)"
      by blast
    with sink_exec_snoc [OF sevs] show ?thesis by (intro exI [of _ "sevs @ [sev]"]) simp
  qed (use sevs in auto)
qed

section \<open>From the configuration on\<close>

lemma start_pipelineE:
  assumes "start_pipeline cfg r clock d = Some (Inr pl)"
  obtains maxsize depth s s1 where "int_value (out_queue_maxsize (cfg_output cfg)) = Some maxsize"
    "int_value (bk_depth_levels (cfg_book cfg)) = Some depth"
    "add_feeds (cfg_exchanges cfg) (set_sink (new_supervisor default_backoff_policy r default_max_restarts default_restart_window)) =
       Some (Inr s)" "run_start s = Inr s1"
    "pl = \<lparr>pl_slots = map (new_slot depth) (cfg_exchanges cfg), pl_supervisor = s1,
       pl_sink = start_run clock d (default_sink (new_row_queue maxsize) [out_parquet_dir (cfg_output cfg)] depth),
       pl_sink_cancel = False\<rparr>"
  using assms by (auto simp: start_pipeline_def bind_result_ok split: option.splits)

lemma start_ok:
  assumes "start_pipeline cfg r clock d = Some (Inr pl)"
  shows "pipe_ok H R pl" "map sl_exchange (pl_slots pl) = cfg_exchanges cfg"
proof -
  obtain maxsize depth s s1 where pl: "pl = \<lparr>pl_slots = map (new_slot depth) (cfg_exchanges cfg), pl_supervisor = s1,
       pl_sink = start_run clock d (default_sink (new_row_queue maxsize) [out_parquet_dir (cfg_output cfg)] depth),
       pl_sink_cancel = False\<rparr>"
    using start_pipelineE [OF assms] by metis
  have "slot_ok H R (new_slot depth e)" for e by (auto simp: slot_ok_def new_slot_def)
  then show "pipe_ok H R pl"
    using fresh_queue [of "true_row H R (cfg_exchanges cfg)" maxsize]
    by (simp add: pl pipe_ok_def true_queue_def queue_ok_def start_run_def default_sink_def new_sink_def list_all_iff
        new_slot_def comp_def)
  show "map sl_exchange (pl_slots pl) = cfg_exchanges cfg" by (simp add: pl new_slot_def comp_def)
qed


end
