(* ===== verification/AppClaims.thy ===== *)
theory AppClaims
  imports AppProps
begin

text \<open>Sample runs of the whole pipeline, and what a dead resync worker does to its shutdown.\<close>

section \<open>A run of the pipeline\<close>

text \<open>Runs of a client alone are runs of the pipeline while nothing else moves.\<close>

lemma put_put [simp]:
  "put_slot i sl2 (put_slot i sl1 pl) = put_slot i sl2 pl"
  "put_queue (Some q2) (put_queue queue pl) = put_queue (Some q2) pl"
  "put_slot i sl (put_queue queue pl) = put_queue queue (put_slot i sl pl)"
  "put_queue (Some (pl_queue pl)) pl = pl" "pl_queue (put_queue (Some q) pl) = q"
  by (simp_all add: put_slot_def put_queue_def split: option.splits)

lemma queue_given: "bc_queue c = queue \<Longrightarrow> c\<lparr>bc_queue := queue\<rparr> = c"
  by auto

lemma client_run_lifts:
  assumes "binance_run c evs c'" and "i < length (pl_slots pl)" and "pl_slots pl ! i = sl"
    and "sl_in_run sl" "sl_current sl = Some (Binance_Feed c)" "bc_queue c = Some (pl_queue pl)"
    and "list_all (\<lambda>ev. binance_own ev \<and> ev \<noteq> Cancel_Run) evs"
  shows "bc_queue c' \<noteq> None \<and> pipe_run pa pl (map (Binance_Moves i) evs) []
    (put_queue (bc_queue c') (put_slot i (sl\<lparr>sl_current := Some (Binance_Feed c')\<rparr>) pl))"
  using assms
proof (induction rule: binance_run.induct)
  case start
  then have "put_slot i (sl\<lparr>sl_current := Some (Binance_Feed c)\<rparr>) pl = pl"
    by (simp add: put_slot_def) (metis feed_slot.surjective feed_slot.update_convs(3) list_update_id pipeline.surjective pipeline.update_convs(1))
  with start show ?case by (simp add: pipe_run.start)
next
  case (snoc evs c1 ev c2)
  let ?pl = "put_queue (bc_queue c1) (put_slot i (sl\<lparr>sl_current := Some (Binance_Feed c1)\<rparr>) pl)"
  have own: "binance_own ev" "ev \<noteq> Cancel_Run" using snoc.prems(6) by simp_all
  from snoc obtain q1 where q1: "bc_queue c1 = Some q1" and run: "pipe_run pa pl (map (Binance_Moves i) evs) [] ?pl" by auto
  have "c1\<lparr>bc_queue := Some (pl_queue ?pl)\<rparr> = c1" by (rule queue_given) (simp add: q1)
  then have "binance_step (c1\<lparr>bc_queue := Some (pl_queue ?pl)\<rparr>) ev c2"
    using snoc.hyps(2) by (simp only:)
  note step = pipe_step.binance_moves [where pl = ?pl and i = i and pa = pa, OF _ refl _ _ own(1) _ this]
    and adds = binance_move_adds(1) [OF this own(1)]
  from adds obtain q2 where q2: "bc_queue c2 = Some q2"
    by (auto simp: adds_own_def)
  have "pipe_step pa ?pl (Binance_Moves i ev) (put_queue (bc_queue c2) (put_slot i (sl\<lparr>sl_current := Some (Binance_Feed c2)\<rparr>) pl))"
    using step snoc.prems own(2) q2 by simp
  from pipe_run.snoc [OF run this] q2 show ?case by simp
qed

lemma pipe_run_append:
  assumes "pipe_run pa pl evs got pl1" and "pipe_run pa pl1 evs' got' pl2"
  shows "pipe_run pa pl (evs @ evs') (got @ got') pl2"
  using assms(2)
proof induction
  case (snoc evs' got' pl1' ev pl2)
  from pipe_run.snoc [OF snoc.IH snoc.hyps(2)] show ?case by simp
qed (use assms(1) in simp)

definition demo_binance :: "row_queue \<Rightarrow> binance_client" where
  "demo_binance q = new_binance_client ''BTCUSDT'' (new_engine 1) binance_snapshot_retry_limit binance_http_retry_limit
     (int default_max_consecutive_reconnect_failures) default_backoff_policy (\<lambda>_. 0) (Some q) 0"

lemma demo_binance_getting:
  obtains c where "binance_run (demo_binance q) [Connect_Ok 1 0, Worker_Wakes 0] c" "bc_worker c = W_Getting 0 0"
    "bc_phase c = Reading 1" "be_buffer (bc_engine c) = []" "be_state (bc_engine c) = BUFFERING" "bc_queue c = Some q"
    "engine_wf (bc_engine c)" "bc_symbol c = ''BTCUSDT''"
proof -
  let ?c0 = "demo_binance q"
  let ?c1 = "on_connected ?c0 1 0"
  let ?c2 = "worker_wakes ?c1 0"
  have "binance_step ?c0 (Connect_Ok 1 0) ?c1" by (rule opens) (simp add: demo_binance_def new_binance_client_def)
  moreover have "binance_step ?c1 (Worker_Wakes 0) ?c2"
    by (rule Binance.wakes) (simp_all add: on_connected_def demo_binance_def new_binance_client_def bump_stat_def)
  ultimately have "binance_run ?c0 (([] @ [Connect_Ok 1 0]) @ [Worker_Wakes 0]) ?c2"
    by (blast intro: binance_run.snoc binance_run.start)
  moreover have "bc_worker ?c2 = W_Getting 0 0" "bc_phase ?c2 = Reading 1" "be_buffer (bc_engine ?c2) = []"
    "be_state (bc_engine ?c2) = BUFFERING" "bc_queue ?c2 = Some q" "bc_symbol ?c2 = ''BTCUSDT''"
    by (simp_all add: worker_wakes_def on_connected_def demo_binance_def new_binance_client_def bump_stat_def
        invalidate_def new_engine_def attempt_resync_def fetch_def time_until_available_def refill_def
        default_snapshot_bucket_def new_bucket_def issue_get_def binance_snapshot_retry_limit_def
        binance_http_retry_limit_def Let_def)
  moreover have "engine_wf (bc_engine ?c2)"
    by (simp add: invalidate_wf worker_wakes_def on_connected_def demo_binance_def new_binance_client_def Let_def)
  ultimately show thesis by (intro that [of ?c2]) simp_all
qed

lemma demo_binance_row:
  assumes "queue_wf q"
  obtains c row where "binance_run (demo_binance q) [Connect_Ok 1 0, Worker_Wakes 0, Get_Returns demo_response 5 0 0] c"
    "bc_queue c = Some (snd (put q row))" "row_exchange row = ''binance''" "row_symbol row = ''BTCUSDT''"
    "row_ts_wall_ns row = 0"
proof -
  obtain c where c: "binance_run (demo_binance q) [Connect_Ok 1 0, Worker_Wakes 0] c" "bc_worker c = W_Getting 0 0"
    "bc_phase c = Reading 1" "be_buffer (bc_engine c) = []" "be_state (bc_engine c) = BUFFERING" "bc_queue c = Some q"
    "engine_wf (bc_engine c)" "bc_symbol c = ''BTCUSDT''" by (rule demo_binance_getting)
  let ?c = "on_snapshot c 0 0 demo_snapshot 5 0"
  have "on_response c 0 0 0 demo_response 5 0 = Some ?c"
    by (simp add: on_response_def demo_response_def demo_parsed demo_finite)
  from binance_run.snoc [OF c(1) get_returns [OF c(2) this]]
  have run: "binance_run (demo_binance q) [Connect_Ok 1 0, Worker_Wakes 0, Get_Returns demo_response 5 0 0] ?c" by simp
  obtain e where e: "load_snapshot (bc_engine c) demo_snapshot = Inr (\<lparr>status = APPLIED, detail = None\<rparr>, e)" "be_state e = LIVE"
    using c(4,5) by (auto simp: load_snapshot_def survivors_def Let_def)
  obtain row where row: "build_snapshot_row e \<lparr>exchange = ''binance'', symbol = ''BTCUSDT''\<rparr> 5 0 None = Inr row"
    using build_row_live [OF load_snapshot_wf [OF c(7) e(1)] e(2)] by blast
  obtain evicted where "fst (put q row) = Inr evicted" using put_total [OF assms] by blast
  then have "bc_queue ?c = Some (snd (put q row))"
    using e row c(6,8) by (simp add: on_snapshot_def offer_def binance_instrument_def offer_row_def split_beta Let_def bump_stat_def split: sum.splits)
  moreover have "row_exchange row = ''binance''" "row_symbol row = ''BTCUSDT''" "row_ts_wall_ns row = 0"
    using row by (auto simp: build_snapshot_row_def split: option.splits prod.splits)
  ultimately show thesis using that run by blast
qed

text \<open>The sink, from a queue of one row to its graceful end.\<close>

lemma one_row_sink:
  assumes r0: "r0 = start_run still Map.empty (default_sink q dir depth)" and q: "rq_items q = [row]"
    and key: "hour_key_for (row_ts_wall_ns row) = Inr key"
      "partition_dir dir (row_exchange row) (row_symbol row) key = Inr directory"
      "rows_to_table pa [row] depth (build_schema depth) = Inr table"
  obtains r1 r2 r3 where "sink_next pa (Consumer_Starts still) r0 = Some r1" "sink_next pa (Row_Comes still) r1 = Some r2"
    "sink_next pa (Sink.Sink_Cancelled still) r2 = Some r3" "sr_end r3 = Some Cancelled"
    "taken_by (Consumer_Starts still) r0 = []" "taken_by (Row_Comes still) r1 = [row]"
proof -
  obtain r1 where r1: "sink_next pa (Consumer_Starts still) r0 = Some r1" "sr_end r1 = None"
      "sr_consumer r1 = Waits 5" "sr_disk r1 = Map.empty" "ps_queue (sr_sink r1) = q" "ps_buffer (sr_sink r1) = []"
      "ps_writers (sr_sink r1) = []" "ps_output_dir (sr_sink r1) = dir" "ps_depth_levels (sr_sink r1) = depth"
      "ps_schema (sr_sink r1) = build_schema depth"
    by (simp add: r0 default_sink_def start_run_def new_sink_def goes_on_def consume_top_def Let_def)
  define s2 where "s2 = (sr_sink r1)\<lparr>ps_queue := q\<lparr>rq_items := []\<rparr>, ps_buffer := [row], ps_last_progress_at := 0\<rparr>"
  have pend: "first_pending Map.empty dir depth row Map.empty s2" using r1 by (simp add: first_pending_def s2_def)
  define r2 where "r2 = next_turn pa (later still) Map.empty s2"
  have two: "sink_next pa (Row_Comes still) r1 = Some r2"
    using r1 q by (simp add: take_row_def RowQueue.get_def get_nowait_def r2_def s2_def)
  note turn = next_turn_first [OF pend key, of "later still", folded r2_def]
  have "sink_next pa (Sink.Sink_Cancelled still) r2 = Some (finish_sink pa still Cancelled (sr_disk r2) (sr_sink r2))"
    using turn by simp
  moreover have "sr_end (finish_sink pa still Cancelled (sr_disk r2) (sr_sink r2)) = Some Cancelled"
    using finish_first [OF _ key] turn by blast
  ultimately show thesis using that r1(1) two r1(5) q by (simp add: taken_by_def)
qed

definition demo_exchange :: exchange_config where
  "demo_exchange = \<lparr>ec_name = JStr ''binance'', ec_symbols = [JStr ''BTCUSDT''], ec_ws_url = JStr ''wss'',
     ec_rest_snapshot_url = JNull\<rparr>"

definition demo_config :: app_config where
  "demo_config = \<lparr>cfg_exchanges = [demo_exchange], cfg_book = \<lparr>bk_depth_levels = JInt 1\<rparr>,
     cfg_output = \<lparr>out_parquet_dir = ''data'', out_queue_maxsize = JInt 100, out_overflow_policy = DROP_OLDEST\<rparr>,
     cfg_metrics = \<lparr>mc_prometheus_port = JInt 9100\<rparr>, cfg_logging = \<lparr>lc_level = JStr ''INFO'', lc_format = JStr ''json''\<rparr>\<rparr>"

lemma demo_started:
  obtains pl0 :: "cell list pipeline" where "start_pipeline demo_config (\<lambda>_. 0) still Map.empty = Some (Inr pl0)"
    "pl_slots pl0 = [new_slot 1 demo_exchange]" "awaits_factory (pl_supervisor pl0) ''binance''"
    "pl_sink pl0 = start_run still Map.empty (default_sink (new_row_queue 100) [''data''] 1)"
    "sv_sink_task (pl_supervisor pl0) = Some In_Factory" "\<not> sv_cancelled (pl_supervisor pl0)"
proof -
  obtain pl0 :: "cell list pipeline" where pl0: "start_pipeline demo_config (\<lambda>_. 0) still Map.empty = Some (Inr pl0)"
    by (simp add: start_pipeline_def demo_config_def demo_exchange_def first_symbol_def set_sink_def new_supervisor_def
        add_feed_def run_start_def)
  then have "pl_slots pl0 = [new_slot 1 demo_exchange]" "awaits_factory (pl_supervisor pl0) ''binance''"
    "pl_sink pl0 = start_run still Map.empty (default_sink (new_row_queue 100) [''data''] 1)"
    "sv_sink_task (pl_supervisor pl0) = Some In_Factory" "\<not> sv_cancelled (pl_supervisor pl0)"
    by (auto simp: start_pipeline_def demo_config_def demo_exchange_def first_symbol_def set_sink_def new_supervisor_def
        add_feed_def run_start_def awaits_factory_def new_feed_entry_def)
  with pl0 show thesis by (rule that)
qed

text \<open>The feed starts and connects, and its first row is in the queue.\<close>

lemma demo_feeding:
  fixes pl0 :: "cell list pipeline"
  assumes "pl_slots pl0 = [new_slot 1 demo_exchange]" "awaits_factory (pl_supervisor pl0) ''binance''"
    and "binance_run (demo_binance (pl_queue pl0)) evs c"
    and "list_all (\<lambda>ev. binance_own ev \<and> ev \<noteq> Cancel_Run) evs"
  shows "bc_queue c \<noteq> None \<and> pipe_run plain_arrays pl0 (Factory_Called ''binance'' (\<lambda>_. 0) 0 # map (Binance_Moves 0) evs) []
    (put_queue (bc_queue c) (put_slot 0 ((new_slot 1 demo_exchange)\<lparr>sl_in_run := True, sl_current := Some (Binance_Feed c)\<rparr>) pl0))"
proof -
  let ?sl = "(new_slot 1 demo_exchange)\<lparr>sl_current := Some (Binance_Feed (demo_binance (pl_queue pl0))), sl_in_run := True\<rparr>"
  let ?pl = "put_slot 0 ?sl pl0"
  have at: "at_slot pl0 ''binance'' 0 (new_slot 1 demo_exchange)"
    using assms(1) by (simp add: at_slot_def factory_slot_def slot_named_def new_slot_def demo_exchange_def)
  have "pipe_step plain_arrays pl0 (Factory_Called ''binance'' (\<lambda>_. 0) 0) ?pl"
    by (rule factory_called [OF at assms(2)])
      (simp_all add: new_slot_def build_client_def first_symbol_def demo_exchange_def client_for_def demo_binance_def
        slot_engine_def)
  from pipe_run.snoc [OF pipe_run.start this]
  have first: "pipe_run plain_arrays pl0 [Factory_Called ''binance'' (\<lambda>_. 0) 0] [] ?pl" by simp
  have "bc_queue c \<noteq> None \<and> pipe_run plain_arrays ?pl (map (Binance_Moves 0) evs) []
      (put_queue (bc_queue c) (put_slot 0 (?sl\<lparr>sl_current := Some (Binance_Feed c)\<rparr>) ?pl))"
    by (rule client_run_lifts [OF assms(3)])
      (use assms(1,4) in \<open>simp_all add: demo_binance_def new_binance_client_def\<close>)
  with pipe_run_append [OF first] show ?thesis by simp
qed

text \<open>A row from a snapshot to a sealed file, with a shutdown by a signal.\<close>

lemma demo_pipeline_run:
  "\<exists>(pl0 :: cell list pipeline) evs row pl.
     start_pipeline demo_config (\<lambda>_. 0) still Map.empty = Some (Inr pl0) \<and> pipe_run plain_arrays pl0 evs [row] pl \<and>
     list_all (pipe_carries (\<lambda>_ _ _. snapshot_book demo_snapshot) (\<lambda>_. whole) (cfg_exchanges demo_config)) evs \<and>
     sr_end (pl_sink pl) = Some Cancelled"
proof -
  obtain pl0 :: "cell list pipeline" where pl0: "start_pipeline demo_config (\<lambda>_. 0) still Map.empty = Some (Inr pl0)"
    "pl_slots pl0 = [new_slot 1 demo_exchange]" "awaits_factory (pl_supervisor pl0) ''binance''"
    "pl_sink pl0 = start_run still Map.empty (default_sink (new_row_queue 100) [''data''] 1)"
    "sv_sink_task (pl_supervisor pl0) = Some In_Factory" "\<not> sv_cancelled (pl_supervisor pl0)" by (rule demo_started)
  have q: "pl_queue pl0 = new_row_queue 100" by (simp add: pl0(4) start_run_def default_sink_def new_sink_def)
  obtain c row where c: "binance_run (demo_binance (pl_queue pl0)) [Connect_Ok 1 0, Worker_Wakes 0, Get_Returns demo_response 5 0 0] c"
    "bc_queue c = Some (snd (put (pl_queue pl0) row))" "row_exchange row = ''binance''" "row_symbol row = ''BTCUSDT''"
    "row_ts_wall_ns row = 0" using demo_binance_row [of "pl_queue pl0"] new_row_queue_wf unfolding q by blast
  let ?client = "map (Binance_Moves 0) [Connect_Ok 1 0, Worker_Wakes 0, Get_Returns demo_response 5 0 0]"
  define pl1 where "pl1 = put_queue (bc_queue c) (put_slot 0 ((new_slot 1 demo_exchange)
      \<lparr>sl_in_run := True, sl_current := Some (Binance_Feed c)\<rparr>) pl0)"
  have run1: "pipe_run plain_arrays pl0 (Factory_Called ''binance'' (\<lambda>_. 0) 0 # ?client) [] pl1"
    using demo_feeding [OF pl0(2,3) c(1)] by (simp add: pl1_def)
  have key: "hour_key_for (row_ts_wall_ns row) = Inr ''1970-01-01/00''" by (simp add: c(5) sample_hours)
  obtain directory where dir: "partition_dir [''data''] (row_exchange row) (row_symbol row) ''1970-01-01/00'' = Inr directory"
    using partition_dir_total [OF key] by blast
  have "pl_sink pl1 = start_run still Map.empty (default_sink (snd (put (new_row_queue 100) row)) [''data''] 1)"
    by (simp add: pl1_def c(2) put_queue_def pl0(4) q) (simp add: start_run_def default_sink_def new_sink_def)
  moreover have "rq_items (snd (put (new_row_queue 100) row)) = [row]"
    by (simp add: put_def put_nowait_def new_row_queue_def)
  ultimately obtain r1 r2 r3 where r: "sink_next plain_arrays (Consumer_Starts still) (pl_sink pl1) = Some r1"
    "sink_next plain_arrays (Row_Comes still) r1 = Some r2" "sink_next plain_arrays (Sink.Sink_Cancelled still) r2 = Some r3"
    "sr_end r3 = Some Cancelled" "taken_by (Consumer_Starts still) (pl_sink pl1) = []" "taken_by (Row_Comes still) r1 = [row]"
    by (rule one_row_sink [OF _ _ key dir sample_tables])
  let ?pl2 = "pl1\<lparr>pl_sink := r1\<rparr>" and ?pl3 = "pl1\<lparr>pl_sink := r2\<rparr>"
  let ?pl4 = "?pl3\<lparr>pl_supervisor := request_shutdown (pl_supervisor pl1)\<rparr>"
  let ?pl5 = "(cancel_tasks ?pl4)\<lparr>pl_supervisor := (request_shutdown (pl_supervisor pl1))\<lparr>sv_cancelled := True\<rparr>\<rparr>"
  have "pipe_step plain_arrays pl1 (Sink_Moves (Consumer_Starts still)) ?pl2" by (rule sink_moves) (use r(1) in simp_all)
  from pipe_run.snoc [OF run1 this] r(5)
  have run2: "pipe_run plain_arrays pl0 (Factory_Called ''binance'' (\<lambda>_. 0) 0 # ?client @ [Sink_Moves (Consumer_Starts still)]) [] ?pl2"
    by simp
  have "pipe_step plain_arrays ?pl2 (Sink_Moves (Row_Comes still)) (?pl2\<lparr>pl_sink := r2\<rparr>)" by (rule sink_moves) (use r(2) in simp_all)
  from pipe_run.snoc [OF run2 this] r(6)
  have run3: "pipe_run plain_arrays pl0 (Factory_Called ''binance'' (\<lambda>_. 0) 0 # ?client @
      [Sink_Moves (Consumer_Starts still), Sink_Moves (Row_Comes still)]) [row] ?pl3" by simp
  have "pipe_step plain_arrays ?pl3 Shutdown_Signal ?pl4"
    by (rule shutdown_signal) (simp add: sup_step.shutdown)
  from pipe_run.snoc [OF run3 this] have run4: "pipe_run plain_arrays pl0 (Factory_Called ''binance'' (\<lambda>_. 0) 0 # ?client @
      [Sink_Moves (Consumer_Starts still), Sink_Moves (Row_Comes still), Shutdown_Signal]) [row] ?pl4" by simp
  have "pipe_step plain_arrays ?pl4 Shutdown_Begins ?pl5"
    by (rule shutdown_begins)
      (use pl0(5,6) in \<open>simp add: pl1_def request_shutdown_def, intro sup_step.cancel_all, simp_all\<close>)
  from pipe_run.snoc [OF run4 this] have run5: "pipe_run plain_arrays pl0 (Factory_Called ''binance'' (\<lambda>_. 0) 0 # ?client @
      [Sink_Moves (Consumer_Starts still), Sink_Moves (Row_Comes still), Shutdown_Signal, Shutdown_Begins]) [row] ?pl5" by simp
  have "pipe_step plain_arrays ?pl5 (Sink_Moves (Sink.Sink_Cancelled still)) (?pl5\<lparr>pl_sink := r3\<rparr>)"
    by (rule sink_moves) (use r(3) in \<open>simp_all add: cancel_tasks_def\<close>)
  from pipe_run.snoc [OF run5 this] have "pipe_run plain_arrays pl0 (Factory_Called ''binance'' (\<lambda>_. 0) 0 # ?client @
      [Sink_Moves (Consumer_Starts still), Sink_Moves (Row_Comes still), Shutdown_Signal, Shutdown_Begins,
       Sink_Moves (Sink.Sink_Cancelled still)]) [row] (?pl5\<lparr>pl_sink := r3\<rparr>)"
    by (simp add: taken_by_def)
  moreover have "depth_response default_depth_limit whole (\<lambda>_. snapshot_book demo_snapshot) demo_snapshot"
    by (auto simp: depth_response_def limit_snapshot_def side_limit_def reaches_def default_depth_limit_def demo_snapshot_def
        snapshot_book_def split: if_splits)
  then have "response_carries (depth_response default_depth_limit whole (\<lambda>_. snapshot_book demo_snapshot)) demo_response"
    by (simp add: response_carries_def demo_response_def demo_parsed demo_finite)
  ultimately show ?thesis
    using pl0(1) r(4) by (intro exI conjI) (assumption, assumption, simp_all)
qed


text \<open>
  C26: the pipeline refines its parts. Whatever the feeds, signals and restarts do, the supervisor of
  a running pipeline makes a run of the supervisor alone, whose crashes of a feed are those of the
  pipeline, and the sink makes a run of the sink alone, which takes the same rows: what the clients
  do to the shared queue is for the sink a sequence of rows put. So what is proved of supervisor and
  sink for any environment holds in the composition.
\<close>

theorem pipeline_refines_parts:
  assumes "start_pipeline cfg r clock d = Some (Inr pl0)" and "pipe_run pa pl0 evs got pl"
  shows "(\<exists>sup_evs. sup_run (pl_supervisor pl0) sup_evs (pl_supervisor pl) \<and>
      (\<forall>name. crash_times name sup_evs = feed_crashes name evs)) \<and>
    (\<exists>sink_evs maxsize depth.
      sink_exec pa sink_evs (start_run clock d (default_sink (new_row_queue maxsize) [out_parquet_dir (cfg_output cfg)] depth)) =
        Some (got, pl_sink pl))"
proof -
  obtain maxsize depth where "pl_sink pl0 = start_run clock d (default_sink (new_row_queue maxsize) [out_parquet_dir (cfg_output cfg)] depth)"
    using start_pipelineE [OF assms(1)] by (metis pipeline.select_convs(3))
  with run_supervisor [OF assms(2)] run_sink [OF assms(2)] show ?thesis by metis
qed

lemma pipeline_refines_parts_witness:
  "\<exists>(pl0 :: cell list pipeline) evs row pl sup_evs.
     start_pipeline demo_config (\<lambda>_. 0) still Map.empty = Some (Inr pl0) \<and> pipe_run plain_arrays pl0 evs [row] pl \<and>
     sup_run (pl_supervisor pl0) sup_evs (pl_supervisor pl)"
proof -
  obtain pl0 :: "cell list pipeline" and evs row pl
    where run: "start_pipeline demo_config (\<lambda>_. 0) still Map.empty = Some (Inr pl0)" "pipe_run plain_arrays pl0 evs [row] pl"
    using demo_pipeline_run by blast
  from pipeline_refines_parts [OF run] run show ?thesis by blast
qed

text \<open>
  A feed whose name is configured again later never runs: \<open>add_feed\<close> has replaced its factory.
\<close>

lemma shadowed_step:
  assumes "pipe_step pa pl ev pl'" and "i < length (pl_slots pl)" and "slot_named name (pl_slots pl ! i)"
    and "factory_slot (pl_slots pl) name \<noteq> Some i" and "sl_current (pl_slots pl ! i) = None" "\<not> sl_in_run (pl_slots pl ! i)"
  shows "sl_current (pl_slots pl' ! i) = None \<and> \<not> sl_in_run (pl_slots pl' ! i)"
proof -
  have other: "j \<noteq> i" if "at_slot pl n j sl" for n j sl
    using factory_slot_at(3) [OF that] that assms(3,4) by (auto simp: at_slot_def slot_named_def)
  from assms(1) show ?thesis
  proof cases
    case (shutdown_begins s)
    then show ?thesis
      using ask_cancel_flags [of "pl_supervisor pl" "pl_slots pl" i] assms(2,5,6) by (auto simp: cancel_tasks_def)
  qed (use assms(2,5,6) other in \<open>auto simp: nth_list_update\<close>)
qed

lemma shadowed_feed_never_runs:
  assumes "pipe_run pa pl evs got pl'" and "i < length (pl_slots pl)" and "slot_named name (pl_slots pl ! i)"
    and "factory_slot (pl_slots pl) name \<noteq> Some i" and "sl_current (pl_slots pl ! i) = None" "\<not> sl_in_run (pl_slots pl ! i)"
  shows "sl_current (pl_slots pl' ! i) = None \<and> \<not> sl_in_run (pl_slots pl' ! i)"
  using assms
proof induction
  case (snoc evs got pl1 ev pl2)
  have ex: "map sl_exchange (pl_slots pl1) = map sl_exchange (pl_slots pl)"
    using snoc.hyps(1) by (induction rule: pipe_run.induct) (simp_all add: step_exchanges)
  then have "length (pl_slots pl1) = length (pl_slots pl)" by (rule map_eq_imp_length_eq)
  moreover from this ex snoc.prems(1) have "sl_exchange (pl_slots pl1 ! i) = sl_exchange (pl_slots pl ! i)"
    by (metis nth_map)
  ultimately show ?case
    using shadowed_step [OF snoc.hyps(2), of i name] snoc factory_slot_cong [OF ex, of name]
    by (simp add: slot_named_def)
qed simp

end
