(* ===== verification/Shutdown.thy ===== *)
theory Shutdown
  imports AppClaims
begin

text \<open>
  The shutdown of a pipeline whose Binance resync worker has died. The cancellation reaches \<open>run\<close>,
  whose \<open>finally\<close> awaits the dead worker and raises the worker's exception in place of the
  cancellation; to the supervisor this is a crash, so it restarts the feed.
\<close>

section \<open>Where a cancellation can come from\<close>

lemma offer_raises: "offer c lns wns ems = (Raises err, c') \<Longrightarrow> err \<in> {AssertionError, QueueFull}"
  by (auto simp: offer_def offer_row_def build_snapshot_row_def put_def put_nowait_def Let_def
      split: prod.splits option.splits sum.splits if_splits)

lemma offer_worker: "offer c lns wns ems = (out, c') \<Longrightarrow> bc_worker c' = bc_worker c"
  using offer_frame(2) [of c lns wns ems] by simp

lemma fetch_dead: "bc_worker (fetch c now a k) = W_Dead err \<Longrightarrow> err = ZeroDivisionError"
  by (auto simp: fetch_def issue_get_def time_until_available_def give_up_worker Let_def
      split: prod.splits sum.splits if_splits)

lemma attempt_dead: "bc_worker (attempt_resync c now a) = W_Dead err \<Longrightarrow> err = ZeroDivisionError"
  by (auto simp: attempt_resync_def give_up_worker dest: fetch_dead split: if_splits)

lemma on_snapshot_dead:
  assumes "bc_worker (on_snapshot c now a s lns wns) = W_Dead err"
  shows "err \<noteq> CancelledError"
proof (cases "load_snapshot (bc_engine c) s")
  case (Inl e)
  with assms load_snapshot_raises [OF Inl] show ?thesis by (auto simp: on_snapshot_def)
next
  case (Inr r)
  obtain res e where r: "load_snapshot (bc_engine c) s = Inr (res, e)" using Inr by (cases r) auto
  obtain o2 c2 where o: "offer (bump_stat ''resync_completed'' (c\<lparr>bc_engine := e\<rparr>)) lns wns None = (o2, c2)" by fastforce
  show ?thesis
  proof (cases "status res")
    case APPLIED
    with assms r o offer_raises [of _ lns wns None err c2] show ?thesis
      by (cases o2) (auto simp: on_snapshot_def Let_def)
  qed (use assms r in \<open>auto simp: on_snapshot_def Let_def dest: attempt_dead\<close>)
qed

text \<open>No response is cancelled: \<open>raise_for_status\<close>, \<open>float\<close> and the parser raise other exceptions.\<close>

fun not_cancelling :: "binance_event \<Rightarrow> bool" where
  "not_cancelling (Get_Returns rsp lns wns now) \<longleftrightarrow> response_kills rsp \<noteq> Some CancelledError"
| "not_cancelling _ \<longleftrightarrow> True"

definition uncancelled :: "binance_client \<Rightarrow> bool" where
  "uncancelled c \<longleftrightarrow> bc_phase c \<noteq> Run_Over CancelledError \<and> bc_worker c \<noteq> W_Dead CancelledError"

lemma disconnected_uncancelled:
  assumes "bc_worker c \<noteq> W_Dead CancelledError"
  shows "uncancelled (on_disconnected c why now)"
  using assms
  by (auto simp: uncancelled_def on_disconnected_def next_attempt_def disconnected_def full_jitter_delay_def finish_run_def Let_def
      split: prod.splits sum.splits if_splits worker.splits phase.splits)

lemma step_uncancelled:
  assumes "binance_step c ev c'" and "uncancelled c" and "ev \<noteq> Cancel_Run" and "not_cancelling ev"
  shows "uncancelled c'"
  using assms(1)
proof cases
  case (message ws frame lns wns)
  with read_message_frame [OF message(3)] assms(2) show ?thesis by (simp add: uncancelled_def)
next
  case (message_raises ws frame lns wns err c1 now)
  with read_message_frame [OF message_raises(4)] assms(2) disconnected_uncancelled show ?thesis
    by (simp add: uncancelled_def)
next
  case (get_returns a k now rsp lns wns)
  from get_returns(3) show ?thesis
  proof (cases rule: on_response_cases)
    case (died err)
    with assms get_returns show ?thesis by (auto simp: uncancelled_def)
  next
    case (limited wait)
    with assms(2) show ?thesis by (simp add: uncancelled_def)
  next
    case (loaded raw s)
    have "bc_phase (on_snapshot c now a s lns wns) = bc_phase c"
      by (cases rule: on_snapshot_cases [where c = c and now = now and a = a and s = s and lns = lns and wns = wns])
        (auto dest: offer_keeps)
    with loaded assms(2) on_snapshot_dead [of c now a s lns wns] show ?thesis by (auto simp: uncancelled_def)
  qed
qed (use assms disconnected_uncancelled in \<open>auto simp: uncancelled_def on_connected_def begin_attempt_def worker_wakes_def
    issue_get_def Let_def dest: attempt_dead fetch_dead\<close>)

section \<open>A feed that outlives the shutdown\<close>

definition given_up :: "feed_entry \<Rightarrow> bool" where
  "given_up entry \<longleftrightarrow> fe_state entry = PERMANENTLY_FAILED \<or> fe_task entry = Some (Ended (Some OverflowError))"

definition not_stopped :: "feed_entry \<Rightarrow> bool" where
  "not_stopped entry \<longleftrightarrow> fe_task entry \<noteq> Some Was_Cancelled \<and> fe_task entry \<noteq> None \<and>
     (pred_option task_done (fe_task entry) \<longrightarrow> given_up entry)"

text \<open>The Binance feed has used up its cancellation, and nothing can stop it but too many crashes.\<close>

definition outlives :: "nat \<Rightarrow> 'a pipeline \<Rightarrow> bool" where
  "outlives i pl \<longleftrightarrow>
     factory_slot (pl_slots pl) ''binance'' = Some i \<and> sv_cancelled (pl_supervisor pl) \<and> \<not> sl_cancel (pl_slots pl ! i) \<and>
     (sl_in_run (pl_slots pl ! i) \<longrightarrow> (\<exists>c. sl_current (pl_slots pl ! i) = Some (Binance_Feed c) \<and> uncancelled c)) \<and>
     (\<exists>entry. feed (pl_supervisor pl) ''binance'' = Some entry \<and> not_stopped entry)"

lemma crash_not_stopped:
  assumes "sup_step s (Feed_Crashes name now) s'" and "feed s n = Some entry" and "not_stopped entry"
  shows "\<exists>entry'. feed s' n = Some entry' \<and> not_stopped entry'"
proof (cases "n = name")
  case True
  from assms(1,2) True obtain entry' r where e: "feed_crashed s now entry = (entry', r)" "feed s' n = Some entry'"
    by (auto simp: sup_step_simps)
  note core = feed_crashed_core [OF e(1)]
  have "not_stopped entry'"
    using core(3,5,6,7) by (cases "fe_restart_count entry < 1024") (fastforce simp: not_stopped_def given_up_def)+
  with e(2) show ?thesis by blast
next
  case False
  with sup_step_frame(6) [OF assms(1), of n] assms(2,3) show ?thesis by auto
qed

lemma other_not_stopped:
  assumes "sup_step s sev s'" and "\<not> about name sev \<or> sev = Sleep_Over name"
    and "feed s name = Some entry" and "not_stopped entry"
  shows "\<exists>entry'. feed s' name = Some entry' \<and> not_stopped entry'"
proof (cases "sev = Sleep_Over name")
  case True
  with assms(1) show ?thesis
    by (auto simp: sup_step_simps feed_woken_def not_stopped_def)
next
  case False
  with assms(2) sup_step_frame(6) [OF assms(1)] assms(3,4) show ?thesis by auto
qed

fun pipe_not_cancelling :: "pipe_event \<Rightarrow> bool" where
  "pipe_not_cancelling (Binance_Moves i ev) = not_cancelling ev"
| "pipe_not_cancelling _ = True"

lemma at_slot_unique:
  assumes "factory_slot (pl_slots pl) ''binance'' = Some i" and "at_slot pl name j sl"
  shows "(name = ''binance'' \<longleftrightarrow> j = i) \<and> (j = i \<longrightarrow> pl_slots pl ! i = sl)"
proof -
  have "at_slot pl ''binance'' i (pl_slots pl ! i)" using assms(1) by (simp add: at_slot_def)
  from factory_slot_at(3) [OF this] factory_slot_at(3) [OF assms(2)] assms show ?thesis
    by (auto simp: at_slot_def slot_named_def)
qed

lemma built_binance:
  assumes "build_client e engine q r now = Some (Inr c)" and "ec_name e = JStr ''binance''"
  shows "\<exists>b. c = Binance_Feed b \<and> uncancelled b"
  using assms by (auto simp: build_client_def client_for_def new_binance_client_def uncancelled_def split: sum.splits json.splits)

lemma step_outlives:
  assumes "pipe_step pa pl ev pl'" and "outlives i pl" and "pipe_not_cancelling ev"
  shows "outlives i pl'"
proof -
  let ?s = "pl_supervisor pl"
  obtain entry where fs: "factory_slot (pl_slots pl) ''binance'' = Some i" and can: "sv_cancelled ?s" "\<not> sl_cancel (pl_slots pl ! i)"
    and inrun: "sl_in_run (pl_slots pl ! i) \<Longrightarrow> \<exists>c. sl_current (pl_slots pl ! i) = Some (Binance_Feed c) \<and> uncancelled c"
    and entry: "feed ?s ''binance'' = Some entry" "not_stopped entry"
    using assms(2) by (auto simp: outlives_def)
  have fs': "factory_slot (pl_slots pl') ''binance'' = Some i"
    using factory_slot_cong [OF step_exchanges [OF assms(1)]] fs by simp
  have at_i: "at_slot pl ''binance'' i (pl_slots pl ! i)" using fs by (simp add: at_slot_def)
  have i: "i < length (pl_slots pl)" "ec_name (sl_exchange (pl_slots pl ! i)) = JStr ''binance''"
    using factory_slot_at [OF at_i] by (simp_all add: slot_named_def)
  note uniq = at_slot_unique [OF fs]
  have quiet: ?thesis if "pl_supervisor pl' = ?s" "pl_slots pl' ! i = pl_slots pl ! i"
    using that fs' can inrun entry by (simp add: outlives_def)
  have kept: ?thesis if "sup_step ?s sev (pl_supervisor pl')" "\<not> about ''binance'' sev \<or> sev = Sleep_Over ''binance'' \<or>
      (\<exists>now. sev = Feed_Crashes ''binance'' now)"
    "sl_cancel (pl_slots pl' ! i) = sl_cancel (pl_slots pl ! i)"
    "sl_in_run (pl_slots pl' ! i) \<longrightarrow> sl_in_run (pl_slots pl ! i) \<and> sl_current (pl_slots pl' ! i) = sl_current (pl_slots pl ! i)" for sev
  proof -
    have "\<exists>entry'. feed (pl_supervisor pl') ''binance'' = Some entry' \<and> not_stopped entry'"
      using that(1,2) crash_not_stopped [OF _ entry] other_not_stopped [OF that(1) _ entry] by blast
    with fs' can inrun that(3,4) sup_step_frame(5) [OF that(1)] show ?thesis by (auto simp: outlives_def)
  qed
  from assms(1) show ?thesis
  proof cases
    case (factory_called name j sl r now c)
    show ?thesis
    proof (cases "j = i")
      case True
      with uniq [OF factory_called(3)] built_binance [OF factory_called(7)] i fs' can entry show ?thesis
        by (auto simp: factory_called(2) outlives_def)
    next
      case False
      then show ?thesis by (intro quiet) (simp_all add: factory_called(2))
    qed
  next
    case (factory_raises name j sl r now err s)
    then show ?thesis by (intro kept [of "Feed_Crashes name now"]) auto
  next
    case (run_raises name j sl c err now s)
    with uniq [OF run_raises(3)] show ?thesis
      by (intro kept [of "Feed_Crashes name now"]) (auto simp: nth_list_update i)
  next
    case (run_is_cancelled name j sl c s)
    have "j \<noteq> i" using uniq [OF run_is_cancelled(3)] inrun run_is_cancelled(4-6) by (auto simp: uncancelled_def split: phase.splits)
    with uniq [OF run_is_cancelled(3)] run_is_cancelled show ?thesis
      by (intro kept [of "Feed_Cancelled name"]) auto
  next
    case (idle_is_cancelled name j sl s)
    have "j \<noteq> i" using uniq [OF idle_is_cancelled(3)] can idle_is_cancelled(5) by auto
    with uniq [OF idle_is_cancelled(3)] idle_is_cancelled show ?thesis
      by (intro kept [of "Feed_Cancelled name"]) auto
  next
    case (restart_due name j sl s)
    then show ?thesis by (intro kept [of "Sleep_Over name"]) auto
  next
    case (binance_moves j sl c e c')
    show ?thesis
    proof (cases "j = i")
      case True
      with inrun binance_moves(4-6) have "uncancelled c" by auto
      then have u: "uncancelled (c\<lparr>bc_queue := Some (pl_queue pl)\<rparr>)" by (simp add: uncancelled_def)
      have "e \<noteq> Cancel_Run" using can(2) binance_moves(4,8) True by auto
      moreover have "not_cancelling e" using assms(3) binance_moves(1) by simp
      ultimately have "uncancelled c'" using step_uncancelled [OF binance_moves(9) u] by blast
      with True can entry fs' i binance_moves(4) show ?thesis by (auto simp: binance_moves(2) outlives_def)
    next
      case False
      then show ?thesis by (intro quiet) (simp_all add: binance_moves(2))
    qed
  next
    case (okx_moves j sl c e c')
    have "j \<noteq> i" using inrun okx_moves(4-6) by auto
    then show ?thesis by (intro quiet) (simp_all add: okx_moves(2))
  next
    case (sink_moves e r)
    then show ?thesis by (intro quiet) simp_all
  next
    case (sink_returns e s)
    then show ?thesis
      by (intro kept [of "case e of Cancelled \<Rightarrow> Supervisor.Sink_Cancelled | Exception_Group err \<Rightarrow> Sink_Ends (Some err) | Raised err \<Rightarrow> Sink_Ends (Some err)"])
        (auto split: sink_end.splits)
  next
    case (shutdown_signal s)
    then show ?thesis by (intro kept [of Shutdown_Requested]) auto
  next
    case (shutdown_begins s)
    with can(1) show ?thesis by (auto elim: sup_stepE)
  qed
qed

lemma run_outlives:
  assumes "pipe_run pa pl evs got pl'" and "outlives i pl" and "list_all pipe_not_cancelling evs"
  shows "outlives i pl'"
  using assms by induction (auto intro: step_outlives)

text \<open>The cancellation becomes a crash, and where the crash window has room the feed is restarted.\<close>

definition crash_room :: "supervisor \<Rightarrow> seconds \<Rightarrow> feed_entry \<Rightarrow> bool" where
  "crash_room s now entry \<longleftrightarrow>
     int (length (recent (sv_restart_window s) now (fe_restart_times entry))) < sv_max_restarts s \<and>
     fe_restart_count entry < 1024"

lemma cancel_swallowed:
  assumes "pipe_step pa pl (Binance_Moves i Cancel_Run) pl1" and "factory_slot (pl_slots pl) ''binance'' = Some i"
    and "sl_current (pl_slots pl ! i) = Some (Binance_Feed c)" and "bc_worker c = W_Dead err"
  obtains sl1 c1 where "pl_supervisor pl1 = pl_supervisor pl" "at_slot pl1 ''binance'' i sl1" "sl_in_run sl1" "\<not> sl_cancel sl1"
    "sl_current sl1 = Some (Binance_Feed c1)" "bc_phase c1 = Run_Over err"
  using assms(1)
proof cases
  case (binance_moves sl c0 c')
  have "bc_phase c' = Run_Over err"
    using binance_moves(8) assms(3,4) binance_moves(3,5) by cases (auto simp: finish_run_def)
  moreover have "at_slot pl1 ''binance'' i (pl_slots pl1 ! i)"
    using assms(2) factory_slot_cong [OF step_exchanges [OF assms(1)]] by (simp add: at_slot_def)
  ultimately show thesis
    using binance_moves by (intro that [of "pl_slots pl1 ! i" c']) (simp_all add: HOL.induct_true_def)
qed

lemma crash_restarts:
  assumes "at_slot pl1 ''binance'' i sl1" "sl_in_run sl1" "\<not> sl_cancel sl1"
    and "sl_current sl1 = Some (Binance_Feed c1)" "bc_phase c1 = Run_Over err" "err \<noteq> CancelledError"
    and "feed (pl_supervisor pl1) ''binance'' = Some entry" "fe_task entry = Some In_Factory"
    and "crash_room (pl_supervisor pl1) now entry"
  shows "\<exists>pl2 entry2 pl3. pipe_step pa pl1 (Run_Raises ''binance'' now) pl2 \<and>
    feed (pl_supervisor pl2) ''binance'' = Some entry2 \<and> fe_state entry2 = RESTARTING \<and> \<not> run_returned (pl_supervisor pl2) \<and>
    pipe_step pa pl2 (Restart_Due ''binance'') pl3 \<and> awaits_factory (pl_supervisor pl3) ''binance''"
proof -
  let ?s = "pl_supervisor pl1"
  obtain entry2 r where crash: "feed_crashed ?s now entry = (entry2, r)" by fastforce
  have core: "fe_state entry2 = RESTARTING" "\<exists>delay. fe_task entry2 = Some (In_Sleep delay)"
    using feed_crashed_core(3,7) [OF crash] assms(9) by (auto simp: crash_room_def)
  then obtain delay where delay: "fe_task entry2 = Some (In_Sleep delay)" by blast
  define s2 where "s2 = (put_feed ''binance'' entry2 ?s)\<lparr>sv_rng := r\<rparr>"
  define s3 where "s3 = put_feed ''binance'' (feed_woken entry2) s2"
  let ?pl2 = "(put_slot i (sl1\<lparr>sl_in_run := False\<rparr>) pl1)\<lparr>pl_supervisor := s2\<rparr>"
  have entry2: "feed s2 ''binance'' = Some entry2" by (simp add: s2_def)
  have "sup_step ?s (Feed_Crashes ''binance'' now) s2"
    unfolding s2_def by (rule sup_step.crashes [OF assms(7,8) crash])
  then have step2: "pipe_step pa pl1 (Run_Raises ''binance'' now) ?pl2"
    by (intro run_raises [OF assms(1,2,4) _ assms(6)]) (simp_all add: assms(5))
  note at = factory_slot_at [OF assms(1)]
  have "at_slot ?pl2 ''binance'' i (sl1\<lparr>sl_in_run := False\<rparr>)"
  proof -
    have "map sl_exchange (pl_slots ?pl2) = map sl_exchange (pl_slots pl1)" by (rule step_exchanges [OF step2])
    from factory_slot_cong [OF this] assms(1) at(1) show ?thesis by (simp add: at_slot_def)
  qed
  moreover have "sup_step s2 (Sleep_Over ''binance'') s3"
    unfolding s3_def by (rule sup_step.wakes [OF entry2 delay])
  ultimately have step3: "pipe_step pa ?pl2 (Restart_Due ''binance'') (?pl2\<lparr>pl_supervisor := s3\<rparr>)"
    by (intro restart_due [where i = i and sl = "sl1\<lparr>sl_in_run := False\<rparr>"]) (use assms(3) in simp_all)
  have "\<not> run_returned s2"
    using delay map_of_SomeD [OF entry2] by (auto simp: run_returned_def list_all_iff intro!: bexI [of _ "(''binance'', entry2)"])
  moreover have "awaits_factory s3 ''binance''" by (simp add: s3_def awaits_factory_def feed_woken_def)
  ultimately show ?thesis
    using step2 step3 entry2 core(1)
    by (intro exI [of _ ?pl2] exI [of _ entry2] exI [of _ "?pl2\<lparr>pl_supervisor := s3\<rparr>"]) simp
qed

text \<open>
  C27: the shutdown's cancellation of a feed with a dead worker is swallowed. When it is delivered to a Binance
  client whose resync worker has died of an exception (an HTTP error of the depth endpoint is enough), then
  first: \<open>run\<close> of the client ends with the worker's exception instead. Second: if the crash window of the feed has
  room, the supervisor takes it for a crash, the feed is RESTARTING, \<open>supervisor.run\<close> has not
  returned, and when the sleep is over the factory is called again. Third: whatever happens afterwards, with any
  restarts and any data, the task of the feed is never cancelled, and \<open>supervisor.run\<close> can
  return only after the feed has been given up for too many crashes.
\<close>

theorem dead_worker_outlives_shutdown:
  assumes "pipe_step pa pl (Binance_Moves i Cancel_Run) pl1" and "sv_cancelled (pl_supervisor pl)"
    and "factory_slot (pl_slots pl) ''binance'' = Some i" and "awaits_factory (pl_supervisor pl) ''binance''"
    and "sl_current (pl_slots pl ! i) = Some (Binance_Feed c)" and "bc_worker c = W_Dead err" "err \<noteq> CancelledError"
    and "pipe_run pa pl1 evs got pl2" and "list_all pipe_not_cancelling evs"
  shows "(\<exists>c1. sl_current (pl_slots pl1 ! i) = Some (Binance_Feed c1) \<and> bc_phase c1 = Run_Over err) \<and>
    (\<exists>entry. feed (pl_supervisor pl1) ''binance'' = Some entry \<and>
      (\<forall>now. crash_room (pl_supervisor pl1) now entry \<longrightarrow>
        (\<exists>pl' entry' pl''. pipe_step pa pl1 (Run_Raises ''binance'' now) pl' \<and>
           feed (pl_supervisor pl') ''binance'' = Some entry' \<and> fe_state entry' = RESTARTING \<and> \<not> run_returned (pl_supervisor pl') \<and>
           pipe_step pa pl' (Restart_Due ''binance'') pl'' \<and> awaits_factory (pl_supervisor pl'') ''binance''))) \<and>
    (\<exists>entry. feed (pl_supervisor pl2) ''binance'' = Some entry \<and> fe_task entry \<noteq> Some Was_Cancelled \<and>
      (run_returned (pl_supervisor pl2) \<longrightarrow>
         fe_state entry = PERMANENTLY_FAILED \<or> fe_task entry = Some (Ended (Some OverflowError))))"
proof (intro conjI)
  obtain entry0 where e0: "feed (pl_supervisor pl) ''binance'' = Some entry0" "fe_task entry0 = Some In_Factory"
    using assms(4) by (auto simp: awaits_factory_def split: option.splits)
  obtain sl1 c1 where sw: "pl_supervisor pl1 = pl_supervisor pl" "at_slot pl1 ''binance'' i sl1" "sl_in_run sl1" "\<not> sl_cancel sl1"
    "sl_current sl1 = Some (Binance_Feed c1)" "bc_phase c1 = Run_Over err" by (rule cancel_swallowed [OF assms(1,3,5,6)])
  show "\<exists>c1. sl_current (pl_slots pl1 ! i) = Some (Binance_Feed c1) \<and> bc_phase c1 = Run_Over err"
    using sw(2,5,6) factory_slot_at(2) by blast
  have entry0: "feed (pl_supervisor pl1) ''binance'' = Some entry0" using e0(1) sw(1) by simp
  with crash_restarts [OF sw(2-6) assms(7) _ e0(2), where pa = pa]
  show "\<exists>entry. feed (pl_supervisor pl1) ''binance'' = Some entry \<and>
      (\<forall>now. crash_room (pl_supervisor pl1) now entry \<longrightarrow>
        (\<exists>pl' entry' pl''. pipe_step pa pl1 (Run_Raises ''binance'' now) pl' \<and>
           feed (pl_supervisor pl') ''binance'' = Some entry' \<and> fe_state entry' = RESTARTING \<and> \<not> run_returned (pl_supervisor pl') \<and>
           pipe_step pa pl' (Restart_Due ''binance'') pl'' \<and> awaits_factory (pl_supervisor pl'') ''binance''))"
    by (intro exI [of _ entry0]) blast
  have at: "at_slot pl ''binance'' i (pl_slots pl ! i)" using assms(3) by (simp add: at_slot_def)
  note i = factory_slot_at(1) [OF at]
  have "outlives i pl1"
    using assms(1)
  proof cases
    case (binance_moves sl c0 c')
    from binance_moves(8) assms(5-7) binance_moves(3,5) have "uncancelled c'"
      by cases (auto simp: finish_run_def uncancelled_def)
    with binance_moves(1,2) i assms(2) e0 factory_slot_cong [OF step_exchanges [OF assms(1)]] assms(3) show ?thesis
      by (auto simp: outlives_def not_stopped_def HOL.induct_true_def)
  qed
  from run_outlives [OF assms(8) this assms(9)] obtain entry
    where entry: "feed (pl_supervisor pl2) ''binance'' = Some entry" "not_stopped entry" by (auto simp: outlives_def)
  have "pred_option task_done (fe_task entry)" if "run_returned (pl_supervisor pl2)"
    using that map_of_SomeD [OF entry(1)] by (auto simp: run_returned_def list_all_iff)
  with entry show "\<exists>entry. feed (pl_supervisor pl2) ''binance'' = Some entry \<and> fe_task entry \<noteq> Some Was_Cancelled \<and>
      (run_returned (pl_supervisor pl2) \<longrightarrow>
         fe_state entry = PERMANENTLY_FAILED \<or> fe_task entry = Some (Ended (Some OverflowError)))"
    by (auto simp: not_stopped_def given_up_def)
qed

text \<open>One failed request, a shutdown by a signal, and the feed runs on.\<close>

lemma demo_dead_feed:
  obtains (dead) pl0 evs c q and pl :: "cell list pipeline" where
    "start_pipeline demo_config (\<lambda>_. 0) still Map.empty = Some (Inr pl0)" "pipe_run plain_arrays pl0 evs [] pl"
    "pl_slots pl = [(new_slot 1 demo_exchange)\<lparr>sl_in_run := True, sl_current := Some (Binance_Feed c), sl_cancel := True\<rparr>]"
    "bc_worker c = W_Dead HTTPStatusError" "running (bc_phase c)" "bc_queue c = Some q" "sv_cancelled (pl_supervisor pl)"
    "awaits_factory (pl_supervisor pl) ''binance''" "feed (pl_supervisor pl) ''binance'' = Some ((new_feed_entry ''binance'')\<lparr>fe_task := Some In_Factory\<rparr>)"
    "sv_max_restarts (pl_supervisor pl) = 5"
proof -
  obtain pl0 :: "cell list pipeline" where pl0: "start_pipeline demo_config (\<lambda>_. 0) still Map.empty = Some (Inr pl0)"
    "pl_slots pl0 = [new_slot 1 demo_exchange]" "awaits_factory (pl_supervisor pl0) ''binance''"
    "sv_sink_task (pl_supervisor pl0) = Some In_Factory" "\<not> sv_cancelled (pl_supervisor pl0)" by (rule demo_started)
  have sup: "feed (pl_supervisor pl0) ''binance'' = Some ((new_feed_entry ''binance'')\<lparr>fe_task := Some In_Factory\<rparr>)"
    "sv_max_restarts (pl_supervisor pl0) = 5"
    using pl0(1) by (auto simp: start_pipeline_def demo_config_def demo_exchange_def first_symbol_def set_sink_def
        new_supervisor_def add_feed_def run_start_def default_max_restarts_def)
  obtain c where c: "binance_run (demo_binance (pl_queue pl0)) [Connect_Ok 1 0, Worker_Wakes 0] c" "bc_worker c = W_Getting 0 0"
    "bc_phase c = Reading 1" "bc_queue c = Some (pl_queue pl0)" by (rule demo_binance_getting)
  let ?c = "c\<lparr>bc_worker := W_Dead HTTPStatusError\<rparr>" and ?evs = "[Connect_Ok 1 0, Worker_Wakes 0, Get_Returns error_response 5 6 0]"
  from binance_run.snoc [OF c(1) demo_error [OF c(2)]] have c_dead: "binance_run (demo_binance (pl_queue pl0)) ?evs ?c" by simp
  define pl1 where "pl1 = put_queue (bc_queue ?c) (put_slot 0 ((new_slot 1 demo_exchange)
      \<lparr>sl_in_run := True, sl_current := Some (Binance_Feed ?c)\<rparr>) pl0)"
  have run1: "pipe_run plain_arrays pl0 (Factory_Called ''binance'' (\<lambda>_. 0) 0 # map (Binance_Moves 0) ?evs) [] pl1"
    using demo_feeding [OF pl0(2,3) c_dead] by (simp add: pl1_def)
  let ?pl2 = "pl1\<lparr>pl_supervisor := request_shutdown (pl_supervisor pl1)\<rparr>"
  let ?pl3 = "(cancel_tasks ?pl2)\<lparr>pl_supervisor := (request_shutdown (pl_supervisor pl1))\<lparr>sv_cancelled := True\<rparr>\<rparr>"
  have "pipe_step plain_arrays pl1 Shutdown_Signal ?pl2" by (rule shutdown_signal) (simp add: sup_step.shutdown)
  from pipe_run.snoc [OF run1 this] have run2: "pipe_run plain_arrays pl0 (Factory_Called ''binance'' (\<lambda>_. 0) 0 #
      map (Binance_Moves 0) ?evs @ [Shutdown_Signal]) [] ?pl2" by simp
  have "pipe_step plain_arrays ?pl2 Shutdown_Begins ?pl3"
    by (rule shutdown_begins) (use pl0(4,5) in \<open>simp add: pl1_def request_shutdown_def, intro sup_step.cancel_all, simp_all\<close>)
  from pipe_run.snoc [OF run2 this] have run3: "pipe_run plain_arrays pl0 (Factory_Called ''binance'' (\<lambda>_. 0) 0 #
      map (Binance_Moves 0) ?evs @ [Shutdown_Signal, Shutdown_Begins]) [] ?pl3" by simp
  show thesis
  proof (rule dead [OF pl0(1) run3])
    show "pl_slots ?pl3 = [(new_slot 1 demo_exchange)\<lparr>sl_in_run := True, sl_current := Some (Binance_Feed ?c), sl_cancel := True\<rparr>]"
      using pl0(2) sup(1)
      by (simp add: pl1_def cancel_tasks_def ask_cancel_def request_shutdown_def factory_slot_def slot_named_def
          new_slot_def demo_exchange_def)
    show "awaits_factory (pl_supervisor ?pl3) ''binance''"
      "feed (pl_supervisor ?pl3) ''binance'' = Some ((new_feed_entry ''binance'')\<lparr>fe_task := Some In_Factory\<rparr>)"
      "sv_max_restarts (pl_supervisor ?pl3) = 5"
      using sup by (simp_all add: pl1_def request_shutdown_def awaits_factory_def)
  qed (use c(3,4) in simp_all)
qed

lemma dead_worker_outlives_shutdown_witness:
  "\<exists>(pl0 :: cell list pipeline) evs0 pl pl1 evs pl2.
     start_pipeline demo_config (\<lambda>_. 0) still Map.empty = Some (Inr pl0) \<and> pipe_run plain_arrays pl0 evs0 [] pl \<and>
     pipe_step plain_arrays pl (Binance_Moves 0 Cancel_Run) pl1 \<and> pipe_run plain_arrays pl1 evs [] pl2 \<and>
     awaits_factory (pl_supervisor pl2) ''binance'' \<and> \<not> run_returned (pl_supervisor pl2)"
proof -
  obtain pl0 evs0 c q and pl :: "cell list pipeline" where start: "start_pipeline demo_config (\<lambda>_. 0) still Map.empty = Some (Inr pl0)"
      "pipe_run plain_arrays pl0 evs0 [] pl"
    and slots: "pl_slots pl = [(new_slot 1 demo_exchange)\<lparr>sl_in_run := True, sl_current := Some (Binance_Feed c), sl_cancel := True\<rparr>]"
    and c: "bc_worker c = W_Dead HTTPStatusError" "running (bc_phase c)" "bc_queue c = Some q"
    and sup: "sv_cancelled (pl_supervisor pl)" "awaits_factory (pl_supervisor pl) ''binance''"
      "feed (pl_supervisor pl) ''binance'' = Some ((new_feed_entry ''binance'')\<lparr>fe_task := Some In_Factory\<rparr>)"
      "sv_max_restarts (pl_supervisor pl) = 5" by (rule demo_dead_feed)
  let ?c = "finish_run (c\<lparr>bc_queue := Some (pl_queue pl)\<rparr>) CancelledError"
  let ?sl = "(new_slot 1 demo_exchange)\<lparr>sl_in_run := True, sl_current := Some (Binance_Feed ?c), sl_cancel := False\<rparr>"
  let ?pl1 = "put_queue (bc_queue ?c) (put_slot 0 ?sl pl)"
  have "pipe_step plain_arrays pl (Binance_Moves 0 Cancel_Run) (put_queue (bc_queue ?c) (put_slot 0 ((pl_slots pl ! 0)
      \<lparr>sl_current := Some (Binance_Feed ?c), sl_cancel := sl_cancel (pl_slots pl ! 0) \<and> Cancel_Run \<noteq> Cancel_Run\<rparr>) pl))"
    by (rule binance_moves [where c = c]) (use slots c(2) in \<open>simp_all add: Binance.cancel\<close>)
  then have step: "pipe_step plain_arrays pl (Binance_Moves 0 Cancel_Run) ?pl1" using slots by simp
  let ?entry = "(new_feed_entry ''binance'')\<lparr>fe_task := Some In_Factory\<rparr>"
  obtain entry' r where crash: "feed_crashed (pl_supervisor pl) 0 ?entry = (entry', r)" by fastforce
  have core: "fe_state entry' = RESTARTING" "\<exists>delay. fe_task entry' = Some (In_Sleep delay)"
    using feed_crashed_core(3,7) [OF crash] sup(4) by (auto simp: new_feed_entry_def recent_def)
  then obtain delay where delay: "fe_task entry' = Some (In_Sleep delay)" by blast
  define s1 where "s1 = (put_feed ''binance'' entry' (pl_supervisor pl))\<lparr>sv_rng := r\<rparr>"
  have s1: "sup_step (pl_supervisor pl) (Feed_Crashes ''binance'' 0) s1"
    unfolding s1_def by (rule sup_step.crashes [OF sup(3) _ crash]) simp
  have at: "at_slot ?pl1 ''binance'' 0 ?sl"
    using slots by (simp add: at_slot_def factory_slot_def slot_named_def new_slot_def demo_exchange_def)
  let ?pl2 = "(put_slot 0 (?sl\<lparr>sl_in_run := False\<rparr>) ?pl1)\<lparr>pl_supervisor := s1\<rparr>"
  have "pipe_step plain_arrays ?pl1 (Run_Raises ''binance'' 0) ?pl2"
    by (rule run_raises [where c = "Binance_Feed ?c" and err = HTTPStatusError, OF at]) (use c(1) s1 in \<open>simp_all add: finish_run_def\<close>)
  from pipe_run.snoc [OF pipe_run.start this]
  have run2: "pipe_run plain_arrays ?pl1 [Run_Raises ''binance'' 0] [] ?pl2" by simp
  have at2: "at_slot ?pl2 ''binance'' 0 (?sl\<lparr>sl_in_run := False\<rparr>)"
    using slots by (simp add: at_slot_def factory_slot_def slot_named_def new_slot_def demo_exchange_def)
  define s2 where "s2 = put_feed ''binance'' (feed_woken entry') s1"
  have s2: "sup_step (pl_supervisor ?pl2) (Sleep_Over ''binance'') s2"
    using delay by (simp add: sup_step_simps s1_def s2_def)
  have "pipe_step plain_arrays ?pl2 (Restart_Due ''binance'') (?pl2\<lparr>pl_supervisor := s2\<rparr>)"
    by (rule restart_due [OF at2 _ s2]) simp
  from pipe_run.snoc [OF run2 this]
  have run3: "pipe_run plain_arrays ?pl1 [Run_Raises ''binance'' 0, Restart_Due ''binance''] [] (?pl2\<lparr>pl_supervisor := s2\<rparr>)" by simp
  have slot: "factory_slot (pl_slots pl) ''binance'' = Some 0" "sl_current (pl_slots pl ! 0) = Some (Binance_Feed c)"
    using slots by (simp_all add: factory_slot_def slot_named_def new_slot_def demo_exchange_def)
  have woken: "feed s2 ''binance'' = Some (feed_woken entry')" by (simp add: s2_def)
  from dead_worker_outlives_shutdown [OF step sup(1) slot(1) sup(2) slot(2) c(1) _ run3] woken
  have "\<not> run_returned s2" by (auto simp: feed_woken_def)
  moreover have "awaits_factory s2 ''binance''" using woken by (simp add: awaits_factory_def feed_woken_def)
  ultimately show ?thesis using start step run3 by (intro exI conjI) (assumption | simp)+
qed

end
