(* ===== verification/Metrics.thy ===== *)
theory Metrics
  imports AppClaims
begin

text \<open>
  The collector of \<^verbatim>\<open>metrics.py\<close>: the families one scrape yields, read from the clients, the
  supervisor and the sink. The Prometheus library and its server are left out: a family is its name,
  its label names and its samples. The scrape runs in the thread of the server; here it reads
  everything at one moment.
\<close>

section \<open>Families and the collector\<close>

datatype sample = Number nat | States "(string \<times> bool) list"

record metric_family =
  mf_name :: string
  mf_labels :: "string list"
  mf_samples :: "(string list \<times> sample) list"

record feed_registration =
  fr_exchange :: string
  fr_symbol :: string
  fr_provider :: current_client

definition feed_counter_specs :: "(string \<times> string) list" where
  "feed_counter_specs =
     [(''l2_messages_received_total'', ''messages_received''), (''l2_gaps_detected_total'', ''gap_detected''),
      (''l2_ws_reconnects_total'', ''ws_reconnected''), (''l2_watchdog_trips_total'', ''watchdog_tripped''),
      (''l2_resyncs_completed_total'', ''resync_completed'')]"

text \<open>The upper bounds of the latency histogram, without the infinite one the library adds.\<close>

definition processing_latency_buckets :: "rat list" where
  "processing_latency_buckets =
     [1 / 20000, 1 / 10000, 1 / 5000, 1 / 2000, 1 / 1000, 1 / 500, 1 / 200, 1 / 100, 1 / 50, 1 / 20, 1 / 10]"

fun stats_counters :: "client_stats \<Rightarrow> counters" where
  "stats_counters No_Client_Yet = []"
| "stats_counters (Client_Stats st) = fs_counters st"

definition feed_labels :: "feed_registration \<Rightarrow> string list" where
  "feed_labels f = [fr_exchange f, fr_symbol f]"

definition counter_family :: "feed_registration list \<Rightarrow> string \<times> string \<Rightarrow> metric_family" where
  "counter_family feeds spec =
     \<lparr>mf_name = fst spec, mf_labels = [''exchange'', ''symbol''],
      mf_samples = map (\<lambda>f. (feed_labels f, Number (count_of (snd spec) (stats_counters (current_stats (fr_provider f)))))) feeds\<rparr>"

definition restart_family :: "supervisor \<Rightarrow> feed_registration list \<Rightarrow> metric_family result" where
  "restart_family s feeds =
     bind_result (map_result (\<lambda>f. bind_result (get_restart_count s (fr_exchange f)) (\<lambda>n. Inr (feed_labels f, Number n))) feeds)
       (\<lambda>samples. Inr \<lparr>mf_name = ''l2_feed_restarts_total'', mf_labels = [''exchange'', ''symbol''], mf_samples = samples\<rparr>)"

definition feed_counters :: "supervisor \<Rightarrow> feed_registration list \<Rightarrow> metric_family list result" where
  "feed_counters s feeds =
     bind_result (restart_family s feeds) (\<lambda>restarts. Inr (map (counter_family feeds) feed_counter_specs @ [restarts]))"

fun state_value :: "feed_state \<Rightarrow> string" where
  "state_value RUNNING = ''running''"
| "state_value RESTARTING = ''restarting''"
| "state_value PERMANENTLY_FAILED = ''permanently_failed''"
| "state_value STOPPED = ''stopped''"

definition all_feed_states :: "feed_state list" where
  "all_feed_states = [RUNNING, RESTARTING, PERMANENTLY_FAILED, STOPPED]"

definition feed_state_family :: "supervisor \<Rightarrow> feed_registration list \<Rightarrow> metric_family result" where
  "feed_state_family s feeds =
     bind_result (map_result (\<lambda>f. bind_result (get_feed_state s (fr_exchange f)) (\<lambda>current.
         Inr (feed_labels f, States (map (\<lambda>st. (state_value st, st = current)) all_feed_states)))) feeds)
       (\<lambda>samples. Inr \<lparr>mf_name = ''l2_feed_state'', mf_labels = [''exchange'', ''symbol''], mf_samples = samples\<rparr>)"

definition single_family :: "string \<Rightarrow> nat \<Rightarrow> metric_family" where
  "single_family name n = \<lparr>mf_name = name, mf_labels = [], mf_samples = [([], Number n)]\<rparr>"

definition sink_metrics :: "parquet_sink \<Rightarrow> metric_family list" where
  "sink_metrics sink =
     (let stats = sink_get_stats sink
      in [single_family ''l2_sink_rows_written_total'' (count_of ''rows_written'' (ss_counters stats)),
          single_family ''l2_sink_rows_dropped_total'' (ss_rows_dropped stats),
          single_family ''l2_sink_queue_depth'' (ss_queue_depth stats)])"

definition collect :: "feed_registration list \<Rightarrow> parquet_sink \<Rightarrow> supervisor \<Rightarrow> metric_family list result" where
  "collect feeds sink s =
     bind_result (feed_counters s feeds) (\<lambda>counters.
     bind_result (feed_state_family s feeds) (\<lambda>state. Inr (counters @ [state] @ sink_metrics sink)))"

text \<open>What \<open>_run_pipeline\<close> registers; the names and symbols are strings there.\<close>

definition registration_of :: "feed_slot \<Rightarrow> feed_registration option" where
  "registration_of sl =
     (case (ec_name (sl_exchange sl), first_symbol (sl_exchange sl)) of
        (JStr exch, Inr (JStr name)) \<Rightarrow> Some \<lparr>fr_exchange = exch, fr_symbol = name, fr_provider = sl_current sl\<rparr>
      | _ \<Rightarrow> None)"

definition scrape :: "'a pipeline \<Rightarrow> metric_family list result option" where
  "scrape pl =
     (let regs = map registration_of (pl_slots pl)
      in if None \<in> set regs then None
         else Some (collect (map the regs) (sr_sink (pl_sink pl)) (pl_supervisor pl)))"

section \<open>Monitoring never fails\<close>

lemma sup_step_known: "sup_step s ev s' \<Longrightarrow> feed s name \<noteq> None \<Longrightarrow> feed s' name \<noteq> None"
  by (auto elim!: sup_stepE simp: request_shutdown_def)

lemma sup_run_known: "sup_run s evs s' \<Longrightarrow> feed s name \<noteq> None \<Longrightarrow> feed s' name \<noteq> None"
  by (induction rule: sup_run.induct) (auto dest: sup_step_known)

lemma add_feeds_known:
  assumes "add_feeds es s = Some (Inr s')"
  shows "feed s name \<noteq> None \<Longrightarrow> feed s' name \<noteq> None"
    and "e \<in> set es \<Longrightarrow> \<exists>name. ec_name e = JStr name \<and> feed s' name \<noteq> None"
proof -
  have *: "(feed s name \<noteq> None \<longrightarrow> feed s' name \<noteq> None) \<and>
      (\<forall>e\<in>set es. \<exists>name. ec_name e = JStr name \<and> feed s' name \<noteq> None)" for name
    using assms
  proof (induction es s arbitrary: name rule: add_feeds.induct)
    case (2 e es s)
    then obtain n v where n: "ec_name e = JStr n" "first_symbol e = Inr v" "add_feeds es (add_feed n s) = Some (Inr s')"
      by (auto split: json.splits sum.splits)
    from "2.IH" [OF n] have IH: "(feed (add_feed n s) name \<noteq> None \<longrightarrow> feed s' name \<noteq> None)"
      "\<forall>e\<in>set es. \<exists>name. ec_name e = JStr name \<and> feed s' name \<noteq> None" "feed s' n \<noteq> None" for name
      by (blast, blast) (use "2.IH" [OF n, of n] in \<open>simp add: add_feed_def\<close>)
    then show ?case using n(1) by (auto simp: add_feed_def)
  qed simp
  show "feed s name \<noteq> None \<Longrightarrow> feed s' name \<noteq> None" using * by blast
  show "e \<in> set es \<Longrightarrow> \<exists>name. ec_name e = JStr name \<and> feed s' name \<noteq> None" using * by blast
qed

lemma started_known:
  assumes "start_pipeline cfg r clock d = Some (Inr pl0)" and "pipe_run pa pl0 evs got pl" and "sl \<in> set (pl_slots pl)"
  obtains name where "ec_name (sl_exchange sl) = JStr name" "feed (pl_supervisor pl) name \<noteq> None"
proof -
  obtain maxsize depth s s1 where s: "add_feeds (cfg_exchanges cfg)
      (set_sink (new_supervisor default_backoff_policy r default_max_restarts default_restart_window)) = Some (Inr s)"
      "run_start s = Inr s1" "pl_supervisor pl0 = s1"
    using start_pipelineE [OF assms(1)] by (metis pipeline.select_convs(2))
  have "map sl_exchange (pl_slots pl) = cfg_exchanges cfg"
    using assms(2) start_ok(2) [OF assms(1)] by (induction rule: pipe_run.induct) (simp_all add: step_exchanges)
  then have "sl_exchange sl \<in> set (cfg_exchanges cfg)" using assms(3) by (metis imageI list.set_map)
  from add_feeds_known(2) [OF s(1) this] obtain name where name: "ec_name (sl_exchange sl) = JStr name" "feed s name \<noteq> None"
    by blast
  have "feed s1 name \<noteq> None"
    using name(2) s(2) by (auto simp: run_start_def map_of_map split: if_splits)
  with run_supervisor [OF assms(2)] sup_run_known s(3) have "feed (pl_supervisor pl) name \<noteq> None" by blast
  with name(1) show thesis by (rule that)
qed

lemma map_result_total: "(\<And>x. x \<in> set xs \<Longrightarrow> f x = Inr (g x)) \<Longrightarrow> map_result f xs = Inr (map g xs)"
  by (induction xs) auto

lemma one_state: "length (filter snd (map (\<lambda>st. (state_value st, st = current)) all_feed_states)) = 1"
  by (cases current) (simp_all add: all_feed_states_def)

definition exchange_names :: "exchange_config list \<Rightarrow> string list" where
  "exchange_names es = map (\<lambda>e. case ec_name e of JStr name \<Rightarrow> name | _ \<Rightarrow> []) es"

lemma heartbeat_total:
  assumes "\<And>name. name \<in> set names \<Longrightarrow> feed s name \<noteq> None"
  shows "\<exists>hb. heartbeat_fields s sink names = Inr hb"
proof -
  let ?st = "\<lambda>name. (name, fe_state (the (feed s name)))" and ?n = "\<lambda>name. (name, fe_restart_count (the (feed s name)))"
  have "map_result (\<lambda>name. bind_result (get_feed_state s name) (\<lambda>st. Inr (name, st))) names = Inr (map ?st names)"
    "map_result (\<lambda>name. bind_result (get_restart_count s name) (\<lambda>n. Inr (name, n))) names = Inr (map ?n names)"
    by (rule map_result_total; use assms in \<open>force simp: get_feed_state_def get_restart_count_def\<close>)+
  then show ?thesis by (simp add: heartbeat_fields_def Let_def)
qed

definition metric_names :: "string list" where
  "metric_names =
     [''l2_messages_received_total'', ''l2_gaps_detected_total'', ''l2_ws_reconnects_total'',
      ''l2_watchdog_trips_total'', ''l2_resyncs_completed_total'', ''l2_feed_restarts_total'', ''l2_feed_state'',
      ''l2_sink_rows_written_total'', ''l2_sink_rows_dropped_total'', ''l2_sink_queue_depth'']"

text \<open>The shape of a scrape: a feed family has a sample for each of \<open>n\<close> feeds, and a feed is in one state.\<close>

definition family_ok :: "nat \<Rightarrow> metric_family \<Rightarrow> bool" where
  "family_ok n fam \<longleftrightarrow>
     length (mf_samples fam) = (if mf_labels fam = [] then 1 else n) \<and>
     list_all (\<lambda>(labels, x). case x of Number k \<Rightarrow> True | States states \<Rightarrow> length (filter snd states) = 1) (mf_samples fam)"

lemma sink_metrics_ok: "list_all (family_ok n) (sink_metrics sink)"
  by (simp add: sink_metrics_def single_family_def family_ok_def Let_def)

lemma counter_families_ok: "list_all (family_ok (length feeds)) (map (counter_family feeds) specs)"
  by (simp add: counter_family_def family_ok_def list_all_iff)

lemma collect_total:
  assumes "\<And>f. f \<in> set feeds \<Longrightarrow> feed s (fr_exchange f) \<noteq> None"
  shows "\<exists>families. collect feeds sink s = Inr families \<and> map mf_name families = metric_names \<and>
    list_all (family_ok (length feeds)) families"
proof -
  let ?n = "\<lambda>f. (feed_labels f, Number (fe_restart_count (the (feed s (fr_exchange f)))))"
  let ?st = "\<lambda>f. (feed_labels f, States (map (\<lambda>st. (state_value st, st = fe_state (the (feed s (fr_exchange f))))) all_feed_states))"
  let ?restarts = "\<lparr>mf_name = ''l2_feed_restarts_total'', mf_labels = [''exchange'', ''symbol''], mf_samples = map ?n feeds\<rparr>"
  let ?states = "\<lparr>mf_name = ''l2_feed_state'', mf_labels = [''exchange'', ''symbol''], mf_samples = map ?st feeds\<rparr>"
  have "map_result (\<lambda>f. bind_result (get_restart_count s (fr_exchange f)) (\<lambda>n. Inr (feed_labels f, Number n))) feeds =
      Inr (map ?n feeds)"
    "map_result (\<lambda>f. bind_result (get_feed_state s (fr_exchange f)) (\<lambda>current.
         Inr (feed_labels f, States (map (\<lambda>st. (state_value st, st = current)) all_feed_states)))) feeds =
      Inr (map ?st feeds)"
    by (rule map_result_total; use assms in \<open>force simp: get_feed_state_def get_restart_count_def\<close>)+
  then have eq: "collect feeds sink s =
      Inr (map (counter_family feeds) feed_counter_specs @ [?restarts, ?states] @ sink_metrics sink)"
    by (simp add: collect_def feed_counters_def restart_family_def feed_state_family_def)
  have "map mf_name (map (counter_family feeds) feed_counter_specs @ [?restarts, ?states] @ sink_metrics sink) = metric_names"
    by (simp add: feed_counter_specs_def counter_family_def sink_metrics_def single_family_def metric_names_def Let_def)
  moreover have "family_ok (length feeds) ?restarts" "family_ok (length feeds) ?states"
    using one_state by (simp_all add: family_ok_def list_all_iff)
  ultimately show ?thesis
    unfolding eq using counter_families_ok [of feeds feed_counter_specs] sink_metrics_ok [of "length feeds" sink] by simp
qed

text \<open>
  C29: monitoring never fails. At every moment of every run of a pipeline whose symbols are strings,
  the first moment before any client exists and the moments after crashes, restarts and shutdown
  included, a scrape yields all its families in order, each feed family with one sample per
  configured exchange, each feed in exactly one state, and the heartbeat has all its fields.
\<close>

theorem monitoring_never_fails:
  assumes "start_pipeline cfg r clock d = Some (Inr pl0)" and "pipe_run pa pl0 evs got pl"
    and "\<forall>e\<in>set (cfg_exchanges cfg). \<exists>name. first_symbol e = Inr (JStr name)"
  shows "\<exists>families hb. scrape pl = Some (Inr families) \<and>
    heartbeat_fields (pl_supervisor pl) (sr_sink (pl_sink pl)) (exchange_names (cfg_exchanges cfg)) = Inr hb \<and>
    map mf_name families = metric_names \<and> list_all (family_ok (length (cfg_exchanges cfg))) families"
proof -
  let ?s = "pl_supervisor pl"
  have es: "map sl_exchange (pl_slots pl) = cfg_exchanges cfg"
    using assms(2) start_ok(2) [OF assms(1)] by (induction rule: pipe_run.induct) (simp_all add: step_exchanges)
  have known: "\<exists>reg. registration_of sl = Some reg \<and> ec_name (sl_exchange sl) = JStr (fr_exchange reg) \<and>
      feed ?s (fr_exchange reg) \<noteq> None" if sl: "sl \<in> set (pl_slots pl)" for sl
  proof -
    obtain name where name: "ec_name (sl_exchange sl) = JStr name" "feed ?s name \<noteq> None"
      by (rule started_known [OF assms(1,2) sl])
    have "sl_exchange sl \<in> set (cfg_exchanges cfg)" using sl unfolding es [symmetric] by simp
    then obtain n where "first_symbol (sl_exchange sl) = Inr (JStr n)" using assms(3) by blast
    with name show ?thesis by (auto simp: registration_of_def)
  qed
  define regs where "regs = map (\<lambda>sl. the (registration_of sl)) (pl_slots pl)"
  have "None \<notin> set (map registration_of (pl_slots pl))" using known by force
  then have scrape: "scrape pl = Some (collect regs (sr_sink (pl_sink pl)) ?s)"
    by (auto simp: scrape_def regs_def comp_def Let_def)
  have regs: "feed ?s (fr_exchange f) \<noteq> None" if "f \<in> set regs" for f using that known by (force simp: regs_def)
  obtain families where families: "collect regs (sr_sink (pl_sink pl)) ?s = Inr families"
      "map mf_name families = metric_names" "list_all (family_ok (length regs)) families"
    using collect_total [of regs ?s "sr_sink (pl_sink pl)"] regs by blast
  have len: "length regs = length (cfg_exchanges cfg)" using es by (metis length_map regs_def)
  have names: "feed ?s name \<noteq> None" if "name \<in> set (exchange_names (cfg_exchanges cfg))" for name
    using that known unfolding es [symmetric] by (force simp: exchange_names_def)
  obtain hb where "heartbeat_fields ?s (sr_sink (pl_sink pl)) (exchange_names (cfg_exchanges cfg)) = Inr hb"
    using heartbeat_total [OF names] by blast
  with families show ?thesis unfolding scrape len by blast
qed

lemma monitoring_never_fails_witness:
  "\<exists>(pl0 :: cell list pipeline) families. start_pipeline demo_config (\<lambda>_. 0) still Map.empty = Some (Inr pl0) \<and>
     scrape pl0 = Some (Inr families) \<and> length families = 10"
proof -
  obtain pl0 :: "cell list pipeline" where pl0: "start_pipeline demo_config (\<lambda>_. 0) still Map.empty = Some (Inr pl0)"
    by (rule demo_started)
  have "\<forall>e\<in>set (cfg_exchanges demo_config). \<exists>name. first_symbol e = Inr (JStr name)"
    by (simp add: demo_config_def demo_exchange_def first_symbol_def)
  from monitoring_never_fails [OF pl0 pipe_run.start this] obtain families
    where f: "scrape pl0 = Some (Inr families)" "map mf_name families = metric_names" by blast
  from arg_cong [OF f(2), of length] have "length families = 10" by (simp add: metric_names_def)
  with pl0 f(1) show ?thesis by blast
qed

end
