(* ===== verification/ResyncEnds.thy ===== *)
theory ResyncEnds
  imports BinanceProps
begin

text \<open>
  A resync of the Binance client ends. The loops of \<open>_perform_resync\<close> and \<open>_fetch_snapshot\<close> are
  spread over steps of the worker, so their termination is a measure on the client that every step of
  the worker lowers and no other step raises.
\<close>

section \<open>The measure\<close>

definition limits :: "binance_client \<Rightarrow> nat \<times> nat" where
  "limits c = (nat (bc_snapshot_retry_limit c), nat (bc_http_retry_limit c))"

text \<open>The HTTP attempts left from attempt \<open>k\<close> of snapshot attempt \<open>a\<close> on, this one included.\<close>

definition slots :: "nat \<times> nat \<Rightarrow> nat \<Rightarrow> nat \<Rightarrow> nat" where
  "slots l a k = (fst l - a) * snd l - k"

text \<open>
  The steps the worker can still take in this resync: each HTTP attempt may be throttled, got, and rate
  limited; and the requests it can still have answered.
\<close>

fun resync_steps :: "nat \<times> nat \<Rightarrow> worker \<Rightarrow> nat" where
  "resync_steps l (W_Throttled a k until) = 3 * slots l a k"
| "resync_steps l (W_Getting a k) = 3 * slots l a k - 1"
| "resync_steps l (W_Rate_Limited a k until) = 3 * slots l a k - 2"
| "resync_steps l _ = 0"

fun gets_left :: "nat \<times> nat \<Rightarrow> worker \<Rightarrow> nat" where
  "gets_left l (W_Rate_Limited a k until) = slots l a k - 1"
| "gets_left l (W_Throttled a k until) = slots l a k"
| "gets_left l (W_Getting a k) = slots l a k"
| "gets_left l _ = 0"

fun in_range :: "nat \<times> nat \<Rightarrow> worker \<Rightarrow> bool" where
  "in_range l (W_Throttled a k until) = (a < fst l \<and> k < snd l)"
| "in_range l (W_Getting a k) = (a < fst l \<and> k < snd l)"
| "in_range l (W_Rate_Limited a k until) = (a < fst l \<and> k < snd l)"
| "in_range l _ = True"

definition at_most_left :: "nat \<Rightarrow> binance_client \<Rightarrow> binance_client \<Rightarrow> bool" where
  "at_most_left n c c' \<longleftrightarrow>
     limits c' = limits c \<and> in_range (limits c') (bc_worker c') \<and>
     resync_steps (limits c') (bc_worker c') \<le> 3 * n \<and> gets_left (limits c') (bc_worker c') \<le> n"

text \<open>What a step of the worker spends.\<close>

fun spends_step :: "binance_event \<Rightarrow> bool" where
  "spends_step (Throttle_Over now) = True"
| "spends_step (Get_Fails now) = True"
| "spends_step (Get_Returns rsp lns wns now) = True"
| "spends_step (Rate_Limit_Over now) = True"
| "spends_step ev = False"

fun begins_resync :: "binance_event \<Rightarrow> bool" where
  "begins_resync (Worker_Wakes now) = True"
| "begins_resync ev = False"

lemma slots_next: "a < fst l \<Longrightarrow> k < snd l \<Longrightarrow> slots l a (Suc k) = slots l a k - 1 \<and> 0 < slots l a k"
proof -
  assume "a < fst l" "k < snd l"
  then obtain m where "fst l - a = Suc m" by (metis Suc_diff_Suc)
  with \<open>k < snd l\<close> show ?thesis by (simp add: slots_def)
qed

lemma slots_later: "a < fst l \<Longrightarrow> k < snd l \<Longrightarrow> slots l (Suc a) 0 < slots l a k"
proof -
  assume *: "a < fst l" "k < snd l"
  then obtain m where "fst l - a = Suc m" by (metis Suc_diff_Suc)
  moreover from this have "fst l - Suc a = m" by simp
  ultimately show ?thesis using *(2) by (simp add: slots_def)
qed

section \<open>The limits never change\<close>

lemma limits_bump [simp]: "limits (bump_stat k c) = limits c"
  by (simp add: limits_def)

lemma limits_upd [simp]:
  "limits (c\<lparr>bc_engine := e\<rparr>) = limits c" "limits (c\<lparr>bc_bucket := b\<rparr>) = limits c"
  "limits (c\<lparr>bc_worker := w\<rparr>) = limits c" "limits (c\<lparr>bc_queue := q\<rparr>) = limits c"
  "limits (c\<lparr>bc_resync_needed := r\<rparr>) = limits c" "limits (c\<lparr>bc_buffered := n\<rparr>) = limits c"
  "limits (c\<lparr>bc_connection := cm\<rparr>) = limits c" "limits (c\<lparr>bc_current_ws := ws\<rparr>) = limits c"
  "limits (c\<lparr>bc_phase := ph\<rparr>) = limits c" "limits (c\<lparr>bc_closed := cl\<rparr>) = limits c"
  "limits (c\<lparr>bc_stats := st\<rparr>) = limits c" "limits (c\<lparr>bc_requested := rq\<rparr>) = limits c"
  by (simp_all add: limits_def)

lemma limits_offer [simp]: "limits (snd (offer c lns wns ems)) = limits c"
  by (simp add: offer_def split: prod.splits)

lemma limits_give_up [simp]: "limits (give_up c) = limits c"
  by (simp add: give_up_def Let_def split: option.splits)

lemma limits_fetch [simp]: "limits (fetch c now a k) = limits c"
  by (simp add: fetch_def issue_get_def Let_def split: prod.splits sum.splits)

lemma limits_attempt [simp]: "limits (attempt_resync c now a) = limits c"
  by (simp add: attempt_resync_def)

lemma limits_finish [simp]: "limits (finish_run c err) = limits c"
  by (simp add: finish_run_def split: worker.splits)

lemma limits_disconnected [simp]: "limits (on_disconnected c why now) = limits c"
  by (simp add: on_disconnected_def Let_def split: prod.splits phase.splits)

lemma limits_apply [simp]: "limits (snd (apply_diff c diff lns wns ems)) = limits c"
  by (simp add: apply_diff_def Let_def split: prod.splits apply_status.splits)

lemma limits_message [simp]: "limits (snd (read_message c frame lns wns)) = limits c"
  by (simp add: read_message_def Let_def split: sum.splits prod.splits option.splits)

section \<open>Every step of the worker lowers the measure\<close>

lemma fetch_left:
  assumes "a < fst (limits c)" and "slots (limits c) a k \<le> n"
  shows "at_most_left n c (fetch c now a k)"
proof (cases "bc_http_retry_limit c \<le> int k")
  case True
  then have "\<exists>c1. fetch c now a k = give_up c1 \<and> limits c1 = limits c" by (auto simp: fetch_def)
  then show ?thesis by (auto simp: at_most_left_def give_up_worker)
next
  case False
  then have "k < snd (limits c)" by (simp add: limits_def)
  with False assms show ?thesis
    by (auto simp: at_most_left_def fetch_def issue_get_def Let_def split: prod.splits sum.splits)
qed

lemma attempt_left:
  assumes "slots (limits c) a 0 \<le> n"
  shows "at_most_left n c (attempt_resync c now a)"
proof (cases "bc_snapshot_retry_limit c \<le> int a")
  case True
  then show ?thesis by (simp add: attempt_resync_def at_most_left_def give_up_worker)
next
  case False
  then have "a < fst (limits c)" by (simp add: limits_def)
  from fetch_left [OF this assms] False show ?thesis by (simp add: attempt_resync_def)
qed

lemma left_bump: "at_most_left n (bump_stat k (c\<lparr>bc_engine := e\<rparr>)) c' \<longleftrightarrow> at_most_left n c c'"
  by (simp add: at_most_left_def)

lemma snapshot_left:
  assumes "slots (limits c) (Suc a) 0 \<le> n"
  shows "at_most_left n c (on_snapshot c now a s lns wns)"
proof (cases rule: on_snapshot_cases [where c = c and now = now and a = a and s = s and lns = lns and wns = wns])
  case (raised err)
  then show ?thesis by (simp add: at_most_left_def)
next
  case (applied e o2 c2 w)
  have "limits c2 = limits c"
    using limits_offer [of "bump_stat ''resync_completed'' (c\<lparr>bc_engine := e\<rparr>)" lns wns None] applied(1) by simp
  with applied(2,3) show ?thesis by (cases w) (auto simp: at_most_left_def)
next
  case (again e n')
  have "at_most_left n (bump_stat n' (c\<lparr>bc_engine := e\<rparr>)) (attempt_resync (bump_stat n' (c\<lparr>bc_engine := e\<rparr>)) now (a + 1))"
    using assms by (intro attempt_left) simp
  with again show ?thesis unfolding left_bump by simp
qed

lemma step_spends:
  assumes "binance_step c ev c'" and "in_range (limits c) (bc_worker c)" and "spends_step ev"
  shows "limits c' = limits c \<and> in_range (limits c') (bc_worker c') \<and>
    resync_steps (limits c') (bc_worker c') < resync_steps (limits c) (bc_worker c) \<and>
    gets_left (limits c') (bc_worker c') + (if get_ends ev then 1 else 0) \<le> gets_left (limits c) (bc_worker c)"
  using assms(1)
proof (cases rule: binance_step.cases)
  case (throttle_over a k until now)
  with assms(2) slots_next [of a "limits c" k] show ?thesis by (auto simp: issue_get_def)
next
  case (get_fails a k now)
  then have r: "a < fst (limits c)" "k < snd (limits c)" using assms(2) by simp_all
  note s = slots_next [OF r]
  have "at_most_left (slots (limits c) a k - 1) (bump_stat ''snapshot_fetch_network_error'' c) c'"
    unfolding get_fails network_error_def using r(1) s by (intro fetch_left) simp_all
  with get_fails s show ?thesis by (auto simp: at_most_left_def)
next
  case (get_returns a k now rsp lns wns)
  then have r: "a < fst (limits c)" "k < snd (limits c)" using assms(2) by simp_all
  note s = slots_next [OF r] slots_later [OF r]
  from get_returns(3) show ?thesis
  proof (cases rule: on_response_cases)
    case (died err)
    with get_returns s show ?thesis by auto
  next
    case (limited wait)
    with get_returns s r show ?thesis by auto
  next
    case (loaded raw sn)
    have "slots (limits c) (Suc a) 0 \<le> slots (limits c) a k - 1" using s by simp
    from snapshot_left [OF this, of now sn lns wns] s loaded(4) get_returns show ?thesis
      by (auto simp: at_most_left_def)
  qed
next
  case (rate_limit_over a k until now)
  then have r: "a < fst (limits c)" "k < snd (limits c)" using assms(2) by simp_all
  note s = slots_next [OF r]
  have "at_most_left (slots (limits c) a k - 1) c c'"
    unfolding rate_limit_over using r(1) s by (intro fetch_left) simp_all
  with rate_limit_over s show ?thesis by (auto simp: at_most_left_def)
qed (use assms(3) in simp_all)

lemma cancelled_left:
  "bc_worker c' = bc_worker c \<or> bc_worker c' = W_Cancelled \<Longrightarrow> limits c' = limits c \<Longrightarrow> in_range (limits c) (bc_worker c) \<Longrightarrow>
     limits c' = limits c \<and> in_range (limits c') (bc_worker c') \<and>
     resync_steps (limits c') (bc_worker c') \<le> resync_steps (limits c) (bc_worker c) \<and>
     gets_left (limits c') (bc_worker c') \<le> gets_left (limits c) (bc_worker c)"
  by auto

lemma step_quiet:
  assumes "binance_step c ev c'" and "in_range (limits c) (bc_worker c)" and "\<not> spends_step ev" and "\<not> begins_resync ev"
  shows "limits c' = limits c \<and> in_range (limits c') (bc_worker c') \<and>
    resync_steps (limits c') (bc_worker c') \<le> resync_steps (limits c) (bc_worker c) \<and>
    gets_left (limits c') (bc_worker c') \<le> gets_left (limits c) (bc_worker c)"
  using assms(1)
proof (cases rule: binance_step.cases)
  case (message ws frame lns wns)
  with read_message_frame(2) [OF message(3)] limits_message [of c frame lns wns] show ?thesis
    by (intro cancelled_left assms(2)) simp_all
next
  case (message_raises ws frame lns wns err c1 now)
  with read_message_frame(2) [OF message_raises(4)] limits_message [of c frame lns wns]
    on_disconnected_worker [of c1 "cause_of err" now] show ?thesis
    by (intro cancelled_left assms(2)) simp_all
next
  case (refused why now)
  with on_disconnected_worker [of c why now] show ?thesis by (intro cancelled_left assms(2)) simp_all
next
  case (lost ws why now)
  with on_disconnected_worker [of c why now] show ?thesis by (intro cancelled_left assms(2)) simp_all
next
  case cancel
  with finish_run_worker [of c CancelledError] show ?thesis by (intro cancelled_left assms(2)) simp_all
next
  case (opens ws now)
  then show ?thesis by (intro cancelled_left assms(2)) (simp_all add: on_connected_def bump_stat_def limits_def)
next
  case (backoff_over delay)
  then show ?thesis by (intro cancelled_left assms(2)) (simp_all add: begin_attempt_def limits_def)
next
  case close_returns
  then show ?thesis by simp
next
  case (sink_takes q row q')
  then show ?thesis by (intro cancelled_left assms(2)) simp_all
next
  case (other_puts q row)
  then show ?thesis by (intro cancelled_left assms(2)) simp_all
qed (use assms(3,4) in simp_all)

lemma wakes_left:
  assumes "binance_step c (Worker_Wakes now) c1"
  shows "at_most_left (fst (limits c) * snd (limits c)) c c1"
proof -
  have "c1 = worker_wakes c now" "bc_worker c = W_Waiting"
    using assms by (cases rule: binance_step.cases; simp)+
  moreover have "slots (limits (c\<lparr>bc_resync_needed := False, bc_buffered := 0\<rparr>)) 0 0 \<le> fst (limits c) * snd (limits c)"
    by (simp add: slots_def)
  from attempt_left [OF this, of now]
  have "at_most_left (fst (limits c) * snd (limits c)) (c\<lparr>bc_resync_needed := False, bc_buffered := 0\<rparr>)
      (attempt_resync (c\<lparr>bc_resync_needed := False, bc_buffered := 0\<rparr>) now 0)" .
  ultimately show ?thesis by (simp add: worker_wakes_def at_most_left_def Let_def)
qed

lemma run_spends:
  assumes "binance_run c evs c'" and "in_range (limits c) (bc_worker c)" and "\<forall>ev \<in> set evs. \<not> begins_resync ev"
  shows "limits c' = limits c \<and> in_range (limits c') (bc_worker c') \<and>
    resync_steps (limits c') (bc_worker c') + length (filter spends_step evs) \<le> resync_steps (limits c) (bc_worker c) \<and>
    gets_left (limits c') (bc_worker c') + length (filter get_ends evs) \<le> gets_left (limits c) (bc_worker c)"
  using assms
proof (induction rule: binance_run.induct)
  case (snoc evs c1 ev c2)
  have only: "get_ends ev \<Longrightarrow> spends_step ev" by (cases ev) simp_all
  show ?case
  proof (cases "spends_step ev")
    case True
    from step_spends [OF snoc.hyps(2) _ True] snoc.IH snoc.prems True show ?thesis by (auto split: if_splits)
  next
    case False
    from step_quiet [OF snoc.hyps(2) _ False] snoc.IH snoc.prems False only show ?thesis by auto
  qed
qed simp

lemma busy_moves:
  assumes "busy (bc_worker c)"
  obtains ev c' where "spends_step ev" "binance_step c ev c'"
proof (cases "bc_worker c")
  case (W_Throttled a k until)
  from that [OF _ throttle_over [OF this order_refl]] show thesis by simp
next
  case (W_Getting a k)
  from that [OF _ get_fails [OF this, of 0]] show thesis by simp
next
  case (W_Rate_Limited a k until)
  from that [OF _ rate_limit_over [OF this order_refl]] show thesis by simp
qed (use assms in simp_all)

lemma busy_left: "in_range l w \<Longrightarrow> busy w \<Longrightarrow> 0 < resync_steps l w"
  using slots_next by (cases w) fastforce+

text \<open>
  C35: a resync of the Binance client ends. Once the worker has woken, whatever the server answers and
  whatever happens to the connection meanwhile, at most one step per throttling, request and rate limit of
  the \<open>snapshot_retry_limit\<close> times \<open>http_retry_limit\<close> attempts (200 by default) is taken before the worker
  wakes again, no more requests than attempts are answered, after the last step the worker is no longer
  busy, and before it a step of the worker is always possible.
\<close>

theorem binance_resync_ends:
  assumes "binance_step c (Worker_Wakes now) c1" and "binance_run c1 evs c2"
    and "\<forall>ev \<in> set evs. \<not> begins_resync ev"
    and "attempts = nat (bc_snapshot_retry_limit c) * nat (bc_http_retry_limit c)"
  shows "length (filter spends_step evs) \<le> 3 * attempts \<and> length (filter get_ends evs) \<le> attempts \<and>
    (length (filter spends_step evs) = 3 * attempts \<longrightarrow> \<not> busy (bc_worker c2)) \<and>
    (busy (bc_worker c2) \<longrightarrow> (\<exists>ev c3. spends_step ev \<and> binance_step c2 ev c3))"
proof -
  note start = wakes_left [OF assms(1), unfolded at_most_left_def]
  have "attempts = fst (limits c) * snd (limits c)" using assms(4) by (simp add: limits_def)
  with start have n: "resync_steps (limits c1) (bc_worker c1) \<le> 3 * attempts" "gets_left (limits c1) (bc_worker c1) \<le> attempts"
    by (auto simp del: resync_steps.simps gets_left.simps)
  have "in_range (limits c1) (bc_worker c1)" using start by blast
  note r = run_spends [OF assms(2) this assms(3)]
  have "busy (bc_worker c2) \<Longrightarrow> 0 < resync_steps (limits c2) (bc_worker c2)"
    using r by (intro busy_left) blast+
  moreover have "busy (bc_worker c2) \<Longrightarrow> \<exists>ev c3. spends_step ev \<and> binance_step c2 ev c3"
    using busy_moves [of c2] by metis
  ultimately show ?thesis using r n by auto
qed

lemma binance_resync_ends_witness:
  "\<exists>c1 c2. binance_step (on_connected demo_client 1 0) (Worker_Wakes 0) c1 \<and>
     binance_run c1 [Get_Fails 0, Get_Fails 0] c2 \<and> length (filter get_ends [Get_Fails 0, Get_Fails 0]) \<le> 200"
proof -
  let ?c = "on_connected demo_client 1 0" and ?c1 = "worker_wakes (on_connected demo_client 1 0) 0"
  have step: "binance_step ?c (Worker_Wakes 0) ?c1"
    by (rule wakes) (simp_all add: on_connected_def demo_client_def new_binance_client_def bump_stat_def)
  have limits: "nat (bc_snapshot_retry_limit ?c) * nat (bc_http_retry_limit ?c) = 200"
    by (simp add: on_connected_def demo_client_def new_binance_client_def bump_stat_def)
  have w: "bc_worker ?c1 = W_Getting 0 0" "bc_worker (network_error ?c1 0 0 0) = W_Getting 0 1"
    by (simp_all add: worker_wakes_def on_connected_def demo_client_def new_binance_client_def bump_stat_def
        invalidate_def new_engine_def attempt_resync_def fetch_def time_until_available_def refill_def try_acquire_def
        default_snapshot_bucket_def new_bucket_def issue_get_def Let_def)
  have "binance_run ?c1 ([Get_Fails 0] @ [Get_Fails 0]) (network_error (network_error ?c1 0 0 0) 0 0 1)"
    using binance_run.snoc [OF binance_run.start get_fails [OF w(1), of 0]]
    by (intro binance_run.snoc [OF _ get_fails [OF w(2)]]) simp
  then have run: "binance_run ?c1 [Get_Fails 0, Get_Fails 0] (network_error (network_error ?c1 0 0 0) 0 0 1)" by simp
  from binance_resync_ends [OF step run _ limits [symmetric]] step run show ?thesis by auto
qed

end
