(* ===== verification/Startup.thy ===== *)
theory Startup
  imports Config HourKey
begin

text \<open>
  How the process starts: \<open>main\<close> of \<^verbatim>\<open>app.py\<close> up to the pipeline, with \<^verbatim>\<open>logging_setup.py\<close>. The root
  logger is its handlers, each by its formatter, and its level. The payload of a log line is the
  dictionary handed to \<open>json.dumps\<close>; the time of a record is an exact rational.
\<close>

section \<open>Log lines\<close>

record log_record =
  lr_created :: rat
  lr_levelname :: string
  lr_name :: string
  lr_message :: string
  lr_exc_text :: "string option"
  lr_extra_fields :: "json option"

text \<open>Microseconds since the epoch, rounded half to even, and \<open>isoformat\<close> of the time they are in UTC.\<close>

definition micros_of :: "rat \<Rightarrow> int" where
  "micros_of t = (let (n, d) = quotient_of (t * 1000000) in round_half_even n d)"

definition iso_text :: "int \<Rightarrow> string result" where
  "iso_text micros =
     (let days = micros div 86400000000 + epoch_day; rest = nat (micros mod 86400000000);
          secs = rest div 1000000; us = rest mod 1000000
      in if 0 \<le> days \<and> days < days_of_9999_years
         then (let (y, m, d) = civil_date (nat days)
               in Inr (zero_pad 4 y @ ''-'' @ zero_pad 2 m @ ''-'' @ zero_pad 2 d @ ''T'' @
                    zero_pad 2 (secs div 3600) @ '':'' @ zero_pad 2 (secs div 60 mod 60) @ '':'' @
                    zero_pad 2 (secs mod 60) @ (if us = 0 then '''' else ''.'' @ zero_pad 6 us) @ ''+00:00''))
         else Inl ValueError)"

definition log_payload :: "log_record \<Rightarrow> (string \<times> json) list result" where
  "log_payload x =
     bind_result (iso_text (micros_of (lr_created x))) (\<lambda>ts.
       let base = [(''ts'', JStr ts), (''level'', JStr (lr_levelname x)), (''logger'', JStr (lr_name x)),
                   (''message'', JStr (lr_message x))];
           payload = (case lr_exc_text x of None \<Rightarrow> base | Some exc \<Rightarrow> AList.update ''exc_info'' (JStr exc) base)
       in Inr (case lr_extra_fields x of Some (JDict extra) \<Rightarrow> dict_of payload extra | _ \<Rightarrow> payload))"

section \<open>The root logger\<close>

datatype log_formatter = Json_Lines | Plain_Lines

record root_logger =
  rl_handlers :: "log_formatter list"
  rl_level :: nat

definition level_names :: "(string \<times> nat) list" where
  "level_names =
     [(''CRITICAL'', 50), (''FATAL'', 50), (''ERROR'', 40), (''WARNING'', 30), (''WARN'', 30), (''INFO'', 20),
      (''DEBUG'', 10), (''NOTSET'', 0)]"

definition upper_char :: "char \<Rightarrow> char" where
  "upper_char c = (let n = of_char c :: nat in if 97 \<le> n \<and> n \<le> 122 then char_of (n - 32) else c)"

text \<open>The handlers are replaced before the level is looked up.\<close>

definition configure_logging :: "json \<Rightarrow> json \<Rightarrow> root_logger \<Rightarrow> unit result \<times> root_logger" where
  "configure_logging level fmt rl =
     (let rl1 = rl\<lparr>rl_handlers := [if fmt = JStr ''json'' then Json_Lines else Plain_Lines]\<rparr>
      in case level of
           JStr s \<Rightarrow>
             (case map_of level_names (map upper_char s) of
                None \<Rightarrow> (Inl ValueError, rl1)
              | Some n \<Rightarrow> (Inr (), rl1\<lparr>rl_level := n\<rparr>))
         | _ \<Rightarrow> (Inl AttributeError, rl1))"

section \<open>\<open>main\<close>\<close>

text \<open>What \<open>main\<close> does before the pipeline runs: the configuration it would run, or what it raises.\<close>

definition start_process ::
  "string result \<Rightarrow> (string \<Rightarrow> json result) \<Rightarrow> root_logger \<Rightarrow> app_config result \<times> root_logger" where
  "start_process text_of_file yaml_safe_load rl =
     (case load_config text_of_file yaml_safe_load of
        Inl err \<Rightarrow> (Inl err, rl)
      | Inr cfg \<Rightarrow>
          (case configure_logging (lc_level (cfg_logging cfg)) (lc_format (cfg_logging cfg)) rl of
             (Inl err, rl1) \<Rightarrow> (Inl err, rl1)
           | (Inr _, rl1) \<Rightarrow> (Inr cfg, rl1)))"

section \<open>Properties\<close>

text \<open>A key of a log line is that of the extra fields if they have it, and the record's otherwise.\<close>

lemma log_payload_lookup:
  assumes "log_payload x = Inr payload" and "lr_extra_fields x = Some (JDict extra)" and "distinct_keys extra"
  shows "distinct_keys payload \<and> (\<forall>v. map_of extra k = Some v \<longrightarrow> map_of payload k = Some v) \<and>
    (map_of extra ''message'' = None \<longrightarrow> map_of payload ''message'' = Some (JStr (lr_message x)))"
proof -
  obtain ts where "payload = dict_of (case lr_exc_text x of
      None \<Rightarrow> [(''ts'', JStr ts), (''level'', JStr (lr_levelname x)), (''logger'', JStr (lr_name x)), (''message'', JStr (lr_message x))]
    | Some exc \<Rightarrow> AList.update ''exc_info'' (JStr exc)
        [(''ts'', JStr ts), (''level'', JStr (lr_levelname x)), (''logger'', JStr (lr_name x)), (''message'', JStr (lr_message x))]) extra"
    using assms(1,2) by (auto simp: log_payload_def bind_result_def Let_def split: sum.splits)
  with assms(3) show ?thesis
    by (auto simp: map_of_dict_of map_of_rev_distinct map_add_def intro!: distinct_dict_of split: option.splits)
qed

text \<open>
  How the process starts. It runs the configuration that was loaded, with one handler of the chosen
  format and the named level; else it raises what loading raised, with logging untouched, or, although
  the configuration was accepted, a level that is no text raises \<open>AttributeError\<close> and a text that names
  no level \<open>ValueError\<close>, with the handlers already replaced.
\<close>

theorem startup_outcome:
  "case start_process text_of_file yaml_safe_load rl of
     (Inr cfg, rl1) \<Rightarrow>
       load_config text_of_file yaml_safe_load = Inr cfg \<and>
       (\<exists>s n. lc_level (cfg_logging cfg) = JStr s \<and> map_of level_names (map upper_char s) = Some n \<and>
          rl1 = \<lparr>rl_handlers = [if lc_format (cfg_logging cfg) = JStr ''json'' then Json_Lines else Plain_Lines],
                 rl_level = n\<rparr>)
   | (Inl err, rl1) \<Rightarrow>
       load_config text_of_file yaml_safe_load = Inl err \<and> rl1 = rl \<or>
       (\<exists>cfg. load_config text_of_file yaml_safe_load = Inr cfg \<and> rl_level rl1 = rl_level rl \<and> length (rl_handlers rl1) = 1 \<and>
          (err = AttributeError \<and> (\<forall>s. lc_level (cfg_logging cfg) \<noteq> JStr s) \<or>
           err = ValueError \<and> (\<exists>s. lc_level (cfg_logging cfg) = JStr s \<and> map_of level_names (map upper_char s) = None)))"
proof (cases "load_config text_of_file yaml_safe_load")
  case (Inl err)
  then show ?thesis by (simp add: start_process_def)
next
  case (Inr cfg)
  show ?thesis
  proof (cases "lc_level (cfg_logging cfg)")
    case (JStr s)
    with Inr show ?thesis
      by (cases "map_of level_names (map upper_char s)") (simp_all add: start_process_def configure_logging_def Let_def)
  qed (use Inr in \<open>simp_all add: start_process_def configure_logging_def Let_def\<close>)
qed

lemma iso_text_example: "iso_text 1166666666667 = Inr ''1970-01-14T12:04:26.666667+00:00''"
  by (simp add: iso_text_def civil_date_def year_day_def month_lengths_def is_leap_def epoch_day_def days_of_9999_years_def Let_def zero_pad_def nat_str.simps digit_char_def)

end
