(* ===== verification/Process.thy ===== *)
theory Process
  imports Metrics Startup
begin

text \<open>
  The rest of \<open>_run_pipeline\<close> and \<open>main\<close> of \<^verbatim>\<open>app.py\<close>: around the pipeline of \<open>App\<close> there are the metrics
  server, the heartbeat task, the signal handlers and the \<open>finally\<close> that ends them. The server is
  up or not; whether its port can be bound and which signals the platform can handle are parameters.
  A signal without a handler is left out.
\<close>

section \<open>The process\<close>

datatype heartbeat_task = Beating | Beat_Cancelled | Beat_Died py_exc

datatype signal = SIGINT | SIGTERM

text \<open>Where \<open>_run_pipeline\<close> is: in \<open>supervisor.run\<close>, at the two awaits of its \<open>finally\<close>, or over.\<close>

datatype stage = Supervising | Awaiting_Heartbeat | Stopping_Server | Process_Over "py_exc option"

record 'a process =
  pr_pipeline :: "'a pipeline"
  pr_names :: "string list"
  pr_server_up :: bool
  pr_heartbeat :: heartbeat_task
  pr_beats :: "heartbeat list"
  pr_handled :: "signal list"
  pr_stage :: stage

text \<open>\<open>add_signal_handler\<close> for the two signals; where the platform has none, its exception is passed over.\<close>

definition install_handlers :: "(signal \<Rightarrow> bool) \<Rightarrow> signal list" where
  "install_handlers supported = filter supported [SIGINT, SIGTERM]"

text \<open>
  \<open>_run_pipeline\<close> until the supervisor waits. The port is bound before any task exists: an error
  there ends the process with no feed started.
\<close>

definition begin_process ::
  "app_config \<Rightarrow> rng \<Rightarrow> readings \<Rightarrow> 'a disk \<Rightarrow> unit result \<Rightarrow> (signal \<Rightarrow> bool) \<Rightarrow> 'a process result option" where
  "begin_process cfg r clock d start_http_server supported =
     map_option (\<lambda>started. bind_result started (\<lambda>pl. bind_result start_http_server (\<lambda>_.
         Inr \<lparr>pr_pipeline = pl, pr_names = exchange_names (cfg_exchanges cfg), pr_server_up = True, pr_heartbeat = Beating,
              pr_beats = [], pr_handled = install_handlers supported, pr_stage = Supervising\<rparr>)))
       (start_pipeline cfg r clock d)"

text \<open>\<open>main\<close>: the logging of the configuration, then the pipeline.\<close>

definition main ::
  "string result \<Rightarrow> (string \<Rightarrow> json result) \<Rightarrow> root_logger \<Rightarrow> rng \<Rightarrow> readings \<Rightarrow> 'a disk \<Rightarrow> unit result \<Rightarrow>
     (signal \<Rightarrow> bool) \<Rightarrow> 'a process result option" where
  "main text_of_file yaml_safe_load rl r clock d start_http_server supported =
     (case start_process text_of_file yaml_safe_load rl of
        (Inl err, rl1) \<Rightarrow> Some (Inl err)
      | (Inr cfg, rl1) \<Rightarrow> begin_process cfg r clock d start_http_server supported)"

section \<open>Steps\<close>

datatype process_event =
    Pipe_Moves pipe_event
  | Signal_Comes signal
  | Beat_Due
  | Supervisor_Returns
  | Heartbeat_Awaited
  | Server_Stopped

definition put_pipeline :: "'a pipeline \<Rightarrow> 'a process \<Rightarrow> 'a process" where
  "put_pipeline pl p = p\<lparr>pr_pipeline := pl\<rparr>"

fun cancel_beat :: "heartbeat_task \<Rightarrow> heartbeat_task" where
  "cancel_beat Beating = Beat_Cancelled"
| "cancel_beat t = t"

text \<open>One turn of the worker after its sleep.\<close>

definition beat :: "'a process \<Rightarrow> 'a process" where
  "beat p =
     (case heartbeat_fields (pl_supervisor (pr_pipeline p)) (sr_sink (pl_sink (pr_pipeline p))) (pr_names p) of
        Inl err \<Rightarrow> p\<lparr>pr_heartbeat := Beat_Died err\<rparr>
      | Inr hb \<Rightarrow> p\<lparr>pr_beats := pr_beats p @ [hb]\<rparr>)"

inductive process_step :: "'a arrays \<Rightarrow> 'a process \<Rightarrow> process_event \<Rightarrow> 'a process \<Rightarrow> bool" for pa where
  pipe_moves:
    "pr_stage p = Supervising \<Longrightarrow> ev \<noteq> Shutdown_Signal \<Longrightarrow> pipe_step pa (pr_pipeline p) ev pl \<Longrightarrow>
     process_step pa p (Pipe_Moves ev) (put_pipeline pl p)"
| signal_comes:
    "(\<forall>r. pr_stage p \<noteq> Process_Over r) \<Longrightarrow> sig \<in> set (pr_handled p) \<Longrightarrow> pipe_step pa (pr_pipeline p) Shutdown_Signal pl \<Longrightarrow>
     process_step pa p (Signal_Comes sig) (put_pipeline pl p)"
| beat_due:
    "pr_stage p = Supervising \<Longrightarrow> pr_heartbeat p = Beating \<Longrightarrow> process_step pa p Beat_Due (beat p)"
| supervisor_returns:
    "pr_stage p = Supervising \<Longrightarrow> run_returned (pl_supervisor (pr_pipeline p)) \<Longrightarrow>
     process_step pa p Supervisor_Returns (p\<lparr>pr_heartbeat := cancel_beat (pr_heartbeat p), pr_stage := Awaiting_Heartbeat\<rparr>)"
| heartbeat_awaited:
    "pr_stage p = Awaiting_Heartbeat \<Longrightarrow>
     process_step pa p Heartbeat_Awaited
       (p\<lparr>pr_stage := (case pr_heartbeat p of Beat_Died err \<Rightarrow> Process_Over (Some err) | _ \<Rightarrow> Stopping_Server)\<rparr>)"
| server_stopped:
    "pr_stage p = Stopping_Server \<Longrightarrow>
     process_step pa p Server_Stopped (p\<lparr>pr_server_up := False, pr_stage := Process_Over None\<rparr>)"

inductive_cases process_stepE: "process_step pa p ev p'"

inductive process_run :: "'a arrays \<Rightarrow> 'a process \<Rightarrow> process_event list \<Rightarrow> 'a process \<Rightarrow> bool" for pa p where
  start: "process_run pa p [] p"
| snoc: "process_run pa p evs p1 \<Longrightarrow> process_step pa p1 ev p2 \<Longrightarrow> process_run pa p (evs @ [ev]) p2"

text \<open>The steps of a run that are steps of its pipeline.\<close>

fun pipe_part :: "process_event \<Rightarrow> pipe_event list" where
  "pipe_part (Pipe_Moves ev) = [ev]"
| "pipe_part (Signal_Comes sig) = [Shutdown_Signal]"
| "pipe_part _ = []"

section \<open>What holds in every process\<close>

lemma put_pipeline_simps [simp]:
  "pr_pipeline (put_pipeline pl p) = pl" "pr_names (put_pipeline pl p) = pr_names p"
  "pr_server_up (put_pipeline pl p) = pr_server_up p" "pr_heartbeat (put_pipeline pl p) = pr_heartbeat p"
  "pr_beats (put_pipeline pl p) = pr_beats p" "pr_handled (put_pipeline pl p) = pr_handled p"
  "pr_stage (put_pipeline pl p) = pr_stage p"
  by (simp_all add: put_pipeline_def)

lemma beat_pipeline [simp]: "pr_pipeline (beat p) = pr_pipeline p" "pr_names (beat p) = pr_names p"
  "pr_server_up (beat p) = pr_server_up p" "pr_stage (beat p) = pr_stage p" "pr_handled (beat p) = pr_handled p"
  by (simp_all add: beat_def split: sum.splits)

lemma process_pipe_run:
  assumes "process_run pa p0 evs p"
  shows "\<exists>got. pipe_run pa (pr_pipeline p0) (concat (map pipe_part evs)) got (pr_pipeline p)" "pr_names p = pr_names p0"
  using assms
proof (induction rule: process_run.induct)
  case start
  show "\<exists>got. pipe_run pa (pr_pipeline p0) (concat (map pipe_part [])) got (pr_pipeline p0)"
    using pipe_run.start by auto
next
  case (snoc evs p1 ev p2)
  case 1
  from snoc.hyps(2) snoc.IH(1) show ?case
    by cases (auto intro: pipe_run.snoc)
next
  case (snoc evs p1 ev p2)
  case 2
  from snoc.hyps(2) snoc.IH(2) show ?case by cases auto
qed simp

text \<open>The supervisor knows the feeds that the heartbeat asks for.\<close>

lemma names_known:
  assumes "start_pipeline cfg r clock d = Some (Inr pl0)" and "pipe_run pa pl0 evs got pl"
    and "name \<in> set (exchange_names (cfg_exchanges cfg))"
  shows "feed (pl_supervisor pl) name \<noteq> None"
proof -
  have es: "map sl_exchange (pl_slots pl) = cfg_exchanges cfg"
    using assms(2) start_ok(2) [OF assms(1)] by (induction rule: pipe_run.induct) (simp_all add: step_exchanges)
  from assms(3) obtain sl where sl: "sl \<in> set (pl_slots pl)"
    "name = (case ec_name (sl_exchange sl) of JStr n \<Rightarrow> n | _ \<Rightarrow> [])"
    unfolding exchange_names_def es [symmetric] by auto
  obtain n where "ec_name (sl_exchange sl) = JStr n" "feed (pl_supervisor pl) n \<noteq> None"
    by (rule started_known [OF assms(1,2) sl(1)])
  with sl(2) show ?thesis by simp
qed

text \<open>The state of the server and of the heartbeat by the stage.\<close>

definition stage_ok :: "'a process \<Rightarrow> bool" where
  "stage_ok p \<longleftrightarrow>
     (pr_server_up p \<longleftrightarrow> (\<forall>r. pr_stage p \<noteq> Process_Over r)) \<and>
     pr_heartbeat p = (if pr_stage p = Supervising then Beating else Beat_Cancelled) \<and>
     (pr_stage p \<noteq> Supervising \<longrightarrow> run_returned (pl_supervisor (pr_pipeline p))) \<and>
     (\<forall>err. pr_stage p \<noteq> Process_Over (Some err))"

definition names_ok :: "'a process \<Rightarrow> bool" where
  "names_ok p \<longleftrightarrow> (\<forall>name \<in> set (pr_names p). feed (pl_supervisor (pr_pipeline p)) name \<noteq> None)"

lemma beat_ok:
  assumes "names_ok p"
  obtains hb where "beat p = p\<lparr>pr_beats := pr_beats p @ [hb]\<rparr>"
proof -
  have "\<exists>hb. heartbeat_fields (pl_supervisor (pr_pipeline p)) (sr_sink (pl_sink (pr_pipeline p))) (pr_names p) = Inr hb"
    by (rule heartbeat_total) (use assms in \<open>simp add: names_ok_def\<close>)
  then obtain hb where "heartbeat_fields (pl_supervisor (pr_pipeline p)) (sr_sink (pl_sink (pr_pipeline p))) (pr_names p) = Inr hb" ..
  then show thesis by (intro that) (simp add: beat_def)
qed

lemma signal_returned:
  assumes "pipe_step pa pl Shutdown_Signal pl'"
  shows "run_returned (pl_supervisor pl') = run_returned (pl_supervisor pl)"
  using assms by (auto elim!: pipe_stepE sup_stepE simp: run_returned_def request_shutdown_def)

lemma step_stage_ok:
  assumes "process_step pa p ev p'" and "stage_ok p" and "names_ok p"
  shows "stage_ok p'"
  using assms(1)
proof cases
  case (signal_comes sig pl)
  with assms(2) signal_returned [OF signal_comes(5)] show ?thesis by (simp add: stage_ok_def)
next
  case beat_due
  obtain hb where "beat p = p\<lparr>pr_beats := pr_beats p @ [hb]\<rparr>" by (rule beat_ok [OF assms(3)])
  with beat_due assms(2) show ?thesis by (simp add: stage_ok_def)
qed (use assms(2) in \<open>auto simp: stage_ok_def split: heartbeat_task.splits\<close>)

lemma step_beats:
  assumes "process_step pa p ev p'" and "names_ok p"
  shows "length (pr_beats p') = length (pr_beats p) + (if ev = Beat_Due then 1 else 0)"
  using assms(1)
proof cases
  case beat_due
  obtain hb where "beat p = p\<lparr>pr_beats := pr_beats p @ [hb]\<rparr>" by (rule beat_ok [OF assms(2)])
  with beat_due show ?thesis by simp
qed simp_all

lemma begin_processE:
  assumes "begin_process cfg r clock d start_http_server supported = Some (Inr p0)"
  obtains pl where "start_pipeline cfg r clock d = Some (Inr pl)" "start_http_server = Inr ()" "pr_pipeline p0 = pl"
    "pr_names p0 = exchange_names (cfg_exchanges cfg)" "stage_ok p0" "pr_beats p0 = []"
proof -
  obtain pl where pl: "start_pipeline cfg r clock d = Some (Inr pl)" "start_http_server = Inr ()"
    "p0 = \<lparr>pr_pipeline = pl, pr_names = exchange_names (cfg_exchanges cfg), pr_server_up = True, pr_heartbeat = Beating,
           pr_beats = [], pr_handled = install_handlers supported, pr_stage = Supervising\<rparr>"
  proof -
    obtain z where z: "start_pipeline cfg r clock d = Some z" using assms by (auto simp: begin_process_def)
    with assms show thesis by (cases z; cases start_http_server) (auto simp: begin_process_def intro: that)
  qed
  from pl(1,2) show thesis by (rule that) (simp_all add: pl(3) stage_ok_def)
qed

lemma process_ok:
  assumes "begin_process cfg r clock d start_http_server supported = Some (Inr p0)" and "process_run pa p0 evs p"
  shows "names_ok p" and "stage_ok p" and "length (pr_beats p) = length (filter (\<lambda>ev. ev = Beat_Due) evs)"
proof -
  obtain pl where p0: "start_pipeline cfg r clock d = Some (Inr pl)" "pr_pipeline p0 = pl"
    "pr_names p0 = exchange_names (cfg_exchanges cfg)" "stage_ok p0" "pr_beats p0 = []"
    by (rule begin_processE [OF assms(1)])
  have names: "names_ok p" if "process_run pa p0 evs p" for evs p
    using process_pipe_run [OF that] names_known [OF p0(1)] p0(2,3) by (force simp: names_ok_def)
  then show "names_ok p" using assms(2) by blast
  have "stage_ok p \<and> length (pr_beats p) = length (filter (\<lambda>ev. ev = Beat_Due) evs)"
    using assms(2)
  proof (induction rule: process_run.induct)
    case (snoc evs p1 ev p2)
    from step_stage_ok [OF snoc.hyps(2)] step_beats [OF snoc.hyps(2)] names [OF snoc.hyps(1)] snoc.IH show ?case by simp
  qed (simp add: p0)
  then show "stage_ok p" "length (pr_beats p) = length (filter (\<lambda>ev. ev = Beat_Due) evs)" by simp_all
qed

lemma process_run_append:
  assumes "process_run pa p1 evs' p2" and "process_run pa p0 evs p1"
  shows "process_run pa p0 (evs @ evs') p2"
  using assms
proof (induction rule: process_run.induct)
  case (snoc evs' p ev p')
  from process_run.snoc [OF snoc.IH [OF snoc.prems] snoc.hyps(2)] show ?case by simp
qed simp

text \<open>The rest of a process, from its stage on: the steps of the \<open>finally\<close>, one after the other.\<close>

fun cleanup :: "stage \<Rightarrow> process_event list" where
  "cleanup Supervising = [Supervisor_Returns, Heartbeat_Awaited, Server_Stopped]"
| "cleanup Awaiting_Heartbeat = [Heartbeat_Awaited, Server_Stopped]"
| "cleanup Stopping_Server = [Server_Stopped]"
| "cleanup (Process_Over r) = []"

lemma process_run_Cons:
  assumes "process_step pa p ev p1" and "process_run pa p1 evs p2"
  shows "process_run pa p (ev # evs) p2"
  using process_run_append [OF assms(2)] process_run.snoc [OF process_run.start assms(1)] by fastforce

lemma cleanup_ends:
  assumes "stage_ok p" and "run_returned (pl_supervisor (pr_pipeline p))"
  shows "\<exists>p'. process_run pa p (cleanup (pr_stage p)) p' \<and> pr_stage p' = Process_Over None \<and> \<not> pr_server_up p' \<and>
    pr_pipeline p' = pr_pipeline p \<and> pr_beats p' = pr_beats p"
proof -
  have stopping: "\<exists>p'. process_run pa q [Server_Stopped] p' \<and> pr_stage p' = Process_Over None \<and> \<not> pr_server_up p' \<and>
      pr_pipeline p' = pr_pipeline q \<and> pr_beats p' = pr_beats q" if "pr_stage q = Stopping_Server" for q
    using process_run_Cons [OF server_stopped [OF that] process_run.start] by fastforce
  have awaiting: "\<exists>p'. process_run pa q [Heartbeat_Awaited, Server_Stopped] p' \<and> pr_stage p' = Process_Over None \<and>
      \<not> pr_server_up p' \<and> pr_pipeline p' = pr_pipeline q \<and> pr_beats p' = pr_beats q"
    if "pr_stage q = Awaiting_Heartbeat" "pr_heartbeat q = Beat_Cancelled" for q
    using process_run_Cons [OF heartbeat_awaited [OF that(1)]] stopping [of "q\<lparr>pr_stage := Stopping_Server\<rparr>"] that(2) by fastforce
  show ?thesis
  proof (cases "pr_stage p")
    case Supervising
    with assms show ?thesis
      using process_run_Cons [OF supervisor_returns [OF Supervising assms(2)]]
        awaiting [of "p\<lparr>pr_heartbeat := Beat_Cancelled, pr_stage := Awaiting_Heartbeat\<rparr>"]
      by (fastforce simp: stage_ok_def)
  next
    case Awaiting_Heartbeat
    with assms(1) awaiting [of p] show ?thesis by (simp add: stage_ok_def)
  next
    case Stopping_Server
    with stopping [of p] show ?thesis by simp
  next
    case (Process_Over r)
    with assms(1) have "r = None" "\<not> pr_server_up p" by (auto simp: stage_ok_def)
    with Process_Over process_run.start [of pa p] show ?thesis by auto
  qed
qed

section \<open>Properties\<close>

text \<open>
  C28: a process cleans up behind itself. Whatever happens, the metrics server is up until the
  \<open>finally\<close> of \<open>_run_pipeline\<close> has stopped it, every due heartbeat has been logged, and the \<open>finally\<close> is not
  reached before the supervisor has returned. Once it has, by a signal or by a crash of the sink, the rest of
  the \<open>finally\<close> can run to its end, and no run of it ends the process with an exception: the process that lost
  its sink exits as one that was told to stop.
\<close>

theorem process_cleans_up:
  assumes "begin_process cfg r clock d start_http_server supported = Some (Inr p0)" and "process_run pa p0 evs p"
  shows "(pr_server_up p \<longleftrightarrow> (\<forall>r. pr_stage p \<noteq> Process_Over r)) \<and>
    length (pr_beats p) = length (filter (\<lambda>ev. ev = Beat_Due) evs) \<and>
    (pr_stage p \<noteq> Supervising \<longrightarrow> run_returned (pl_supervisor (pr_pipeline p))) \<and>
    (\<forall>err. pr_stage p \<noteq> Process_Over (Some err)) \<and>
    (run_returned (pl_supervisor (pr_pipeline p)) \<longrightarrow>
       (\<exists>p'. process_run pa p (cleanup (pr_stage p)) p' \<and> pr_stage p' = Process_Over None \<and> \<not> pr_server_up p'))"
proof -
  note ok = process_ok [OF assms]
  from cleanup_ends [OF ok(2), of pa] have "run_returned (pl_supervisor (pr_pipeline p)) \<Longrightarrow>
      \<exists>p'. process_run pa p (cleanup (pr_stage p)) p' \<and> pr_stage p' = Process_Over None \<and> \<not> pr_server_up p'" by blast
  with ok(2,3) show ?thesis unfolding stage_ok_def by blast
qed

text \<open>A process that is told to stop before its feed has started: every task takes its cancellation.\<close>

lemma idle_sink:
  assumes "r0 = start_run still Map.empty (default_sink q dir depth)"
  obtains r1 r2 where "sink_next pa (Consumer_Starts still) r0 = Some r1" "sink_next pa (Sink.Sink_Cancelled still) r1 = Some r2"
    "sr_end r2 = Some Cancelled"
proof -
  obtain r1 where r1: "sink_next pa (Consumer_Starts still) r0 = Some r1" "sr_end r1 = None"
      "sr_consumer r1 = Waits 5" "ps_queue (sr_sink r1) = q" "ps_buffer (sr_sink r1) = []" "ps_writers (sr_sink r1) = []"
    by (simp add: assms default_sink_def start_run_def new_sink_def goes_on_def consume_top_def Let_def)
  have "sink_next pa (Sink.Sink_Cancelled still) r1 = Some (finish_sink pa still Cancelled (sr_disk r1) (sr_sink r1))"
    using r1 by simp
  moreover have "sr_end (finish_sink pa still Cancelled (sr_disk r1) (sr_sink r1)) = Some Cancelled"
    using r1 by (simp add: finish_sink_def)
  ultimately show thesis using that r1(1) by simp
qed

lemma demo_stopped:
  obtains pl0 pl1 evs and pl :: "cell list pipeline" where "start_pipeline demo_config (\<lambda>_. 0) still Map.empty = Some (Inr pl0)"
    "pipe_step plain_arrays pl0 Shutdown_Signal pl1" "pipe_run plain_arrays pl1 evs [] pl" "Shutdown_Signal \<notin> set evs"
    "run_returned (pl_supervisor pl)"
proof -
  obtain pl0 :: "cell list pipeline" where pl0: "start_pipeline demo_config (\<lambda>_. 0) still Map.empty = Some (Inr pl0)"
    "pl_slots pl0 = [new_slot 1 demo_exchange]" "awaits_factory (pl_supervisor pl0) ''binance''"
    "pl_sink pl0 = start_run still Map.empty (default_sink (new_row_queue 100) [''data''] 1)"
    "sv_sink_task (pl_supervisor pl0) = Some In_Factory" "\<not> sv_cancelled (pl_supervisor pl0)" by (rule demo_started)
  have feeds: "sv_feeds (pl_supervisor pl0) = [(''binance'', (new_feed_entry ''binance'')\<lparr>fe_task := Some In_Factory\<rparr>)]"
    using pl0(1) by (auto simp: start_pipeline_def demo_config_def demo_exchange_def first_symbol_def set_sink_def
        new_supervisor_def add_feed_def run_start_def)
  obtain r1 r2 where r: "sink_next plain_arrays (Consumer_Starts still) (pl_sink pl0) = Some r1"
    "sink_next plain_arrays (Sink.Sink_Cancelled still) r1 = Some r2" "sr_end r2 = Some Cancelled" by (rule idle_sink [OF pl0(4)])
  let ?sl = "new_slot 1 demo_exchange"
  let ?s1 = "request_shutdown (pl_supervisor pl0)"
  let ?s2 = "?s1\<lparr>sv_cancelled := True\<rparr>"
  let ?s3 = "put_feed ''binance'' (feed_cancelled ((new_feed_entry ''binance'')\<lparr>fe_task := Some In_Factory\<rparr>)) ?s2"
  let ?s4 = "?s3\<lparr>sv_sink_task := Some Was_Cancelled, sv_shutdown := True\<rparr>"
  let ?pl1 = "pl0\<lparr>pl_supervisor := ?s1\<rparr>"
  let ?pl2 = "?pl1\<lparr>pl_sink := r1\<rparr>"
  let ?pl3 = "(cancel_tasks ?pl2)\<lparr>pl_supervisor := ?s2\<rparr>"
  let ?pl4 = "(put_slot 0 (?sl\<lparr>sl_cancel := False\<rparr>) ?pl3)\<lparr>pl_supervisor := ?s3\<rparr>"
  let ?pl5 = "?pl4\<lparr>pl_sink := r2\<rparr>"
  let ?pl6 = "?pl5\<lparr>pl_supervisor := ?s4\<rparr>"
  have slots: "pl_slots ?pl3 = [?sl\<lparr>sl_cancel := True\<rparr>]"
    using pl0(2) by (simp add: cancel_tasks_def ask_cancel_def request_shutdown_def factory_slot_def slot_named_def
        new_slot_def demo_exchange_def feeds)
  have at: "at_slot ?pl3 ''binance'' 0 (?sl\<lparr>sl_cancel := True\<rparr>)"
    using slots by (simp add: at_slot_def factory_slot_def slot_named_def new_slot_def demo_exchange_def)
  have step0: "pipe_step plain_arrays pl0 Shutdown_Signal ?pl1" by (rule shutdown_signal) (rule sup_step.shutdown)
  have step1: "pipe_step plain_arrays ?pl1 (Sink_Moves (Consumer_Starts still)) ?pl2"
    by (rule sink_moves) (use r(1) in simp_all)
  have step2: "pipe_step plain_arrays ?pl2 Shutdown_Begins ?pl3"
    by (rule shutdown_begins) (use pl0(5,6) in \<open>simp add: request_shutdown_def, intro sup_step.cancel_all, simp_all\<close>)
  have step3: "pipe_step plain_arrays ?pl3 (Idle_Is_Cancelled ''binance'') ?pl4"
    using idle_is_cancelled [OF at, of ?s3 plain_arrays] sup_step.cancelled [of ?s2 "''binance''"]
    by (simp add: new_slot_def request_shutdown_def feeds)
  have step4: "pipe_step plain_arrays ?pl4 (Sink_Moves (Sink.Sink_Cancelled still)) ?pl5"
    by (rule sink_moves) (use r(2) in \<open>simp_all add: cancel_tasks_def put_slot_def\<close>)
  have step5: "pipe_step plain_arrays ?pl5 Sink_Returns ?pl6"
    by (rule sink_returns [where e = Cancelled])
      (use r(3) pl0(5) sup_step.sink_cancelled [of ?s3] in \<open>simp_all add: request_shutdown_def put_feed_def\<close>)
  note run = pipe_run.snoc [OF pipe_run.snoc [OF pipe_run.snoc [OF pipe_run.snoc [OF pipe_run.snoc [OF
    pipe_run.start step1] step2] step3] step4] step5]
  show thesis
  proof (rule that [OF pl0(1) step0])
    show "pipe_run plain_arrays ?pl1 [Sink_Moves (Consumer_Starts still), Shutdown_Begins, Idle_Is_Cancelled ''binance'',
        Sink_Moves (Sink.Sink_Cancelled still), Sink_Returns] [] ?pl6"
      using run by (simp add: taken_by_def)
    show "run_returned (pl_supervisor ?pl6)"
      by (simp add: run_returned_def put_feed_def feed_cancelled_def feeds request_shutdown_def)
  qed simp
qed

lemma pipe_run_lifts:
  assumes "pipe_run pa pl evs got pl'" and "Shutdown_Signal \<notin> set evs" and "pr_pipeline p = pl" and "pr_stage p = Supervising"
  shows "process_run pa p (map Pipe_Moves evs) (put_pipeline pl' p)"
  using assms
proof (induction rule: pipe_run.induct)
  case start
  then have "put_pipeline pl p = p" by (simp add: put_pipeline_def)
  then show ?case using process_run.start by simp
next
  case (snoc evs got pl1 ev pl2)
  have "process_step pa (put_pipeline pl1 p) (Pipe_Moves ev) (put_pipeline pl2 (put_pipeline pl1 p))"
    by (rule pipe_moves) (use snoc in auto)
  moreover have "put_pipeline pl2 (put_pipeline pl1 p) = put_pipeline pl2 p" by (simp add: put_pipeline_def)
  ultimately show ?case using process_run.snoc [OF snoc.IH] snoc.prems by simp
qed

lemma process_cleans_up_witness:
  "\<exists>(p0 :: cell list process) evs p. begin_process demo_config (\<lambda>_. 0) still Map.empty (Inr ()) (\<lambda>sig. sig = SIGINT) = Some (Inr p0) \<and>
     process_run plain_arrays p0 ([Beat_Due, Signal_Comes SIGINT] @ evs) p \<and> length (pr_beats p) = 1 \<and>
     pr_stage p = Process_Over None \<and> \<not> pr_server_up p"
proof -
  obtain pl0 pl1 evs and pl :: "cell list pipeline" where pl: "start_pipeline demo_config (\<lambda>_. 0) still Map.empty = Some (Inr pl0)"
    "pipe_step plain_arrays pl0 Shutdown_Signal pl1" "pipe_run plain_arrays pl1 evs [] pl" "Shutdown_Signal \<notin> set evs"
    "run_returned (pl_supervisor pl)" by (rule demo_stopped)
  define p0 where "p0 = \<lparr>pr_pipeline = pl0, pr_names = exchange_names (cfg_exchanges demo_config), pr_server_up = True,
    pr_heartbeat = Beating, pr_beats = [], pr_handled = [SIGINT], pr_stage = Supervising\<rparr>"
  have p0: "begin_process demo_config (\<lambda>_. 0) still Map.empty (Inr ()) (\<lambda>sig. sig = SIGINT) = Some (Inr p0)"
    using pl(1) by (simp add: begin_process_def p0_def install_handlers_def)
  obtain hb where hb: "beat p0 = p0\<lparr>pr_beats := pr_beats p0 @ [hb]\<rparr>"
    by (rule beat_ok [OF process_ok(1) [OF p0 process_run.start]])
  have "process_step plain_arrays p0 Beat_Due (beat p0)" by (rule beat_due) (simp_all add: p0_def)
  moreover have "process_step plain_arrays (beat p0) (Signal_Comes SIGINT) (put_pipeline pl1 (beat p0))"
    by (rule signal_comes) (use pl(2) in \<open>simp_all add: p0_def\<close>)
  ultimately have "process_run plain_arrays p0 (([] @ [Beat_Due]) @ [Signal_Comes SIGINT]) (put_pipeline pl1 (beat p0))"
    by (blast intro: process_run.snoc process_run.start)
  moreover have "process_run plain_arrays (put_pipeline pl1 (beat p0)) (map Pipe_Moves evs) (put_pipeline pl (put_pipeline pl1 (beat p0)))"
    by (rule pipe_run_lifts [OF pl(3,4)]) (simp_all add: p0_def)
  ultimately have run: "process_run plain_arrays p0 ([Beat_Due, Signal_Comes SIGINT] @ map Pipe_Moves evs)
      (put_pipeline pl (put_pipeline pl1 (beat p0)))"
    using process_run_append by fastforce
  from process_cleans_up [OF p0 this] pl(5) obtain p
    where p: "process_run plain_arrays (put_pipeline pl (put_pipeline pl1 (beat p0))) (cleanup Supervising) p"
      "pr_stage p = Process_Over None" "\<not> pr_server_up p" by (auto simp: p0_def)
  have all: "process_run plain_arrays p0 ([Beat_Due, Signal_Comes SIGINT] @ (map Pipe_Moves evs @ cleanup Supervising)) p"
    using process_run_append [OF p(1) run] by simp
  have "length (pr_beats p) = 1" using process_cleans_up [OF p0 all] by (simp add: comp_def)
  with p0 all p(2,3) show ?thesis by blast
qed

end
