(* ===== verification/Heartbeats.thy ===== *)
theory Heartbeats
  imports ClientRows
begin

text \<open>
  The heartbeat of a feed client, which tells a silent market from a dead client by its figures: what
  \<open>_heartbeat_worker\<close> of \<^verbatim>\<open>feeds/binance.py\<close> and \<^verbatim>\<open>feeds/okx.py\<close> logs, and that the figures are the
  numbers of messages and connections of the run so far.
\<close>

section \<open>What is logged\<close>

record client_heartbeat =
  ch_heartbeat :: bool
  ch_symbol :: string
  ch_messages_received :: nat
  ch_connection_state :: connection_state
  ch_book_state :: book_state

definition heartbeat_of :: "string \<Rightarrow> feed_stats \<Rightarrow> client_heartbeat" where
  "heartbeat_of name stats =
     \<lparr>ch_heartbeat = True, ch_symbol = name, ch_messages_received = count_of ''messages_received'' (fs_counters stats),
      ch_connection_state = fs_connection_state stats, ch_book_state = fs_book_state stats\<rparr>"

definition binance_heartbeat :: "binance_client \<Rightarrow> client_heartbeat" where
  "binance_heartbeat c = heartbeat_of (bc_symbol c) (binance_get_stats c)"

definition okx_heartbeat :: "okx_client \<Rightarrow> client_heartbeat" where
  "okx_heartbeat c = heartbeat_of (oc_symbol c) (okx_get_stats c)"

section \<open>What is counted\<close>

text \<open>Messages and connections, as the counters have them and as the run has them.\<close>

type_synonym figures = "nat \<times> nat"

definition figures_of :: "counters \<Rightarrow> figures" where
  "figures_of stats = (count_of ''messages_received'' stats, count_of ''ws_reconnected'' stats)"

lemma figures_bump [simp]:
  "figures_of (bump k stats) =
     (fst (figures_of stats) + (if k = ''messages_received'' then 1 else 0),
      snd (figures_of stats) + (if k = ''ws_reconnected'' then 1 else 0))"
  by (simp add: figures_of_def)

abbreviation more_messages :: "figures \<Rightarrow> figures" where
  "more_messages n \<equiv> (fst n + 1, snd n)"

abbreviation more_connections :: "figures \<Rightarrow> figures" where
  "more_connections n \<equiv> (fst n, snd n + 1)"

lemma figures_next_attempt: "next_attempt bound cm stats now = (ph, cm', stats') \<Longrightarrow> figures_of stats' = figures_of stats"
  by (auto simp: next_attempt_def split: prod.splits sum.splits if_splits)

section \<open>The Binance client\<close>

fun binance_counts :: "binance_event \<Rightarrow> figures \<Rightarrow> figures" where
  "binance_counts (Message frame lns wns) n = more_messages n"
| "binance_counts (Fatal_Message frame lns wns now) n = more_messages n"
| "binance_counts (Connect_Ok ws now) n = more_connections n"
| "binance_counts _ n = n"

abbreviation bc_figures :: "binance_client \<Rightarrow> figures" where
  "bc_figures c \<equiv> figures_of (bc_stats c)"

lemma bump_stat_figures [simp]: "bc_stats (bump_stat k c) = bump k (bc_stats c)"
  by (simp add: bump_stat_def)

lemma offer_figures: "offer c lns wns ems = (out, c') \<Longrightarrow> bc_figures c' = bc_figures c"
  by (auto simp: offer_def split: prod.splits)

lemma apply_diff_figures:
  assumes "apply_diff c diff lns wns ems = (out, c')"
  shows "bc_figures c' = bc_figures c"
proof -
  obtain res e where res: "apply_event (bc_engine c) diff = (res, e)" by fastforce
  have "bc_figures c2 = bc_figures c" if "offer (c\<lparr>bc_engine := e\<rparr>) lns wns ems = (out, c2)" for c2
    using offer_figures [OF that] by simp
  with assms res show ?thesis by (cases "status res") (auto simp: apply_diff_def Let_def)
qed

lemma read_message_figures:
  "read_message c frame lns wns = (out, c') \<Longrightarrow> bc_figures c' = more_messages (bc_figures c)"
  by (auto simp: read_message_def Let_def dest!: apply_diff_figures split: sum.splits prod.splits option.splits if_splits)

lemma worker_figures [simp]:
  "bc_figures (give_up c) = bc_figures c" "bc_figures (fetch c now a k) = bc_figures c"
  "bc_figures (attempt_resync c now a) = bc_figures c" "bc_figures (worker_wakes c now) = bc_figures c"
  "bc_figures (finish_run c err) = bc_figures c" "bc_figures (on_disconnected c why now) = bc_figures c"
proof -
  show up: "bc_figures (give_up c) = bc_figures c" for c
    by (simp add: give_up_def Let_def split: option.splits)
  show f: "bc_figures (fetch c now a k) = bc_figures c" for c a k
    by (simp add: fetch_def issue_get_def up Let_def split: prod.splits sum.splits)
  show attempt: "bc_figures (attempt_resync c now a) = bc_figures c" for c a
    by (simp add: attempt_resync_def up f)
  show "bc_figures (worker_wakes c now) = bc_figures c"
    by (simp add: worker_wakes_def Let_def attempt)
  show fin: "bc_figures (finish_run c err) = bc_figures c" for c err
    by (simp add: finish_run_def split: worker.splits)
  show "bc_figures (on_disconnected c why now) = bc_figures c"
    by (auto simp: on_disconnected_def Let_def fin dest!: figures_next_attempt split: prod.splits phase.splits cause.splits)
qed

lemma on_snapshot_figures: "bc_figures (on_snapshot c now a s lns wns) = bc_figures c"
  by (auto simp: on_snapshot_def Let_def dest!: offer_figures
      split: sum.splits prod.splits apply_status.splits outcome.splits)

lemma on_response_figures: "on_response c now a k rsp lns wns = Some c' \<Longrightarrow> bc_figures c' = bc_figures c"
  by (auto simp: on_response_def on_snapshot_figures split: sum.splits option.splits if_splits)

lemma binance_step_figures:
  assumes "binance_step c ev c'"
  shows "bc_figures c' = binance_counts ev (bc_figures c)"
  using assms
  by cases (auto simp: on_connected_def begin_attempt_def issue_get_def dest: read_message_figures on_response_figures)

lemma binance_run_figures: "binance_run c evs c' \<Longrightarrow> bc_figures c' = fold binance_counts evs (bc_figures c)"
  by (induction rule: binance_run.induct) (simp_all add: binance_step_figures)

section \<open>The OKX client\<close>

fun okx_counts :: "okx_event \<Rightarrow> figures \<Rightarrow> figures" where
  "okx_counts (Frame_Comes txt lns wns lns' wns') n = more_messages n"
| "okx_counts (Subscribed now) n = more_connections n"
| "okx_counts _ n = n"

abbreviation oc_figures :: "okx_client \<Rightarrow> figures" where
  "oc_figures c \<equiv> figures_of (oc_stats c)"

lemma okx_bump_figures [simp]: "oc_stats (okx_bump k c) = bump k (oc_stats c)"
  by (simp add: okx_bump_def)

lemma okx_offer_figures: "okx_offer c lns wns ems = (out, c') \<Longrightarrow> oc_figures c' = oc_figures c"
  by (auto simp: okx_offer_def split: prod.splits)

lemma okx_apply_figures:
  assumes "okx_apply c diff lns wns ems = (out, c')"
  shows "oc_figures c' = oc_figures c"
proof -
  obtain res e where res: "apply_event (oc_engine c) diff = (res, e)" by fastforce
  have "oc_figures c2 = oc_figures c" if "okx_offer (c\<lparr>oc_engine := e\<rparr>) lns wns ems = (out, c2)" for c2
    using okx_offer_figures [OF that] by simp
  with assms res show ?thesis by (cases "status res") (auto simp: okx_apply_def Let_def)
qed

lemma okx_give_up_figures: "okx_give_up c = (out, c') \<Longrightarrow> oc_figures c' = oc_figures c"
  by (auto simp: okx_give_up_def Let_def split: option.splits)

lemma resync_result_figures: "handle_resync_result c res ems lns wns = (out, c') \<Longrightarrow> oc_figures c' = oc_figures c"
  by (auto simp: handle_resync_result_def Let_def dest!: okx_offer_figures okx_give_up_figures split: if_splits)

lemma snapshot_push_figures: "handle_snapshot_push c data lns wns = (out, c') \<Longrightarrow> oc_figures c' = oc_figures c"
  by (auto simp: handle_snapshot_push_def okx_skip_def dest!: resync_result_figures
      split: sum.splits option.splits prod.splits if_splits)

lemma update_push_figures: "handle_update_push c data lns wns = (out, c') \<Longrightarrow> oc_figures c' = oc_figures c"
  by (auto simp: handle_update_push_def okx_skip_def dest!: okx_apply_figures
      split: sum.splits option.splits prod.splits if_splits)

lemma channel_push_figures: "handle_channel_push c envelope lns wns lns' wns' = (out, c') \<Longrightarrow> oc_figures c' = oc_figures c"
  by (auto simp: handle_channel_push_def okx_skip_def dest!: snapshot_push_figures update_push_figures
      split: sum.splits if_splits)

lemma control_figures: "handle_control_message c envelope = (out, c') \<Longrightarrow> oc_figures c' = oc_figures c"
  by (auto simp: handle_control_message_def okx_skip_def split: sum.splits if_splits)

lemma okx_read_figures:
  "okx_read c txt lns wns lns' wns' = (out, c') \<Longrightarrow> oc_figures c' = more_messages (oc_figures c)"
  by (auto simp: okx_read_def okx_skip_def Let_def dest!: control_figures channel_push_figures
      split: okx_text.splits sum.splits bool.splits if_splits)

lemma okx_loop_figures [simp]:
  "oc_figures (okx_finish c err) = oc_figures c" "oc_figures (open_round c now) = oc_figures c"
  "oc_figures (begin_round c now) = oc_figures c" "oc_figures (on_left c err now) = oc_figures c"
  "oc_figures (on_socket c ws) = oc_figures c" "oc_figures (send_op c ws op) = oc_figures c"
proof -
  show fin: "oc_figures (okx_finish c err) = oc_figures c" for c err
    by (simp add: okx_finish_def split: okx_worker.splits)
  show op: "oc_figures (open_round c now) = oc_figures c" for c
    by (simp add: open_round_def)
  show "oc_figures (begin_round c now) = oc_figures c"
    by (simp add: begin_round_def Let_def fin op split: prod.splits sum.splits)
  show "oc_figures (on_left c err now) = oc_figures c"
    by (auto simp: on_left_def Let_def fin dest!: figures_next_attempt split: prod.splits phase.splits cause.splits if_splits)
  show send: "oc_figures (send_op c ws op) = oc_figures c" for op by (simp add: send_op_def)
  show "oc_figures (on_socket c ws) = oc_figures c" by (simp add: on_socket_def send)
qed

lemma okx_worker_figures [simp]:
  "oc_figures (send_resubscribe c now) = oc_figures c" "oc_figures (request_resubscribe c now) = oc_figures c"
  "oc_figures (resync_wakes c now) = oc_figures c"
proof -
  show send: "oc_figures (send_resubscribe c now) = oc_figures c" for c
    by (simp add: send_resubscribe_def Let_def split: option.splits)
  show ask: "oc_figures (request_resubscribe c now) = oc_figures c" for c
    by (simp add: request_resubscribe_def Let_def send split: prod.splits sum.splits)
  show "oc_figures (resync_wakes c now) = oc_figures c" by (simp add: resync_wakes_def Let_def ask)
qed

lemma okx_next_figures:
  assumes "okx_next c ev = Some c'"
  shows "oc_figures c' = okx_counts ev (oc_figures c)"
proof (cases ev)
  case (Frame_Comes m lns wns lns' wns')
  with assms obtain ws where after: "after_read (okx_read (c\<lparr>oc_phase := OP_Reading ws\<rparr>) m lns wns lns' wns') = Some c'"
    by (auto split: option.splits)
  obtain out c2 where read: "okx_read (c\<lparr>oc_phase := OP_Reading ws\<rparr>) m lns wns lns' wns' = (out, c2)" by fastforce
  from okx_read_figures [OF read] after read Frame_Comes show ?thesis by (cases out) (auto simp: after_read_def)
qed (use assms in \<open>auto simp: on_subscribed_def split: if_splits okx_phase.splits okx_worker.splits option.splits prod.splits\<close>)

lemma okx_run_figures: "okx_run c evs = Some c' \<Longrightarrow> oc_figures c' = fold okx_counts evs (oc_figures c)"
  by (induction c evs rule: okx_run.induct) (auto simp: okx_next_figures split: option.splits)

section \<open>Properties\<close>

fun message_event :: "binance_event \<Rightarrow> bool" where
  "message_event (Message frame lns wns) = True"
| "message_event (Fatal_Message frame lns wns now) = True"
| "message_event _ = False"

fun connect_event :: "binance_event \<Rightarrow> bool" where
  "connect_event (Connect_Ok ws now) = True"
| "connect_event _ = False"

fun frame_event :: "okx_event \<Rightarrow> bool" where
  "frame_event (Frame_Comes txt lns wns lns' wns') = True"
| "frame_event _ = False"

fun subscribed_event :: "okx_event \<Rightarrow> bool" where
  "subscribed_event (Subscribed now) = True"
| "subscribed_event _ = False"

lemma binance_counts_lengths:
  "fold binance_counts evs n = (fst n + length (filter message_event evs), snd n + length (filter connect_event evs))"
proof (induction evs arbitrary: n)
  case (Cons ev evs)
  then show ?case by (cases ev) simp_all
qed simp

lemma okx_counts_lengths:
  "fold okx_counts evs n = (fst n + length (filter frame_event evs), snd n + length (filter subscribed_event evs))"
proof (induction evs arbitrary: n)
  case (Cons ev evs)
  then show ?case by (cases ev) simp_all
qed simp

lemma binance_run_symbol: "binance_run c evs c' \<Longrightarrow> bc_symbol c' = bc_symbol c"
proof (induction rule: binance_run.induct)
  case (snoc evs c1 ev c2)
  show ?case
  proof (cases "\<exists>row. ev = Sink_Takes row \<or> ev = Other_Puts row")
    case True
    with snoc show ?thesis by (auto elim: binance_stepE)
  next
    case False
    with binance_step_adds [OF snoc.hyps(2)] snoc.IH show ?thesis by (simp add: binance_adds_def)
  qed
qed simp

lemma okx_run_symbol: "okx_run c evs = Some c' \<Longrightarrow> oc_symbol c' = oc_symbol c"
proof (induction c evs rule: okx_run.induct)
  case (2 c ev evs)
  then obtain c1 where c1: "okx_next c ev = Some c1" "okx_run c1 evs = Some c'" by (auto split: option.splits)
  have "oc_symbol c1 = oc_symbol c"
  proof (cases "\<exists>row. ev = Row_Taken row \<or> ev = Row_Put row")
    case True
    with c1(1) show ?thesis by (auto split: option.splits prod.splits if_splits)
  next
    case False
    with okx_next_adds [OF c1(1)] show ?thesis by (simp add: okx_adds_def)
  qed
  with "2.IH" c1 show ?case by simp
qed simp

text \<open>
  C20: the figures of a heartbeat are exact. At every moment of every run of a client, its heartbeat names the
  symbol of the client, its messages are all the messages received so far, malformed ones and those that ended
  a connection included, its states are those of the connection and the book, and the counter behind the
  reconnect metric is the number of connections made, the first one included. So a heartbeat whose
  figure has not moved means that nothing was received in between.
\<close>

theorem heartbeat_figures_exact:
  "(binance_run (fresh_binance name depth sl hl mf policy r maxsize t0) evs c \<longrightarrow>
      binance_heartbeat c = \<lparr>ch_heartbeat = True, ch_symbol = name, ch_messages_received = length (filter message_event evs),
        ch_connection_state = cm_state (bc_connection c), ch_book_state = be_state (bc_engine c)\<rparr> \<and>
      count_of ''ws_reconnected'' (fs_counters (binance_get_stats c)) = length (filter connect_event evs)) \<and>
   (okx_run (fresh_okx name depth sl mf policy r maxsize t0) oevs = Some oc \<longrightarrow>
      okx_heartbeat oc = \<lparr>ch_heartbeat = True, ch_symbol = name, ch_messages_received = length (filter frame_event oevs),
        ch_connection_state = cm_state (oc_connection oc), ch_book_state = be_state (oc_engine oc)\<rparr> \<and>
      count_of ''ws_reconnected'' (fs_counters (okx_get_stats oc)) = length (filter subscribed_event oevs))"
proof (intro conjI impI)
  assume run: "binance_run (fresh_binance name depth sl hl mf policy r maxsize t0) evs c"
  have "bc_figures c = (length (filter message_event evs), length (filter connect_event evs))" "bc_symbol c = name"
    using binance_run_figures [OF run] binance_run_symbol [OF run]
    by (simp_all add: binance_counts_lengths new_binance_client_def figures_of_def count_of_def)
  then show "binance_heartbeat c = \<lparr>ch_heartbeat = True, ch_symbol = name, ch_messages_received = length (filter message_event evs),
        ch_connection_state = cm_state (bc_connection c), ch_book_state = be_state (bc_engine c)\<rparr>"
    and "count_of ''ws_reconnected'' (fs_counters (binance_get_stats c)) = length (filter connect_event evs)"
    by (simp_all add: binance_heartbeat_def heartbeat_of_def binance_get_stats_def feed_stats_of_def figures_of_def)
next
  assume run: "okx_run (fresh_okx name depth sl mf policy r maxsize t0) oevs = Some oc"
  have "oc_figures oc = (length (filter frame_event oevs), length (filter subscribed_event oevs))" "oc_symbol oc = name"
    using okx_run_figures [OF run] okx_run_symbol [OF run]
    by (simp_all add: okx_counts_lengths new_okx_client_def figures_of_def count_of_def)
  then show "okx_heartbeat oc = \<lparr>ch_heartbeat = True, ch_symbol = name, ch_messages_received = length (filter frame_event oevs),
        ch_connection_state = cm_state (oc_connection oc), ch_book_state = be_state (oc_engine oc)\<rparr>"
    and "count_of ''ws_reconnected'' (fs_counters (okx_get_stats oc)) = length (filter subscribed_event oevs)"
    by (simp_all add: okx_heartbeat_def heartbeat_of_def okx_get_stats_def feed_stats_of_def figures_of_def)
qed

lemma heartbeat_figures_exact_witness:
  "\<exists>c oc. binance_run demo_client [Connect_Ok 1 0, Worker_Wakes 0, Get_Returns demo_response 5 6 0] c \<and>
     ch_messages_received (binance_heartbeat c) = 0 \<and> ch_book_state (binance_heartbeat c) = LIVE \<and>
     okx_run demo_okx demo_live = Some oc \<and> ch_messages_received (okx_heartbeat oc) = 1"
proof -
  obtain c where c: "binance_run demo_client [Connect_Ok 1 0, Worker_Wakes 0, Get_Returns demo_response 5 6 0] c"
    "be_state (bc_engine c) = LIVE" by (rule BinanceProps.demo_live)
  obtain oc where oc: "okx_run demo_okx demo_live = Some oc" by (rule demo_live_run)
  from heartbeat_figures_exact [of "''BTCUSDT''" 20 20 10 2 default_backoff_policy "\<lambda>_. 0" 100 0] c
    heartbeat_figures_exact [of "''BTC-USDT''" 20 20 10 2 default_backoff_policy "\<lambda>_. 0" 100 0 _ _ demo_live oc] oc
  show ?thesis by (auto simp: demo_client_def demo_okx_def OkxProps.demo_live_def demo_connect_def)
qed

end
