(* ===== verification/Quantile.thy ===== *)
theory Quantile
  imports Metrics
begin

text \<open>
  The latency quantiles of \<^verbatim>\<open>scripts/stress_replay.py\<close>: \<open>_quantile_from_buckets\<close> and
  \<open>_histogram_quantiles\<close>, and what the estimate says of the latencies that were observed. The
  histogram belongs to the Prometheus library: what it exposes is a list of samples, and
  \<open>exposes\<close> states its documented form. Floats are exact rationals, infinities or the NaN.
\<close>

section \<open>Floats\<close>

text \<open>The order of a sort by float keys. A NaN, which Python leaves unordered, is put last.\<close>

fun float_rank :: "py_float \<Rightarrow> nat" where
  "float_rank (Infinite neg) = (if neg then 0 else 2)"
| "float_rank (Finite q) = 1"
| "float_rank Not_A_Number = 3"

fun float_le :: "py_float \<Rightarrow> py_float \<Rightarrow> bool" where
  "float_le (Finite q) (Finite r) = (q \<le> r)"
| "float_le x y = (float_rank x \<le> float_rank y)"

instantiation py_float :: linorder
begin

definition less_eq_py_float :: "py_float \<Rightarrow> py_float \<Rightarrow> bool" where
  "less_eq_py_float x y = float_le x y"

definition less_py_float :: "py_float \<Rightarrow> py_float \<Rightarrow> bool" where
  "less_py_float x y = (x \<le> y \<and> x \<noteq> y)"

instance
proof
  fix x y z :: py_float
  show total: "x \<le> y \<or> y \<le> x" and "x \<le> x"
    by (cases x; cases y; auto simp: less_eq_py_float_def)+
  show anti: "x \<le> y \<Longrightarrow> y \<le> x \<Longrightarrow> x = y"
    by (cases x; cases y) (auto simp: less_eq_py_float_def split: if_splits)
  show "x \<le> y \<Longrightarrow> y \<le> z \<Longrightarrow> x \<le> z"
    by (cases x; cases y; cases z) (auto simp: less_eq_py_float_def split: if_splits)
  show "x < y \<longleftrightarrow> x \<le> y \<and> \<not> y \<le> x"
    using anti total by (auto simp: less_py_float_def)
qed

end

text \<open>
  \<open>float\<close> of a text: underscores stand between digits, and the value is not rounded. A number whose
  exponent leaves the range of \<open>Decimal\<close> is refused here.
\<close>

fun drop_underscores :: "string \<Rightarrow> string option" where
  "drop_underscores [] = Some []"
| "drop_underscores [c] = (if c = CHR ''_'' then None else Some [c])"
| "drop_underscores (c # c' # cs) =
     (if c = CHR ''_'' then None
      else if c' = CHR ''_''
      then (if is_digit c \<and> cs \<noteq> [] \<and> is_digit (hd cs) then map_option ((#) c) (drop_underscores cs) else None)
      else map_option ((#) c) (drop_underscores (c' # cs)))"

definition float_of_str :: "string \<Rightarrow> py_float result" where
  "float_of_str s =
     (let (sg, body) = sign_split (map lower_char (strip_by unicode_space s))
      in if body = ''inf'' \<or> body = ''infinity'' then Inr (Infinite (sg < 0))
         else if body = ''nan'' then Inr Not_A_Number
         else case drop_underscores body of
                None \<Rightarrow> Inl ValueError
              | Some digits \<Rightarrow> (case number_dec sg digits of Inr (Dec q) \<Rightarrow> Inr (Finite q) | _ \<Rightarrow> Inl ValueError))"

section \<open>The quantile of a list of buckets\<close>

type_synonym bucket = "py_float \<times> rat"

definition lerp :: "py_float \<Rightarrow> rat \<Rightarrow> py_float \<Rightarrow> py_float" where
  "lerp prev_le fraction le =
     (case (prev_le, le) of
        (Finite p, Finite b) \<Rightarrow> Finite (p + fraction * (b - p))
      | _ \<Rightarrow> Not_A_Number)"

fun scan_buckets :: "rat \<Rightarrow> py_float \<Rightarrow> rat \<Rightarrow> py_float \<Rightarrow> bucket list \<Rightarrow> py_float" where
  "scan_buckets target prev_le prev_count end_le [] = end_le"
| "scan_buckets target prev_le prev_count end_le ((le, n) # buckets) =
     (if target \<le> n
      then (case le of
              Infinite neg \<Rightarrow> Infinite False
            | _ \<Rightarrow> if n = prev_count then le else lerp prev_le ((target - prev_count) / (n - prev_count)) le)
      else scan_buckets target le n end_le buckets)"

definition quantile_from_buckets :: "bucket list \<Rightarrow> rat \<Rightarrow> py_float result" where
  "quantile_from_buckets buckets quantile =
     (if buckets = [] then Inl IndexError
      else (let (end_le, total) = last buckets
            in Inr (if total \<le> 0 then Not_A_Number
                    else scan_buckets (quantile * total) (Finite 0) 0 end_le buckets)))"

section \<open>The samples of a histogram\<close>

record exposed_sample =
  es_name :: string
  es_labels :: "(string \<times> string) list"
  es_value :: rat

definition ends_with :: "string \<Rightarrow> string \<Rightarrow> bool" where
  "ends_with s ending \<longleftrightarrow> length ending \<le> length s \<and> drop (length s - length ending) s = ending"

definition has_labels :: "string \<Rightarrow> string \<Rightarrow> exposed_sample \<Rightarrow> bool" where
  "has_labels exch name x \<longleftrightarrow>
     map_of (es_labels x) ''exchange'' = Some exch \<and> map_of (es_labels x) ''symbol'' = Some name"

definition bucket_of :: "exposed_sample \<Rightarrow> bucket result" where
  "bucket_of x =
     (case map_of (es_labels x) ''le'' of
        None \<Rightarrow> Inl KeyError
      | Some le \<Rightarrow>
          (if le = ''+Inf'' then Inr (Infinite False, es_value x)
           else bind_result (float_of_str le) (\<lambda>b. Inr (b, es_value x))))"

fun read_samples :: "string \<Rightarrow> string \<Rightarrow> bucket list \<Rightarrow> int \<Rightarrow> exposed_sample list \<Rightarrow> (bucket list \<times> int) result" where
  "read_samples exch name buckets n [] = Inr (buckets, n)"
| "read_samples exch name buckets n (x # xs) =
     (if \<not> has_labels exch name x then read_samples exch name buckets n xs
      else if ends_with (es_name x) ''_bucket''
      then bind_result (bucket_of x) (\<lambda>b. read_samples exch name (buckets @ [b]) n xs)
      else if ends_with (es_name x) ''_count''
      then read_samples exch name buckets (truncate_rat (es_value x)) xs
      else read_samples exch name buckets n xs)"

definition histogram_quantiles ::
  "exposed_sample list \<Rightarrow> string \<Rightarrow> string \<Rightarrow> rat list \<Rightarrow> (py_float list \<times> int) result" where
  "histogram_quantiles samples exch name quantiles =
     bind_result (read_samples exch name [] 0 samples) (\<lambda>(buckets, n).
       bind_result (map_result (quantile_from_buckets (sort_key fst buckets)) quantiles) (\<lambda>qs. Inr (qs, n)))"

section \<open>What the histogram exposes\<close>

text \<open>How many of the observed latencies are at most \<open>b\<close>.\<close>

definition at_most :: "rat list \<Rightarrow> rat \<Rightarrow> nat" where
  "at_most obs b = length (filter (\<lambda>x. x \<le> b) obs)"

definition cumulative :: "rat list \<Rightarrow> rat list \<Rightarrow> bucket list" where
  "cumulative bounds obs =
     map (\<lambda>b. (Finite b, of_nat (at_most obs b))) bounds @ [(Infinite False, of_nat (length obs))]"

text \<open>
  The documented exposition of a labelled histogram: under each set of labels that was ever observed,
  a cumulative bucket for every bound and for infinity, then the count and the sum. Samples of other
  labels, and of other names, may stand anywhere between them.
\<close>

definition exposes :: "string \<Rightarrow> string \<Rightarrow> rat list \<Rightarrow> rat list \<Rightarrow> exposed_sample list \<Rightarrow> bool" where
  "exposes exch name bounds obs samples \<longleftrightarrow>
     (let own = filter (has_labels exch name) samples;
          bs = filter (\<lambda>x. ends_with (es_name x) ''_bucket'') own;
          ns = filter (\<lambda>x. \<not> ends_with (es_name x) ''_bucket'' \<and> ends_with (es_name x) ''_count'') own
      in if obs = [] then own = []
         else map_result bucket_of bs = Inr (cumulative bounds obs) \<and>
              map es_value ns = [of_nat (length obs)])"

lemma read_samples_spec:
  assumes "map_result bucket_of (filter (\<lambda>x. ends_with (es_name x) ''_bucket'') (filter (has_labels exch name) samples)) = Inr bs"
  shows "read_samples exch name buckets n samples =
    Inr (buckets @ bs,
      fold (\<lambda>v _. truncate_rat v)
        (map es_value (filter (\<lambda>x. \<not> ends_with (es_name x) ''_bucket'' \<and> ends_with (es_name x) ''_count'')
           (filter (has_labels exch name) samples))) n)"
  using assms
  by (induction exch name buckets n samples arbitrary: bs rule: read_samples.induct)
    (auto simp: bind_result_def split: sum.splits if_splits)

lemma at_most_mono: "a \<le> b \<Longrightarrow> at_most obs a \<le> at_most obs b"
  unfolding at_most_def by (induction obs) auto

lemma at_most_length: "at_most obs b \<le> length obs"
  by (simp add: at_most_def)

lemma sort_cumulative:
  assumes "sorted bounds"
  shows "sort_key fst (cumulative bounds obs) = cumulative bounds obs"
proof -
  have "sorted (map fst (cumulative bounds obs))"
    using assms by (induction bounds) (auto simp: cumulative_def less_eq_py_float_def)
  then show ?thesis by (rule sort_key_id_if_sorted)
qed

lemma quantiles_read:
  assumes "exposes exch name bounds obs samples" and "obs \<noteq> []" and "sorted bounds"
  shows "histogram_quantiles samples exch name qs =
    Inr (map (\<lambda>q. scan_buckets (q * of_nat (length obs)) (Finite 0) 0 (Infinite False) (cumulative bounds obs)) qs,
      int (length obs))"
proof -
  have "read_samples exch name [] 0 samples = Inr (cumulative bounds obs, int (length obs))"
    using assms(1,2) read_samples_spec [of exch name samples "cumulative bounds obs" "[]" 0]
    by (simp add: exposes_def Let_def truncate_rat_def)
  moreover have "quantile_from_buckets (cumulative bounds obs) q =
      Inr (scan_buckets (q * of_nat (length obs)) (Finite 0) 0 (Infinite False) (cumulative bounds obs))" for q
    using assms(2) by (simp add: quantile_from_buckets_def cumulative_def)
  moreover from this have "map_result (quantile_from_buckets (cumulative bounds obs)) qs =
      Inr (map (\<lambda>q. scan_buckets (q * of_nat (length obs)) (Finite 0) 0 (Infinite False) (cumulative bounds obs)) qs)"
    by (induction qs) auto
  ultimately show ?thesis
    by (simp add: histogram_quantiles_def bind_result_def sort_cumulative [OF assms(3)])
qed

section \<open>What the estimate says\<close>

text \<open>The bounds with the 0 the scan starts from: neighbours in this list are the finite buckets.\<close>

definition neighbours :: "rat list \<Rightarrow> (rat \<times> rat) list" where
  "neighbours bounds = zip (0 # bounds) bounds"

lemma lerp_between:
  assumes "prev < target" and "target \<le> n" and "(lo :: rat) \<le> hi"
  shows "lo \<le> lo + (target - prev) / (n - prev) * (hi - lo) \<and> lo + (target - prev) / (n - prev) * (hi - lo) \<le> hi"
proof -
  let ?f = "(target - prev) / (n - prev)"
  have "0 \<le> ?f" "?f \<le> 1" using assms by (simp_all add: field_simps)
  then have "0 \<le> ?f * (hi - lo)" "?f * (hi - lo) \<le> 1 * (hi - lo)"
    using assms(3) mult_right_mono [of ?f 1 "hi - lo"] by (simp_all only: mult_nonneg_nonneg diff_ge_0_iff_ge)
  then show ?thesis by simp
qed

lemma scan_bounds:
  assumes "sorted (lo # bounds)" and "prev < target" and "target \<le> of_nat (length obs)"
  shows "(\<forall>b \<in> set bounds. of_nat (at_most obs b) < target) \<and>
      scan_buckets target (Finite lo) prev e (cumulative bounds obs) = Infinite False \<or>
    (\<exists>(a, b) \<in> set (zip (lo # bounds) bounds). \<exists>x. scan_buckets target (Finite lo) prev e (cumulative bounds obs) = Finite x \<and>
      a \<le> x \<and> x \<le> b \<and> target \<le> of_nat (at_most obs b) \<and> (a = lo \<or> of_nat (at_most obs a) < target))"
  using assms
proof (induction bounds arbitrary: lo prev)
  case (Cons b bounds)
  let ?n = "of_nat (at_most obs b) :: rat"
  show ?case
  proof (cases "target \<le> ?n")
    case True
    have "lo \<le> b" using Cons.prems(1) by simp
    from lerp_between [OF Cons.prems(2) True this] True Cons.prems(2) show ?thesis
      by (simp add: cumulative_def lerp_def)
  next
    case False
    then have "?n < target" by simp
    have rest: "scan_buckets target (Finite lo) prev e (cumulative (b # bounds) obs) =
        scan_buckets target (Finite b) ?n e (cumulative bounds obs)"
      using False by (simp add: cumulative_def)
    from Cons.IH [OF _ \<open>?n < target\<close> Cons.prems(3)] Cons.prems(1) False \<open>?n < target\<close> show ?thesis
      unfolding rest by (auto; blast)
  qed
qed (simp add: cumulative_def)

end
