(* ===== verification/SinkCounts.thy ===== *)
theory SinkCounts
  imports SinkSafety
begin

text \<open>
  What the counter \<open>rows_written\<close> counts: while nothing has failed, the rows taken from the queue are
  those counted and those in the buffer.
\<close>

lemma count_of_bumped:
  "count_of k (bump_by k' n c) = count_of k c + (if k = k' then n else 0)"
  by (simp add: bump_by_def count_of_def)

abbreviation rows_written :: "parquet_sink \<Rightarrow> nat" where
  "rows_written s \<equiv> count_of ''rows_written'' (ps_stats s)"

definition total_rows :: "row_groups \<Rightarrow> nat" where
  "total_rows gs = sum_list (map (\<lambda>g. length (snd g)) gs)"

lemma group_rows_total:
  "group_rows gs rows = Inr gs1 \<Longrightarrow> total_rows gs1 = total_rows gs + length rows"
proof (induction gs rows rule: group_rows.induct)
  case (2 gs row rows)
  then obtain hour where h: "hour_key_for (row_ts_wall_ns row) = Inr hour" by (auto split: sum.splits)
  define key where "key = (row_exchange row, row_symbol row, hour)"
  define old where "old = (case map_of gs key of None \<Rightarrow> [] | Some xs \<Rightarrow> xs)"
  have rest: "group_rows (AList.update key (old @ [row]) gs) rows = Inr gs1"
    using "2.prems" h by (simp add: key_def old_def Let_def)
  have "total_rows (AList.update key (old @ [row]) gs) = total_rows gs + 1"
  proof (cases "map_of gs key")
    case None
    then show ?thesis by (simp add: update_absent total_rows_def old_def)
  next
    case (Some xs)
    from update_present [OF Some, of "old @ [row]"] obtain ys zs
      where "gs = ys @ (key, xs) # zs" "AList.update key (old @ [row]) gs = ys @ (key, old @ [row]) # zs" .
    with Some show ?thesis by (simp add: total_rows_def old_def)
  qed
  with "2.IH" [OF h refl refl] rest show ?case by (simp add: key_def old_def)
qed simp

lemma write_group_counts:
  assumes "write_group pa now g d s = (Inr u, d1, s1)"
  shows "rows_written s1 = rows_written s + length (snd g)"
proof -
  obtain exch name k rows where "g = ((exch, name, k), rows)" by (metis prod_cases3 surj_pair)
  with assms show ?thesis by (auto simp: count_of_bumped Let_def split: prod.splits sum.splits)
qed

lemma write_groups_counts:
  "write_groups pa clock gs d s = (Inr u, clock1, d1, s1) \<Longrightarrow> rows_written s1 = rows_written s + total_rows gs"
proof (induction gs arbitrary: d s clock)
  case (Cons g gs)
  obtain r2 d2 s2 where one: "write_group pa (clock 0) g d s = (r2, d2, s2)" by (metis prod_cases3)
  show ?case
  proof (cases r2)
    case (Inl err)
    with Cons.prems one show ?thesis by simp
  next
    case (Inr v)
    with Cons.prems one have "write_groups pa (later clock) gs d2 s2 = (Inr u, clock1, d1, s1)" by simp
    from Cons.IH [OF this] write_group_counts [of pa "clock 0" g d s v d2 s2] one Inr show ?thesis
      by (simp add: total_rows_def)
  qed
qed (simp add: total_rows_def)

lemma flush_buffer_counts:
  assumes "flush_buffer pa clock d s = (Inr u, clock1, d1, s1)"
  shows "ps_buffer s1 = [] \<and> rows_written s1 = rows_written s + length (ps_buffer s)"
proof -
  obtain gs where gs: "group_rows [] (ps_buffer s) = Inr gs"
    using assms by (cases "group_rows [] (ps_buffer s)") (auto simp: flush_buffer_def flush_def)
  obtain r2 clock2 d2 s2 where w: "write_groups pa clock gs d s = (r2, clock2, d2, s2)" by (metis prod_cases4)
  obtain v where r2: "r2 = Inr v" using assms gs w by (cases r2) (auto simp: flush_buffer_def flush_def)
  have "s1 = s2\<lparr>ps_stats := bump_by ''batches_flushed'' 1 (ps_stats s2), ps_buffer := []\<rparr>"
    using assms gs w r2 by (auto simp: flush_buffer_def flush_def)
  with write_groups_counts [of pa clock gs d s v clock2 d2 s2] w r2 group_rows_total [OF gs] show ?thesis
    by (simp add: count_of_bumped total_rows_def)
qed

text \<open>\<open>n\<close> rows have been taken from the queue.\<close>

definition counts_ok :: "nat \<Rightarrow> 'a sink_run \<Rightarrow> bool" where
  "counts_ok n r \<longleftrightarrow>
     (sr_end r = None \<longrightarrow> rows_written (sr_sink r) + length (ps_buffer (sr_sink r)) = n) \<and>
     (sr_end r = Some Cancelled \<longrightarrow> ps_buffer (sr_sink r) = [] \<and> rows_written (sr_sink r) = n)"

lemma finish_counts:
  assumes "why = Cancelled \<longrightarrow> rows_written s + length (ps_buffer s) = n"
  shows "counts_ok n (finish_sink pa clock why d s)"
proof -
  obtain r1 clock1 d1 s1 where f: "(if ps_buffer s \<noteq> [] then flush_buffer pa clock d s else (Inr (), clock, d, s)) = (r1, clock1, d1, s1)"
    by (metis prod_cases4)
  show ?thesis
  proof (cases r1)
    case (Inl err)
    with f show ?thesis by (simp add: finish_sink_def counts_ok_def)
  next
    case (Inr u)
    have "ps_buffer s1 = [] \<and> rows_written s1 = rows_written s + length (ps_buffer s)"
      using f Inr flush_buffer_counts [of pa clock d s u clock1 d1 s1] by (auto split: if_splits)
    with f Inr assms show ?thesis by (auto simp: finish_sink_def counts_ok_def split: prod.splits sum.splits)
  qed
qed

lemma top_counts:
  assumes "rows_written s + length (ps_buffer s) = n"
  shows "counts_ok n (goes_on pa (consume_top pa clock d s))"
proof -
  obtain r1 clock1 d1 s1 where t: "consume_top pa clock d s = (r1, clock1, d1, s1)" by (metis prod_cases4)
  show ?thesis
  proof (cases r1)
    case (Inl err)
    with t show ?thesis by (simp add: goes_on_def finish_counts)
  next
    case (Inr timeout)
    with t have "rows_written s1 + length (ps_buffer s1) = n"
      using assms by (auto simp: consume_top_def Let_def dest: flush_buffer_counts split: prod.splits sum.splits if_splits)
    with t Inr show ?thesis by (simp add: goes_on_def counts_ok_def)
  qed
qed

lemma turn_counts:
  assumes "rows_written s + length (ps_buffer s) = n"
  shows "counts_ok n (next_turn pa clock d s)"
proof -
  obtain r1 clock1 d1 s1 where b: "consume_bottom pa clock d s = (r1, clock1, d1, s1)" by (metis prod_cases4)
  show ?thesis
  proof (cases r1)
    case (Inl err)
    with b show ?thesis by (simp add: next_turn_def goes_on_def finish_counts)
  next
    case (Inr u)
    with b have "rows_written s1 + length (ps_buffer s1) = n"
      using assms by (auto simp: consume_bottom_def Let_def dest: flush_buffer_counts split: prod.splits sum.splits if_splits)
    from top_counts [OF this] b Inr show ?thesis by (simp add: next_turn_def)
  qed
qed

lemma sink_next_counts:
  assumes "sink_next pa ev r = Some r1" and "counts_ok n r"
  shows "counts_ok (n + length (taken_by ev r)) r1"
proof (cases ev)
  case (Row_Comes clock)
  with assms(1) obtain clock1 s1 where t: "sr_end r = None" "take_row clock (sr_sink r) = Some (clock1, s1)"
      "r1 = next_turn pa clock1 (sr_disk r) s1"
    by (auto split: option.splits consumer.splits prod.splits)
  then have "rows_written s1 + length (ps_buffer s1) = n + 1" "length (taken_by ev r) = 1"
    using assms(2) by (auto simp: counts_ok_def take_row_def taken_by_def Row_Comes RowQueue.get_def get_nowait_def
        split: option.splits list.splits)
  with turn_counts [of s1 "n + 1" pa clock1 "sr_disk r"] show ?thesis
    unfolding t(3) by simp
next
  case (Watchdog_Wakes clock)
  with assms show ?thesis by (auto simp: taken_by_def intro!: finish_counts split: sum.splits if_splits)
next
  case (Sink_Cancelled clock)
  with assms show ?thesis by (auto simp: taken_by_def counts_ok_def intro!: finish_counts [unfolded counts_ok_def] split: if_splits)
next
  case (Wait_Times_Out clock)
  with assms show ?thesis
    by (auto simp: taken_by_def counts_ok_def intro!: turn_counts [unfolded counts_ok_def] split: option.splits consumer.splits)
next
  case (Consumer_Starts clock)
  with assms show ?thesis
    by (auto simp: taken_by_def counts_ok_def intro!: top_counts [unfolded counts_ok_def] split: if_splits)
next
  case (Feed_Puts row)
  with assms show ?thesis by (auto simp: taken_by_def counts_ok_def)
qed

end
