(* ===== verification/Stress.thy ===== *)
theory Stress
  imports Quantile SinkCounts SimProps
begin

text \<open>
  The stress tool \<^verbatim>\<open>scripts/stress_replay.py\<close>: simulated feeds whose \<open>on_apply\<close> hook observes a
  latency and puts a row, the driving loops, the queue-depth monitor and the sink, interleaved as the
  event loop may interleave them, and the result of \<open>run_one\<close>. Random streams stand for the derived
  seeds, clocks are readings, and the histogram is the list of the latencies it was given.
\<close>

section \<open>The hook\<close>

type_synonym measured = "row_queue \<times> seconds list"

definition on_apply ::
  "instrument_id \<Rightarrow> int \<Rightarrow> int \<Rightarrow> int \<Rightarrow> book_engine \<Rightarrow> apply_result \<Rightarrow> measured \<Rightarrow> unit result \<times> measured" where
  "on_apply instrument ts_local_ns ts_wall_ns now e res w =
     (if status res \<noteq> APPLIED then (Inr (), w)
      else (let lats = snd w @ [of_int (now - ts_local_ns) / 10 ^ 9]
            in case build_snapshot_row e instrument ts_local_ns ts_wall_ns None of
                 Inl err \<Rightarrow> (Inl err, (fst w, lats))
               | Inr row \<Rightarrow>
                   (case put (fst w) row of
                      (Inl err, q) \<Rightarrow> (Inl err, (q, lats))
                    | (Inr _, q) \<Rightarrow> (Inr (), (q, lats)))))"

text \<open>\<open>run_step\<close> of the driver, with the hook called where the source calls it.\<close>

type_synonym 'w hook = "int \<Rightarrow> book_engine \<Rightarrow> apply_result \<Rightarrow> 'w \<Rightarrow> unit result \<times> 'w"

fun deliver_hooked ::
  "'w hook \<Rightarrow> (nat \<Rightarrow> int) \<Rightarrow> bool \<Rightarrow> driver \<Rightarrow> diff_event list \<Rightarrow> 'w \<Rightarrow> (bool \<times> driver) result \<times> 'w" where
  "deliver_hooked hook clock gap d [] w = (Inr (gap, d), w)"
| "deliver_hooked hook clock gap d (event # events) w =
     (let (res, e) = apply_event (sd_engine d) event
      in case hook (clock 0) e res w of
           (Inl err, w1) \<Rightarrow> (Inl err, w1)
         | (Inr _, w1) \<Rightarrow>
             deliver_hooked hook (\<lambda>n. clock (Suc n)) (gap \<or> status res = GAP_DETECTED)
               (d\<lparr>sd_engine := e, sd_observed := sd_observed d @ [res]\<rparr>) events w1)"

definition run_step_hooked :: "'w hook \<Rightarrow> (nat \<Rightarrow> int) \<Rightarrow> driver \<Rightarrow> 'w \<Rightarrow> driver result \<times> 'w" where
  "run_step_hooked hook clock d w =
     (let s = sd_step d; d1 = d\<lparr>sd_step := sd_step d + 1\<rparr>
      in case poll (sd_injector d1) of
           Inl err \<Rightarrow> (Inl err, w)
         | Inr (events, fi) \<Rightarrow>
             (case deliver_hooked hook clock False (d1\<lparr>sd_injector := fi\<rparr>) events w of
                (Inl err, w1) \<Rightarrow> (Inl err, w1)
              | (Inr (gap, d2), w1) \<Rightarrow> (if gap then sync (Some s) d2 else Inr d2, w1)))"

section \<open>The state of a run\<close>

text \<open>A driving loop: its deadline, the next tick, the steps made and the sleep it last asked for.\<close>

datatype drive = To_Start | Driving seconds seconds nat seconds | Drove nat

record stress_feed =
  sf_driver :: driver
  sf_ts_local_ns :: int
  sf_ts_wall_ns :: int
  sf_drive :: drive

text \<open>
  Where \<open>run_one\<close> waits: on the driving loops, on the monitor (with the time the loops took), on the
  cancelled sink; or it has raised.
\<close>

datatype stress_phase = Awaits_Feeds | Awaits_Monitor seconds | Awaits_Sink seconds | Broken py_exc

record 'a stress_run =
  sx_instrument :: instrument_id
  sx_rate :: rat
  sx_duration :: seconds
  sx_feeds :: "stress_feed list"
  sx_sink :: "'a sink_run"
  sx_latencies :: "seconds list"
  sx_max_depth :: nat
  sx_start :: seconds
  sx_phase :: stress_phase

definition stress_instrument :: "int \<Rightarrow> instrument_id" where
  "stress_instrument num_feeds = \<lparr>exchange = ''stress'', symbol = ''num_feeds_'' @ int_str num_feeds\<rparr>"

text \<open>One market stream and one fault stream for each feed that is built.\<close>

definition build_feeds ::
  "(nat \<Rightarrow> rng \<times> rng) \<Rightarrow> int \<Rightarrow> fault_config \<Rightarrow> int \<Rightarrow> stress_feed list result" where
  "build_feeds seeds num_feeds config depth_levels =
     map_result (\<lambda>i. bind_result
         (build_simulation (fst (seeds i)) (snd (seeds i)) config depth_levels default_snapshot_retry_limit)
         (\<lambda>d. Inr \<lparr>sf_driver = d, sf_ts_local_ns = 0, sf_ts_wall_ns = 0, sf_drive = To_Start\<rparr>))
       [0..<nat num_feeds]"

definition start_stress ::
  "(nat \<Rightarrow> rng \<times> rng) \<Rightarrow> readings \<Rightarrow> 'a disk \<Rightarrow> path \<Rightarrow> int \<Rightarrow> rat \<Rightarrow> seconds \<Rightarrow> fault_config \<Rightarrow> int \<Rightarrow> int \<Rightarrow>
     'a stress_run result" where
  "start_stress seeds clock d output_dir num_feeds rate duration config depth_levels queue_maxsize =
     bind_result (build_feeds seeds num_feeds config depth_levels) (\<lambda>feeds.
       Inr \<lparr>sx_instrument = stress_instrument num_feeds, sx_rate = rate, sx_duration = duration,
            sx_feeds = feeds,
            sx_sink = start_run clock d (default_sink (new_row_queue queue_maxsize) output_dir depth_levels),
            sx_latencies = [], sx_max_depth = 0, sx_start = clock 2, sx_phase = Awaits_Feeds\<rparr>)"

section \<open>Steps\<close>

datatype stress_event =
    Drive_Starts nat seconds
  | Drive_Ticks nat seconds int int "nat \<Rightarrow> int" seconds
  | Drive_Ends nat seconds
  | Monitor_Looks
  | All_Driven seconds
  | Monitor_Stops
  | Sink_Moves sink_event

abbreviation run_queue :: "'a stress_run \<Rightarrow> row_queue" where
  "run_queue r \<equiv> ps_queue (sr_sink (sx_sink r))"

definition put_feed :: "nat \<Rightarrow> stress_feed \<Rightarrow> 'a stress_run \<Rightarrow> 'a stress_run" where
  "put_feed i f r = r\<lparr>sx_feeds := (sx_feeds r)[i := f]\<rparr>"

definition put_measured :: "measured \<Rightarrow> 'a stress_run \<Rightarrow> 'a stress_run" where
  "put_measured w r =
     r\<lparr>sx_sink := (sx_sink r)\<lparr>sr_sink := (sr_sink (sx_sink r))\<lparr>ps_queue := fst w\<rparr>\<rparr>, sx_latencies := snd w\<rparr>"

text \<open>One round of the loop, its guard passed: stamps, the step, the schedule and the sleep.\<close>

definition drive_tick ::
  "nat \<Rightarrow> int \<Rightarrow> int \<Rightarrow> (nat \<Rightarrow> int) \<Rightarrow> seconds \<Rightarrow> seconds \<Rightarrow> seconds \<Rightarrow> nat \<Rightarrow> stress_feed \<Rightarrow> 'a stress_run \<Rightarrow> 'a stress_run" where
  "drive_tick i ts_local_ns ts_wall_ns clock now deadline next_tick steps f r =
     (case run_step_hooked (on_apply (sx_instrument r) ts_local_ns ts_wall_ns) clock (sf_driver f)
             (run_queue r, sx_latencies r) of
        (Inl err, w) \<Rightarrow> (put_measured w r)\<lparr>sx_phase := Broken err\<rparr>
      | (Inr d, w) \<Rightarrow>
          (let next = next_tick + 1 / sx_rate r
           in put_feed i \<lparr>sf_driver = d, sf_ts_local_ns = ts_local_ns, sf_ts_wall_ns = ts_wall_ns,
                sf_drive = Driving deadline next (steps + 1) (max (next - now) 0)\<rparr> (put_measured w r)))"

fun steps_driven :: "stress_feed \<Rightarrow> nat option" where
  "steps_driven f = (case sf_drive f of Drove n \<Rightarrow> Some n | _ \<Rightarrow> None)"

text \<open>The sink's events are its own: rows come from the hooks, the cancellation from \<open>run_one\<close>.\<close>

fun may_move :: "stress_phase \<Rightarrow> sink_event \<Rightarrow> bool" where
  "may_move phase (Feed_Puts row) = False"
| "may_move phase (sink_event.Sink_Cancelled clock) = (case phase of Awaits_Sink _ \<Rightarrow> True | _ \<Rightarrow> False)"
| "may_move phase _ = True"

fun stress_next :: "'a arrays \<Rightarrow> stress_event \<Rightarrow> 'a stress_run \<Rightarrow> 'a stress_run option" where
  "stress_next pa (Drive_Starts i now) r =
     (if sx_phase r = Awaits_Feeds \<and> i < length (sx_feeds r) \<and> sf_drive (sx_feeds r ! i) = To_Start
      then Some (if sx_rate r = 0 then r\<lparr>sx_phase := Broken ZeroDivisionError\<rparr>
                 else put_feed i ((sx_feeds r ! i)\<lparr>sf_drive := Driving (now + sx_duration r) now 0 0\<rparr>) r)
      else None)"
| "stress_next pa (Drive_Ticks i guard_now ts_local_ns ts_wall_ns clock now) r =
     (if sx_phase r = Awaits_Feeds \<and> i < length (sx_feeds r)
      then (case sf_drive (sx_feeds r ! i) of
              Driving deadline next_tick steps asked \<Rightarrow>
                (if guard_now < deadline
                 then Some (drive_tick i ts_local_ns ts_wall_ns clock now deadline next_tick steps (sx_feeds r ! i) r)
                 else None)
            | _ \<Rightarrow> None)
      else None)"
| "stress_next pa (Drive_Ends i guard_now) r =
     (if sx_phase r = Awaits_Feeds \<and> i < length (sx_feeds r)
      then (case sf_drive (sx_feeds r ! i) of
              Driving deadline next_tick steps asked \<Rightarrow>
                (if guard_now < deadline then None
                 else Some (put_feed i ((sx_feeds r ! i)\<lparr>sf_drive := Drove steps\<rparr>) r))
            | _ \<Rightarrow> None)
      else None)"
| "stress_next pa Monitor_Looks r =
     (if sx_phase r = Awaits_Feeds
      then Some (r\<lparr>sx_max_depth := max (sx_max_depth r) (qsize (run_queue r))\<rparr>) else None)"
| "stress_next pa (All_Driven now) r =
     (if sx_phase r = Awaits_Feeds \<and> list_all (\<lambda>f. steps_driven f \<noteq> None) (sx_feeds r)
      then Some (r\<lparr>sx_phase := Awaits_Monitor (now - sx_start r)\<rparr>) else None)"
| "stress_next pa Monitor_Stops r =
     (case sx_phase r of Awaits_Monitor elapsed \<Rightarrow> Some (r\<lparr>sx_phase := Awaits_Sink elapsed\<rparr>) | _ \<Rightarrow> None)"
| "stress_next pa (Sink_Moves ev) r =
     (if may_move (sx_phase r) ev
      then map_option (\<lambda>s. r\<lparr>sx_sink := s\<rparr>) (sink_next pa ev (sx_sink r)) else None)"

fun stress_exec :: "'a arrays \<Rightarrow> stress_event list \<Rightarrow> 'a stress_run \<Rightarrow> 'a stress_run option" where
  "stress_exec pa [] r = Some r"
| "stress_exec pa (ev # evs) r = (case stress_next pa ev r of None \<Rightarrow> None | Some r1 \<Rightarrow> stress_exec pa evs r1)"

section \<open>The result\<close>

record run_result =
  rr_num_feeds :: int
  rr_target_rate :: rat
  rr_achieved_rate :: rat
  rr_duration_seconds :: seconds
  rr_rows_dropped :: nat
  rr_max_queue_depth :: nat
  rr_rows_written :: nat
  rr_p50 :: py_float
  rr_p95 :: py_float
  rr_p99 :: py_float
  rr_p999 :: py_float
  rr_sample_count :: int
  rr_fault_summary :: "(string \<times> nat list) list"
  rr_recoveries :: nat
  rr_breach :: string

definition latency_ceiling :: rat where
  "latency_ceiling = 1 / 10"

fun too_slow :: "py_float \<Rightarrow> bool" where
  "too_slow (Infinite neg) = True"
| "too_slow (Finite q) = (latency_ceiling < q)"
| "too_slow Not_A_Number = False"

definition breach_of :: "nat \<Rightarrow> py_float \<Rightarrow> string" where
  "breach_of rows_dropped p99 =
     (if 0 < rows_dropped then ''rows_dropped'' else if too_slow p99 then ''p99_latency'' else '''')"

fun fault_value :: "fault_type \<Rightarrow> string" where
  "fault_value DROP_ONE = ''drop_one''"
| "fault_value DROP_BURST = ''drop_burst''"
| "fault_value DUPLICATE = ''duplicate''"
| "fault_value REORDER = ''reorder''"
| "fault_value DISCONNECT = ''disconnect''"
| "fault_value DELAYED_SNAPSHOT = ''delayed_snapshot''"

text \<open>The faults of all feeds, fired and shadowed, and their recoveries.\<close>

definition add_faults :: "(string \<times> nat list) list \<Rightarrow> stress_feed \<Rightarrow> (string \<times> nat list) list" where
  "add_faults summary f =
     map (\<lambda>((key, ns), (_, fired, shadowed)). (key, [ns ! 0 + fired, ns ! 1 + shadowed]))
       (zip summary (summarize_log (fi_log (sd_injector (sf_driver f)))))"

definition fault_summary :: "stress_feed list \<Rightarrow> (string \<times> nat list) list" where
  "fault_summary feeds = foldl add_faults (map (\<lambda>ft. (fault_value ft, [0, 0])) fault_types) feeds"

definition total_recoveries :: "stress_feed list \<Rightarrow> nat" where
  "total_recoveries feeds = sum_list (map (\<lambda>f. length (sd_recoveries (sf_driver f))) feeds)"

definition steps_of :: "stress_feed list \<Rightarrow> nat" where
  "steps_of feeds = sum_list (map (\<lambda>f. case steps_driven f of Some n \<Rightarrow> n | None \<Rightarrow> 0) feeds)"

text \<open>How \<open>run_one\<close> ends: with a result, with an exception, or with the group the sink ended with.\<close>

datatype stress_end = Measured run_result | Run_Raises py_exc | Run_Raises_Group py_exc

definition measure_run ::
  "(seconds list \<Rightarrow> exposed_sample list) \<Rightarrow> int \<Rightarrow> seconds \<Rightarrow> 'a stress_run \<Rightarrow> run_result result" where
  "measure_run expose num_feeds elapsed r =
     bind_result (histogram_quantiles (expose (sx_latencies r)) (exchange (sx_instrument r))
         (symbol (sx_instrument r)) [1 / 2, 95 / 100, 99 / 100, 999 / 1000]) (\<lambda>(qs, n).
       let dropped = rq_rows_dropped (run_queue r)
       in if elapsed = 0 then Inl ZeroDivisionError
          else Inr \<lparr>rr_num_feeds = num_feeds, rr_target_rate = sx_rate r,
                    rr_achieved_rate = of_nat (steps_of (sx_feeds r)) / elapsed,
                    rr_duration_seconds = elapsed, rr_rows_dropped = dropped,
                    rr_max_queue_depth = sx_max_depth r,
                    rr_rows_written = count_of ''rows_written'' (ss_counters (sink_get_stats (sr_sink (sx_sink r)))),
                    rr_p50 = qs ! 0, rr_p95 = qs ! 1, rr_p99 = qs ! 2, rr_p999 = qs ! 3,
                    rr_sample_count = n, rr_fault_summary = fault_summary (sx_feeds r),
                    rr_recoveries = total_recoveries (sx_feeds r), rr_breach = breach_of dropped (qs ! 2)\<rparr>)"

text \<open>\<open>None\<close> while \<open>run_one\<close> still waits.\<close>

definition run_one_end ::
  "(seconds list \<Rightarrow> exposed_sample list) \<Rightarrow> int \<Rightarrow> 'a stress_run \<Rightarrow> stress_end option" where
  "run_one_end expose num_feeds r =
     (case sx_phase r of
        Broken err \<Rightarrow> Some (Run_Raises err)
      | Awaits_Sink elapsed \<Rightarrow>
          (case sr_end (sx_sink r) of
             None \<Rightarrow> None
           | Some Cancelled \<Rightarrow>
               Some (case measure_run expose num_feeds elapsed r of Inl err \<Rightarrow> Run_Raises err | Inr x \<Rightarrow> Measured x)
           | Some (Exception_Group err) \<Rightarrow> Some (Run_Raises_Group err)
           | Some (Raised err) \<Rightarrow> Some (Run_Raises err))
      | _ \<Rightarrow> None)"

section \<open>The sweep\<close>

definition stress_rates :: "rat list" where
  "stress_rates = [500, 1000, 2000, 4000, 8000, 16000, 32000]"

definition stress_num_feeds :: "int list" where
  "stress_num_feeds = [2, 1]"

definition sweep_config :: "string \<Rightarrow> fault_config" where
  "sweep_config name = (if name = ''storm'' then storm_fault_config else default_fault_config)"

text \<open>The runs of a sweep in their order, each with its directory.\<close>

definition sweep_plan :: "path \<Rightarrow> int list \<Rightarrow> rat list \<Rightarrow> (int \<times> rat \<times> path) list" where
  "sweep_plan output_root feed_counts rates =
     concat (map (\<lambda>n. map (\<lambda>rate. (n, rate,
         path_join output_root (''feeds'' @ int_str n @ ''_rate'' @ int_str (truncate_rat rate)))) rates) feed_counts)"

end
