(* ===== verification/StressProps.thy ===== *)
theory StressProps
  imports Stress
begin

text \<open>
  What holds of a stress run: the hook never disturbs the driver it observes, every latency belongs to
  a row that was written, dropped or left in the queue, and the verdict says what it means to say. The
  locale \<open>apply_hook\<close> is the contract between the driver and its hook.
\<close>

section \<open>The interface: a hook that only observes\<close>

locale apply_hook =
  fixes hook :: "'w hook"
    and keeps :: "'w \<Rightarrow> bool"
  assumes hook_returns: "keeps w \<Longrightarrow> engine_wf e \<Longrightarrow> (status res = APPLIED \<longrightarrow> be_state e = LIVE) \<Longrightarrow>
    \<exists>w'. hook now e res w = (Inr (), w') \<and> keeps w'"

context apply_hook
begin

lemma deliver_plain:
  "keeps w \<Longrightarrow> engine_wf (sd_engine d) \<Longrightarrow>
     \<exists>w'. deliver_hooked hook clock gap d events w = (Inr (deliver gap d events), w') \<and> keeps w'"
proof (induction events arbitrary: clock gap d w)
  case (Cons event events)
  obtain res e where a: "apply_event (sd_engine d) event = (res, e)" by fastforce
  then have e: "engine_wf e" "status res = APPLIED \<longrightarrow> be_state e = LIVE"
    using apply_event_wf [OF Cons.prems(2), of event] apply_event_live(2) [of "sd_engine d" event] by auto
  from hook_returns [OF Cons.prems(1) e] obtain w1 where h: "hook (clock 0) e res w = (Inr (), w1)" "keeps w1"
    by blast
  from Cons.IH [OF h(2), of "d\<lparr>sd_engine := e, sd_observed := sd_observed d @ [res]\<rparr>"
      "\<lambda>n. clock (Suc n)" "gap \<or> status res = GAP_DETECTED"] a e h
  show ?case by (simp add: deliver.simps(2))
qed simp

lemma step_plain:
  assumes "keeps w" and "engine_wf (sd_engine d)"
  shows "\<exists>w'. run_step_hooked hook clock d w = (run_step d, w') \<and> keeps w'"
proof (cases "poll (sd_injector d)")
  case (Inl err)
  with assms show ?thesis by (simp add: run_step_hooked_def run_step_def Let_def)
next
  case (Inr x)
  then obtain events fi where p: "poll (sd_injector d) = Inr (events, fi)" by (cases x) auto
  let ?d1 = "d\<lparr>sd_step := sd_step d + 1, sd_injector := fi\<rparr>"
  from deliver_plain [of w ?d1 clock False events] assms
  obtain w' where "deliver_hooked hook clock False ?d1 events w = (Inr (deliver False ?d1 events), w')" "keeps w'"
    by auto
  with p show ?thesis by (simp add: run_step_hooked_def run_step_def Let_def split: prod.splits)
qed

end

text \<open>
  With \<open>n\<close> rows taken by the sink: as many latencies as rows taken, queued and dropped.
\<close>

definition measured_ok :: "int \<Rightarrow> nat \<Rightarrow> measured \<Rightarrow> bool" where
  "measured_ok m n w \<longleftrightarrow>
     queue_wf (fst w) \<and> rq_maxsize (fst w) = m \<and>
     length (snd w) = n + qsize (fst w) + rq_rows_dropped (fst w)"

lemma put_measured_ok:
  assumes "measured_ok m n (q, lats)"
  obtains evicted q' where "put q row = (Inr evicted, q')" "measured_ok m n (q', lats @ [x])"
proof (cases "has_room q")
  case True
  have "queue_wf (snd (put q row))" using assms put_wf [of q row] by (simp add: measured_ok_def)
  with True assms put_room [OF True, of row] show thesis
    by (intro that) (auto simp: measured_ok_def qsize_def)
next
  case False
  have q: "queue_wf q" using assms by (simp add: measured_ok_def)
  from put_full [OF q False, of row] put_wf [OF q, of row] assms show thesis
    by (intro that) (auto simp: measured_ok_def qsize_def)
qed

interpretation measuring: apply_hook "on_apply instrument ts_local_ns ts_wall_ns" "measured_ok m n"
  for instrument ts_local_ns ts_wall_ns m n
proof unfold_locales
  fix w e now and res :: apply_result
  assume ok: "measured_ok m n w" and e: "engine_wf e" "status res = APPLIED \<longrightarrow> be_state e = LIVE"
  show "\<exists>w'. on_apply instrument ts_local_ns ts_wall_ns now e res w = (Inr (), w') \<and> measured_ok m n w'"
  proof (cases "status res = APPLIED")
    case True
    let ?lat = "of_int (now - ts_local_ns) / 10 ^ 9 :: rat"
    obtain row where row: "build_snapshot_row e instrument ts_local_ns ts_wall_ns None = Inr row"
      by (rule build_row_live [OF e(1)]) (use True e in auto)
    have "measured_ok m n (fst w, snd w)" using ok by simp
    then obtain evicted q' where "put (fst w) row = (Inr evicted, q')" "measured_ok m n (q', snd w @ [?lat])"
      by (rule put_measured_ok)
    with True row show ?thesis by (simp add: on_apply_def Let_def)
  qed (simp add: on_apply_def ok)
qed

section \<open>The invariant of a run\<close>

fun drive_steps :: "stress_feed \<Rightarrow> nat" where
  "drive_steps f = (case sf_drive f of To_Start \<Rightarrow> 0 | Driving _ _ n _ \<Rightarrow> n | Drove n \<Rightarrow> n)"

definition built_ok :: "fault_config \<Rightarrow> driver \<Rightarrow> bool" where
  "built_ok config d0 \<longleftrightarrow>
     (\<exists>m0. driver_ok m0 d0) \<and> be_state (sd_engine d0) = LIVE \<and> fi_config (sd_injector d0) = config"

definition feed_at :: "fault_config \<Rightarrow> driver \<Rightarrow> stress_feed \<Rightarrow> bool" where
  "feed_at config d0 f \<longleftrightarrow> built_ok config d0 \<and> run d0 (drive_steps f) = Inr (sf_driver f)"

definition depth_ok :: "int \<Rightarrow> 'a stress_run \<Rightarrow> bool" where
  "depth_ok m r \<longleftrightarrow> (0 < m \<longrightarrow> int (sx_max_depth r) \<le> m)"

definition traffic_ok :: "int \<Rightarrow> 'a stress_run \<Rightarrow> bool" where
  "traffic_ok m r \<longleftrightarrow> (\<exists>n. measured_ok m n (run_queue r, sx_latencies r) \<and> counts_ok n (sx_sink r))"

definition stress_ok :: "fault_config \<Rightarrow> int \<Rightarrow> driver list \<Rightarrow> 'a stress_run \<Rightarrow> bool" where
  "stress_ok config m d0s r \<longleftrightarrow>
     list_all2 (feed_at config) d0s (sx_feeds r) \<and> depth_ok m r \<and>
     (case sx_phase r of
        Broken err \<Rightarrow> err \<in> {SnapshotRetryLimitExceeded, ZeroDivisionError}
      | _ \<Rightarrow> traffic_ok m r)"

lemma run_snoc: "run d n = Inr d1 \<Longrightarrow> run_step d1 = Inr d2 \<Longrightarrow> run d (Suc n) = Inr d2"
proof (induction n arbitrary: d)
  case (Suc n)
  then obtain d' where "run_step d = Inr d'" "run d' n = Inr d1" by (auto split: sum.splits)
  with Suc.IH [of d'] Suc.prems(2) show ?case by simp
qed simp

lemma feed_at_ok:
  assumes "feed_at config d0 f"
  obtains m0 where "driver_ok m0 (sf_driver f)" "be_state (sd_engine (sf_driver f)) = LIVE"
    "fi_config (sd_injector (sf_driver f)) = config"
proof -
  obtain m0 where "driver_ok m0 d0" "be_state (sd_engine d0) = LIVE" "fi_config (sd_injector d0) = config"
      "run d0 (drive_steps f) = Inr (sf_driver f)"
    using assms by (auto simp: feed_at_def built_ok_def)
  with run_ok [of m0 d0 "drive_steps f" "sf_driver f"] show thesis by (intro that [of m0]) simp_all
qed

lemma counts_put_measured [simp]: "counts_ok n (sx_sink (put_measured w r)) = counts_ok n (sx_sink r)"
  by (simp add: put_measured_def counts_ok_def)

lemma put_stress_simps [simp]:
  "run_queue (put_measured w r) = fst w" "sx_latencies (put_measured w r) = snd w"
  "sx_feeds (put_measured w r) = sx_feeds r" "sx_phase (put_measured w r) = sx_phase r"
  "sx_max_depth (put_measured w r) = sx_max_depth r"
  "sx_feeds (put_feed i f r) = (sx_feeds r)[i := f]" "sx_sink (put_feed i f r) = sx_sink r"
  "sx_latencies (put_feed i f r) = sx_latencies r" "sx_phase (put_feed i f r) = sx_phase r"
  "sx_max_depth (put_feed i f r) = sx_max_depth r"
  by (simp_all add: put_measured_def put_feed_def)

lemma list_all2_put:
  "list_all2 P xs ys \<Longrightarrow> (i < length ys \<Longrightarrow> P (xs ! i) (ys ! i) \<Longrightarrow> P (xs ! i) y) \<Longrightarrow> list_all2 P xs (ys[i := y])"
  by (cases "i < length ys") (auto simp: list_all2_conv_all_nth nth_list_update)

lemma drive_tick_ok:
  assumes "stress_ok config m d0s r" and "config_ok config" and "sx_phase r = Awaits_Feeds"
    and "i < length (sx_feeds r)" and "sf_drive (sx_feeds r ! i) = Driving deadline next_tick steps asked"
  shows "stress_ok config m d0s (drive_tick i local wall clock now deadline next_tick steps (sx_feeds r ! i) r)"
proof -
  let ?f = "sx_feeds r ! i" and ?w = "(run_queue r, sx_latencies r)"
  have feeds: "list_all2 (feed_at config) d0s (sx_feeds r)" "depth_ok m r"
    using assms(1) by (simp_all add: stress_ok_def)
  obtain n where n: "measured_ok m n ?w" "counts_ok n (sx_sink r)"
    using assms(1,3) by (auto simp: stress_ok_def traffic_ok_def)
  have at_i: "feed_at config (d0s ! i) ?f" using feeds(1) assms(4) by (simp add: list_all2_conv_all_nth)
  from feed_at_ok [OF at_i] obtain m0 where d: "driver_ok m0 (sf_driver ?f)"
      "be_state (sd_engine (sf_driver ?f)) = LIVE" "fi_config (sd_injector (sf_driver ?f)) = config" .
  have wf: "engine_wf (sd_engine (sf_driver ?f))" using d(1) by (simp add: driver_ok_def engine_ok_def)
  obtain w where h: "run_step_hooked (on_apply (sx_instrument r) local wall) clock (sf_driver ?f) ?w =
      (run_step (sf_driver ?f), w)" "measured_ok m n w"
    using measuring.step_plain [OF n(1) wf] by blast
  show ?thesis
  proof (cases "run_step (sf_driver ?f)")
    case (Inl err)
    have "err = SnapshotRetryLimitExceeded" using run_step_error [OF d(1,2) _ Inl] d(3) assms(2) by simp
    with h Inl feeds show ?thesis by (simp add: drive_tick_def stress_ok_def depth_ok_def)
  next
    case (Inr d')
    let ?f' = "\<lparr>sf_driver = d', sf_ts_local_ns = local, sf_ts_wall_ns = wall,
      sf_drive = Driving deadline (next_tick + 1 / sx_rate r) (steps + 1) (max (next_tick + 1 / sx_rate r - now) 0)\<rparr>"
    have "feed_at config (d0s ! i) ?f'"
      using at_i run_snoc [OF _ Inr] assms(5) by (simp add: feed_at_def)
    with feeds(1) have "list_all2 (feed_at config) d0s ((sx_feeds r)[i := ?f'])"
      by (intro list_all2_put) simp_all
    with h Inr feeds n assms(3) show ?thesis
      by (simp add: drive_tick_def stress_ok_def depth_ok_def traffic_ok_def Let_def) blast
  qed
qed

lemma measured_get:
  assumes "measured_ok m n (q, lats)" and "RowQueue.get q = Some (row, q')"
  shows "measured_ok m (n + 1) (q', lats)"
  using assms get_wf [OF _ assms(2)]
  by (auto simp: measured_ok_def RowQueue.get_def get_nowait_def qsize_def split: list.splits)

lemma sink_moves_ok:
  assumes "traffic_ok m r" and "sink_next pa ev (sx_sink r) = Some s" and "\<forall>row. ev \<noteq> Feed_Puts row"
  shows "traffic_ok m (r\<lparr>sx_sink := s\<rparr>)"
proof -
  obtain n where n: "measured_ok m n (run_queue r, sx_latencies r)" "counts_ok n (sx_sink r)"
    using assms(1) by (auto simp: traffic_ok_def)
  note c = sink_next_counts [OF assms(2) n(2)]
  from sink_next_queue [OF assms(2,3)] show ?thesis
  proof (elim disjE conjE exE)
    assume "ps_queue (sr_sink s) = run_queue r" "taken_by ev (sx_sink r) = []"
    with n c show ?thesis by (auto simp: traffic_ok_def intro!: exI [of _ n])
  next
    fix row
    assume "RowQueue.get (run_queue r) = Some (row, ps_queue (sr_sink s))" "taken_by ev (sx_sink r) = [row]"
    with measured_get [OF n(1)] c show ?thesis by (auto simp: traffic_ok_def intro!: exI [of _ "n + 1"])
  qed
qed

lemma measured_depth: "measured_ok m n (q, lats) \<Longrightarrow> 0 < m \<longrightarrow> int (qsize q) \<le> m"
  by (auto simp: measured_ok_def queue_wf_def qsize_def)

lemma stress_next_ok:
  assumes "stress_next pa ev r = Some r1" and "stress_ok config m d0s r" and "config_ok config"
  shows "stress_ok config m d0s r1"
proof (cases ev)
  case (Drive_Ticks i g local wall clock now)
  with assms show ?thesis by (auto split: if_splits drive.splits intro!: drive_tick_ok)
next
  case (Sink_Moves e)
  with assms(1) obtain s where s: "may_move (sx_phase r) e" "sink_next pa e (sx_sink r) = Some s" "r1 = r\<lparr>sx_sink := s\<rparr>"
    by (auto split: if_splits)
  have "\<forall>row. e \<noteq> Feed_Puts row" using s(1) by auto
  from sink_moves_ok [OF _ s(2) this, of m] assms(2) show ?thesis
    unfolding s(3) by (simp add: stress_ok_def depth_ok_def split: stress_phase.splits)
next
  case Monitor_Looks
  with assms measured_depth [of m _ "run_queue r" "sx_latencies r"] show ?thesis
    by (auto simp: stress_ok_def depth_ok_def traffic_ok_def max_def split: if_splits)
next
  case (Drive_Starts i now)
  with assms show ?thesis
    by (auto simp: stress_ok_def depth_ok_def traffic_ok_def feed_at_def split: if_splits intro!: list_all2_put)
next
  case (Drive_Ends i g)
  with assms show ?thesis
    by (auto simp: stress_ok_def depth_ok_def traffic_ok_def feed_at_def split: if_splits drive.splits intro!: list_all2_put)
qed (use assms in \<open>auto simp: stress_ok_def depth_ok_def traffic_ok_def split: if_splits stress_phase.splits\<close>)

lemma stress_exec_ok:
  "stress_exec pa evs r = Some r1 \<Longrightarrow> stress_ok config m d0s r \<Longrightarrow> config_ok config \<Longrightarrow> stress_ok config m d0s r1"
proof (induction evs arbitrary: r)
  case (Cons ev evs)
  then obtain r2 where "stress_next pa ev r = Some r2" "stress_exec pa evs r2 = Some r1" by (auto split: option.splits)
  with Cons.IH stress_next_ok [of pa ev r r2 config m d0s] Cons.prems show ?case by blast
qed simp

end
