(* ===== verification/StressClaims.thy ===== *)
theory StressClaims
  imports StressProps
begin

text \<open>
  The properties of the stress tool, and a run of it in which one event is applied, for their
  witnesses.
\<close>

section \<open>The start and the end of a run\<close>

lemma start_stress_ok:
  assumes "start_stress seeds clock d dir num_feeds rate duration config depth_levels maxsize = Inr r0"
    and "config_ok config"
  obtains d0s where "length d0s = nat num_feeds" "stress_ok config maxsize d0s r0"
    "\<And>i. i < nat num_feeds \<Longrightarrow> build_simulation (fst (seeds i)) (snd (seeds i)) config depth_levels
       default_snapshot_retry_limit = Inr (d0s ! i)"
proof -
  obtain feeds where f: "build_feeds seeds num_feeds config depth_levels = Inr feeds"
    using assms(1) by (auto simp: start_stress_def bind_result_def split: sum.splits)
  let ?build = "\<lambda>i. build_simulation (fst (seeds i)) (snd (seeds i)) config depth_levels default_snapshot_retry_limit"
  have len: "length feeds = nat num_feeds"
    using f by (auto simp: build_feeds_def map_result_ok list_all2_conv_all_nth)
  have each: "?build i = Inr (sf_driver (feeds ! i)) \<and> sf_drive (feeds ! i) = To_Start" if i: "i < nat num_feeds" for i
  proof -
    have "bind_result (?build i)
        (\<lambda>d. Inr \<lparr>sf_driver = d, sf_ts_local_ns = 0, sf_ts_wall_ns = 0, sf_drive = To_Start\<rparr>) = Inr (feeds ! i)"
      using f i by (auto simp: build_feeds_def map_result_ok list_all2_conv_all_nth)
    then show ?thesis 
      by (cases "?build i")
        (auto simp: bind_result_def dest: arg_cong [where f = sf_driver] arg_cong [where f = sf_drive])
  qed
  have "feed_at config (sf_driver (feeds ! i)) (feeds ! i)" if i: "i < nat num_feeds" for i
  proof -
    have "0 \<le> delayed_snapshot_max_steps config" using assms(2) by (simp add: config_ok_def)
    from build_ok [OF this conjunct1 [OF each [OF i]]] have "built_ok config (sf_driver (feeds ! i))"
      unfolding built_ok_def by metis
    with each [OF i] show ?thesis by (simp add: feed_at_def)
  qed
  then have "stress_ok config maxsize (map sf_driver feeds) r0"
    using assms(1) f len
    by (auto simp: start_stress_def bind_result_def stress_ok_def depth_ok_def traffic_ok_def measured_ok_def
        counts_ok_def start_run_def default_sink_def new_sink_def new_row_queue_wf count_of_def
        list_all2_conv_all_nth new_row_queue_def qsize_def queue_wf_def intro!: exI [of _ 0])
  with each len show thesis by (intro that [of "map sf_driver feeds"]) auto
qed

text \<open>What is known of a run that was measured.\<close>

lemma measured_end:
  assumes "run_one_end expose num_feeds r = Some (Measured x)"
  obtains elapsed where "sx_phase r = Awaits_Sink elapsed" "sr_end (sx_sink r) = Some Cancelled"
    "measure_run expose num_feeds elapsed r = Inr x"
  using assms by (auto simp: run_one_end_def split: stress_phase.splits option.splits sink_end.splits sum.splits)

lemma traffic_end:
  assumes "stress_ok config m d0s r" and "sx_phase r = Awaits_Sink elapsed" and "sr_end (sx_sink r) = Some Cancelled"
  shows "length (sx_latencies r) =
    rows_written (sr_sink (sx_sink r)) + rq_rows_dropped (run_queue r) + qsize (run_queue r)"
  using assms by (auto simp: stress_ok_def traffic_ok_def measured_ok_def counts_ok_def)

lemma sorted_buckets: "sorted (0 # processing_latency_buckets)"
  by (simp add: processing_latency_buckets_def)

lemma no_latencies_no_quantiles:
  assumes "exposes exch name bounds [] samples"
  shows "histogram_quantiles samples exch name (q # qs) = Inl IndexError"
proof -
  have "read_samples exch name bs n xs = Inr (bs, n)" if "filter (has_labels exch name) xs = []" for bs n xs
    using that by (induction xs) (auto split: if_splits)
  with assms show ?thesis by (simp add: exposes_def histogram_quantiles_def bind_result_def quantile_from_buckets_def)
qed

text \<open>The numbers of a result, in terms of the run.\<close>

definition estimate :: "rat list \<Rightarrow> rat \<Rightarrow> py_float" where
  "estimate lats q = scan_buckets (q * of_nat (length lats)) (Finite 0) 0 (Infinite False)
     (cumulative processing_latency_buckets lats)"

lemma measure_run_ok:
  assumes "measure_run expose num_feeds elapsed r = Inr x"
    and "exposes (exchange (sx_instrument r)) (symbol (sx_instrument r)) processing_latency_buckets
      (sx_latencies r) (expose (sx_latencies r))"
  shows "sx_latencies r \<noteq> []" and "elapsed \<noteq> 0"
    and "rr_sample_count x = int (length (sx_latencies r))"
    and "rr_rows_dropped x = rq_rows_dropped (run_queue r)"
    and "rr_rows_written x = rows_written (sr_sink (sx_sink r))"
    and "rr_max_queue_depth x = sx_max_depth r" and "rr_p99 x = estimate (sx_latencies r) (99 / 100)"
    and "rr_recoveries x = total_recoveries (sx_feeds r)" and "rr_duration_seconds x = elapsed"
    and "rr_achieved_rate x = of_nat (steps_of (sx_feeds r)) / elapsed"
    and "rr_breach x = breach_of (rr_rows_dropped x) (rr_p99 x)"
    and "rr_p50 x = estimate (sx_latencies r) (1 / 2)" and "rr_p95 x = estimate (sx_latencies r) (95 / 100)"
    and "rr_p999 x = estimate (sx_latencies r) (999 / 1000)"
    and "rr_num_feeds x = num_feeds" and "rr_target_rate x = sx_rate r"
    and "rr_fault_summary x = fault_summary (sx_feeds r)"
proof -
  show lats: "sx_latencies r \<noteq> []"
    using assms no_latencies_no_quantiles by (auto simp: measure_run_def bind_result_def)
  have b: "sorted processing_latency_buckets" using sorted_buckets by simp
  note q = quantiles_read [OF assms(2) lats b, of "[1 / 2, 95 / 100, 99 / 100, 999 / 1000]"]
  show "elapsed \<noteq> 0" using assms(1) q by (auto simp: measure_run_def bind_result_def)
  then have x: "x = \<lparr>rr_num_feeds = num_feeds, rr_target_rate = sx_rate r,
      rr_achieved_rate = of_nat (steps_of (sx_feeds r)) / elapsed, rr_duration_seconds = elapsed,
      rr_rows_dropped = rq_rows_dropped (run_queue r), rr_max_queue_depth = sx_max_depth r,
      rr_rows_written = rows_written (sr_sink (sx_sink r)),
      rr_p50 = estimate (sx_latencies r) (1 / 2), rr_p95 = estimate (sx_latencies r) (95 / 100),
      rr_p99 = estimate (sx_latencies r) (99 / 100), rr_p999 = estimate (sx_latencies r) (999 / 1000),
      rr_sample_count = int (length (sx_latencies r)), rr_fault_summary = fault_summary (sx_feeds r),
      rr_recoveries = total_recoveries (sx_feeds r),
      rr_breach = breach_of (rq_rows_dropped (run_queue r)) (estimate (sx_latencies r) (99 / 100))\<rparr>"
    using assms(1) q by (simp add: measure_run_def bind_result_def estimate_def sink_get_stats_def Let_def)
  show "rr_sample_count x = int (length (sx_latencies r))" "rr_rows_dropped x = rq_rows_dropped (run_queue r)"
    "rr_rows_written x = rows_written (sr_sink (sx_sink r))" "rr_max_queue_depth x = sx_max_depth r"
    "rr_p99 x = estimate (sx_latencies r) (99 / 100)" "rr_recoveries x = total_recoveries (sx_feeds r)"
    "rr_duration_seconds x = elapsed" "rr_achieved_rate x = of_nat (steps_of (sx_feeds r)) / elapsed"
    "rr_breach x = breach_of (rr_rows_dropped x) (rr_p99 x)"
    "rr_p50 x = estimate (sx_latencies r) (1 / 2)" "rr_p95 x = estimate (sx_latencies r) (95 / 100)"
    "rr_p999 x = estimate (sx_latencies r) (999 / 1000)" "rr_num_feeds x = num_feeds" "rr_target_rate x = sx_rate r"
    "rr_fault_summary x = fault_summary (sx_feeds r)"
    by (simp_all add: x)
qed

text \<open>An estimate lies in the bucket of the true quantile; above the last bound it is infinite.\<close>

lemma estimate_brackets:
  assumes "lats \<noteq> []" and "0 < q" and "q \<le> 1"
  shows "(of_nat (at_most lats latency_ceiling) < q * of_nat (length lats)) \<and> estimate lats q = Infinite False \<or>
    (\<exists>(a, b) \<in> set (neighbours processing_latency_buckets). \<exists>v. estimate lats q = Finite v \<and> a \<le> v \<and> v \<le> b \<and>
      q * of_nat (length lats) \<le> of_nat (at_most lats b) \<and>
      (a = 0 \<or> of_nat (at_most lats a) < q * of_nat (length lats)))"
proof -
  have "0 < q * of_nat (length lats)" "q * of_nat (length lats) \<le> of_nat (length lats)"
    using assms by (simp_all add: mult_le_cancel_right1)
  from scan_bounds [OF sorted_buckets this, of "Infinite False"] show ?thesis
    by (auto simp: estimate_def neighbours_def latency_ceiling_def processing_latency_buckets_def)
qed

lemma bucket_below_ceiling:
  "(a, b) \<in> set (neighbours processing_latency_buckets) \<Longrightarrow> b \<le> latency_ceiling"
  by (auto simp: neighbours_def processing_latency_buckets_def latency_ceiling_def)

lemma too_slow_estimate:
  assumes "lats \<noteq> []" and "0 < q" and "q \<le> 1"
  shows "too_slow (estimate lats q) \<longleftrightarrow> of_nat (at_most lats latency_ceiling) < q * of_nat (length lats)"
proof -
  consider "of_nat (at_most lats latency_ceiling) < q * of_nat (length lats)" "estimate lats q = Infinite False"
    | a b v where "(a, b) \<in> set (neighbours processing_latency_buckets)" "estimate lats q = Finite v" "v \<le> b"
        "q * of_nat (length lats) \<le> of_nat (at_most lats b)"
    using estimate_brackets [OF assms] by blast
  then show ?thesis
  proof cases
    case (2 a b v)
    have b: "b \<le> latency_ceiling" by (rule bucket_below_ceiling [OF 2(1)])
    have "(of_nat (at_most lats b) :: rat) \<le> of_nat (at_most lats latency_ceiling)"
      using at_most_mono [OF b] by simp
    with 2 b show ?thesis by (simp add: not_less)
  qed simp
qed

section \<open>A run in which one event is applied\<close>

lemma clean_tick:
  assumes "converged (sd_engine d) (fi_market (sd_injector d))" and "driver_ok m0 d"
    and "is_quiescent (sd_injector d)" and "fault_free (fi_config (sd_injector d))" and "measured_ok m n w"
  obtains d' w' where "run_step_hooked (on_apply instrument local wall) clock d w = (Inr d', w')"
    "length (snd w') = length (snd w) + 1"
proof -
  have iok: "injector_ok m0 (sd_injector d)" and wf: "engine_wf (sd_engine d)"
    using assms(2) by (simp_all add: driver_ok_def engine_ok_def)
  obtain event fi where p: "poll (sd_injector d) = Inr ([event], fi)"
      "prev_id event = mk_update_id (fi_market (sd_injector d))"
    by (rule poll_fault_free [OF iok assms(4,3)])
  have live: "be_state (sd_engine d) = LIVE" "be_last_applied_id (sd_engine d) = Some (prev_id event)"
    using assms(1) p(2) by (simp_all add: converged_iff)
  obtain res e where a: "apply_event (sd_engine d) event = (res, e)" by fastforce
  have "status res = APPLIED"
    using a live apply_live_chained(1) [OF live(2)] by (simp add: apply_event_def)
  moreover from this have e: "engine_wf e" "be_state e = LIVE"
    using a apply_event_wf [OF wf, of event] apply_event_live(2) [of "sd_engine d" event] by auto
  obtain row where "build_snapshot_row e instrument local wall None = Inr row" by (rule build_row_live [OF e])
  moreover obtain evicted q where "put (fst w) row = (Inr evicted, q)"
    by (rule put_measured_ok [of m n "fst w" "snd w" row]) (use assms(5) in auto)
  ultimately show thesis using p a that by (simp add: run_step_hooked_def on_apply_def Let_def)
qed

definition bound_texts :: "string list" where
  "bound_texts = [''5e-05'', ''0.0001'', ''0.0002'', ''0.0005'', ''0.001'', ''0.002'', ''0.005'', ''0.01'', ''0.02'',
     ''0.05'', ''0.1'']"

lemma bound_texts_read: "map float_of_str bound_texts = map (\<lambda>b. Inr (Finite b)) processing_latency_buckets"
  by code_simp

definition demo_expose :: "rat list \<Rightarrow> exposed_sample list" where
  "demo_expose lats =
     (let labels = [(''exchange'', ''stress''), (''symbol'', ''num_feeds_1'')]
      in map2 (\<lambda>le b. \<lparr>es_name = ''l2_processing_latency_seconds_bucket'', es_labels = labels @ [(''le'', le)], es_value = of_nat (at_most lats b)\<rparr>)
           bound_texts processing_latency_buckets @
         [\<lparr>es_name = ''l2_processing_latency_seconds_bucket'', es_labels = labels @ [(''le'', ''+Inf'')], es_value = of_nat (length lats)\<rparr>,
          \<lparr>es_name = ''l2_processing_latency_seconds_count'', es_labels = labels, es_value = of_nat (length lats)\<rparr>,
          \<lparr>es_name = ''l2_processing_latency_seconds_sum'', es_labels = labels, es_value = sum_list lats\<rparr>])"

lemma demo_exposes:
  "lats \<noteq> [] \<Longrightarrow> exposes ''stress'' ''num_feeds_1'' processing_latency_buckets lats (demo_expose lats)"
  using bound_texts_read
  by (simp add: exposes_def demo_expose_def cumulative_def bound_texts_def processing_latency_buckets_def
      has_labels_def ends_with_def bucket_of_def bind_result_def Let_def)

text \<open>One feed, one tick of a clean market, and the sink is cancelled with the row still queued.\<close>

definition demo_stress_events :: "stress_event list" where
  "demo_stress_events =
     [Drive_Starts 0 0, Monitor_Looks, Sink_Moves (Consumer_Starts (\<lambda>_. 0)), Drive_Ticks 0 0 0 0 (\<lambda>_. 1000) 0,
      Drive_Ends 0 1, All_Driven 1, Monitor_Stops, Sink_Moves (sink_event.Sink_Cancelled (\<lambda>_. 1))]"

definition demo_stress :: "'a stress_run result" where
  "demo_stress = start_stress (\<lambda>_. (\<lambda>_. 0, \<lambda>_. 0)) (\<lambda>_. 0) Map.empty [''out''] 1 10 1 default_fault_config 20 5"

lemma default_clean:
  "config_ok default_fault_config" "fault_free default_fault_config"
  "delayed_snapshot_prob default_fault_config \<le> 0" "0 \<le> delayed_snapshot_max_steps default_fault_config"
  by (simp_all add: config_ok_def fault_free_def default_fault_config_def)

lemma demo_run_in:
  obtains r0 r :: "'a stress_run" and x where
    "start_stress (\<lambda>_. (\<lambda>_. 0, \<lambda>_. 0)) (\<lambda>_. 0) Map.empty dir 1 10 1 default_fault_config 20 5 = Inr r0"
    "stress_exec pa demo_stress_events r0 = Some r"
    "exposes (exchange (sx_instrument r)) (symbol (sx_instrument r)) processing_latency_buckets
      (sx_latencies r) (demo_expose (sx_latencies r))"
    "run_one_end demo_expose 1 r = Some (Measured x)" "length (sx_latencies r) = 1"
proof -
  obtain d0 where d0: "build_simulation (\<lambda>_. 0) (\<lambda>_. 0) default_fault_config 20 20 = Inr d0"
      "is_quiescent (sd_injector d0)" "converged (sd_engine d0) (fi_market (sd_injector d0))"
    by (rule build_current [OF default_clean(1,3), where limit = 20 and depth = 20 and market_rng = "\<lambda>_. 0"
        and fault_rng = "\<lambda>_. 0"]) auto
  obtain m0 where ok: "driver_ok m0 d0" "fi_config (sd_injector d0) = default_fault_config"
    by (rule build_ok [OF default_clean(4) d0(1)])
  let ?q = "new_row_queue 5"
  have q: "measured_ok 5 0 (?q, [])"
    by (simp add: measured_ok_def new_row_queue_wf) (simp add: new_row_queue_def qsize_def)
  obtain d1 w where tick: "run_step_hooked (on_apply (stress_instrument 1) 0 0) (\<lambda>_. 1000) d0 (?q, []) = (Inr d1, w)"
      "length (snd w) = 1"
    by (rule clean_tick [OF d0(3) ok(1) d0(2) _ q, where instrument = "stress_instrument 1" and local = 0 and wall = 0
        and clock = "\<lambda>_. 1000"]) (use ok(2) default_clean(2) in auto)
  let ?f0 = "\<lparr>sf_driver = d0, sf_ts_local_ns = 0, sf_ts_wall_ns = 0, sf_drive = To_Start\<rparr>"
  let ?s0 = "start_run (\<lambda>_. 0) Map.empty (default_sink ?q dir 20)"
  define r0 :: "'a stress_run" where "r0 = \<lparr>sx_instrument = stress_instrument 1, sx_rate = 10, sx_duration = 1,
    sx_feeds = [?f0], sx_sink = ?s0, sx_latencies = [], sx_max_depth = 0, sx_start = 0, sx_phase = Awaits_Feeds\<rparr>"
  have start: "start_stress (\<lambda>_. (\<lambda>_. 0, \<lambda>_. 0)) (\<lambda>_. 0) Map.empty dir 1 10 1 default_fault_config 20 5 = Inr r0"
    using d0(1) by (simp add: start_stress_def build_feeds_def bind_result_def r0_def
        default_snapshot_retry_limit_def)
  obtain r where run: "stress_exec pa demo_stress_events r0 = Some r" and lats: "sx_latencies r = snd w"
      and over: "sx_instrument r = stress_instrument 1" "sx_phase r = Awaits_Sink 1" "sr_end (sx_sink r) = Some Cancelled"
    using tick
    by (simp add: demo_stress_events_def r0_def drive_tick_def put_feed_def put_measured_def start_run_def
        default_sink_def new_sink_def goes_on_def consume_top_def finish_sink_def Let_def)
  have name: "exchange (stress_instrument 1) = ''stress''" "symbol (stress_instrument 1) = ''num_feeds_1''"
    by code_simp+
  have "snd w \<noteq> []" using tick(2) by auto
  from demo_exposes [OF this] have ex: "exposes (exchange (sx_instrument r)) (symbol (sx_instrument r)) processing_latency_buckets
      (sx_latencies r) (demo_expose (sx_latencies r))"
    unfolding lats over(1) name .
  from quantiles_read [OF this] \<open>snd w \<noteq> []\<close> sorted_buckets obtain x where "measure_run demo_expose 1 1 r = Inr x"
    by (simp add: lats measure_run_def bind_result_def Let_def)
  with over have "run_one_end demo_expose 1 r = Some (Measured x)" by (simp add: run_one_end_def)
  with start run ex lats tick(2) show thesis by (intro that [of r0 r x]) simp_all
qed

lemma demo_stress_run:
  obtains r0 r :: "'a stress_run" and x where "demo_stress = Inr r0"
    "stress_exec pa demo_stress_events r0 = Some r"
    "exposes (exchange (sx_instrument r)) (symbol (sx_instrument r)) processing_latency_buckets
      (sx_latencies r) (demo_expose (sx_latencies r))"
    "run_one_end demo_expose 1 r = Some (Measured x)" "length (sx_latencies r) = 1"
  unfolding demo_stress_def by (rule demo_run_in)

section \<open>Properties\<close>

text \<open>
  C36: the numbers of a stress run add up. When \<open>run_one\<close> returns a result, whatever the interleaving of
  the feeds, the monitor and the sink, the latencies it counted are the rows written, the rows dropped and
  the rows still in the queue, which the cancelled sink leaves there and no number reports; there is at
  least one; and the depth the monitor saw is within a positive \<open>queue_maxsize\<close>.
\<close>

theorem stress_counts_add_up:
  assumes "start_stress seeds clock d dir num_feeds rate duration config depth_levels maxsize = Inr r0"
    and "config_ok config" and "stress_exec pa evs r0 = Some r"
    and "exposes (exchange (sx_instrument r)) (symbol (sx_instrument r)) processing_latency_buckets
      (sx_latencies r) (expose (sx_latencies r))"
    and "run_one_end expose num_feeds r = Some (Measured x)"
  shows "rr_sample_count x = int (rr_rows_written x + rr_rows_dropped x + qsize (run_queue r)) \<and>
    0 < rr_sample_count x \<and> (0 < maxsize \<longrightarrow> int (rr_max_queue_depth x) \<le> maxsize)"
proof -
  obtain d0s where "stress_ok config maxsize d0s r0" by (rule start_stress_ok [OF assms(1,2)])
  note ok = stress_exec_ok [OF assms(3) this assms(2)]
  obtain elapsed where e: "sx_phase r = Awaits_Sink elapsed" "sr_end (sx_sink r) = Some Cancelled"
      "measure_run expose num_feeds elapsed r = Inr x" by (rule measured_end [OF assms(5)])
  note x = measure_run_ok [OF e(3) assms(4)]
  have "0 < length (sx_latencies r)" using x(1) by simp
  with ok traffic_end [OF ok e(1,2)] x(3,4,5,6) show ?thesis
    by (simp add: stress_ok_def depth_ok_def) auto
qed

lemma stress_counts_add_up_witness:
  "\<exists>(r0 :: nat stress_run) r x. demo_stress = Inr r0 \<and>
     stress_exec (\<lambda>_ _. Inr 0) demo_stress_events r0 = Some r \<and> run_one_end demo_expose 1 r = Some (Measured x) \<and>
     rr_sample_count x = int (rr_rows_written x + rr_rows_dropped x + qsize (run_queue r)) \<and> rr_max_queue_depth x \<le> 5"
proof -
  obtain r0 r :: "nat stress_run" and x where demo: "demo_stress = Inr r0"
      "stress_exec (\<lambda>_ _. Inr 0) demo_stress_events r0 = Some r"
      "exposes (exchange (sx_instrument r)) (symbol (sx_instrument r)) processing_latency_buckets
        (sx_latencies r) (demo_expose (sx_latencies r))"
      "run_one_end demo_expose 1 r = Some (Measured x)" by (rule demo_stress_run)
  from stress_counts_add_up [OF demo(1) [unfolded demo_stress_def] default_clean(1) demo(2,3,4)] demo
  show ?thesis by auto
qed

text \<open>
  C37: the verdict of a stress run is exact although its quantiles are estimates. \<open>rows_dropped\<close> says that
  rows were dropped; \<open>p99_latency\<close>, that none was and that fewer than 99 in 100 latencies were within
  100 ms. A finite 99th percentile lies in the histogram bucket of the true one.
\<close>

theorem stress_verdict_exact:
  assumes "run_one_end expose num_feeds r = Some (Measured x)"
    and "exposes (exchange (sx_instrument r)) (symbol (sx_instrument r)) processing_latency_buckets
      (sx_latencies r) (expose (sx_latencies r))"
  shows "(rr_breach x = ''rows_dropped'' \<longleftrightarrow> 0 < rr_rows_dropped x) \<and>
    (rr_breach x = ''p99_latency'' \<longleftrightarrow> rr_rows_dropped x = 0 \<and>
       of_nat (at_most (sx_latencies r) (1 / 10)) < (99 / 100 :: rat) * of_nat (length (sx_latencies r))) \<and>
    (rr_p99 x = Infinite False \<or>
       (\<exists>(a, b) \<in> set (neighbours processing_latency_buckets). \<exists>v. rr_p99 x = Finite v \<and> a \<le> v \<and> v \<le> b \<and>
          99 / 100 * of_nat (length (sx_latencies r)) \<le> (of_nat (at_most (sx_latencies r) b) :: rat) \<and>
          (a = 0 \<or> of_nat (at_most (sx_latencies r) a) < (99 / 100 :: rat) * of_nat (length (sx_latencies r)))))"
proof -
  obtain elapsed where "measure_run expose num_feeds elapsed r = Inr x" by (rule measured_end [OF assms(1)])
  note x = measure_run_ok [OF this assms(2)]
  show ?thesis
    using too_slow_estimate [OF x(1), of "99 / 100"] estimate_brackets [OF x(1), of "99 / 100"] x(7,11)
    by (auto simp: breach_of_def latency_ceiling_def)
qed

lemma stress_verdict_exact_witness:
  "\<exists>(r0 :: nat stress_run) r x. demo_stress = Inr r0 \<and>
     stress_exec (\<lambda>_ _. Inr 0) demo_stress_events r0 = Some r \<and> run_one_end demo_expose 1 r = Some (Measured x) \<and>
     (rr_breach x = ''rows_dropped'' \<longleftrightarrow> 0 < rr_rows_dropped x)"
proof -
  obtain r0 r :: "nat stress_run" and x where demo: "demo_stress = Inr r0"
      "stress_exec (\<lambda>_ _. Inr 0) demo_stress_events r0 = Some r"
      "exposes (exchange (sx_instrument r)) (symbol (sx_instrument r)) processing_latency_buckets
        (sx_latencies r) (demo_expose (sx_latencies r))"
      "run_one_end demo_expose 1 r = Some (Measured x)" by (rule demo_stress_run)
  from conjunct1 [OF stress_verdict_exact [OF demo(4,3)]] demo(1,2,4) show ?thesis
    by (intro exI [of _ r0] exI [of _ r] exI [of _ x]) simp
qed

lemma all_drove:
  assumes "stress_exec pa evs r0 = Some r" and "sx_phase r0 = Awaits_Feeds"
    and "sx_phase r = Awaits_Sink elapsed \<or> sx_phase r = Awaits_Monitor elapsed"
  shows "list_all (\<lambda>f. steps_driven f \<noteq> None) (sx_feeds r)"
proof -
  let ?done = "\<lambda>r. sx_phase r = Awaits_Feeds \<or> (\<exists>err. sx_phase r = Broken err) \<or>
    list_all (\<lambda>f. steps_driven f \<noteq> None) (sx_feeds r)"
  have one: "?done r2" if "stress_next pa ev r1 = Some r2" "?done r1" for ev and r1 r2 :: "'a stress_run"
    using that by (cases ev) (auto simp: drive_tick_def Let_def split: if_splits drive.splits stress_phase.splits prod.splits sum.splits)
  have "stress_exec pa evs r1 = Some r \<Longrightarrow> ?done r1 \<Longrightarrow> ?done r" for r1
  proof (induction evs arbitrary: r1)
    case (Cons ev evs)
    then obtain r2 where "stress_next pa ev r1 = Some r2" "stress_exec pa evs r2 = Some r" by (auto split: option.splits)
    with Cons.IH [of r2] one [of ev r1 r2] Cons.prems(2) show ?case by blast
  qed simp
  with assms show ?thesis by auto
qed

lemma steps_of_drove:
  "list_all (\<lambda>f. steps_driven f \<noteq> None) fs \<Longrightarrow> steps_of fs = sum_list (map drive_steps fs)"
  by (induction fs) (auto simp: steps_of_def split: drive.splits)

lemma feed_recoveries:
  assumes "config_ok config" and "build_simulation market_rng fault_rng config depth limit = Inr d0" and "run d0 n = Inr d"
  shows "length (sd_recoveries d) = length (gaps d)"
  using every_gap_recovered [OF _ assms(2,3)] assms(1) by (simp add: config_ok_def)

text \<open>The feeds of a run are plain simulations, and their recoveries are their gaps.\<close>

lemma run_feeds:
  assumes "start_stress seeds clock d dir num_feeds rate duration config depth_levels maxsize = Inr r0"
    and "config_ok config" and "stress_exec pa evs r0 = Some r"
  shows "list_all2 (\<lambda>i f. \<exists>d0. build_simulation (fst (seeds i)) (snd (seeds i)) config depth_levels
        default_snapshot_retry_limit = Inr d0 \<and> run d0 (drive_steps f) = Inr (sf_driver f)) [0..<nat num_feeds] (sx_feeds r)"
    (is "list_all2 ?plain _ _")
    and "total_recoveries (sx_feeds r) = sum_list (map (\<lambda>f. length (gaps (sf_driver f))) (sx_feeds r))"
proof -
  obtain d0s where d0s: "length d0s = nat num_feeds" "stress_ok config maxsize d0s r0"
      "\<And>i. i < nat num_feeds \<Longrightarrow> build_simulation (fst (seeds i)) (snd (seeds i)) config depth_levels
         default_snapshot_retry_limit = Inr (d0s ! i)"
    by (rule start_stress_ok [OF assms(1,2)]) blast
  have "list_all2 (feed_at config) d0s (sx_feeds r)"
    using stress_exec_ok [OF assms(3) d0s(2) assms(2)] by (simp add: stress_ok_def)
  with d0s(1,3) show feeds: "list_all2 ?plain [0..<nat num_feeds] (sx_feeds r)"
    by (auto simp: list_all2_conv_all_nth feed_at_def)
  have "length (sd_recoveries (sf_driver f)) = length (gaps (sf_driver f))" if f: "f \<in> set (sx_feeds r)" for f
  proof -
    obtain i d0 where "build_simulation (fst (seeds i)) (snd (seeds i)) config depth_levels
        default_snapshot_retry_limit = Inr d0" "run d0 (drive_steps f) = Inr (sf_driver f)"
      using feeds f unfolding list_all2_conv_all_nth in_set_conv_nth by metis
    then show ?thesis by (rule feed_recoveries [OF assms(2)])
  qed
  then have "map (\<lambda>f. length (sd_recoveries (sf_driver f))) (sx_feeds r) = map (\<lambda>f. length (gaps (sf_driver f))) (sx_feeds r)"
    by simp
  then show "total_recoveries (sx_feeds r) = sum_list (map (\<lambda>f. length (gaps (sf_driver f))) (sx_feeds r))"
    by (simp only: total_recoveries_def)
qed

lemma run_steps:
  assumes "start_stress seeds clock d dir num_feeds rate duration config depth_levels maxsize = Inr r0"
    and "stress_exec pa evs r0 = Some r" and "sx_phase r = Awaits_Sink elapsed"
  shows "steps_of (sx_feeds r) = sum_list (map drive_steps (sx_feeds r))"
proof -
  have "sx_phase r0 = Awaits_Feeds" using assms(1) by (auto simp: start_stress_def bind_result_def split: sum.splits)
  from steps_of_drove [OF all_drove [OF assms(2) this]] assms(3) show ?thesis by simp
qed

text \<open>
  C38: what the stress tool measures is the simulation of the test suite. When \<open>run_one\<close> has returned a
  result, the driver of every feed is in the state that the plain simulation, without the hook, reaches from
  the same streams in the number of steps its loop counted; the achieved rate is the total of these steps over
  the time taken; and every gap a feed saw is a recovery counted.
\<close>

theorem stress_measures_simulation:
  assumes "start_stress seeds clock d dir num_feeds rate duration config depth_levels maxsize = Inr r0"
    and "config_ok config" and "stress_exec pa evs r0 = Some r"
    and "exposes (exchange (sx_instrument r)) (symbol (sx_instrument r)) processing_latency_buckets
      (sx_latencies r) (expose (sx_latencies r))"
    and "run_one_end expose num_feeds r = Some (Measured x)"
  shows "list_all2 (\<lambda>i f. \<exists>d0. build_simulation (fst (seeds i)) (snd (seeds i)) config depth_levels
        default_snapshot_retry_limit = Inr d0 \<and> run d0 (drive_steps f) = Inr (sf_driver f)) [0..<nat num_feeds] (sx_feeds r) \<and>
    rr_achieved_rate x * rr_duration_seconds x = of_nat (sum_list (map drive_steps (sx_feeds r))) \<and>
    rr_recoveries x = sum_list (map (\<lambda>f. length (gaps (sf_driver f))) (sx_feeds r))"
proof -
  obtain elapsed where e: "sx_phase r = Awaits_Sink elapsed" "measure_run expose num_feeds elapsed r = Inr x"
    by (rule measured_end [OF assms(5)])
  note x = measure_run_ok [OF e(2) assms(4)]
  show ?thesis
    using run_feeds [OF assms(1,2,3)] run_steps [OF assms(1,3) e(1)] x(2,8,9,10) by (simp del: drive_steps.simps)
qed

lemma stress_measures_simulation_witness:
  "\<exists>(r0 :: nat stress_run) r x. demo_stress = Inr r0 \<and>
     stress_exec (\<lambda>_ _. Inr 0) demo_stress_events r0 = Some r \<and> run_one_end demo_expose 1 r = Some (Measured x) \<and>
     rr_achieved_rate x * rr_duration_seconds x = of_nat (sum_list (map drive_steps (sx_feeds r)))"
proof -
  obtain r0 r :: "nat stress_run" and x where demo: "demo_stress = Inr r0"
      "stress_exec (\<lambda>_ _. Inr 0) demo_stress_events r0 = Some r"
      "exposes (exchange (sx_instrument r)) (symbol (sx_instrument r)) processing_latency_buckets
        (sx_latencies r) (demo_expose (sx_latencies r))"
      "run_one_end demo_expose 1 r = Some (Measured x)" by (rule demo_stress_run)
  from stress_measures_simulation [OF demo(1) [unfolded demo_stress_def] default_clean(1) demo(2,3,4)] demo(1,2,4)
  show ?thesis by blast
qed

end
