(* ===== verification/StressSink.thy ===== *)
theory StressSink
  imports StressClaims
begin

text \<open>
  How the sink of a stress run may end. All its rows are of one exchange and symbol, so it has at most one
  writer, no file of which is taken away by another: no rename, assertion or counter raises, and what
  remains are the errors of the data and of the watchdog.
\<close>

section \<open>A sink with one writer\<close>

text \<open>The errors of the data: \<open>pa.array\<close> refuses a cell, or a time has no hour.\<close>

definition data_fails :: "'a arrays \<Rightarrow> py_exc \<Rightarrow> bool" where
  "data_fails pa err \<longleftrightarrow> pa_fails pa err \<or> (\<exists>ts. hour_key_for ts = Inl err)"

definition live_writer :: "'a disk \<Rightarrow> rotating_writer \<Rightarrow> bool" where
  "live_writer d w \<longleftrightarrow>
     rw_schema w = build_schema (rw_depth_levels w) \<and>
     (case rw_writer w of
        None \<Rightarrow> True
      | Some p \<Rightarrow> rw_tmp_path w = Some p \<and> rw_final_path w \<noteq> None \<and> d p \<noteq> None)"

definition lone :: "string \<times> string \<Rightarrow> 'a disk \<Rightarrow> parquet_sink \<Rightarrow> bool" where
  "lone pair d s \<longleftrightarrow>
     ps_schema s = build_schema (ps_depth_levels s) \<and>
     (ps_writers s = [] \<or> (\<exists>w. ps_writers s = [(pair, w)] \<and> live_writer d w)) \<and>
     list_all (\<lambda>row. pair_of row = pair) (ps_buffer s) \<and> list_all (\<lambda>row. pair_of row = pair) (rq_items (ps_queue s))"

lemma lone_upd [simp]:
  "lone pair d (s\<lparr>ps_stats := x\<rparr>) = lone pair d s" "lone pair d (s\<lparr>ps_last_flush := t\<rparr>) = lone pair d s"
  "lone pair d (s\<lparr>ps_last_progress_at := t\<rparr>) = lone pair d s"
  by (simp_all add: lone_def)

lemma lone_cleared: "lone pair d s \<Longrightarrow> lone pair d (s\<lparr>ps_buffer := []\<rparr>)"
  by (simp add: lone_def)

lemma finalize_live:
  assumes "live_writer d w"
  obtains d1 w1 where "finalize_writer d w = (Inr (), d1, w1)" "live_writer d1 w1"
proof (cases "rw_writer w")
  case None
  with assms show thesis by (intro that [of d w]) (simp_all add: finalize_writer_def)
next
  case (Some p)
  with assms obtain final where w: "rw_tmp_path w = Some p" "rw_final_path w = Some final" "d p \<noteq> None"
    by (auto simp: live_writer_def)
  then obtain f where "seal_file p d p = Some f" by (auto simp: seal_file_def)
  with Some w assms have "\<exists>d1 w1. finalize_writer d w = (Inr (), d1, w1) \<and> live_writer d1 w1"
    by (simp add: finalize_writer_def replace_file_def live_writer_def Let_def)
  then show thesis using that by blast
qed

lemma rotate_live:
  assumes "live_writer d w" and "hour_key_for ts = Inr key"
  obtains d1 w1 p where "rotate key now d w = (Inr (), d1, w1)" "live_writer d1 w1" "rw_writer w1 = Some p"
proof (cases "needs_rotation key now w")
  case True
  obtain d1 w1 where f: "finalize_writer d w = (Inr (), d1, w1)" "live_writer d1 w1" by (rule finalize_live [OF assms(1)])
  obtain directory where "partition_dir (rw_base_dir w1) (rw_exchange w1) (rw_symbol w1) key = Inr directory"
    using partition_dir_total [OF assms(2)] by blast
  with f(2) have "\<exists>d2 w2 p. open_writer key now d1 w1 = (Inr (), d2, w2) \<and> live_writer d2 w2 \<and> rw_writer w2 = Some p"
    by (simp add: open_writer_def live_writer_def create_file_def Let_def)
  then obtain d2 w2 p where "open_writer key now d1 w1 = (Inr (), d2, w2)" "live_writer d2 w2" "rw_writer w2 = Some p"
    by blast
  with f True show thesis by (intro that [of d2 w2 p]) (simp_all add: rotate_def)
next
  case False
  then obtain p where "rw_writer w = Some p" by (auto simp: needs_rotation_def)
  with False assms(1) show thesis by (intro that [of d w p]) (simp_all add: rotate_def)
qed

lemma write_batch_live:
  assumes "live_writer d w" and "write_batch pa now rows d w = (r, d1, w1)"
  shows "live_writer d1 w1 \<and> (\<forall>err. r = Inl err \<longrightarrow> data_fails pa err)"
proof (cases rows)
  case Nil
  with assms show ?thesis by (auto simp: write_batch_def)
next
  case (Cons row rest)
  show ?thesis
  proof (cases "hour_key_for (row_ts_wall_ns row)")
    case (Inl err)
    then have "data_fails pa err" unfolding data_fails_def by blast
    with Inl Cons assms show ?thesis by (auto simp: write_batch_def)
  next
    case (Inr key)
    obtain d2 w2 p where rot: "rotate key now d w = (Inr (), d2, w2)" "live_writer d2 w2" "rw_writer w2 = Some p"
      by (rule rotate_live [OF assms(1) Inr])
    have schema: "rw_schema w2 = build_schema (rw_depth_levels w2)" using rot(2) by (simp add: live_writer_def)
    show ?thesis
    proof (cases "rows_to_table pa rows (rw_depth_levels w2) (rw_schema w2)")
      case err: (Inl err)
      then have "data_fails pa err" using table_error schema by (auto simp: data_fails_def)
      with err Inr Cons rot assms(2) show ?thesis by (auto simp: write_batch_def)
    next
      case tab: (Inr table)
      have "live_writer (append_table p table d2) w2"
        using rot(2,3) by (auto simp: live_writer_def append_table_def)
      with tab Inr Cons rot assms(2) show ?thesis by (auto simp: write_batch_def)
    qed
  qed
qed

lemma write_group_lone:
  assumes "lone pair d s" and "(fst (fst g), fst (snd (fst g))) = pair" and "write_group pa now g d s = (r, d1, s1)"
  shows "lone pair d1 s1 \<and> (\<forall>err. r = Inl err \<longrightarrow> data_fails pa err)"
proof -
  obtain exch name k rows where g: "g = ((exch, name, k), rows)" by (metis prod_cases3 surj_pair)
  then have pair: "pair = (exch, name)" using assms(2) by simp
  obtain r2 d2 w2 where wb: "write_batch pa now rows d (writer_for exch name s) = (r2, d2, w2)" by (metis prod_cases3)
  have "live_writer d (writer_for exch name s)"
  proof (cases "ps_writers s")
    case Nil
    with assms(1) show ?thesis by (simp add: lone_def writer_for_def live_writer_def new_rotating_writer_def)
  next
    case (Cons kw ws)
    with assms(1) obtain w where "ps_writers s = [(pair, w)]" "live_writer d w" by (auto simp: lone_def)
    with pair show ?thesis by (simp add: writer_for_def)
  qed
  note live = write_batch_live [OF this wb]
  have "ps_writers s = [] \<or> (\<exists>w. ps_writers s = [(pair, w)])" using assms(1) by (auto simp: lone_def)
  then have "AList.update (exch, name) w2 (ps_writers s) = [(pair, w2)]" using pair by auto
  with assms(1,3) wb live g show ?thesis by (auto simp: lone_def Let_def split: sum.splits)
qed

lemma write_groups_lone:
  "lone pair d s \<Longrightarrow> list_all (\<lambda>g. (fst (fst g), fst (snd (fst g))) = pair) gs \<Longrightarrow>
     write_groups pa clock gs d s = (r, clock1, d1, s1) \<Longrightarrow>
     lone pair d1 s1 \<and> (\<forall>err. r = Inl err \<longrightarrow> data_fails pa err)"
proof (induction gs arbitrary: d s clock)
  case (Cons g gs)
  obtain r2 d2 s2 where one: "write_group pa (clock 0) g d s = (r2, d2, s2)" by (metis prod_cases3)
  have pair: "(fst (fst g), fst (snd (fst g))) = pair" "list_all (\<lambda>g. (fst (fst g), fst (snd (fst g))) = pair) gs"
    using Cons.prems(2) by simp_all
  note k = write_group_lone [OF Cons.prems(1) pair(1) one]
  show ?case
  proof (cases r2)
    case (Inl err)
    with Cons.prems(3) one k show ?thesis by simp
  next
    case (Inr u)
    with Cons.prems(3) one have "write_groups pa (later clock) gs d2 s2 = (r, clock1, d1, s1)" by simp
    from Cons.IH [OF _ pair(2) this] k show ?thesis by blast
  qed
qed auto

lemma group_rows_pair:
  "group_rows gs rows = Inr gs1 \<Longrightarrow> list_all (\<lambda>row. pair_of row = pair) rows \<Longrightarrow>
     \<forall>key \<in> fst ` set gs. (fst key, fst (snd key)) = pair \<Longrightarrow> \<forall>key \<in> fst ` set gs1. (fst key, fst (snd key)) = pair"
proof (induction gs rows rule: group_rows.induct)
  case (2 gs row rows)
  then obtain hour where h: "hour_key_for (row_ts_wall_ns row) = Inr hour" by (auto split: sum.splits)
  define key where "key = (row_exchange row, row_symbol row, hour)"
  define old where "old = (case map_of gs key of None \<Rightarrow> [] | Some xs \<Rightarrow> xs)"
  have rest: "group_rows (AList.update key (old @ [row]) gs) rows = Inr gs1"
    using "2.prems"(1) h by (simp add: key_def old_def Let_def)
  have "\<forall>k \<in> fst ` set (AList.update key (old @ [row]) gs). (fst k, fst (snd k)) = pair"
    using "2.prems"(2,3) by (auto simp: dom_update key_def)
  with "2.IH" [OF h refl refl] rest "2.prems"(2) show ?case by (simp add: key_def old_def)
qed simp

lemma group_rows_hour: "group_rows gs rows = Inl err \<Longrightarrow> \<exists>ts. hour_key_for ts = Inl err"
  by (induction gs rows rule: group_rows.induct) (auto simp: Let_def split: sum.splits)

lemma flush_lone:
  assumes "lone pair d s" and "flush_buffer pa clock d s = (r, clock1, d1, s1)"
  shows "lone pair d1 s1 \<and> (\<forall>err. r = Inl err \<longrightarrow> data_fails pa err)"
proof (cases "group_rows [] (ps_buffer s)")
  case (Inl err)
  then have "data_fails pa err" using group_rows_hour [OF Inl] unfolding data_fails_def by blast
  with Inl assms show ?thesis by (auto simp: flush_buffer_def flush_def)
next
  case (Inr gs)
  have "list_all (\<lambda>row. pair_of row = pair) (ps_buffer s)" using assms(1) by (simp add: lone_def)
  from group_rows_pair [OF Inr this] have gs: "list_all (\<lambda>g. (fst (fst g), fst (snd (fst g))) = pair) gs"
    by (simp add: list_all_iff)
  obtain r2 clock2 d2 s2 where w: "write_groups pa clock gs d s = (r2, clock2, d2, s2)" by (metis prod_cases4)
  from write_groups_lone [OF assms(1) gs w] Inr w assms(2) show ?thesis
    by (auto simp: flush_buffer_def flush_def lone_cleared split: sum.splits)
qed

fun end_ok :: "'a arrays \<Rightarrow> sink_end option \<Rightarrow> bool" where
  "end_ok pa (Some (Raised err)) = data_fails pa err"
| "end_ok pa (Some (Exception_Group err)) = (err = RuntimeError \<or> data_fails pa err)"
| "end_ok pa _ = True"

definition lone_run :: "'a arrays \<Rightarrow> string \<times> string \<Rightarrow> 'a sink_run \<Rightarrow> bool" where
  "lone_run pa pair r \<longleftrightarrow> (sr_end r = None \<longrightarrow> lone pair (sr_disk r) (sr_sink r)) \<and> end_ok pa (sr_end r)"

lemma finish_lone:
  assumes "lone pair d s" and "end_ok pa (Some why)"
  shows "lone_run pa pair (finish_sink pa clock why d s)"
proof -
  obtain r clock1 d1 s1 where f: "(if ps_buffer s \<noteq> [] then flush_buffer pa clock d s else (Inr (), clock, d, s)) = (r, clock1, d1, s1)"
    by (metis prod_cases4)
  have l: "lone pair d1 s1 \<and> (\<forall>err. r = Inl err \<longrightarrow> data_fails pa err)"
    using f assms(1) flush_lone [OF assms(1)] by (auto split: if_splits)
  show ?thesis
  proof (cases r)
    case (Inl err)
    with f l show ?thesis by (simp add: finish_sink_def lone_run_def)
  next
    case (Inr u)
    have "\<exists>d2 ws. close_writers d1 (ps_writers s1) = (Inr (), d2, ws)"
    proof (cases "ps_writers s1")
      case (Cons kw ws)
      with l obtain w where w: "ps_writers s1 = [(pair, w)]" "live_writer d1 w" by (auto simp: lone_def)
      obtain d2 w2 where "finalize_writer d1 w = (Inr (), d2, w2)" by (rule finalize_live [OF w(2)])
      with w(1) show ?thesis by simp
    qed simp
    with f Inr assms(2) show ?thesis by (auto simp: finish_sink_def lone_run_def)
  qed
qed

lemma goes_on_lone:
  assumes "lone pair d s" and "\<forall>err. r = Inl err \<longrightarrow> data_fails pa err"
  shows "lone_run pa pair (goes_on pa (r, clock, d, s))"
  using assms by (cases r) (simp_all add: goes_on_def finish_lone, simp add: lone_run_def)

lemma consume_top_lone:
  assumes "lone pair d s"
  shows "lone_run pa pair (goes_on pa (consume_top pa clock d s))"
proof -
  obtain r clock1 d1 s1 where t: "consume_top pa clock d s = (r, clock1, d1, s1)" by (metis prod_cases4)
  have "lone pair d1 s1 \<and> (\<forall>err. r = Inl err \<longrightarrow> data_fails pa err)"
    using t assms by (auto simp: consume_top_def Let_def dest: flush_lone [OF assms] split: if_splits prod.splits sum.splits)
  then show ?thesis unfolding t by (simp add: goes_on_lone)
qed

lemma next_turn_lone:
  assumes "lone pair d s"
  shows "lone_run pa pair (next_turn pa clock d s)"
proof -
  obtain r clock1 d1 s1 where b: "consume_bottom pa clock d s = (r, clock1, d1, s1)" by (metis prod_cases4)
  have "lone pair d1 s1 \<and> (\<forall>err. r = Inl err \<longrightarrow> data_fails pa err)"
    using b assms by (auto simp: consume_bottom_def Let_def dest: flush_lone [OF assms] split: if_splits prod.splits sum.splits)
  with b show ?thesis
    by (cases r) (simp_all add: next_turn_def goes_on_lone consume_top_lone)
qed

lemma sink_next_lone:
  assumes "sink_next pa ev r = Some r1" and "lone_run pa pair r" and "\<forall>row. ev \<noteq> Feed_Puts row"
  shows "lone_run pa pair r1"
proof (cases ev)
  case (Feed_Puts row)
  with assms(3) show ?thesis by simp
next
  case (Consumer_Starts clock)
  with assms show ?thesis by (auto simp: lone_run_def [of pa pair r] intro: consume_top_lone split: if_splits)
next
  case (Row_Comes clock)
  with assms(1) obtain clock1 s1 where t: "sr_end r = None" "take_row clock (sr_sink r) = Some (clock1, s1)"
      "r1 = next_turn pa clock1 (sr_disk r) s1"
    by (auto split: option.splits consumer.splits prod.splits)
  have "lone pair (sr_disk r) s1"
    using assms(2) t(1,2) by (auto simp: lone_run_def lone_def take_row_def RowQueue.get_def get_nowait_def split: option.splits list.splits)
  then show ?thesis unfolding t(3) by (rule next_turn_lone)
next
  case (Wait_Times_Out clock)
  with assms show ?thesis
    by (auto simp: lone_run_def [of pa pair r] intro: next_turn_lone split: option.splits consumer.splits)
next
  case (Watchdog_Wakes clock)
  have "err = RuntimeError" if "watchdog_check now s = Inl err" for now s err
    using that by (auto simp: watchdog_check_def split: if_splits)
  with Watchdog_Wakes assms show ?thesis
    by (cases "watchdog_check (clock 0) (sr_sink r)")
      (auto simp: lone_run_def [of pa pair r] intro!: finish_lone split: if_splits, auto simp: lone_run_def)
next
  case (Sink_Cancelled clock)
  with assms show ?thesis by (auto simp: lone_run_def [of pa pair r] intro!: finish_lone split: if_splits)
qed

section \<open>The rows of a run\<close>

abbreviation stress_pair :: "'a stress_run \<Rightarrow> string \<times> string" where
  "stress_pair r \<equiv> (exchange (sx_instrument r), symbol (sx_instrument r))"

definition own_rows :: "string \<times> string \<Rightarrow> measured \<Rightarrow> bool" where
  "own_rows pair w \<longleftrightarrow> queue_wf (fst w) \<and> list_all (\<lambda>row. pair_of row = pair) (rq_items (fst w))"

interpretation owning: apply_hook "on_apply instrument ts_local_ns ts_wall_ns" "own_rows (exchange instrument, symbol instrument)"
  for instrument ts_local_ns ts_wall_ns
proof unfold_locales
  fix w e now and res :: apply_result
  assume own: "own_rows (exchange instrument, symbol instrument) w" and e: "engine_wf e" "status res = APPLIED \<longrightarrow> be_state e = LIVE"
  show "\<exists>w'. on_apply instrument ts_local_ns ts_wall_ns now e res w = (Inr (), w') \<and> own_rows (exchange instrument, symbol instrument) w'"
  proof (cases "status res = APPLIED")
    case True
    obtain row where row: "build_snapshot_row e instrument ts_local_ns ts_wall_ns None = Inr row"
      by (rule build_row_live [OF e(1)]) (use True e in auto)
    then have pair: "pair_of row = (exchange instrument, symbol instrument)"
      by (auto simp: build_snapshot_row_def split: option.splits prod.splits)
    have q: "queue_wf (fst w)" "list_all (\<lambda>row. pair_of row = (exchange instrument, symbol instrument)) (rq_items (fst w))"
      using own by (simp_all add: own_rows_def)
    obtain evicted q' where put: "put (fst w) row = (Inr evicted, q')"
      using put_total [OF q(1), of row] by (cases "put (fst w) row") auto
    have "own_rows (exchange instrument, symbol instrument) (q', lats)" for lats
      using put_wf [OF q(1), of row] put_items [OF q, of row] pair put by (simp add: own_rows_def)
    with True row put show ?thesis by (simp add: on_apply_def Let_def)
  qed (simp add: on_apply_def own)
qed

definition lone_stress :: "'a arrays \<Rightarrow> 'a stress_run \<Rightarrow> bool" where
  "lone_stress pa r \<longleftrightarrow>
     (\<exists>err. sx_phase r = Broken err) \<or>
     lone_run pa (stress_pair r) (sx_sink r) \<and> own_rows (stress_pair r) (run_queue r, sx_latencies r)"

lemma drive_tick_lone:
  assumes "stress_ok config m d0s r" and "lone_stress pa r" and "sx_phase r = Awaits_Feeds" and "i < length (sx_feeds r)"
  shows "lone_stress pa (drive_tick i local wall clock now deadline next_tick steps (sx_feeds r ! i) r)"
proof -
  let ?f = "sx_feeds r ! i"
  have "feed_at config (d0s ! i) ?f" using assms(1,4) by (auto simp: stress_ok_def list_all2_conv_all_nth)
  from feed_at_ok [OF this] obtain m0 where "driver_ok m0 (sf_driver ?f)" .
  then have wf: "engine_wf (sd_engine (sf_driver ?f))" by (simp add: driver_ok_def engine_ok_def)
  have own: "own_rows (stress_pair r) (run_queue r, sx_latencies r)" and sink: "lone_run pa (stress_pair r) (sx_sink r)"
    using assms(2,3) by (auto simp: lone_stress_def)
  obtain w where w: "run_step_hooked (on_apply (sx_instrument r) local wall) clock (sf_driver ?f) (run_queue r, sx_latencies r) =
      (run_step (sf_driver ?f), w)" "own_rows (stress_pair r) w"
    using owning.step_plain [OF own wf] by blast
  have "lone_run pa (stress_pair r) (sx_sink (put_measured w r))"
    using sink w(2) by (auto simp: lone_run_def lone_def own_rows_def put_measured_def)
  with w show ?thesis
    by (cases "run_step (sf_driver ?f)")
      (auto simp: drive_tick_def lone_stress_def own_rows_def put_feed_def put_measured_def Let_def)
qed

lemma stress_next_lone:
  assumes "stress_next pa ev r = Some r1" and "stress_ok config m d0s r" and "lone_stress pa r"
  shows "lone_stress pa r1"
proof (cases ev)
  case (Drive_Ticks i g local wall clock now)
  with assms show ?thesis by (auto split: if_splits drive.splits intro!: drive_tick_lone)
next
  case (Sink_Moves e)
  with assms(1) obtain s where s: "may_move (sx_phase r) e" "sink_next pa e (sx_sink r) = Some s" "r1 = r\<lparr>sx_sink := s\<rparr>"
    by (auto split: if_splits)
  have e: "\<forall>row. e \<noteq> Feed_Puts row" using s(1) by auto
  show ?thesis
  proof (cases "\<exists>err. sx_phase r = Broken err")
    case False
    then have own: "own_rows (stress_pair r) (run_queue r, sx_latencies r)" and sink: "lone_run pa (stress_pair r) (sx_sink r)"
      using assms(3) by (auto simp: lone_stress_def)
    have "own_rows (stress_pair r) (ps_queue (sr_sink s), sx_latencies r)"
      using sink_next_queue [OF s(2) e] own
        queue_ok_get [of "\<lambda>row. pair_of row = stress_pair r" "run_queue r" _ "ps_queue (sr_sink s)"]
      by (auto simp: own_rows_def queue_ok_def)
    with sink_next_lone [OF s(2) sink e] s(3) show ?thesis by (simp add: lone_stress_def)
  qed (use s(3) in \<open>simp add: lone_stress_def\<close>)
qed (use assms in \<open>auto simp: lone_stress_def put_feed_def split: if_splits drive.splits stress_phase.splits\<close>)

lemma stress_exec_lone:
  "stress_exec pa evs r = Some r1 \<Longrightarrow> stress_ok config m d0s r \<Longrightarrow> config_ok config \<Longrightarrow> lone_stress pa r \<Longrightarrow> lone_stress pa r1"
proof (induction evs arbitrary: r)
  case (Cons ev evs)
  then obtain r2 where "stress_next pa ev r = Some r2" "stress_exec pa evs r2 = Some r1" by (auto split: option.splits)
  with Cons.IH [of r2] stress_next_ok [of pa ev r r2 config m d0s] stress_next_lone [of pa ev r r2 config m d0s] Cons.prems
  show ?case by blast
qed simp

lemma start_lone:
  assumes "start_stress seeds clock d dir num_feeds rate duration config depth_levels maxsize = Inr r0"
  shows "lone_stress pa r0"
  using assms
  by (auto simp: start_stress_def bind_result_def lone_stress_def lone_run_def lone_def own_rows_def start_run_def default_sink_def
      new_sink_def new_row_queue_wf split: sum.splits) (simp_all add: new_row_queue_def)

lemma start_fails:
  assumes "start_stress seeds clock d dir num_feeds rate duration config depth_levels maxsize = Inl err" and "config_ok config"
  shows "err = SnapshotRetryLimitExceeded"
proof -
  have "build_feeds seeds num_feeds config depth_levels = Inl err"
    using assms(1) by (auto simp: start_stress_def bind_result_error)
  from map_result_error [OF this [unfolded build_feeds_def]] obtain i
    where "build_simulation (fst (seeds i)) (snd (seeds i)) config depth_levels default_snapshot_retry_limit = Inl err"
    by (auto simp: bind_result_error)
  with simulation_failure_mode [OF assms(2)] show ?thesis by blast
qed

section \<open>Properties\<close>



end
