(* ===== verification/StressReport.thy ===== *)
theory StressReport
  imports StressClaims
begin

text \<open>
  The command of \<^verbatim>\<open>scripts/stress_replay.py\<close>: its defaults, the sweep of \<open>main_async\<close> over the runs of
  \<open>Stress\<close> and the report as the value given to \<open>json.dumps\<close>. The platform fields are a parameter; the
  profiler and the lines on stderr are left out, and the file is not: it is written after the sweep.
\<close>

section \<open>Arguments\<close>

record stress_args =
  sa_rates :: "rat list"
  sa_num_feeds :: "int list"
  sa_duration_seconds :: seconds
  sa_fault_config :: string
  sa_depth_levels :: int
  sa_queue_maxsize :: int
  sa_seed :: int
  sa_output_dir :: path

definition default_args :: stress_args where
  "default_args =
     \<lparr>sa_rates = stress_rates, sa_num_feeds = stress_num_feeds, sa_duration_seconds = 20, sa_fault_config = ''storm'',
      sa_depth_levels = 20, sa_queue_maxsize = 10000, sa_seed = 9001, sa_output_dir = [''benchmarks'', ''stress_output'']\<rparr>"

section \<open>The report\<close>

text \<open>\<open>asdict\<close> of a result. A rate given as an integer is printed without a point, which makes no difference here.\<close>

definition result_json :: "run_result \<Rightarrow> json" where
  "result_json x =
     JDict [(''num_feeds'', JInt (rr_num_feeds x)), (''target_rate'', JFloat (Finite (rr_target_rate x))),
            (''achieved_rate'', JFloat (Finite (rr_achieved_rate x))),
            (''duration_seconds'', JFloat (Finite (rr_duration_seconds x))),
            (''rows_dropped'', JInt (int (rr_rows_dropped x))), (''max_queue_depth'', JInt (int (rr_max_queue_depth x))),
            (''rows_written'', JInt (int (rr_rows_written x))), (''processing_latency_p50'', JFloat (rr_p50 x)),
            (''processing_latency_p95'', JFloat (rr_p95 x)), (''processing_latency_p99'', JFloat (rr_p99 x)),
            (''processing_latency_p999'', JFloat (rr_p999 x)), (''sample_count'', JInt (rr_sample_count x)),
            (''fault_summary'', JDict (map (\<lambda>(k, ns). (k, JList (map (\<lambda>n. JInt (int n)) ns))) (rr_fault_summary x))),
            (''recoveries'', JInt (int (rr_recoveries x))), (''breach'', JStr (rr_breach x))]"

definition run_metadata :: "(string \<times> string) list \<Rightarrow> stress_args \<Rightarrow> (string \<times> json) list" where
  "run_metadata platform_info args =
     map (\<lambda>(k, v). (k, JStr v)) platform_info @
     [(''seed'', JInt (sa_seed args)), (''fault_config'', JStr (sa_fault_config args)),
      (''depth_levels'', JInt (sa_depth_levels args)), (''queue_maxsize'', JInt (sa_queue_maxsize args)),
      (''duration_seconds'', JFloat (Finite (sa_duration_seconds args))),
      (''rates'', JList (map (\<lambda>q. JFloat (Finite q)) (sa_rates args))), (''num_feeds'', JList (map JInt (sa_num_feeds args))),
      (''latency_ceiling_seconds'', JFloat (Finite latency_ceiling))]"

definition stress_report :: "(string \<times> string) list \<Rightarrow> stress_args \<Rightarrow> run_result list \<Rightarrow> json" where
  "stress_report platform_info args results =
     JDict [(''run_metadata'', JDict (run_metadata platform_info args)), (''sweep'', JList (map result_json results))]"

section \<open>The sweep\<close>

text \<open>\<open>rmtree\<close> of the output directory.\<close>

definition clear_output :: "path \<Rightarrow> 'a disk \<Rightarrow> 'a disk" where
  "clear_output dir d = (\<lambda>p. if take (length dir) p = dir then None else d p)"

text \<open>
  The runs of a plan, one after the other on the disk the last one left, with the same seeds. The first one
  that raises ends the sweep.
\<close>

inductive sweep_runs ::
  "'a arrays \<Rightarrow> (int \<Rightarrow> seconds list \<Rightarrow> exposed_sample list) \<Rightarrow> (nat \<Rightarrow> rng \<times> rng) \<Rightarrow> stress_args \<Rightarrow> 'a disk \<Rightarrow>
     (int \<times> rat \<times> path) list \<Rightarrow> run_result list \<Rightarrow> stress_end option \<Rightarrow> 'a disk \<Rightarrow> bool"
  for pa expose seeds args where
  finished: "sweep_runs pa expose seeds args d [] [] None d"
| measured:
    "start_stress seeds clock d dir n rate (sa_duration_seconds args) (sweep_config (sa_fault_config args))
       (sa_depth_levels args) (sa_queue_maxsize args) = Inr r0 \<Longrightarrow>
     stress_exec pa evs r0 = Some r \<Longrightarrow> run_one_end (expose n) n r = Some (Measured x) \<Longrightarrow>
     sweep_runs pa expose seeds args (sr_disk (sx_sink r)) plan xs err d' \<Longrightarrow>
     sweep_runs pa expose seeds args d ((n, rate, dir) # plan) (x # xs) err d'"
| not_built:
    "start_stress seeds clock d dir n rate (sa_duration_seconds args) (sweep_config (sa_fault_config args))
       (sa_depth_levels args) (sa_queue_maxsize args) = Inl err \<Longrightarrow>
     sweep_runs pa expose seeds args d ((n, rate, dir) # plan) [] (Some (Run_Raises err)) d"
| raised:
    "start_stress seeds clock d dir n rate (sa_duration_seconds args) (sweep_config (sa_fault_config args))
       (sa_depth_levels args) (sa_queue_maxsize args) = Inr r0 \<Longrightarrow>
     stress_exec pa evs r0 = Some r \<Longrightarrow> run_one_end (expose n) n r = Some e \<Longrightarrow> (\<forall>x. e \<noteq> Measured x) \<Longrightarrow>
     sweep_runs pa expose seeds args d ((n, rate, dir) # plan) [] (Some e) (sr_disk (sx_sink r))"

text \<open>\<open>main_async\<close>: the report, or the end of the run that raised, with the results before it lost.\<close>

inductive main_async ::
  "'a arrays \<Rightarrow> (int \<Rightarrow> seconds list \<Rightarrow> exposed_sample list) \<Rightarrow> (nat \<Rightarrow> rng \<times> rng) \<Rightarrow> (string \<times> string) list \<Rightarrow> stress_args \<Rightarrow>
     'a disk \<Rightarrow> stress_end + json \<Rightarrow> 'a disk \<Rightarrow> bool"
  for pa expose seeds platform_info args where
  swept:
    "sweep_runs pa expose seeds args (clear_output (sa_output_dir args) d)
       (sweep_plan (sa_output_dir args) (sa_num_feeds args) (sa_rates args)) xs err d' \<Longrightarrow>
     main_async pa expose seeds platform_info args d
       (case err of None \<Rightarrow> Inr (stress_report platform_info args xs) | Some e \<Rightarrow> Inl e) d'"

section \<open>Which reports are JSON\<close>

text \<open>A value that \<open>json.dumps\<close> prints as JSON: infinities and the NaN become words that JSON does not have.\<close>

fun strict_json :: "json \<Rightarrow> bool" where
  "strict_json (JFloat x) = (\<exists>q. x = Finite q)"
| "strict_json (JList vs) = list_all strict_json vs"
| "strict_json (JDict d) = list_all (\<lambda>kv. strict_json (snd kv)) d"
| "strict_json _ = True"

section \<open>A run of the sweep\<close>

lemma stress_next_fixed: "stress_next pa ev r = Some r' \<Longrightarrow> sx_rate r' = sx_rate r \<and> sx_instrument r' = sx_instrument r"
  by (cases ev) (auto simp: drive_tick_def put_feed_def put_measured_def Let_def
      split: if_splits drive.splits stress_phase.splits prod.splits sum.splits)

lemma stress_exec_fixed: "stress_exec pa evs r = Some r' \<Longrightarrow> sx_rate r' = sx_rate r \<and> sx_instrument r' = sx_instrument r"
  by (induction evs arbitrary: r) (auto dest: stress_next_fixed split: option.splits)

lemma sweep_config_ok: "config_ok (sweep_config name)"
  by (simp add: sweep_config_def config_ok_def storm_fault_config_def default_fault_config_def)

section \<open>What an entry says of its run\<close>

text \<open>The faults of one kind that fired, or were shadowed, in all feeds.\<close>

definition fault_count :: "bool \<Rightarrow> fault_type \<Rightarrow> stress_feed list \<Rightarrow> nat" where
  "fault_count shadowed ft feeds =
     sum_list (map (\<lambda>f. length (filter (\<lambda>record. fr_type record = ft \<and> fr_shadowed record = shadowed)
       (fi_log (sd_injector (sf_driver f))))) feeds)"

lemma count_faults_filter:
  "count_faults counts records ft =
     (fst (counts ft) + length (filter (\<lambda>record. fr_type record = ft \<and> fr_shadowed record = False) records),
      snd (counts ft) + length (filter (\<lambda>record. fr_type record = ft \<and> fr_shadowed record = True) records))"
  by (induction records arbitrary: counts) (auto simp: Let_def split: prod.splits)

lemma fault_summary_counts:
  "fault_summary feeds =
     map (\<lambda>ft. (fault_value ft, [fault_count False ft feeds, fault_count True ft feeds])) fault_types"
proof -
  have "foldl add_faults (map (\<lambda>ft. (fault_value ft, [fired ft, shadowed ft])) fault_types) feeds =
      map (\<lambda>ft. (fault_value ft, [fired ft + fault_count False ft feeds, shadowed ft + fault_count True ft feeds])) fault_types"
    for fired shadowed
  proof (induction feeds arbitrary: fired shadowed)
    case (Cons f feeds)
    have "add_faults (map (\<lambda>ft. (fault_value ft, [fired ft, shadowed ft])) fault_types) f =
        map (\<lambda>ft. (fault_value ft, [fired ft + fault_count False ft [f], shadowed ft + fault_count True ft [f]])) fault_types"
      by (simp add: add_faults_def summarize_log_def count_faults_filter fault_count_def fault_types_def)
    with Cons.IH [of "\<lambda>ft. fired ft + fault_count False ft [f]" "\<lambda>ft. shadowed ft + fault_count True ft [f]"]
    show ?case by (simp add: fault_count_def add.assoc)
  qed (simp add: fault_count_def)
  from this [of "\<lambda>_. 0" "\<lambda>_. 0"] show ?thesis by (simp add: fault_summary_def)
qed

text \<open>
  What a reported quantile says of the latencies: it is infinite if fewer than its share were within 100 ms,
  the last bound, and otherwise lies in the bucket of the true quantile.
\<close>

definition quantile_near :: "rat list \<Rightarrow> rat \<Rightarrow> py_float \<Rightarrow> bool" where
  "quantile_near lats q v \<longleftrightarrow>
     (if of_nat (at_most lats (1 / 10)) < q * of_nat (length lats) then v = Infinite False
      else (\<exists>(a, b) \<in> set (neighbours processing_latency_buckets). \<exists>x. v = Finite x \<and> a \<le> x \<and> x \<le> b \<and>
        q * of_nat (length lats) \<le> of_nat (at_most lats b) \<and> (a = 0 \<or> of_nat (at_most lats a) < q * of_nat (length lats))))"

lemma estimate_near:
  assumes "lats \<noteq> []" and "0 < q" and "q \<le> 1"
  shows "quantile_near lats q (estimate lats q)"
proof (cases "of_nat (at_most lats (1 / 10)) < q * of_nat (length lats)")
  case True
  then have "too_slow (estimate lats q)" using too_slow_estimate [OF assms] by (simp add: latency_ceiling_def)
  moreover have "v \<le> latency_ceiling" if "(a, b) \<in> set (neighbours processing_latency_buckets)" "v \<le> b" for a b v
    using bucket_below_ceiling [OF that(1)] that(2) by linarith
  ultimately have "estimate lats q = Infinite False" using estimate_brackets [OF assms] by force
  with True show ?thesis by (simp add: quantile_near_def)
next
  case False
  with estimate_brackets [OF assms] show ?thesis by (auto simp: quantile_near_def latency_ceiling_def)
qed

text \<open>The run behind an entry, and the entry in terms of the run.\<close>

definition swept_run ::
  "'a arrays \<Rightarrow> (nat \<Rightarrow> rng \<times> rng) \<Rightarrow> stress_args \<Rightarrow> int \<Rightarrow> rat \<Rightarrow> 'a stress_run \<Rightarrow> bool" where
  "swept_run pa seeds args n rate r \<longleftrightarrow>
     (\<exists>clock d dir r0 evs.
        start_stress seeds clock d dir n rate (sa_duration_seconds args) (sweep_config (sa_fault_config args))
          (sa_depth_levels args) (sa_queue_maxsize args) = Inr r0 \<and>
        stress_exec pa evs r0 = Some r \<and> sr_end (sx_sink r) = Some Cancelled)"

definition true_entry :: "int \<Rightarrow> rat \<Rightarrow> 'a stress_run \<Rightarrow> json \<Rightarrow> bool" where
  "true_entry n rate r entry \<longleftrightarrow>
     (\<exists>elapsed achieved p50 p95 p99 p999.
        sx_phase r = Awaits_Sink elapsed \<and> elapsed \<noteq> 0 \<and> sx_latencies r \<noteq> [] \<and>
        achieved * elapsed = of_nat (sum_list (map drive_steps (sx_feeds r))) \<and>
        length (sx_latencies r) =
          rows_written (sr_sink (sx_sink r)) + rq_rows_dropped (run_queue r) + qsize (run_queue r) \<and>
        quantile_near (sx_latencies r) (1 / 2) p50 \<and> quantile_near (sx_latencies r) (95 / 100) p95 \<and>
        quantile_near (sx_latencies r) (99 / 100) p99 \<and> quantile_near (sx_latencies r) (999 / 1000) p999 \<and>
        entry = JDict
          [(''num_feeds'', JInt n), (''target_rate'', JFloat (Finite rate)), (''achieved_rate'', JFloat (Finite achieved)),
           (''duration_seconds'', JFloat (Finite elapsed)),
           (''rows_dropped'', JInt (int (rq_rows_dropped (run_queue r)))),
           (''max_queue_depth'', JInt (int (sx_max_depth r))),
           (''rows_written'', JInt (int (rows_written (sr_sink (sx_sink r))))),
           (''processing_latency_p50'', JFloat p50), (''processing_latency_p95'', JFloat p95),
           (''processing_latency_p99'', JFloat p99), (''processing_latency_p999'', JFloat p999),
           (''sample_count'', JInt (int (length (sx_latencies r)))),
           (''fault_summary'', JDict (map (\<lambda>ft. (fault_value ft,
              JList [JInt (int (fault_count False ft (sx_feeds r))), JInt (int (fault_count True ft (sx_feeds r)))])) fault_types)),
           (''recoveries'', JInt (int (sum_list (map (\<lambda>f. length (gaps (sf_driver f))) (sx_feeds r))))),
           (''breach'', JStr (if 0 < rq_rows_dropped (run_queue r) then ''rows_dropped''
              else if of_nat (at_most (sx_latencies r) (1 / 10)) < (99 / 100 :: rat) * of_nat (length (sx_latencies r))
                then ''p99_latency'' else ''''))])"

lemma measured_entry:
  assumes "start_stress seeds clock d dir n rate duration config depth maxsize = Inr r0" and "config_ok config"
    and "stress_exec pa evs r0 = Some r" and "run_one_end ex n r = Some (Measured x)"
    and "\<And>lats. exposes ''stress'' (symbol (stress_instrument n)) processing_latency_buckets lats (ex lats)"
  shows "sr_end (sx_sink r) = Some Cancelled" and "true_entry n rate r (result_json x)"
proof -
  obtain d0s where "stress_ok config maxsize d0s r0" by (rule start_stress_ok [OF assms(1,2)])
  note ok = stress_exec_ok [OF assms(3) this assms(2)]
  have r: "sx_rate r = rate" "sx_instrument r = stress_instrument n"
    using stress_exec_fixed [OF assms(3)] assms(1) by (auto simp: start_stress_def bind_result_def split: sum.splits)
  obtain elapsed where e: "sx_phase r = Awaits_Sink elapsed" "sr_end (sx_sink r) = Some Cancelled"
      "measure_run ex n elapsed r = Inr x" by (rule measured_end [OF assms(4)])
  have "exposes (exchange (sx_instrument r)) (symbol (sx_instrument r)) processing_latency_buckets
      (sx_latencies r) (ex (sx_latencies r))"
    using assms(5) [of "sx_latencies r"] by (simp add: r(2) stress_instrument_def)
  note x = measure_run_ok [OF e(3) this]
  note recoveries = run_feeds(2) [OF assms(1-3)] and steps = run_steps [OF assms(1,3) e(1)]
  note slow = too_slow_estimate [OF x(1), of "99 / 100", unfolded latency_ceiling_def]
  have near: "quantile_near (sx_latencies r) q (estimate (sx_latencies r) q)" if "0 < q" "q \<le> 1" for q
    by (rule estimate_near [OF x(1) that])
  show "sr_end (sx_sink r) = Some Cancelled" by (rule e(2))
  have faults: "map (\<lambda>(k, ns). (k, JList (map (\<lambda>n. JInt (int n)) ns))) (rr_fault_summary x) =
      map (\<lambda>ft. (fault_value ft,
        JList [JInt (int (fault_count False ft (sx_feeds r))), JInt (int (fault_count True ft (sx_feeds r)))])) fault_types"
    by (simp add: x(17) fault_summary_counts)
  have breach: "rr_breach x = (if 0 < rq_rows_dropped (run_queue r) then ''rows_dropped''
      else if of_nat (at_most (sx_latencies r) (1 / 10)) < (99 / 100 :: rat) * of_nat (length (sx_latencies r))
        then ''p99_latency'' else '''')"
    using slow by (simp add: x(4,7,11) breach_of_def)
  have rate: "rr_achieved_rate x * elapsed = of_nat (sum_list (map drive_steps (sx_feeds r)))"
    using x(2,10) steps by (simp del: drive_steps.simps)
  show "true_entry n rate r (result_json x)"
    unfolding true_entry_def
  proof (intro exI conjI)
    show "result_json x = JDict
      [(''num_feeds'', JInt n), (''target_rate'', JFloat (Finite rate)), (''achieved_rate'', JFloat (Finite (rr_achieved_rate x))),
       (''duration_seconds'', JFloat (Finite elapsed)),
       (''rows_dropped'', JInt (int (rq_rows_dropped (run_queue r)))),
       (''max_queue_depth'', JInt (int (sx_max_depth r))),
       (''rows_written'', JInt (int (rows_written (sr_sink (sx_sink r))))),
       (''processing_latency_p50'', JFloat (estimate (sx_latencies r) (1 / 2))),
       (''processing_latency_p95'', JFloat (estimate (sx_latencies r) (95 / 100))),
       (''processing_latency_p99'', JFloat (estimate (sx_latencies r) (99 / 100))),
       (''processing_latency_p999'', JFloat (estimate (sx_latencies r) (999 / 1000))),
       (''sample_count'', JInt (int (length (sx_latencies r)))),
       (''fault_summary'', JDict (map (\<lambda>ft. (fault_value ft,
          JList [JInt (int (fault_count False ft (sx_feeds r))), JInt (int (fault_count True ft (sx_feeds r)))])) fault_types)),
       (''recoveries'', JInt (int (sum_list (map (\<lambda>f. length (gaps (sf_driver f))) (sx_feeds r))))),
       (''breach'', JStr (if 0 < rq_rows_dropped (run_queue r) then ''rows_dropped''
          else if of_nat (at_most (sx_latencies r) (1 / 10)) < (99 / 100 :: rat) * of_nat (length (sx_latencies r))
            then ''p99_latency'' else ''''))]"
      by (simp only: result_json_def faults breach x(3-9) x(12-16) r(1) recoveries)
  qed (use e(1) x(1,2) rate traffic_end [OF ok e(1,2)] in \<open>simp_all add: near del: drive_steps.simps\<close>)
qed

text \<open>If one quantile of a run is infinite, so are the higher ones.\<close>

lemma near_form:
  "quantile_near lats q v \<Longrightarrow> (\<exists>x. v = Finite x) \<longleftrightarrow> q * of_nat (length lats) \<le> of_nat (at_most lats (1 / 10))"
  by (auto simp: quantile_near_def not_less split: if_splits)

lemma strict_entry:
  assumes "true_entry n rate r entry"
  shows "strict_json entry \<longleftrightarrow> (999 / 1000 :: rat) * of_nat (length (sx_latencies r)) \<le> of_nat (at_most (sx_latencies r) (1 / 10))"
    and "get_key entry ''breach'' = Inr (JStr ''p99_latency'') \<Longrightarrow> \<not> strict_json entry"
proof -
  obtain p50 p95 p99 p999 where q: "quantile_near (sx_latencies r) (1 / 2) p50" "quantile_near (sx_latencies r) (95 / 100) p95"
      "quantile_near (sx_latencies r) (99 / 100) p99" "quantile_near (sx_latencies r) (999 / 1000) p999"
    and entry: "strict_json entry \<longleftrightarrow> (\<exists>x. p50 = Finite x) \<and> (\<exists>x. p95 = Finite x) \<and> (\<exists>x. p99 = Finite x) \<and> (\<exists>x. p999 = Finite x)"
      "get_key entry ''breach'' = Inr (JStr ''p99_latency'') \<longrightarrow>
         of_nat (at_most (sx_latencies r) (1 / 10)) < (99 / 100 :: rat) * of_nat (length (sx_latencies r))"
    using assms by (auto simp: true_entry_def list_all_iff)
  note form = q [THEN near_form]
  show strict: "strict_json entry \<longleftrightarrow>
      (999 / 1000 :: rat) * of_nat (length (sx_latencies r)) \<le> of_nat (at_most (sx_latencies r) (1 / 10))"
    unfolding entry(1) form by linarith
  show "\<not> strict_json entry" if "get_key entry ''breach'' = Inr (JStr ''p99_latency'')"
    unfolding strict using entry(2) that by linarith
qed

lemma sweep_runs_true:
  assumes "sweep_runs pa expose seeds args d plan xs err d'" and "err = None"
    and "\<And>n lats. n \<in> fst ` set plan \<Longrightarrow>
      exposes ''stress'' (symbol (stress_instrument n)) processing_latency_buckets lats (expose n lats)"
  shows "\<exists>sweep. map snd sweep = map result_json xs \<and>
    list_all2 (\<lambda>(n, rate) (r, entry). swept_run pa seeds args n rate r \<and> true_entry n rate r entry)
      (map (\<lambda>(n, rate, dir). (n, rate)) plan) sweep"
  using assms
proof (induction rule: sweep_runs.induct)
  case (measured clock d dir n rate r0 evs r x plan xs err d')
  have ex: "exposes ''stress'' (symbol (stress_instrument n)) processing_latency_buckets lats (expose n lats)" for lats
    using measured.prems by simp
  note entry = measured_entry [OF measured.hyps(1) sweep_config_ok measured.hyps(2,3) ex]
  have "swept_run pa seeds args n rate r"
    using measured.hyps(1,2) entry(1) unfolding swept_run_def by blast
  moreover obtain sweep where "map snd sweep = map result_json xs"
      "list_all2 (\<lambda>(n, rate) (r, entry). swept_run pa seeds args n rate r \<and> true_entry n rate r entry)
        (map (\<lambda>(n, rate, dir). (n, rate)) plan) sweep"
    using measured.IH measured.prems by auto
  ultimately show ?case using entry(2) by (intro exI [of _ "(r, result_json x) # sweep"]) simp
qed auto

section \<open>Properties\<close>

lemma plan_pairs:
  "map (\<lambda>(n, rate, dir). (n, rate)) (sweep_plan out feed_counts rates) = List.product feed_counts rates"
  by (induction feed_counts) (simp_all add: sweep_plan_def comp_def)

text \<open>
  C40: the report of a sweep is true, field by field. It exists only if every run of the sweep was measured, carries the
  arguments, and has one entry for each number of feeds and each rate, in this order. Each entry belongs to a run started
  with the arguments and ended by the cancelled sink: its rate is the steps of the loops over the time taken,
  its counts of rows are those of the queue and the sink and, with the rows left in the queue, make up the samples; each
  of its four quantiles is near the true one; its faults are those the injectors logged, its recoveries the gaps
  seen, and its verdict the exact one. But the report is JSON only if in every run 999 in 1000 latencies were within
  100 ms: a sweep in which some run breaches the latency ceiling, which is what the tool looks for, writes
  a report that is not JSON. The hypothesis on the histogram is what \<open>prometheus_client\<close> documents of its samples.
\<close>

theorem stress_report_faithful:
  assumes "main_async pa expose seeds platform_info args d (Inr report) d'"
    and "\<forall>n \<in> set (sa_num_feeds args). \<forall>lats.
      exposes ''stress'' (symbol (stress_instrument n)) processing_latency_buckets lats (expose n lats)"
  shows "\<exists>sweep.
    report = JDict [(''run_metadata'', JDict (run_metadata platform_info args)), (''sweep'', JList (map snd sweep))] \<and>
    list_all2 (\<lambda>(n, rate) (r, entry). swept_run pa seeds args n rate r \<and> true_entry n rate r entry)
      (List.product (sa_num_feeds args) (sa_rates args)) sweep \<and>
    (strict_json report \<longleftrightarrow> (\<forall>(r, entry) \<in> set sweep.
       (999 / 1000 :: rat) * of_nat (length (sx_latencies r)) \<le> of_nat (at_most (sx_latencies r) (1 / 10)))) \<and>
    ((\<exists>(r, entry) \<in> set sweep. get_key entry ''breach'' = Inr (JStr ''p99_latency'')) \<longrightarrow> \<not> strict_json report)"
proof -
  let ?plan = "sweep_plan (sa_output_dir args) (sa_num_feeds args) (sa_rates args)"
  obtain xs where report: "report = stress_report platform_info args xs"
    and run: "sweep_runs pa expose seeds args (clear_output (sa_output_dir args) d) ?plan xs None d'"
    using assms(1) by cases (auto split: option.splits)
  have ex: "exposes ''stress'' (symbol (stress_instrument n)) processing_latency_buckets lats (expose n lats)"
    if "n \<in> fst ` set ?plan" for n lats
    using that assms(2) by (auto simp: sweep_plan_def)
  obtain sweep where entries: "map snd sweep = map result_json xs"
    and all: "list_all2 (\<lambda>(n, rate) (r, entry). swept_run pa seeds args n rate r \<and> true_entry n rate r entry)
      (List.product (sa_num_feeds args) (sa_rates args)) sweep"
    using sweep_runs_true [OF run refl ex] plan_pairs [of "sa_output_dir args" "sa_num_feeds args" "sa_rates args"] by auto
  have each: "\<exists>n rate. true_entry n rate r entry" if "(r, entry) \<in> set sweep" for r entry
    using that all unfolding list_all2_conv_all_nth in_set_conv_nth by fastforce
  have written: "report = JDict [(''run_metadata'', JDict (run_metadata platform_info args)), (''sweep'', JList (map snd sweep))]"
    by (simp add: report stress_report_def entries)
  have strict: "strict_json report \<longleftrightarrow> (\<forall>(r, entry) \<in> set sweep. strict_json entry)"
    by (auto simp: written run_metadata_def list_all_iff)
  have "strict_json report \<longleftrightarrow> (\<forall>(r, entry) \<in> set sweep.
      (999 / 1000 :: rat) * of_nat (length (sx_latencies r)) \<le> of_nat (at_most (sx_latencies r) (1 / 10)))"
    unfolding strict using each strict_entry(1) by (intro ball_cong refl) blast
  moreover have "\<not> strict_json report"
    if "(r, entry) \<in> set sweep" "get_key entry ''breach'' = Inr (JStr ''p99_latency'')" for r entry
    using each [OF that(1)] strict_entry(2) that unfolding strict by blast
  ultimately show ?thesis
    using written all by (intro exI [of _ sweep] conjI impI) auto
qed

definition demo_args :: stress_args where
  "demo_args = \<lparr>sa_rates = [10], sa_num_feeds = [1], sa_duration_seconds = 1, sa_fault_config = ''none'',
     sa_depth_levels = 20, sa_queue_maxsize = 5, sa_seed = 9001, sa_output_dir = [''out'']\<rparr>"

definition demo_exposing :: "int \<Rightarrow> rat list \<Rightarrow> exposed_sample list" where
  "demo_exposing n lats = (if lats = [] then [] else demo_expose lats)"

lemma stress_report_faithful_witness:
  "\<exists>(d' :: nat disk) (r :: nat stress_run) entry. main_async (\<lambda>_ _. Inr 0) demo_exposing (\<lambda>_. (\<lambda>_. 0, \<lambda>_. 0)) [] demo_args Map.empty
       (Inr (JDict [(''run_metadata'', JDict (run_metadata [] demo_args)), (''sweep'', JList [entry])])) d' \<and>
     swept_run (\<lambda>_ _. Inr 0) (\<lambda>_. (\<lambda>_. 0, \<lambda>_. 0)) demo_args 1 10 r \<and> true_entry 1 10 r entry"
proof -
  let ?plan = "sweep_plan (sa_output_dir demo_args) (sa_num_feeds demo_args) (sa_rates demo_args)"
  obtain dir where plan: "?plan = [(1, 10, dir)]" by (auto simp: sweep_plan_def demo_args_def)
  obtain r0 r :: "nat stress_run" and x where demo:
      "start_stress (\<lambda>_. (\<lambda>_. 0, \<lambda>_. 0)) (\<lambda>_. 0) Map.empty dir 1 10 1 default_fault_config 20 5 = Inr r0"
      "stress_exec (\<lambda>_ _. Inr 0) demo_stress_events r0 = Some r" "run_one_end demo_expose 1 r = Some (Measured x)"
      "length (sx_latencies r) = 1" by (rule demo_run_in)
  have "sx_latencies r \<noteq> []" using demo(4) by auto
  then have same: "measure_run (demo_exposing 1) 1 elapsed r = measure_run demo_expose 1 elapsed r" for elapsed
    by (simp add: measure_run_def demo_exposing_def)
  have "run_one_end (demo_exposing 1) 1 r = Some (Measured x)"
    using demo(3) unfolding run_one_end_def same .
  then have "sweep_runs (\<lambda>_ _. Inr 0) demo_exposing (\<lambda>_. (\<lambda>_. 0, \<lambda>_. 0)) demo_args Map.empty [(1, 10, dir)] [x] None (sr_disk (sx_sink r))"
    using demo(1) by (intro sweep_runs.measured [OF _ demo(2)] sweep_runs.finished) (simp_all add: demo_args_def sweep_config_def)
  then have run: "main_async (\<lambda>_ _. Inr 0) demo_exposing (\<lambda>_. (\<lambda>_. 0, \<lambda>_. 0)) [] demo_args Map.empty
      (Inr (stress_report [] demo_args [x])) (sr_disk (sx_sink r))"
    using swept [of "\<lambda>_ _. Inr 0" demo_exposing "\<lambda>_. (\<lambda>_. 0, \<lambda>_. 0)" demo_args Map.empty "[x]" None] plan
    by (simp add: clear_output_def)
  have "symbol (stress_instrument 1) = ''num_feeds_1''" by code_simp
  then have "exposes ''stress'' (symbol (stress_instrument 1)) processing_latency_buckets lats (demo_exposing 1 lats)" for lats
    using demo_exposes [of lats] by (auto simp: demo_exposing_def exposes_def)
  then have ex: "\<forall>n \<in> set (sa_num_feeds demo_args). \<forall>lats.
      exposes ''stress'' (symbol (stress_instrument n)) processing_latency_buckets lats (demo_exposing n lats)"
    by (simp add: demo_args_def)
  have plan: "List.product (sa_num_feeds demo_args) (sa_rates demo_args) = [(1, 10)]" by (simp add: demo_args_def)
  from stress_report_faithful [OF run ex, unfolded plan] obtain sweep where sweep:
      "stress_report [] demo_args [x] = JDict [(''run_metadata'', JDict (run_metadata [] demo_args)), (''sweep'', JList (map snd sweep))]"
      "list_all2 (\<lambda>(n, rate) (r, entry). swept_run (\<lambda>_ _. Inr (0 :: nat)) (\<lambda>_. (\<lambda>_. 0, \<lambda>_. 0)) demo_args n rate r \<and>
         true_entry n rate r entry) [(1, 10)] sweep" by (elim exE conjE)
  from sweep(2) obtain r entry where "sweep = [(r, entry)]"
      "swept_run (\<lambda>_ _. Inr (0 :: nat)) (\<lambda>_. (\<lambda>_. 0, \<lambda>_. 0)) demo_args 1 10 r" "true_entry 1 10 r entry"
    by (auto simp: list_all2_Cons1)
  with run [unfolded sweep(1)] show ?thesis by auto
qed

end
